(* ===== verification/Obsidian_Prelude.thy ===== *)
theory Obsidian_Prelude
  imports Main "HOL-Library.Word" "HOL-Library.Monad_Syntax"
begin

unbundle bit_operations_syntax

text \<open>
  Shared vocabulary of the development: bytes and machine words, the errors of the
  Go code as values, Go slicing and indexing with its panics, the big- and
  little-endian codecs of \<^verbatim>\<open>encoding/binary\<close>, and the random draws of
  \<^verbatim>\<open>math/rand/v2\<close> as explicit arguments.
\<close>

named_theorems codec_simps \<open>lengths and round trips of the byte codecs\<close>
named_theorems go_simps \<open>Go slicing, indexing and copying\<close>

section \<open>Types\<close>

type_synonym byte = "8 word"
type_synonym bytes = "byte list"
type_synonym u16 = "16 word"
type_synonym u32 = "32 word"
type_synonym u64 = "64 word"

text \<open>
  An error value of the Go code. \<open>Errorf s\<close> is \<^verbatim>\<open>fmt.Errorf\<close> or
  \<^verbatim>\<open>errors.New\<close> with the text of the source (format arguments dropped);
  the sentinels of package io have their own constructors; \<open>Panic\<close> is a run-time
  panic (index or slice out of range, a bad argument to a random draw).
\<close>

datatype go_error =
    Errorf string
  | ErrShortBuffer
  | ErrEOF
  | ErrUnexpectedEOF
  | ErrClosedPipe
  | ErrShortWrite
  | Panic

type_synonym 'a res = "go_error + 'a"

section \<open>Go slices\<close>

text \<open>\<open>subslice i j xs\<close> is \<^verbatim>\<open>xs[i:j]\<close> for indices in range.\<close>

definition subslice :: "nat \<Rightarrow> nat \<Rightarrow> 'a list \<Rightarrow> 'a list" where
  "subslice i j xs = take (j - i) (drop i xs)"

text \<open>The checked forms: \<open>None\<close> is the run-time panic.\<close>

definition gidx :: "'a list \<Rightarrow> nat \<Rightarrow> 'a option" where
  "gidx xs i = (if i < length xs then Some (xs ! i) else None)"

definition gslice :: "nat \<Rightarrow> nat \<Rightarrow> 'a list \<Rightarrow> 'a list option" where
  "gslice i j xs = (if i \<le> j \<and> j \<le> length xs then Some (subslice i j xs) else None)"

text \<open>\<^verbatim>\<open>copy(dst[i:], src)\<close>: overwrites as many elements as fit.\<close>

definition overwrite :: "nat \<Rightarrow> 'a list \<Rightarrow> 'a list \<Rightarrow> 'a list" where
  "overwrite i src dst =
     take i dst @ take (length dst - i) src @ drop (i + length src) dst"

lemma length_subslice [simp]: "length (subslice i j xs) = min (j - i) (length xs - i)"
  by (simp add: subslice_def min.commute)

lemma subslice_zero [go_simps]: "subslice 0 j xs = take j xs"
  by (simp add: subslice_def)

lemma subslice_full [simp]: "subslice 0 (length xs) xs = xs"
  by (simp add: subslice_def)

lemma subslice_append_left [go_simps]:
  "j \<le> length xs \<Longrightarrow> subslice i j (xs @ ys) = subslice i j xs"
  by (auto simp: subslice_def)

lemma subslice_append_right [go_simps]:
  "length xs \<le> i \<Longrightarrow> subslice i j (xs @ ys) = subslice (i - length xs) (j - length xs) ys"
  by (simp add: subslice_def)

lemma nth_subslice [simp]: "i + k < j \<Longrightarrow> i + k < length xs \<Longrightarrow> subslice i j xs ! k = xs ! (i + k)"
  by (simp add: subslice_def)

lemma gidx_Some [go_simps]: "i < length xs \<Longrightarrow> gidx xs i = Some (xs ! i)"
  by (simp add: gidx_def)

lemma gslice_Some [go_simps]: "i \<le> j \<Longrightarrow> j \<le> length xs \<Longrightarrow> gslice i j xs = Some (subslice i j xs)"
  by (simp add: gslice_def)

lemma length_overwrite [simp]: "i + length src \<le> length dst \<Longrightarrow> length (overwrite i src dst) = length dst"
  by (simp add: overwrite_def)

lemma take_overwrite [go_simps]: "k \<le> i \<Longrightarrow> i \<le> length dst \<Longrightarrow> take k (overwrite i src dst) = take k dst"
  by (simp add: overwrite_def)

lemma drop_overwrite [go_simps]:
  "i + length src \<le> k \<Longrightarrow> i + length src \<le> length dst \<Longrightarrow> drop k (overwrite i src dst) = drop k dst"
  by (simp add: overwrite_def)

lemma subslice_overwrite [go_simps]:
  "i + length src \<le> length dst \<Longrightarrow> subslice i (i + length src) (overwrite i src dst) = src"
  by (simp add: overwrite_def subslice_def)

lemma nth_overwrite:
  "i + length src \<le> length dst \<Longrightarrow> k < length dst \<Longrightarrow>
   overwrite i src dst ! k = (if i \<le> k \<and> k < i + length src then src ! (k - i) else dst ! k)"
  by (auto simp: overwrite_def nth_append min_def)

lemma split3: "i \<le> j \<Longrightarrow> j \<le> length xs \<Longrightarrow> xs = take i xs @ subslice i j xs @ drop j xs"
  by (metis append_take_drop_id drop_drop le_add_diff_inverse2 subslice_def add.commute)

text \<open>Sequencing of calls that may fail: \<^verbatim>\<open>if err != nil { return err }\<close>.\<close>

definition rbind :: "'a res \<Rightarrow> ('a \<Rightarrow> 'b res) \<Rightarrow> 'b res" where
  "rbind r k = (case r of Inl e \<Rightarrow> Inl e | Inr x \<Rightarrow> k x)"

lemma rbind_simps [simp]: "rbind (Inl e) k = Inl e" "rbind (Inr x) k = k x"
  by (simp_all add: rbind_def)

lemma rbind_Inr: "rbind r k = Inr y \<longleftrightarrow> (\<exists>x. r = Inr x \<and> k x = Inr y)"
  by (cases r) auto

text \<open>A slice expression, with its panic.\<close>

definition sl :: "nat \<Rightarrow> nat \<Rightarrow> bytes \<Rightarrow> bytes res" where
  "sl i j xs = (case gslice i j xs of None \<Rightarrow> Inl Panic | Some s \<Rightarrow> Inr s)"

lemma sl_Inr: "i \<le> j \<Longrightarrow> j \<le> length xs \<Longrightarrow> sl i j xs = Inr (subslice i j xs)"
  by (simp add: sl_def gslice_Some)

section \<open>Byte codecs\<close>

text \<open>\<^verbatim>\<open>binary.BigEndian\<close> and \<^verbatim>\<open>binary.LittleEndian\<close>.\<close>

definition be16 :: "u16 \<Rightarrow> bytes" where
  "be16 v = [ucast (drop_bit 8 v), ucast v]"

definition rd16 :: "bytes \<Rightarrow> u16" where
  "rd16 b = push_bit 8 (ucast (b ! 0)) OR ucast (b ! 1)"

definition be32 :: "u32 \<Rightarrow> bytes" where
  "be32 v = [ucast (drop_bit 24 v), ucast (drop_bit 16 v), ucast (drop_bit 8 v), ucast v]"

definition rd32 :: "bytes \<Rightarrow> u32" where
  "rd32 b = push_bit 24 (ucast (b ! 0)) OR push_bit 16 (ucast (b ! 1))
              OR push_bit 8 (ucast (b ! 2)) OR ucast (b ! 3)"

definition be64 :: "u64 \<Rightarrow> bytes" where
  "be64 v = [ucast (drop_bit 56 v), ucast (drop_bit 48 v), ucast (drop_bit 40 v),
             ucast (drop_bit 32 v), ucast (drop_bit 24 v), ucast (drop_bit 16 v),
             ucast (drop_bit 8 v), ucast v]"

definition rd64 :: "bytes \<Rightarrow> u64" where
  "rd64 b = push_bit 56 (ucast (b ! 0)) OR push_bit 48 (ucast (b ! 1))
              OR push_bit 40 (ucast (b ! 2)) OR push_bit 32 (ucast (b ! 3))
              OR push_bit 24 (ucast (b ! 4)) OR push_bit 16 (ucast (b ! 5))
              OR push_bit 8 (ucast (b ! 6)) OR ucast (b ! 7)"

definition le64 :: "u64 \<Rightarrow> bytes" where
  "le64 v = rev (be64 v)"

definition le32 :: "u32 \<Rightarrow> bytes" where
  "le32 v = rev (be32 v)"

text \<open>
  The contract of a fixed-width codec: the width, and that reading is the inverse of
  writing in both directions. What the packet formats rely on is proved once here.
\<close>

locale fixed_codec =
  fixes enc :: "'a \<Rightarrow> bytes"
    and dec :: "bytes \<Rightarrow> 'a"
    and width :: nat
  assumes width_enc: "length (enc x) = width"
    and dec_enc: "dec (enc x) = x"
    and enc_dec: "length b = width \<Longrightarrow> enc (dec b) = b"
    and dec_local: "length b = width \<Longrightarrow> dec (b @ r) = dec b"
begin

lemma enc_inject: "enc x = enc y \<longleftrightarrow> x = y"
  by (metis dec_enc)

lemma dec_prefix: "dec (enc x @ r) = x"
  by (simp add: dec_local width_enc dec_enc)

lemma dec_take: "dec (take width (enc x @ r)) = x"
  by (simp add: width_enc dec_enc)

lemma dec_at: "length p = i \<Longrightarrow> dec (subslice i (i + width) (p @ enc x @ r)) = x"
  by (simp add: subslice_def width_enc dec_enc)

lemma dec_inj: "length a = width \<Longrightarrow> length b = width \<Longrightarrow> dec a = dec b \<longleftrightarrow> a = b"
  by (metis enc_dec)

end

lemma list_len2: "length xs = 2 \<Longrightarrow> (\<And>x y. xs = [x, y] \<Longrightarrow> P) \<Longrightarrow> P"
  by (auto simp: numeral_2_eq_2 length_Suc_conv)

lemma list_len4: "length xs = 4 \<Longrightarrow> (\<And>w x y z. xs = [w, x, y, z] \<Longrightarrow> P) \<Longrightarrow> P"
  by (auto simp: eval_nat_numeral length_Suc_conv)

lemma list_len8:
  "length xs = 8 \<Longrightarrow> (\<And>s t u v w x y z. xs = [s, t, u, v, w, x, y, z] \<Longrightarrow> P) \<Longrightarrow> P"
  by (auto simp: eval_nat_numeral length_Suc_conv)

text \<open>A bit position of a word of several bytes is a byte index and an offset below 8.\<close>

lemma byte_pos: obtains q r where "n = 8 * q + r" and "r < (8::nat)"
  by (metis mod_less_divisor mult_div_mod_eq zero_less_numeral)

lemma bit_byte_ge [simp]: "8 \<le> k \<Longrightarrow> \<not> bit (b :: byte) k"
  by (auto dest: bit_imp_le_length)

lemma byte_bits_eqI: "(\<And>r. r < 8 \<Longrightarrow> bit a r = bit b r) \<Longrightarrow> a = (b :: byte)"
  by (rule bit_word_eqI) simp

lemmas byte_bit_iffs = bit_or_iff bit_push_bit_iff bit_ucast_iff bit_drop_bit_eq o_def

lemma rd16_be16: "rd16 (be16 x) = x"
proof (rule bit_word_eqI, goal_cases)
  case (1 n)
  obtain q r where qr: "n = 8 * q + r" "r < 8" by (rule byte_pos)
  with 1 have "q = 0 \<or> q = 1" by auto
  with qr show ?case
    unfolding rd16_def be16_def
    by (elim disjE; simp only: byte_bit_iffs) (simp_all add: bit_ucast_iff bit_drop_bit_eq)
qed

lemma rd32_be32: "rd32 (be32 x) = x"
proof (rule bit_word_eqI, goal_cases)
  case (1 n)
  obtain q r where qr: "n = 8 * q + r" "r < 8" by (rule byte_pos)
  with 1 have "q = 0 \<or> q = 1 \<or> q = 2 \<or> q = 3" by auto
  with qr show ?case
    unfolding rd32_def be32_def by (elim disjE; simp only: byte_bit_iffs) (simp_all add: bit_ucast_iff bit_drop_bit_eq)
qed

lemma rd64_be64: "rd64 (be64 x) = x"
proof (rule bit_word_eqI, goal_cases)
  case (1 n)
  obtain q r where qr: "n = 8 * q + r" "r < 8" by (rule byte_pos)
  with 1 have "q = 0 \<or> q = 1 \<or> q = 2 \<or> q = 3 \<or> q = 4 \<or> q = 5 \<or> q = 6 \<or> q = 7" by auto
  with qr show ?case
    unfolding rd64_def be64_def by (elim disjE; simp only: byte_bit_iffs) (simp_all add: bit_ucast_iff bit_drop_bit_eq)
qed

lemma be16_rd16: "length b = 2 \<Longrightarrow> be16 (rd16 b) = b"
proof (erule list_len2, hypsubst)
  show "be16 (rd16 [x, y]) = [x, y]" for x y
    unfolding be16_def rd16_def list.inject
    by (intro conjI refl; rule byte_bits_eqI; simp add: bit_simps)
qed

lemma be32_rd32: "length b = 4 \<Longrightarrow> be32 (rd32 b) = b"
proof (erule list_len4, hypsubst)
  show "be32 (rd32 [w, x, y, z]) = [w, x, y, z]" for w x y z
    unfolding be32_def rd32_def list.inject
    by (intro conjI refl; rule byte_bits_eqI; simp add: bit_simps)
qed

lemma be64_rd64: "length b = 8 \<Longrightarrow> be64 (rd64 b) = b"
proof (erule list_len8, hypsubst)
  show "be64 (rd64 [s, t, u, v, w, x, y, z]) = [s, t, u, v, w, x, y, z]" for s t u v w x y z
    unfolding be64_def rd64_def list.inject
    by (intro conjI refl; rule byte_bits_eqI; simp add: bit_simps)
qed

lemma length_be [simp]: "length (be16 v) = 2" "length (be32 w) = 4" "length (be64 x) = 8"
  by (simp_all add: be16_def be32_def be64_def)

lemma length_le [simp]: "length (le32 w) = 4" "length (le64 x) = 8"
  by (simp_all add: le32_def le64_def)

lemma rd16_local: "length b = 2 \<Longrightarrow> rd16 (b @ r) = rd16 b"
  unfolding rd16_def by (simp only: nth_append) simp

lemma rd32_local: "length b = 4 \<Longrightarrow> rd32 (b @ r) = rd32 b"
  unfolding rd32_def by (simp only: nth_append) simp

lemma rd64_local: "length b = 8 \<Longrightarrow> rd64 (b @ r) = rd64 b"
  unfolding rd64_def by (simp only: nth_append) simp

interpretation be16: fixed_codec be16 rd16 2
  by unfold_locales (simp_all only: length_be rd16_be16 be16_rd16 rd16_local)

interpretation be32: fixed_codec be32 rd32 4
  by unfold_locales (simp_all only: length_be rd32_be32 be32_rd32 rd32_local)

interpretation be64: fixed_codec be64 rd64 8
  by unfold_locales (simp_all only: length_be rd64_be64 be64_rd64 rd64_local)

lemmas codec_facts [codec_simps] =
  length_be length_le rd16_be16 rd32_be32 rd64_be64 be16.dec_prefix be32.dec_prefix be64.dec_prefix

section \<open>XOR masks, text and random draws\<close>

definition xor_bytes :: "bytes \<Rightarrow> bytes \<Rightarrow> bytes" where
  "xor_bytes xs ys = map2 (XOR) xs ys"

lemma length_xor_bytes [simp]: "length (xor_bytes xs ys) = min (length xs) (length ys)"
  by (simp add: xor_bytes_def)

lemma nth_xor_bytes [simp]:
  "i < length xs \<Longrightarrow> i < length ys \<Longrightarrow> xor_bytes xs ys ! i = xs ! i XOR ys ! i"
  by (simp add: xor_bytes_def)

lemma xor_bytes_twice [simp]: "length xs \<le> length ys \<Longrightarrow> xor_bytes (xor_bytes xs ys) ys = xs"
  by (rule nth_equalityI) (auto simp: xor.assoc)

lemma xor_bytes_inject:
  "length xs = length m \<Longrightarrow> length ys = length m \<Longrightarrow> xor_bytes m xs = xor_bytes m ys \<longleftrightarrow> xs = ys"
proof
  assume l: "length xs = length m" "length ys = length m" and e: "xor_bytes m xs = xor_bytes m ys"
  show "xs = ys"
  proof (rule nth_equalityI)
    fix i assume i: "i < length xs"
    have "m ! i XOR xs ! i = m ! i XOR ys ! i"
      using arg_cong [OF e, of "\<lambda>l. l ! i"] i l by simp
    then have "(m ! i XOR m ! i) XOR xs ! i = (m ! i XOR m ! i) XOR ys ! i"
      by (simp only: xor.assoc)
    then show "xs ! i = ys ! i" by simp
  qed (use l in simp)
qed simp

text \<open>The bytes of a Go string literal.\<close>

definition str :: "string \<Rightarrow> bytes" where
  "str s = map of_char s"

lemma length_str [simp]: "length (str s) = length s"
  by (simp add: str_def)

text \<open>\<^verbatim>\<open>net.IP.To4\<close>: the 4-byte form of an IPv4 or IPv4-mapped address.\<close>

definition To4 :: "bytes \<Rightarrow> bytes option" where
  "To4 ip =
     (if length ip = 4 then Some ip
      else if length ip = 16 \<and> take 10 ip = replicate 10 0 \<and> ip ! 10 = 255 \<and> ip ! 11 = 255
      then Some (drop 12 ip) else None)"

text \<open>
  A pseudo-random draw is an argument of the model. \<open>IntN\<close> and \<open>Uint32N\<close>
  reduce a raw draw to \<open>[0, n)\<close>, so every value the library may return is reached
  by some draw; both panic on a non-positive bound.
\<close>

definition IntN :: "nat \<Rightarrow> int \<Rightarrow> int option" where
  "IntN draw n = (if n \<le> 0 then None else Some (int draw mod n))"

definition Uint32N :: "u32 \<Rightarrow> u32 \<Rightarrow> u32 option" where
  "Uint32N draw n = (if n = 0 then None else Some (draw mod n))"

lemma IntN_Some: "IntN d n = Some v \<Longrightarrow> 0 \<le> v \<and> v < n"
  by (auto simp: IntN_def split: if_splits)

lemma IntN_defined: "0 < n \<Longrightarrow> \<exists>v. IntN d n = Some v"
  by (simp add: IntN_def)

lemma IntN_surj: "0 \<le> v \<Longrightarrow> v < n \<Longrightarrow> IntN (nat v) n = Some v"
  by (simp add: IntN_def)

lemma Uint32N_Some: "Uint32N d n = Some v \<Longrightarrow> v < n"
  by (auto simp: Uint32N_def word_gt_0 split: if_splits intro: word_mod_less_divisor)

section \<open>Words as numbers\<close>

lemma unat_bound: "unat (w :: 'a::len word) < 2 ^ LENGTH('a)"
  by (rule unsigned_less)

lemma unat_of_nat_small: "n < 2 ^ LENGTH('a::len) \<Longrightarrow> unat (of_nat n :: 'a word) = n"
  by (simp add: unsigned_of_nat take_bit_nat_eq_self)

lemma unat_add_small:
  "unat (a :: 'a::len word) + unat b < 2 ^ LENGTH('a) \<Longrightarrow> unat (a + b) = unat a + unat b"
  by (simp add: unat_word_ariths)

lemma unat_add_1:
  "unat (a :: 'a::len word) + 1 < 2 ^ LENGTH('a) \<Longrightarrow> unat (a + 1) = unat a + 1"
  using unat_add_small [of a 1] by (cases "LENGTH('a) = 0") auto

section \<open>Results\<close>

lemma res_cases: "(\<And>e. r = Inl e \<Longrightarrow> P) \<Longrightarrow> (\<And>x. r = Inr x \<Longrightarrow> P) \<Longrightarrow> P"
  by (cases r) auto

section \<open>Association lists\<close>

lemma map_of_filter_value:
  "distinct (map fst xs) \<Longrightarrow> map_of (filter (\<lambda>(k, v). Q v) xs) k = (case map_of xs k of None \<Rightarrow> None | Some v \<Rightarrow> if Q v then Some v else None)"
  by (induction xs) (auto simp: map_of_eq_None_iff image_iff split: option.splits)

lemma distinct_filter_keys: "distinct (map fst xs) \<Longrightarrow> distinct (map fst (filter Q xs))"
  by (induction xs) auto

section \<open>Timed calls\<close>

text \<open>
  A component that is called at given times with a key, answers yes or no and changes its
  state: the answers to a sequence of calls, and the state after it.
\<close>

fun answers :: "(int \<Rightarrow> 'k \<Rightarrow> 'c \<Rightarrow> bool \<times> 'c) \<Rightarrow> (int \<times> 'k) list \<Rightarrow> 'c \<Rightarrow> bool list" where
  "answers check [] c = []"
| "answers check ((now, k) # calls) c = (let (ans, c') = check now k c in ans # answers check calls c')"

fun after_calls :: "(int \<Rightarrow> 'k \<Rightarrow> 'c \<Rightarrow> bool \<times> 'c) \<Rightarrow> (int \<times> 'k) list \<Rightarrow> 'c \<Rightarrow> 'c" where
  "after_calls check [] c = c"
| "after_calls check ((now, k) # calls) c = after_calls check calls (snd (check now k c))"

lemma length_answers [simp]: "length (answers check calls c) = length calls"
  by (induction check calls c rule: answers.induct) (auto split: prod.splits)

lemma answers_append: "answers check (xs @ ys) c = answers check xs c @ answers check ys (after_calls check xs c)"
  by (induction check xs c rule: answers.induct) (auto split: prod.splits)

lemma sint_of_int_fits: "- (2 ^ 63) \<le> y \<Longrightarrow> y < 2 ^ 63 \<Longrightarrow> sint (of_int y :: u64) = y"
  by (simp add: signed_take_bit_int_eq_self sint_sbintrunc')

end
