(* ===== verification/Crypto_Core.thy ===== *)
theory Crypto_Core
  imports Obsidian_Prelude
begin

unbundle bit_operations_syntax

text \<open>
  \<^verbatim>\<open>obsidian/crypto.go\<close>. The primitives of \<^verbatim>\<open>golang.org/x/crypto\<close> and of the
  Go crypto packages (ChaCha20-Poly1305, ChaCha20, SHA-256, HKDF, X25519, ML-KEM-768, AES)
  are the fields of a record \<open>crypto_lib\<close> that every definition takes as an argument; the
  documented laws the code relies on are the predicates \<open>aead_ok\<close>, \<open>sha_ok\<close>,
  \<open>dh_ok\<close> and \<open>kem_ok\<close>. HMAC is defined from SHA-256. Fixed-size arrays are lists.
\<close>

section \<open>The primitives\<close>

record crypto_lib =
  aead_seal :: "bytes \<Rightarrow> bytes \<Rightarrow> bytes \<Rightarrow> bytes \<Rightarrow> bytes"        \<comment> \<open>key, nonce, plaintext, aad\<close>
  aead_open :: "bytes \<Rightarrow> bytes \<Rightarrow> bytes \<Rightarrow> bytes \<Rightarrow> bytes option" \<comment> \<open>key, nonce, ciphertext, aad\<close>
  chacha20 :: "bytes \<Rightarrow> bytes \<Rightarrow> nat \<Rightarrow> byte"                      \<comment> \<open>key, nonce: keystream byte\<close>
  sha256 :: "bytes \<Rightarrow> bytes"
  hkdf_extract :: "bytes \<Rightarrow> bytes \<Rightarrow> bytes"                       \<comment> \<open>secret, salt\<close>
  hkdf :: "bytes \<Rightarrow> bytes \<Rightarrow> bytes \<Rightarrow> nat \<Rightarrow> byte"                 \<comment> \<open>secret, salt, info: output byte\<close>
  x25519 :: "bytes \<Rightarrow> bytes \<Rightarrow> bytes option"                      \<comment> \<open>scalar, point\<close>
  mlkem_pub :: "bytes \<Rightarrow> bytes"                                  \<comment> \<open>decapsulation key\<close>
  mlkem_encap :: "bytes \<Rightarrow> bytes \<Rightarrow> (bytes \<times> bytes) option"        \<comment> \<open>encapsulation key, randomness\<close>
  mlkem_decap :: "bytes \<Rightarrow> bytes \<Rightarrow> bytes option"                 \<comment> \<open>decapsulation key, ciphertext\<close>
  aes_block :: "bytes \<Rightarrow> bytes \<Rightarrow> bytes"                          \<comment> \<open>key, block\<close>

definition KeySize :: nat where "KeySize = 32"
definition NonceSize :: nat where "NonceSize = 12"
definition TagSize :: nat where "TagSize = 16"
definition SessionIDSize :: nat where "SessionIDSize = 16"
definition MLKEM768EncapsulationKeySize :: nat where "MLKEM768EncapsulationKeySize = 1184"
definition MLKEM768CiphertextSize :: nat where "MLKEM768CiphertextSize = 1088"
definition CookieSize :: nat where "CookieSize = 32"

lemmas size_defs [simp] = KeySize_def NonceSize_def TagSize_def SessionIDSize_def
  MLKEM768EncapsulationKeySize_def MLKEM768CiphertextSize_def CookieSize_def

definition Basepoint :: bytes where "Basepoint = 9 # replicate 31 0"

text \<open>Documented behaviour of the primitives.\<close>

definition aead_ok :: "crypto_lib \<Rightarrow> bool" where
  "aead_ok P \<longleftrightarrow>
     (\<forall>k n p a. length (aead_seal P k n p a) = length p + 16) \<and>
     (\<forall>k n p a. aead_open P k n (aead_seal P k n p a) a = Some p) \<and>
     (\<forall>k n c a p. aead_open P k n c a = Some p \<longrightarrow> length c = length p + 16)"

definition sha_ok :: "crypto_lib \<Rightarrow> bool" where
  "sha_ok P \<longleftrightarrow> (\<forall>x. length (sha256 P x) = 32)"

definition dh_ok :: "crypto_lib \<Rightarrow> bool" where
  "dh_ok P \<longleftrightarrow>
     (\<forall>a p q. x25519 P a p = Some q \<longrightarrow> length q = 32) \<and>
     (\<forall>a b pa pb. x25519 P a Basepoint = Some pa \<longrightarrow> x25519 P b Basepoint = Some pb \<longrightarrow>
        x25519 P a pb = x25519 P b pa)"

definition kem_ok :: "crypto_lib \<Rightarrow> bool" where
  "kem_ok P \<longleftrightarrow>
     (\<forall>d. length (mlkem_pub P d) = 1184) \<and>
     (\<forall>d r. \<exists>ss ct. mlkem_encap P (mlkem_pub P d) r = Some (ss, ct) \<and> length ct = 1088 \<and>
        mlkem_decap P d ct = Some ss)"

lemma aead_okD:
  assumes "aead_ok P"
  shows "length (aead_seal P k n p a) = length p + 16"
    and "aead_open P k n (aead_seal P k n p a) a = Some p"
    and "aead_open P k n c a = Some q \<Longrightarrow> length c = length q + 16"
  using assms by (auto simp: aead_ok_def)

lemma sha_okD: "sha_ok P \<Longrightarrow> length (sha256 P x) = 32"
  by (simp add: sha_ok_def)

lemma kem_okE:
  assumes "kem_ok P"
  obtains ss ct where "mlkem_encap P (mlkem_pub P d) r = Some (ss, ct)" "length ct = 1088"
    "mlkem_decap P d ct = Some ss"
  using assms unfolding kem_ok_def by metis

section \<open>Key generation\<close>

record Keypair =
  Private :: bytes
  Public :: bytes

definition clamp :: "bytes \<Rightarrow> bytes" where
  "clamp k = (let k1 = k[0 := k ! 0 AND 248]; k2 = k1[31 := k1 ! 31 AND 127]
              in k2[31 := k2 ! 31 OR 64])"

definition KeypairFromPrivate :: "crypto_lib \<Rightarrow> bytes \<Rightarrow> Keypair res" where
  "KeypairFromPrivate P private =
     (let priv = clamp private
      in case x25519 P priv Basepoint of
           None \<Rightarrow> Inl (Errorf ''X25519'')
         | Some pub \<Rightarrow> Inr \<lparr>Private = priv, Public = pub\<rparr>)"

text \<open>\<open>rnd\<close> is what \<^verbatim>\<open>io.ReadFull(rand.Reader, ..)\<close> read.\<close>

definition GenerateKeypair :: "crypto_lib \<Rightarrow> bytes \<Rightarrow> Keypair res" where
  "GenerateKeypair P rnd =
     (let priv = clamp rnd
      in case x25519 P priv Basepoint of
           None \<Rightarrow> Inl (Errorf ''X25519'')
         | Some pub \<Rightarrow> Inr \<lparr>Private = priv, Public = pub\<rparr>)"

definition Keypair_Zero :: "Keypair \<Rightarrow> Keypair" where
  "Keypair_Zero kp = \<lparr>Private = map (\<lambda>_. 0) (Private kp), Public = map (\<lambda>_. 0) (Public kp)\<rparr>"

record MLKEMKeypair =
  DecapsulationKey :: bytes
  EncapsulationKey :: bytes

definition GenerateMLKEMKeypair :: "crypto_lib \<Rightarrow> bytes \<Rightarrow> MLKEMKeypair" where
  "GenerateMLKEMKeypair P seed = \<lparr>DecapsulationKey = seed, EncapsulationKey = mlkem_pub P seed\<rparr>"

definition EncapsulateMLKEM :: "crypto_lib \<Rightarrow> bytes \<Rightarrow> bytes \<Rightarrow> (bytes \<times> bytes) res" where
  "EncapsulateMLKEM P rnd encKeyBytes =
     (if length encKeyBytes \<noteq> MLKEM768EncapsulationKeySize
      then Inl (Errorf ''invalid ml-kem encapsulation key size'')
      else case mlkem_encap P encKeyBytes rnd of
             None \<Rightarrow> Inl (Errorf ''parse ml-kem encapsulation key'')
           | Some r \<Rightarrow> Inr r)"

definition DecapsulateMLKEM :: "crypto_lib \<Rightarrow> bytes option \<Rightarrow> bytes \<Rightarrow> bytes res" where
  "DecapsulateMLKEM P dk ciphertext =
     (case dk of
        None \<Rightarrow> Inl (Errorf ''nil ml-kem decapsulation key'')
      | Some d \<Rightarrow>
          if length ciphertext \<noteq> MLKEM768CiphertextSize
          then Inl (Errorf ''invalid ml-kem ciphertext size'')
          else case mlkem_decap P d ciphertext of
                 None \<Rightarrow> Inl (Errorf ''decapsulate'')
               | Some s \<Rightarrow> Inr s)"

definition DeriveHybridSecret :: "crypto_lib \<Rightarrow> bytes \<Rightarrow> bytes \<Rightarrow> bytes \<Rightarrow> bytes" where
  "DeriveHybridSecret P ssX25519 ssMLKEM salt =
     (let ikm = ssX25519 @ ssMLKEM;
          salt' = (if length salt = 0 then str ''obsidian_hybrid_x25519_mlkem768_v1'' else salt)
      in overwrite 0 (hkdf_extract P ikm salt') (replicate KeySize 0))"

definition DH :: "crypto_lib \<Rightarrow> bytes \<Rightarrow> bytes \<Rightarrow> bytes res" where
  "DH P priv peerPub =
     (case x25519 P priv peerPub of
        None \<Rightarrow> Inl (Errorf ''X25519'')
      | Some shared \<Rightarrow> Inr shared)"

definition ConstantTimeEqual :: "bytes \<Rightarrow> bytes \<Rightarrow> bool" where
  "ConstantTimeEqual a b \<longleftrightarrow> a = b"

definition DHSafe :: "crypto_lib \<Rightarrow> bytes \<Rightarrow> bytes \<Rightarrow> bytes res" where
  "DHSafe P priv peerPub =
     (case DH P priv peerPub of
        Inl e \<Rightarrow> Inl e
      | Inr shared \<Rightarrow>
          if ConstantTimeEqual shared (replicate KeySize 0)
          then Inl (Errorf ''DH produced all-zero shared secret (possible attack)'')
          else Inr shared)"

section \<open>Key schedule\<close>

record SessionKeys =
  ClientKey :: bytes
  ServerKey :: bytes
  ClientIV :: bytes
  ServerIV :: bytes
  SessionID :: bytes
  DynamicMagic :: bytes

definition SessionKeys_Zero :: "SessionKeys \<Rightarrow> SessionKeys" where
  "SessionKeys_Zero sk =
     \<lparr>ClientKey = map (\<lambda>_. 0) (ClientKey sk), ServerKey = map (\<lambda>_. 0) (ServerKey sk),
      ClientIV = map (\<lambda>_. 0) (ClientIV sk), ServerIV = map (\<lambda>_. 0) (ServerIV sk),
      SessionID = map (\<lambda>_. 0) (SessionID sk), DynamicMagic = map (\<lambda>_. 0) (DynamicMagic sk)\<rparr>"

text \<open>Reading \<open>n\<close> bytes of an HKDF stream from position \<open>off\<close>.\<close>

definition hkdf_read :: "crypto_lib \<Rightarrow> bytes \<Rightarrow> bytes \<Rightarrow> bytes \<Rightarrow> nat \<Rightarrow> nat \<Rightarrow> bytes" where
  "hkdf_read P secret salt info off n = map (hkdf P secret salt info) [off..<off + n]"

lemma length_hkdf_read [simp]: "length (hkdf_read P s t i off n) = n"
  by (simp add: hkdf_read_def)

definition split_keys :: "bytes \<Rightarrow> SessionKeys" where
  "split_keys buf =
     \<lparr>ClientKey = subslice 0 32 buf, ServerKey = subslice 32 64 buf,
      ClientIV = subslice 64 76 buf, ServerIV = subslice 76 88 buf,
      SessionID = subslice 88 104 buf, DynamicMagic = subslice 104 120 buf\<rparr>"

definition DeriveKeys :: "crypto_lib \<Rightarrow> bytes \<Rightarrow> bytes \<Rightarrow> bytes \<Rightarrow> bytes \<Rightarrow> SessionKeys" where
  "DeriveKeys P sharedSecret salt clientPub serverPub =
     (let info = str ''obsidian_v2'' @ clientPub @ serverPub
      in split_keys (hkdf_read P sharedSecret salt info 0 120))"

definition DeriveTCPHeaderKeys :: "crypto_lib \<Rightarrow> SessionKeys \<Rightarrow> bytes \<times> bytes" where
  "DeriveTCPHeaderKeys P sk =
     (let combined = ClientKey sk @ ServerKey sk;
          rd = hkdf_read P combined (SessionID sk) (str ''obsidian_tcp_header_v2'')
      in (rd 0 32, rd 32 32))"

definition DeriveNextEpochKeys :: "crypto_lib \<Rightarrow> SessionKeys option \<Rightarrow> u64 \<Rightarrow> SessionKeys res" where
  "DeriveNextEpochKeys P currentKeys epoch =
     (case currentKeys of
        None \<Rightarrow> Inl (Errorf ''nil session keys'')
      | Some k \<Rightarrow>
          let ikm = ClientKey k @ ServerKey k @ SessionID k;
              salt = be64 epoch @ SessionID k
          in Inr (split_keys (hkdf_read P ikm salt (str ''obsidian_epoch_ratchet_v2'') 0 120)))"

definition keys_wf :: "SessionKeys \<Rightarrow> bool" where
  "keys_wf k \<longleftrightarrow> length (ClientKey k) = 32 \<and> length (ServerKey k) = 32 \<and>
     length (ClientIV k) = 12 \<and> length (ServerIV k) = 12 \<and>
     length (SessionID k) = 16 \<and> length (DynamicMagic k) = 16"

lemma split_keys_wf: "length buf = 120 \<Longrightarrow> keys_wf (split_keys buf)"
  by (simp add: keys_wf_def split_keys_def)

lemma DeriveKeys_wf: "keys_wf (DeriveKeys P s t c v)"
  by (simp add: DeriveKeys_def Let_def split_keys_wf)

section \<open>AEAD with a counter nonce\<close>

record Cipher =
  cipherKey :: bytes
  baseIV :: bytes
  counter :: u64

definition NewCipher :: "bytes \<Rightarrow> bytes \<Rightarrow> Cipher" where
  "NewCipher key iv = \<lparr>cipherKey = key, baseIV = iv, counter = 0\<rparr>"

definition nonce :: "Cipher \<Rightarrow> bytes \<times> Cipher" where
  "nonce c =
     (let ctr = counter c
      in (xor_bytes (take 8 (baseIV c)) (le64 ctr) @ drop 8 (baseIV c), c\<lparr>counter := ctr + 1\<rparr>))"

definition Encrypt :: "crypto_lib \<Rightarrow> Cipher \<Rightarrow> bytes \<Rightarrow> bytes \<Rightarrow> bytes \<times> Cipher" where
  "Encrypt P c plaintext aad =
     (let (n, c') = nonce c in (aead_seal P (cipherKey c) n plaintext aad, c'))"

definition Decrypt :: "crypto_lib \<Rightarrow> Cipher \<Rightarrow> bytes \<Rightarrow> bytes \<Rightarrow> bytes option \<times> Cipher" where
  "Decrypt P c ciphertext aad =
     (let (n, c') = nonce c in (aead_open P (cipherKey c) n ciphertext aad, c'))"

lemma snd_nonce [simp]: "snd (nonce c) = c\<lparr>counter := counter c + 1\<rparr>"
  by (simp add: nonce_def Let_def)

lemma snd_Encrypt [simp]: "snd (Encrypt P c p a) = c\<lparr>counter := counter c + 1\<rparr>"
  by (simp add: Encrypt_def nonce_def Let_def)

lemma snd_Decrypt [simp]: "snd (Decrypt P c p a) = c\<lparr>counter := counter c + 1\<rparr>"
  by (simp add: Decrypt_def nonce_def Let_def)

lemma Decrypt_Encrypt: "aead_ok P \<Longrightarrow> fst (Decrypt P c (fst (Encrypt P c p a)) a) = Some p"
  by (simp add: Decrypt_def Encrypt_def split_beta aead_okD)

lemma length_Encrypt: "aead_ok P \<Longrightarrow> length (fst (Encrypt P c p a)) = length p + 16"
  by (simp add: Encrypt_def split_beta aead_okD)

fun nonce_seq :: "nat \<Rightarrow> Cipher \<Rightarrow> bytes list" where
  "nonce_seq 0 c = []"
| "nonce_seq (Suc n) c = fst (nonce c) # nonce_seq n (snd (nonce c))"

lemma le64_inject [simp]: "le64 x = le64 y \<longleftrightarrow> x = y"
  by (simp add: le64_def be64.enc_inject)

lemma nonce_inject:
  assumes "length (baseIV c) = 12"
  shows "fst (nonce (c\<lparr>counter := x\<rparr>)) = fst (nonce (c\<lparr>counter := y\<rparr>)) \<longleftrightarrow> x = y"
  using assms by (auto simp: nonce_def Let_def xor_bytes_inject)

lemma nonce_seq_eq:
  "nonce_seq n c = map (\<lambda>i. fst (nonce (c\<lparr>counter := counter c + of_nat i\<rparr>))) [0..<n]"
proof (induction n arbitrary: c)
  case (Suc n)
  have "nonce_seq n (snd (nonce c)) =
      map (\<lambda>i. fst (nonce (c\<lparr>counter := counter c + of_nat (Suc i)\<rparr>))) [0..<n]"
    by (simp add: Suc.IH add.assoc)
  also have "\<dots> = map (\<lambda>i. fst (nonce (c\<lparr>counter := counter c + of_nat i\<rparr>))) [Suc 0..<Suc n]"
    by (simp only: map_Suc_upt [symmetric] map_map o_def)
  finally show ?case by (simp add: upt_conv_Cons del: upt_Suc)
qed simp

lemma of_nat_u64_inj: "i < 2 ^ 64 \<Longrightarrow> j < 2 ^ 64 \<Longrightarrow> (of_nat i :: u64) = of_nat j \<longleftrightarrow> i = j"
  by (simp add: word_of_nat_eq_iff take_bit_nat_eq_self)

section \<open>HMAC\<close>

text \<open>\<^verbatim>\<open>crypto/hmac\<close> over SHA-256 (RFC 2104): the key is hashed when longer than a
  block and padded with zeros to 64 bytes.\<close>

definition HmacSHA256 :: "crypto_lib \<Rightarrow> bytes \<Rightarrow> bytes \<Rightarrow> bytes" where
  "HmacSHA256 P key msg =
     (let key' = (if length key > 64 then sha256 P key else key);
          pad = key' @ replicate (64 - length key') 0;
          inner = sha256 P (map (\<lambda>b. b XOR 54) pad @ msg)
      in sha256 P (map (\<lambda>b. b XOR 92) pad @ inner))"

lemma length_HmacSHA256 [simp]: "sha_ok P \<Longrightarrow> length (HmacSHA256 P k m) = 32"
  by (simp add: HmacSHA256_def Let_def sha_okD)

definition DeriveRouteTag :: "crypto_lib \<Rightarrow> bytes \<Rightarrow> u64 \<Rightarrow> bytes" where
  "DeriveRouteTag P sessionID epoch =
     take 4 (HmacSHA256 P sessionID (str ''obsidian_routetag_v2'' @ be64 epoch))"

definition DeriveHoppingPort :: "crypto_lib \<Rightarrow> bytes \<Rightarrow> u64 \<Rightarrow> int list \<Rightarrow> int res" where
  "DeriveHoppingPort P sessionID epoch pool =
     (if length pool = 0 then Inl (Errorf ''empty port pool'')
      else if length pool = 1 then Inr (pool ! 0)
      else
        let mac = HmacSHA256 P sessionID (str ''obsidian_port_hop_v1'' @ be64 epoch);
            val = rd32 (take 4 mac);
            idx = unat (val mod of_nat (length pool))
        in Inr (pool ! idx))"

section \<open>Stateless cookies\<close>

definition cookie_ip :: "bytes \<Rightarrow> bytes" where
  "cookie_ip clientIP = (case To4 clientIP of Some v4 \<Rightarrow> v4 | None \<Rightarrow> clientIP)"

definition GenerateHandshakeCookie ::
    "crypto_lib \<Rightarrow> bytes \<Rightarrow> bytes \<Rightarrow> bytes \<Rightarrow> bytes \<Rightarrow> u64 \<Rightarrow> bytes" where
  "GenerateHandshakeCookie P secret clientIP clientEphPub salt ts =
     (let tsBytes = be64 ts;
          input = cookie_ip clientIP @ clientEphPub @ salt @ tsBytes;
          mac = HmacSHA256 P secret input
      in tsBytes @ take 24 mac)"

text \<open>
  \<open>maxAge\<close> is a \<^verbatim>\<open>time.Duration\<close> in nanoseconds; \<open>now\<close> and the embedded
  time stamp are \<open>int64\<close> seconds whose differences wrap around.
\<close>

definition cookie_fresh :: "u64 \<Rightarrow> u64 \<Rightarrow> int \<Rightarrow> bool" where
  "cookie_fresh now tsSec maxAge \<longleftrightarrow>
     \<not> (sint (now + 15) < sint tsSec \<or> maxAge div 1000000000 < sint (now - tsSec))"

definition ValidateHandshakeCookie ::
    "crypto_lib \<Rightarrow> u64 \<Rightarrow> bytes \<Rightarrow> bytes \<Rightarrow> bytes \<Rightarrow> bytes \<Rightarrow> bytes \<Rightarrow> int \<Rightarrow> bool" where
  "ValidateHandshakeCookie P now cookie secret clientIP clientEphPub salt maxAge =
     (if length cookie \<noteq> CookieSize \<or> length secret = 0 then False
      else
        let maxAge' = (if maxAge \<le> 0 then 30 * 1000000000 else maxAge);
            tsSec = rd64 (take 8 cookie)
        in if \<not> cookie_fresh now tsSec maxAge' then False
           else
             let input = cookie_ip clientIP @ clientEphPub @ salt @ take 8 cookie;
                 expectedMAC = HmacSHA256 P secret input
             in drop 8 cookie = take 24 expectedMAC)"

section \<open>Random fill\<close>

text \<open>\<open>rng i\<close> is the value of the \<open>i\<close>-th call of \<^verbatim>\<open>randv2.Uint64\<close>.\<close>

fun FastRandomBytes :: "(nat \<Rightarrow> u64) \<Rightarrow> nat \<Rightarrow> nat \<Rightarrow> bytes" where
  "FastRandomBytes rng i n =
     (if 8 \<le> n then le64 (rng i) @ FastRandomBytes rng (Suc i) (n - 8)
      else take n (le64 (rng i)))"

declare FastRandomBytes.simps [simp del]

lemma length_FastRandomBytes [simp]: "length (FastRandomBytes rng i n) = n"
proof (induction rng i n rule: FastRandomBytes.induct)
  case (1 rng i n)
  then show ?case by (subst FastRandomBytes.simps) auto
qed

text \<open>
  \<open>RandomBytes rnd off n\<close> is the next \<open>n\<close> bytes of the system's random stream \<open>rnd\<close> when
  \<open>off\<close> bytes have been taken; a negative size panics in \<^verbatim>\<open>make\<close>.
\<close>

definition RandomBytes :: "(nat \<Rightarrow> byte) \<Rightarrow> nat \<Rightarrow> int \<Rightarrow> bytes res" where
  "RandomBytes rnd off n = (if n < 0 then Inl Panic else Inr (map rnd [off..<off + nat n]))"

lemma RandomBytes_Inr: "RandomBytes rnd off n = Inr b \<Longrightarrow> 0 \<le> n \<and> length b = nat n"
  by (auto simp: RandomBytes_def split: if_splits)

text \<open>\<open>len\<close> is the length of the buffer; the result is the filled prefix, \<open>None\<close> the
  panic of \<^verbatim>\<open>dst[:size]\<close> with a negative size.\<close>

definition FastRandomPaddingInplace ::
    "nat \<Rightarrow> (nat \<Rightarrow> u64) \<Rightarrow> nat \<Rightarrow> int \<Rightarrow> int \<Rightarrow> bytes option" where
  "FastRandomPaddingInplace draw rng len mn mx =
     (if mx \<le> mn then
        let m = (if mn > int len then int len else mn)
        in if m < 0 then None else Some (FastRandomBytes rng 0 (nat m))
      else
        case IntN draw (mx - mn) of
          None \<Rightarrow> None
        | Some v \<Rightarrow>
            let size = mn + v; size' = (if size > int len then int len else size)
            in if size' < 0 then None else Some (FastRandomBytes rng 0 (nat size')))"

definition RandomPadding :: "nat \<Rightarrow> (nat \<Rightarrow> u64) \<Rightarrow> int \<Rightarrow> int \<Rightarrow> bytes res" where
  "RandomPadding draw rng mn mx =
     (if mx \<le> mn then (if mn < 0 then Inl Panic else Inr (FastRandomBytes rng 0 (nat mn)))
      else
        case IntN draw (mx - mn) of
          None \<Rightarrow> Inl Panic
        | Some v \<Rightarrow>
            let size = mn + v
            in if size < 0 then Inl Panic else Inr (FastRandomBytes rng 0 (nat size)))"

lemma FastRandomPaddingInplace_bound:
  "FastRandomPaddingInplace d rng len mn mx = Some pad \<Longrightarrow> length pad \<le> len"
  by (auto simp: FastRandomPaddingInplace_def Let_def split: if_splits option.splits)

lemma FastRandomPaddingInplace_defined:
  "0 \<le> mn \<Longrightarrow> \<exists>pad. FastRandomPaddingInplace d rng len mn mx = Some pad"
  using IntN_defined [of "mx - mn" d] IntN_Some [of d "mx - mn"]
  by (cases "mx \<le> mn") (auto simp: FastRandomPaddingInplace_def Let_def)

lemma FastRandomPaddingInplace_exact:
  "0 \<le> n \<Longrightarrow> n \<le> int len \<Longrightarrow>
   FastRandomPaddingInplace d rng len n n = Some (FastRandomBytes rng 0 (nat n))"
  by (simp add: FastRandomPaddingInplace_def Let_def)

lemma RandomPadding_range:
  "0 \<le> mn \<Longrightarrow> mn < mx \<Longrightarrow> \<exists>b. RandomPadding d rng mn mx = Inr b \<and> mn \<le> int (length b) \<and> int (length b) < mx"
  using IntN_defined [of "mx - mn" d] IntN_Some [of d "mx - mn"]
  by (auto simp: RandomPadding_def Let_def)

section \<open>A concrete instance of the primitives\<close>

text \<open>Used only to show that the laws above can hold together.\<close>

definition toy_lib :: crypto_lib where
  "toy_lib =
     \<lparr>aead_seal = \<lambda>k n p a. p @ replicate 16 0,
      aead_open = \<lambda>k n c a. if length c < 16 then None else Some (take (length c - 16) c),
      chacha20 = \<lambda>k n i. of_nat i,
      sha256 = \<lambda>x. take 32 (x @ replicate 32 0),
      hkdf_extract = \<lambda>s t. take 32 (s @ replicate 32 0),
      hkdf = \<lambda>s t i n. of_nat n,
      x25519 = \<lambda>a p. Some (map (\<lambda>i. (if i < length a then a ! i else 0) + (if i < length p then p ! i else 0)) [0..<32]),
      mlkem_pub = \<lambda>d. replicate 1184 1,
      mlkem_encap = \<lambda>e r. Some (replicate 32 7, replicate 1088 2),
      mlkem_decap = \<lambda>d c. Some (replicate 32 7),
      aes_block = \<lambda>k b. replicate 16 3\<rparr>"

lemma toy_aead_ok: "aead_ok toy_lib"
  by (auto simp: aead_ok_def toy_lib_def split: if_splits)

lemma toy_sha_ok: "sha_ok toy_lib"
  by (simp add: sha_ok_def toy_lib_def min_def)

lemma toy_dh_ok: "dh_ok toy_lib"
  by (auto simp: dh_ok_def toy_lib_def ac_simps)

lemma toy_kem_ok: "kem_ok toy_lib"
  by (simp add: kem_ok_def toy_lib_def)

section \<open>Properties\<close>

text \<open>
  Property C11. A cipher never reuses a nonce: the nonces of its first \<open>n\<close> operations are
  pairwise distinct for every \<open>n\<close> up to the \<open>2\<^sup>6\<^sup>4\<close> values of its counter.
\<close>
theorem cipher_nonces_distinct:
  assumes "length (baseIV c) = 12" and "n \<le> 2 ^ 64"
  shows "distinct (nonce_seq n c)"
proof -
  have "inj_on (\<lambda>i. fst (nonce (c\<lparr>counter := counter c + of_nat i\<rparr>))) {0..<n}"
    using assms(2) by (intro inj_onI) (simp add: nonce_inject [OF assms(1)] of_nat_u64_inj)
  then show ?thesis
    by (simp add: nonce_seq_eq distinct_map)
qed

theorem cipher_nonces_distinct_witness:
  "length (baseIV (NewCipher (replicate 32 1) (replicate 12 2))) = 12 \<and>
   distinct (nonce_seq 3 (NewCipher (replicate 32 1) (replicate 12 2)))"
proof -
  have l: "length (baseIV (NewCipher (replicate 32 1) (replicate 12 2))) = 12"
    by (simp add: NewCipher_def)
  show ?thesis using cipher_nonces_distinct [OF l, of 3] l by simp
qed

text \<open>
  Fact. The stateless cookie check accepts exactly the cookies that
  \<^verbatim>\<open>GenerateHandshakeCookie\<close> issues, for this client address, ephemeral key and salt
  and under this secret, at a time stamp inside the freshness window: a cookie bound to
  another client, or altered in any byte, is accepted only if the MACs collide.
\<close>
theorem cookie_valid_iff_issued:
  assumes "sha_ok P" and "secret \<noteq> []"
  shows "ValidateHandshakeCookie P now cookie secret ip eph salt maxAge \<longleftrightarrow>
    (\<exists>ts. cookie = GenerateHandshakeCookie P secret ip eph salt ts \<and>
       cookie_fresh now ts (if maxAge \<le> 0 then 30000000000 else maxAge))"
    (is "?V \<longleftrightarrow> (\<exists>ts. ?I ts \<and> ?F ts)")
proof
  assume v: ?V
  let ?ts = "rd64 (take 8 cookie)"
  have l: "length cookie = 32" and f: "?F ?ts"
    and m: "drop 8 cookie = take 24 (HmacSHA256 P secret (cookie_ip ip @ eph @ salt @ take 8 cookie))"
    using v by (auto simp: ValidateHandshakeCookie_def Let_def split: if_splits)
  have b: "be64 ?ts = take 8 cookie"
    using l by (simp add: be64_rd64)
  have "?I ?ts"
    unfolding GenerateHandshakeCookie_def Let_def b
    using m append_take_drop_id [of 8 cookie] by simp
  with f show "\<exists>ts. ?I ts \<and> ?F ts" by blast
next
  assume "\<exists>ts. ?I ts \<and> ?F ts"
  then obtain ts where i: "?I ts" and f: "?F ts" by blast
  from i assms(1) have "length cookie = 32"
    by (simp add: GenerateHandshakeCookie_def Let_def)
  with i f assms show ?V
    by (simp add: ValidateHandshakeCookie_def GenerateHandshakeCookie_def Let_def rd64_be64
        split: if_splits)
qed

theorem cookie_valid_iff_issued_witness:
  "sha_ok toy_lib \<and> [1] \<noteq> ([] :: bytes) \<and>
   ValidateHandshakeCookie toy_lib 100
     (GenerateHandshakeCookie toy_lib [1] [10, 0, 0, 1] (replicate 32 5) (replicate 32 6) 90)
     [1] [10, 0, 0, 1] (replicate 32 5) (replicate 32 6) 0"
proof -
  have s: "[1] \<noteq> ([] :: bytes)" by simp
  have f: "cookie_fresh 100 90 30000000000" by (simp add: cookie_fresh_def)
  show ?thesis
    using cookie_valid_iff_issued [OF toy_sha_ok s, of 100
        "GenerateHandshakeCookie toy_lib [1] [10, 0, 0, 1] (replicate 32 5) (replicate 32 6) 90"
        "[10, 0, 0, 1]" "replicate 32 5" "replicate 32 6" 0] f toy_sha_ok
    by auto
qed

lemma clamp_idem:
  assumes "length k = 32"
  shows "clamp (clamp k) = clamp k"
proof -
  have m: "((x AND 127) OR 64) AND 127 OR 64 = (x AND 127) OR (64 :: byte)" for x
    by (rule bit_word_eqI) (auto simp: bit_simps)
  show ?thesis
    using assms by (simp add: clamp_def Let_def and.assoc list_update_swap m)
qed

text \<open>
  Fact. A key pair survives being stored as its private key: reloading the private half
  of any generated key pair through \<^verbatim>\<open>KeypairFromPrivate\<close> yields the same pair, because
  clamping a clamped scalar changes nothing.
\<close>
theorem keypair_reload:
  assumes "length rnd = 32" and "GenerateKeypair P rnd = Inr kp"
  shows "KeypairFromPrivate P (Private kp) = Inr kp"
  using assms
  by (auto simp: GenerateKeypair_def KeypairFromPrivate_def Let_def clamp_idem split: option.splits)

theorem keypair_reload_witness:
  "\<exists>kp. GenerateKeypair toy_lib (replicate 32 255) = Inr kp \<and>
     KeypairFromPrivate toy_lib (Private kp) = Inr kp"
proof -
  obtain kp where kp: "GenerateKeypair toy_lib (replicate 32 255) = Inr kp"
    by (simp add: GenerateKeypair_def toy_lib_def Let_def)
  then show ?thesis using keypair_reload [of "replicate 32 255" toy_lib kp] by auto
qed

end
