(* ===== verification/Reality_Hello.thy ===== *)
theory Reality_Hello
  imports Crypto_Core
begin

text \<open>
  The first half of \<^verbatim>\<open>obsidian/reality.go\<close>: the session identifier that carries an
  authentication token, the parser of TLS client hello records, and the server hello record
  made when the fallback host gives none. Random bytes and the clock (\<open>unix\<close>, in seconds)
  are arguments.
\<close>

section \<open>Session identifiers\<close>

definition TLSSessionIDSize :: nat where "TLSSessionIDSize = 32"
definition AuthNonceSize :: nat where "AuthNonceSize = 16"
definition AuthTimestampSize :: nat where "AuthTimestampSize = 8"
definition AuthTagSize :: nat where "AuthTagSize = 8"
definition DefaultAuthWindowSec :: int where "DefaultAuthWindowSec = 30"

lemmas auth_sizes = TLSSessionIDSize_def AuthNonceSize_def AuthTimestampSize_def AuthTagSize_def

text \<open>
  \<^verbatim>\<open>strings.TrimSpace\<close> on the bytes of a string: the white space of Unicode in its UTF-8
  encoding is removed at both ends.
\<close>

definition space_codes :: "bytes list" where
  "space_codes =
     [[9], [10], [11], [12], [13], [32], [0xc2, 0x85], [0xc2, 0xa0], [0xe1, 0x9a, 0x80]] @
     map (\<lambda>i. [0xe2, 0x80, 0x80 + of_nat i]) [0..<11] @
     [[0xe2, 0x80, 0xa8], [0xe2, 0x80, 0xa9], [0xe2, 0x80, 0xaf], [0xe2, 0x81, 0x9f], [0xe3, 0x80, 0x80]]"

function trim_left :: "bytes list \<Rightarrow> bytes \<Rightarrow> bytes" where
  "trim_left codes s =
     (case find (\<lambda>c. c \<noteq> [] \<and> take (length c) s = c) codes of
        None \<Rightarrow> s
      | Some c \<Rightarrow> trim_left codes (drop (length c) s))"
  by pat_completeness auto
termination
proof (relation "measure (\<lambda>(codes, s). length s)")
  fix codes :: "bytes list" and s c
  assume "find (\<lambda>c. c \<noteq> [] \<and> take (length c) s = c) codes = Some c"
  then have "c \<noteq> []" "take (length c) s = c" by (auto simp: find_Some_iff)
  then show "((codes, drop (length c) s), codes, s) \<in> measure (\<lambda>(codes, s). length s)" by (cases s; cases c) auto
qed simp

declare trim_left.simps [simp del]

definition trim_space :: "bytes \<Rightarrow> bytes" where
  "trim_space s = rev (trim_left (map rev space_codes) (rev (trim_left space_codes s)))"

definition lower_ascii :: "byte \<Rightarrow> byte" where
  "lower_ascii c = (if 0x41 \<le> c \<and> c \<le> 0x5a then c + 0x20 else c)"

definition computeAuthTag :: "crypto_lib \<Rightarrow> bytes \<Rightarrow> bytes \<Rightarrow> bytes \<Rightarrow> bytes" where
  "computeAuthTag P authKey nonceAndTS sni =
     HmacSHA256 P authKey (str ''obsidian_reality_v3_session_id'' @ nonceAndTS @ map lower_ascii (trim_space sni))"

definition GenerateSessionIDWithTimestamp :: "crypto_lib \<Rightarrow> bytes res \<Rightarrow> bytes \<Rightarrow> bytes \<Rightarrow> u64 \<Rightarrow> bytes res" where
  "GenerateSessionIDWithTimestamp P draw authKey sni ts =
     rbind draw (\<lambda>rnd.
       let nt = rnd @ be64 ts
       in Inr (nt @ take AuthTagSize (computeAuthTag P authKey nt sni)))"

definition GenerateSessionID :: "crypto_lib \<Rightarrow> bytes res \<Rightarrow> int \<Rightarrow> bytes \<Rightarrow> bytes \<Rightarrow> bytes res" where
  "GenerateSessionID P draw unix authKey sni =
     rbind draw (\<lambda>rnd.
       let nt = rnd @ be64 (of_int unix)
       in Inr (nt @ take AuthTagSize (computeAuthTag P authKey nt sni)))"

definition VerifySessionID :: "crypto_lib \<Rightarrow> int \<Rightarrow> bytes \<Rightarrow> bytes \<Rightarrow> bytes \<Rightarrow> int \<Rightarrow> bool" where
  "VerifySessionID P unix sessionID sni authKey windowSec =
     (if length sessionID \<noteq> TLSSessionIDSize then False
      else if authKey = [] then False
      else
        let window = (if windowSec \<le> 0 then DefaultAuthWindowSec else windowSec);
            ts = rd64 (subslice AuthNonceSize (AuthNonceSize + AuthTimestampSize) sessionID);
            diff = sint (of_int unix - ts :: u64)
        in if diff < - window \<or> window < diff then False
           else ConstantTimeEqual (drop (AuthNonceSize + AuthTimestampSize) sessionID)
                  (take AuthTagSize (computeAuthTag P authKey (take (AuthNonceSize + AuthTimestampSize) sessionID) sni)))"

section \<open>Client hello records\<close>

text \<open>The loop over the server name list of one extension.\<close>

function sni_names :: "bytes \<Rightarrow> nat \<Rightarrow> nat \<Rightarrow> bytes option" where
  "sni_names data listEnd subOffset =
     (if subOffset + 3 \<le> listEnd then
        let nameType = data ! subOffset;
            nameLen = unat (rd16 (subslice (subOffset + 1) (subOffset + 3) data));
            start = subOffset + 3
        in if start + nameLen \<le> length data then
             if nameType = 0 then Some (subslice start (start + nameLen) data)
             else sni_names data listEnd (start + nameLen)
           else None
      else None)"
  by pat_completeness auto
termination by (relation "measure (\<lambda>(data, listEnd, subOffset). listEnd - subOffset)") auto

declare sni_names.simps [simp del]

definition sni_data :: "bytes \<Rightarrow> bytes option" where
  "sni_data data =
     (if length data < 2 then None
      else let listLen = unat (rd16 (take 2 data))
           in if 2 + listLen \<le> length data then sni_names data (2 + listLen) 2 else None)"

function sni_scan :: "bytes \<Rightarrow> nat \<Rightarrow> bytes" where
  "sni_scan extBytes extOffset =
     (if extOffset + 4 \<le> length extBytes then
        let extType = rd16 (subslice extOffset (extOffset + 2) extBytes);
            extLen = unat (rd16 (subslice (extOffset + 2) (extOffset + 4) extBytes));
            start = extOffset + 4
        in if length extBytes < start + extLen then []
           else case (if extType = 0 then sni_data (subslice start (start + extLen) extBytes) else None) of
                  Some name \<Rightarrow> name
                | None \<Rightarrow> sni_scan extBytes (start + extLen)
      else [])"
  by pat_completeness auto
termination by (relation "measure (\<lambda>(extBytes, extOffset). length extBytes - extOffset)") auto

declare sni_scan.simps [simp del]

definition parseSNIExtension :: "bytes \<Rightarrow> bytes" where
  "parseSNIExtension extBytes = sni_scan extBytes 0"

text \<open>The fields after the session identifier; every early return there leaves the name empty.\<close>

definition hello_sni :: "bytes \<Rightarrow> nat \<Rightarrow> bytes" where
  "hello_sni hs offset =
     (if length hs < offset + 2 then []
      else let offset = offset + 2 + unat (rd16 (subslice offset (offset + 2) hs))
      in if length hs < offset then []
      else if length hs < offset + 1 then []
      else let offset = offset + 1 + unat (hs ! offset)
      in if length hs < offset then []
      else if length hs < offset + 2 then []
      else let extTotalLen = unat (rd16 (subslice offset (offset + 2) hs)); offset = offset + 2
      in if length hs < offset + extTotalLen then []
         else parseSNIExtension (subslice offset (offset + extTotalLen) hs))"

abbreviation "ErrTruncatedRecord \<equiv> Errorf ''truncated TLS record''"
abbreviation "ErrNotTLS \<equiv> Errorf ''stream does not begin with TLS record''"
abbreviation "ErrNotClientHello \<equiv> Errorf ''TLS record is not ClientHello''"

text \<open>
  The flag \<^verbatim>\<open>isClientHello\<close> is set exactly when there is no error, so a result \<open>Inr\<close> is
  the pair of session identifier (empty for nil) and server name. The three length bytes of the
  handshake header are read as a word with a leading zero byte.
\<close>

definition ParseTLSClientHello :: "bytes \<Rightarrow> (bytes \<times> bytes) res" where
  "ParseTLSClientHello record =
     (if length record < 5 then Inl ErrTruncatedRecord
      else if record ! 0 \<noteq> 0x16 then Inl ErrNotTLS
      else if record ! 1 \<noteq> 0x03 \<or> record ! 2 < 0x01 \<or> 0x03 < record ! 2 then Inl ErrNotTLS
      else
        let recordLen = unat (rd16 (subslice 3 5 record))
        in if length record < 5 + recordLen then Inl ErrTruncatedRecord
           else
             let hs = subslice 5 (5 + recordLen) record
             in if length hs < 4 then Inl ErrNotClientHello
                else if hs ! 0 \<noteq> 0x01 then Inl ErrNotClientHello
                else
                  let hsLen = unat (rd32 (0 # subslice 1 4 hs))
                  in if length hs < 4 + hsLen then Inl ErrTruncatedRecord
                     else if length hs < 4 + 2 + 32 + 1 then Inl ErrTruncatedRecord
                     else
                       let sessionIDLen = unat (hs ! 38); offset = 39
                       in if length hs < offset + sessionIDLen then Inl ErrTruncatedRecord
                          else Inr (subslice offset (offset + sessionIDLen) hs, hello_sni hs (offset + sessionIDLen)))"

definition buildTLSServerHelloRecord :: "bytes \<Rightarrow> bytes \<Rightarrow> bytes \<Rightarrow> bytes" where
  "buildTLSServerHelloRecord sessionID random serverShare =
     (let extBytes = [0x00, 0x2b, 0x00, 0x02, 0x03, 0x04] @
                     [0x00, 0x33, 0x00, 0x24, 0x00, 0x1d, 0x00, 0x20] @ serverShare;
          shMsg = [0x03, 0x03] @ random @ [of_nat (length sessionID)] @ sessionID @ [0x13, 0x01] @ [0x00] @
                  be16 (of_nat (length extBytes)) @ extBytes;
          fullPayload = [0x02] @ drop 1 (be32 (of_nat (length shMsg))) @ shMsg
      in [0x16, 0x03, 0x03] @ be16 (of_nat (length fullPayload)) @ fullPayload)"

section \<open>Tokens\<close>

text \<open>The identifier made from a nonce and a time stamp.\<close>

definition session_token :: "crypto_lib \<Rightarrow> bytes \<Rightarrow> bytes \<Rightarrow> bytes \<Rightarrow> u64 \<Rightarrow> bytes" where
  "session_token P authKey sni rnd ts =
     rnd @ be64 ts @ take 8 (computeAuthTag P authKey (rnd @ be64 ts) sni)"

lemma generated_is_token:
  "GenerateSessionID P (Inr rnd) unix authKey sni = Inr (session_token P authKey sni rnd (of_int unix))"
  "GenerateSessionIDWithTimestamp P (Inr rnd) authKey sni ts = Inr (session_token P authKey sni rnd ts)"
  by (simp_all add: GenerateSessionID_def GenerateSessionIDWithTimestamp_def session_token_def auth_sizes Let_def)

lemma length_session_token [simp]:
  "sha_ok P \<Longrightarrow> length rnd = 16 \<Longrightarrow> length (session_token P authKey sni rnd ts) = 32"
  by (simp add: session_token_def computeAuthTag_def)

text \<open>A wrapped difference within a small window is the true difference.\<close>

lemma small_wrapped_diff:
  assumes "\<bar>t\<bar> < 2 ^ 62" and "0 \<le> w" and "w < 2 ^ 62"
  shows "- w \<le> sint (of_int t - ts :: u64) \<and> sint (of_int t - ts :: u64) \<le> w \<longleftrightarrow> \<bar>t - sint ts\<bar> \<le> w"
proof -
  let ?d = "sint (of_int t - ts :: u64)"
  have ts: "ts = of_int t - of_int ?d" by simp
  have fits: "sint (of_int x :: u64) = x" if "- (2 ^ 63) \<le> x" "x < 2 ^ 63" for x :: int
    using that by (simp add: signed_take_bit_int_eq_self sint_sbintrunc')
  show ?thesis
  proof
    assume d: "- w \<le> ?d \<and> ?d \<le> w"
    have "sint ts = sint (of_int (t - ?d) :: u64)" using ts by (metis of_int_diff)
    also have "\<dots> = t - ?d" using d assms by (intro fits) auto
    finally show "\<bar>t - sint ts\<bar> \<le> w" using d by linarith
  next
    assume a: "\<bar>t - sint ts\<bar> \<le> w"
    have "of_int t - ts = of_int (t - sint ts)" by simp
    then have "?d = t - sint ts" using fits [of "t - sint ts"] a assms by simp
    then show "- w \<le> ?d \<and> ?d \<le> w" using a by linarith
  qed
qed

lemma verify_iff_token:
  assumes "sha_ok P" and "authKey \<noteq> []" and "\<bar>unix\<bar> < 2 ^ 62" and "0 < w" and "w < 2 ^ 62"
  shows "VerifySessionID P unix sid sni authKey w \<longleftrightarrow>
    (\<exists>rnd ts. length rnd = 16 \<and> sid = session_token P authKey sni rnd ts \<and> \<bar>unix - sint ts\<bar> \<le> w)"
proof (cases "length sid = 32")
  case True
  let ?n = "take 16 sid" and ?ts = "rd64 (subslice 16 24 sid)"
  have b: "be64 ?ts = subslice 16 24 sid" using True by (intro be64_rd64) simp
  have nt: "?n @ be64 ?ts = take 24 sid" using b take_add [of 16 8 sid] by (simp add: subslice_def)
  have "sid = take 24 sid @ drop 24 sid" by simp
  then have tok: "sid = session_token P authKey sni ?n ?ts \<longleftrightarrow> drop 24 sid = take 8 (computeAuthTag P authKey (take 24 sid) sni)"
    unfolding session_token_def append_assoc [symmetric] nt by (metis append_eq_append_conv)
  have ex: "(\<exists>rnd ts. length rnd = 16 \<and> sid = session_token P authKey sni rnd ts \<and> Q ts) \<longleftrightarrow>
      sid = session_token P authKey sni ?n ?ts \<and> Q ?ts" for Q
  proof
    assume "\<exists>rnd ts. length rnd = 16 \<and> sid = session_token P authKey sni rnd ts \<and> Q ts"
    then obtain rnd ts where n: "length rnd = 16" "sid = session_token P authKey sni rnd ts" "Q ts" by blast
    then have "?n = rnd" "?ts = ts"
      by (simp_all add: session_token_def subslice_def rd64_be64)
    then show "sid = session_token P authKey sni ?n ?ts \<and> Q ?ts" using n by simp
  qed (use True in \<open>intro exI [of _ ?n] exI [of _ ?ts], simp\<close>)
  show ?thesis
    unfolding ex tok small_wrapped_diff [OF assms(3) less_imp_le [OF assms(4)] assms(5), symmetric]
    using True assms(2,4) by (auto simp: VerifySessionID_def ConstantTimeEqual_def auth_sizes Let_def)
qed (use assms(1) in \<open>auto simp: VerifySessionID_def auth_sizes\<close>)

section \<open>Records\<close>

text \<open>
  A client hello as RFC 8446 lays it out. A server name list holds typed names (type 0 is a host
  name); every other extension is opaque.
\<close>

datatype hello_ext = ServerName "(byte \<times> bytes) list" | OtherExt u16 bytes

fun name_entry :: "byte \<times> bytes \<Rightarrow> bytes" where
  "name_entry (t, n) = t # be16 (of_nat (length n)) @ n"

fun ext_data :: "hello_ext \<Rightarrow> bytes" where
  "ext_data (ServerName ns) = be16 (of_nat (length (concat (map name_entry ns)))) @ concat (map name_entry ns)"
| "ext_data (OtherExt t d) = d"

fun ext_type :: "hello_ext \<Rightarrow> u16" where
  "ext_type (ServerName ns) = 0"
| "ext_type (OtherExt t d) = t"

definition ext_entry :: "hello_ext \<Rightarrow> bytes" where
  "ext_entry e = be16 (ext_type e) @ be16 (of_nat (length (ext_data e))) @ ext_data e"

fun host_names :: "hello_ext \<Rightarrow> bytes list" where
  "host_names (ServerName ns) = map snd (filter (\<lambda>n. fst n = 0) ns)"
| "host_names (OtherExt t d) = []"

definition first_host :: "hello_ext list \<Rightarrow> bytes" where
  "first_host es = (case concat (map host_names es) of [] \<Rightarrow> [] | h # _ \<Rightarrow> h)"

fun ext_ok :: "hello_ext \<Rightarrow> bool" where
  "ext_ok (ServerName ns) = True"
| "ext_ok (OtherExt t d) = (t \<noteq> 0)"

record client_hello =
  chVersion :: bytes
  chRandom :: bytes
  chSession :: bytes
  chSuites :: bytes
  chCompression :: bytes
  chExts :: "hello_ext list"

definition hello_body :: "client_hello \<Rightarrow> bytes" where
  "hello_body h = chVersion h @ chRandom h @ of_nat (length (chSession h)) # chSession h @
     be16 (of_nat (length (chSuites h))) @ chSuites h @
     of_nat (length (chCompression h)) # chCompression h @
     be16 (of_nat (length (concat (map ext_entry (chExts h))))) @ concat (map ext_entry (chExts h))"

definition hello_record :: "byte \<Rightarrow> client_hello \<Rightarrow> bytes" where
  "hello_record minor h =
     (let hs = 1 # drop 1 (be32 (of_nat (length (hello_body h)))) @ hello_body h
      in 0x16 # 3 # minor # be16 (of_nat (length hs)) @ hs)"

definition hello_ok :: "byte \<Rightarrow> client_hello \<Rightarrow> bool" where
  "hello_ok minor h \<longleftrightarrow> 1 \<le> minor \<and> minor \<le> 3 \<and> length (chVersion h) = 2 \<and> length (chRandom h) = 32 \<and>
     length (chSession h) < 256 \<and> length (chCompression h) < 256 \<and> length (hello_body h) < 65532 \<and>
     (\<forall>e \<in> set (chExts h). ext_ok e)"

lemma subslice_mid: "length p = i \<Longrightarrow> j = i + length x \<Longrightarrow> subslice i j (p @ x @ r) = x"
  by (simp add: subslice_def)

lemma nth_mid: "length p = i \<Longrightarrow> (p @ x # r) ! i = x"
  by (simp add: nth_append)

lemma unat_rd16_be16: "n < 65536 \<Longrightarrow> unat (rd16 (be16 (of_nat n))) = n"
  by (simp add: codec_simps unat_of_nat_small)

lemma sni_names_step:
  assumes "off + 3 \<le> e" and "data ! off = t" and "unat (rd16 (subslice (off + 1) (off + 3) data)) = n"
    and "off + 3 + n \<le> length data"
  shows "sni_names data e off = (if t = 0 then Some (subslice (off + 3) (off + 3 + n) data) else sni_names data e (off + 3 + n))"
  using assms by (subst sni_names.simps) (simp add: Let_def)

lemma sni_names_entries:
  assumes "length p + length (concat (map name_entry ns)) < 65538"
  shows "sni_names (p @ concat (map name_entry ns)) (length p + length (concat (map name_entry ns))) (length p) =
    (case filter (\<lambda>n. fst n = 0) ns of [] \<Rightarrow> None | n # _ \<Rightarrow> Some (snd n))"
  using assms
proof (induction ns arbitrary: p)
  case Nil
  then show ?case by (simp add: sni_names.simps)
next
  case (Cons n ns)
  obtain t x where n: "n = (t, x)" by (cases n)
  let ?q = "concat (map name_entry ns)"
  let ?d = "p @ t # be16 (of_nat (length x)) @ x @ ?q"
  have x: "length x < 65536" using Cons.prems n by simp
  have t: "?d ! length p = t" by simp
  have l: "unat (rd16 (subslice (length p + 1) (length p + 3) ?d)) = length x"
    using subslice_mid [of "p @ [t]" "length p + 1" "length p + 3" "be16 (of_nat (length x))" "x @ ?q"] unat_rd16_be16 [OF x] by simp
  have v: "subslice (length p + 3) (length p + 3 + length x) ?d = x"
    using subslice_mid [of "p @ t # be16 (of_nat (length x))" "length p + 3" "length p + 3 + length x" x ?q] by simp
  have IH: "sni_names ?d (length p + 3 + length x + length ?q) (length p + 3 + length x) =
      (case filter (\<lambda>n. fst n = 0) ns of [] \<Rightarrow> None | n # _ \<Rightarrow> Some (snd n))"
    using Cons.IH [of "p @ t # be16 (of_nat (length x)) @ x"] Cons.prems n by (simp add: add_ac numeral_3_eq_3)
  have d: "p @ concat (map name_entry (n # ns)) = ?d"
      "length p + length (concat (map name_entry (n # ns))) = length p + 3 + length x + length ?q" by (simp_all add: n)
  have "sni_names ?d (length p + 3 + length x + length ?q) (length p) =
      (if t = 0 then Some x else sni_names ?d (length p + 3 + length x + length ?q) (length p + 3 + length x))"
    using sni_names_step [OF _ t l, of "length p + 3 + length x + length ?q"] unfolding v by simp
  then show ?case unfolding d using IH by (simp add: n)
qed

text \<open>The name the scan takes from one extension.\<close>

lemma ext_name:
  assumes "ext_ok e" and "length (ext_data e) < 65536"
  shows "(if ext_type e = 0 then sni_data (ext_data e) else None) = (case host_names e of [] \<Rightarrow> None | h # _ \<Rightarrow> Some h)"
proof (cases e)
  case (ServerName ns)
  let ?q = "concat (map name_entry ns)"
  have q: "length ?q < 65534" using assms(2) ServerName by simp
  have "sni_data (ext_data e) = sni_names (be16 (of_nat (length ?q)) @ ?q) (2 + length ?q) 2"
    using q unat_rd16_be16 [of "length ?q"] by (simp add: ServerName sni_data_def Let_def)
  also have "\<dots> = (case filter (\<lambda>n. fst n = 0) ns of [] \<Rightarrow> None | n # _ \<Rightarrow> Some (snd n))"
    using sni_names_entries [of "be16 (of_nat (length ?q))" ns] q by simp
  finally show ?thesis by (simp add: ServerName split: list.splits)
qed (use assms in simp)

lemma sni_scan_step:
  assumes "off + 4 \<le> length xs" and "rd16 (subslice off (off + 2) xs) = t"
    and "unat (rd16 (subslice (off + 2) (off + 4) xs)) = n" and "off + 4 + n \<le> length xs"
  shows "sni_scan xs off =
    (case (if t = 0 then sni_data (subslice (off + 4) (off + 4 + n) xs) else None) of
       Some name \<Rightarrow> name | None \<Rightarrow> sni_scan xs (off + 4 + n))"
  using assms by (subst sni_scan.simps) (simp add: Let_def)

lemma sni_scan_entries:
  assumes "\<forall>e \<in> set es. ext_ok e" and "length (concat (map ext_entry es)) < 65536"
  shows "sni_scan (p @ concat (map ext_entry es)) (length p) = first_host es"
  using assms
proof (induction es arbitrary: p)
  case Nil
  then show ?case by (simp add: sni_scan.simps first_host_def)
next
  case (Cons e es)
  let ?q = "concat (map ext_entry es)" and ?n = "be16 (of_nat (length (ext_data e)))" and ?t = "be16 (ext_type e)"
  let ?x = "p @ ?t @ ?n @ ext_data e @ ?q"
  have n: "length (ext_data e) < 65536" using Cons.prems(2) by (simp add: ext_entry_def)
  have t: "rd16 (subslice (length p) (length p + 2) ?x) = ext_type e"
    by (subst subslice_mid) (simp_all add: codec_simps)
  have l: "unat (rd16 (subslice (length p + 2) (length p + 4) ?x)) = length (ext_data e)"
    using subslice_mid [of "p @ ?t" "length p + 2" "length p + 4" ?n "ext_data e @ ?q"] unat_rd16_be16 [OF n] by simp
  have v: "subslice (length p + 4) (length p + 4 + length (ext_data e)) ?x = ext_data e"
    using subslice_mid [of "p @ ?t @ ?n" "length p + 4" "length p + 4 + length (ext_data e)" "ext_data e" ?q] by simp
  have "sni_scan ((p @ ?t @ ?n @ ext_data e) @ ?q) (length (p @ ?t @ ?n @ ext_data e)) = first_host es"
    using Cons.prems by (intro Cons.IH) simp_all
  moreover have "length (p @ ?t @ ?n @ ext_data e) = length p + 4 + length (ext_data e)" by simp
  ultimately have IH: "sni_scan ?x (length p + 4 + length (ext_data e)) = first_host es" by (metis append_assoc)
  have "sni_scan ?x (length p) = (case host_names e of h # _ \<Rightarrow> h | [] \<Rightarrow> first_host es)"
    using sni_scan_step [OF _ t l] ext_name [OF _ n] Cons.prems(1) unfolding v IH by (simp split: list.splits)
  moreover have "p @ concat (map ext_entry (e # es)) = ?x" by (simp add: ext_entry_def [of e])
  moreover have "first_host (e # es) = (case host_names e of h # _ \<Rightarrow> h | [] \<Rightarrow> first_host es)"
    by (cases "host_names e") (simp_all add: first_host_def)
  ultimately show ?case by (simp only:)
qed

lemma hello_sni_step:
  assumes "unat (rd16 (subslice i (i + 2) hs)) = n" and "j = i + 2 + n" and "unat (hs ! j) = c" and "k = j + 1 + c"
    and "unat (rd16 (subslice k (k + 2) hs)) = m" and "k + 2 + m \<le> length hs"
  shows "hello_sni hs i = parseSNIExtension (subslice (k + 2) (k + 2 + m) hs)"
  using assms by (simp add: hello_sni_def Let_def)

lemma hello_sni_fields:
  assumes "length su < 65536" and "length co < 256" and "length ex < 65536"
  shows "hello_sni (p @ be16 (of_nat (length su)) @ su @ of_nat (length co) # co @ be16 (of_nat (length ex)) @ ex) (length p) =
    parseSNIExtension ex" (is "hello_sni ?hs _ = _")
proof -
  let ?j = "length p + 2 + length su" and ?p = "p @ be16 (of_nat (length su)) @ su"
  let ?k = "?j + 1 + length co" and ?q = "?p @ of_nat (length co) # co"
  have "unat (rd16 (subslice (length p) (length p + 2) ?hs)) = length su"
    by (subst subslice_mid) (simp_all add: unat_rd16_be16 assms)
  moreover have "unat (?hs ! ?j) = length co"
    using nth_mid [of ?p ?j "of_nat (length co)" "co @ be16 (of_nat (length ex)) @ ex"]
      unat_of_nat_small [of "length co", where 'a = 8] assms(2) by simp
  moreover have "unat (rd16 (subslice ?k (?k + 2) ?hs)) = length ex"
    using subslice_mid [of ?q ?k "?k + 2" "be16 (of_nat (length ex))" ex] unat_rd16_be16 [OF assms(3)] by simp
  moreover have "subslice (?k + 2) (?k + 2 + length ex) ?hs = ex"
    using subslice_mid [of "?q @ be16 (of_nat (length ex))" "?k + 2" "?k + 2 + length ex" ex "[]"] by simp
  ultimately show ?thesis
    using hello_sni_step [of "length p" ?hs "length su" ?j "length co" ?k "length ex"] by simp
qed

lemma rd32_be24: "n < 2 ^ 24 \<Longrightarrow> unat (rd32 (0 # drop 1 (be32 (of_nat n)))) = n"
proof -
  assume n: "n < 2 ^ 24"
  then have u: "unat (of_nat n :: u32) = n" by (intro unat_of_nat_small) simp
  have "drop_bit 24 (of_nat n :: u32) = 0"
    using n by (simp only: word_unat_eq_iff unat_drop_bit_eq u) (simp add: drop_bit_eq_div)
  then have "0 # drop 1 (be32 (of_nat n)) = be32 (of_nat n)" by (simp add: be32_def)
  then show ?thesis using u by (simp add: codec_simps)
qed

lemma parse_step:
  assumes "unat (rd16 (subslice 3 5 record)) = length hs" and "subslice 5 (5 + length hs) record = hs"
    and "5 + length hs \<le> length record" and "record ! 0 = 0x16" and "record ! 1 = 3" and "1 \<le> record ! 2" and "record ! 2 \<le> 3"
    and "hs ! 0 = 1" and "4 + unat (rd32 (0 # subslice 1 4 hs)) \<le> length hs" and "39 + unat (hs ! 38) \<le> length hs"
  shows "ParseTLSClientHello record =
    Inr (subslice 39 (39 + unat (hs ! 38)) hs, hello_sni hs (39 + unat (hs ! 38)))"
proof -
  have "record ! 2 \<noteq> 0" "\<not> 3 < record ! 2" using assms(6,7) by (auto simp: not_less)
  then show ?thesis using assms(1-5,8-) by (simp add: ParseTLSClientHello_def Let_def)
qed

lemma parse_handshake:
  assumes "1 \<le> minor" and "minor \<le> 3" and "hs = 1 # drop 1 (be32 (of_nat (length body))) @ body"
    and "length body < 65532" and "35 \<le> length body" and "unat (body ! 34) = n" and "35 + n \<le> length body"
  shows "ParseTLSClientHello (0x16 # 3 # minor # be16 (of_nat (length hs)) @ hs @ rest) =
    Inr (subslice 35 (35 + n) body, hello_sni hs (39 + n))"
proof -
  let ?r = "0x16 # 3 # minor # be16 (of_nat (length hs)) @ hs @ rest"
  have len: "length hs = 4 + length body" using assms(3) by simp
  have rl: "unat (rd16 (subslice 3 5 ?r)) = length hs"
    using subslice_mid [of "[0x16, 3, minor]" 3 5 "be16 (of_nat (length hs))" "hs @ rest"] unat_rd16_be16 [of "length hs"] len assms(4)
    by simp
  have hs: "subslice 5 (5 + length hs) ?r = hs"
    using subslice_mid [of "[0x16, 3, minor] @ be16 (of_nat (length hs))" 5 "5 + length hs" hs rest] by simp
  have hl: "unat (rd32 (0 # subslice 1 4 hs)) = length body"
    using subslice_mid [of "[1]" 1 4 "drop 1 (be32 (of_nat (length body)))" body] rd32_be24 [of "length body"] assms(3,4) by simp
  have nth: "hs ! 38 = body ! 34"
    using nth_append [of "1 # drop 1 (be32 (of_nat (length body)))" body 38] assms(3) by simp
  have sid: "subslice 39 (39 + n) hs = subslice 35 (35 + n) body"
    using subslice_append_right [of "1 # drop 1 (be32 (of_nat (length body)))" 39 "39 + n" body] assms(3) by simp
  have h0: "hs ! 0 = 1" using assms(3) by simp
  show ?thesis
    using parse_step [OF rl hs _ _ _ _ _ h0] assms(1,2,5-7) len hl nth sid by simp
qed

text \<open>The record made for the client: consistent lengths, and the client's identifier echoed.\<close>

definition echoes_session :: "bytes \<Rightarrow> bytes \<Rightarrow> bool" where
  "echoes_session sid record \<longleftrightarrow>
     take 3 record = [0x16, 3, 3] \<and> 5 + unat (rd16 (subslice 3 5 record)) = length record \<and>
     record ! 5 = 2 \<and> 9 + unat (rd32 (0 # subslice 6 9 record)) = length record \<and>
     unat (record ! 43) = length sid \<and> subslice 44 (44 + length sid) record = sid"

lemma server_hello_echoes:
  assumes "length sid = 32" and "length random = 32" and "length share = 32"
  shows "echoes_session sid (buildTLSServerHelloRecord sid random share)"
proof -
  let ?tl = "[0x13, 0x01, 0x00] @ be16 46 @ [0x00, 0x2b, 0x00, 0x02, 0x03, 0x04, 0x00, 0x33, 0x00, 0x24, 0x00, 0x1d, 0x00, 0x20] @ share"
  let ?sh = "[3, 3] @ random @ [32] @ sid @ ?tl"
  let ?h = "[0x16, 3, 3] @ be16 122"
  let ?hs = "[2] @ drop 1 (be32 118)"
  have r: "buildTLSServerHelloRecord sid random share = ?h @ ?hs @ ?sh"
    using assms by (simp add: buildTLSServerHelloRecord_def)
  have "subslice 3 5 (?h @ ?hs @ ?sh) = be16 122"
    using subslice_mid [of "[0x16, 3, 3]" 3 5 "be16 122" "?hs @ ?sh"] by simp
  moreover have "subslice 6 9 (?h @ ?hs @ ?sh) = drop 1 (be32 118)"
    using subslice_mid [of "?h @ [2]" 6 9 "drop 1 (be32 118)" ?sh] by simp
  moreover have "(?h @ ?hs @ ?sh) ! 43 = 32"
    using nth_mid [of "?h @ ?hs @ [3, 3] @ random" 43 32 "sid @ ?tl"] assms by simp
  moreover have "subslice 44 76 (?h @ ?hs @ ?sh) = sid"
    using subslice_mid [of "?h @ ?hs @ [3, 3] @ random @ [32]" 44 76 sid ?tl] assms by simp
  moreover have "unat (rd16 (be16 122)) = 122" "unat (rd32 (0 # drop 1 (be32 118))) = 118"
    using unat_rd16_be16 [of 122] rd32_be24 [of 118] by simp_all
  ultimately show ?thesis
    unfolding echoes_session_def r using assms by (simp add: be16_def be32_def nth_append)
qed

lemma parse_hello_record:
  assumes "hello_ok minor h"
  shows "ParseTLSClientHello (hello_record minor h @ rest) = Inr (chSession h, first_host (chExts h))"
proof -
  let ?sid = "chSession h" and ?su = "chSuites h" and ?co = "chCompression h" and ?ex = "concat (map ext_entry (chExts h))"
  let ?n = "of_nat (length ?sid) :: byte"
  let ?tl = "be16 (of_nat (length ?su)) @ ?su @ of_nat (length ?co) # ?co @ be16 (of_nat (length ?ex)) @ ?ex"
  let ?hd = "1 # drop 1 (be32 (of_nat (length (hello_body h))))"
  have ok: "1 \<le> minor" "minor \<le> 3" "length (chVersion h) = 2" "length (chRandom h) = 32" "length ?sid < 256"
      "length ?co < 256" "length (hello_body h) < 65532" "\<forall>e \<in> set (chExts h). ext_ok e"
    using assms by (simp_all add: hello_ok_def)
  have body: "hello_body h = (chVersion h @ chRandom h) @ ?n # ?sid @ ?tl" by (simp add: hello_body_def)
  have n: "unat ?n = length ?sid" using ok(5) by (intro unat_of_nat_small) simp
  have b34: "hello_body h ! 34 = ?n" unfolding body using ok(3,4) by (intro nth_mid) simp
  have sid: "subslice 35 (35 + length ?sid) (hello_body h) = ?sid"
    using subslice_mid [of "chVersion h @ chRandom h @ [?n]" 35 "35 + length ?sid" ?sid ?tl] ok(3,4) unfolding body by simp
  have len: "35 + length ?sid + length ?tl = length (hello_body h)" using ok(3,4) unfolding body by simp
  have "hello_sni ((?hd @ chVersion h @ chRandom h @ ?n # ?sid) @ ?tl) (39 + length ?sid) = parseSNIExtension ?ex"
    using hello_sni_fields [of ?su ?co ?ex "?hd @ chVersion h @ chRandom h @ ?n # ?sid"] len ok by simp
  then have sni: "hello_sni (?hd @ hello_body h) (39 + length ?sid) = first_host (chExts h)"
    using sni_scan_entries [OF ok(8), of "[]"] len ok(7) by (simp add: body parseSNIExtension_def)
  show ?thesis
    using parse_handshake [OF ok(1,2) refl ok(7), of "length ?sid" rest] b34 n len sid sni
    by (simp add: hello_record_def Let_def)
qed

section \<open>Property\<close>

text \<open>
  Property C28. Whatever a TLS client puts into its hello (any session identifier, cipher suites
  and compression methods, any extensions in any order, with several server name lists or none),
  the parser returns its session identifier and the first host name it announces, or the empty
  name if there is none, also when more bytes follow the record in the buffer.
\<close>
theorem client_hello_parsed:
  assumes "hello_ok minor h"
  shows "ParseTLSClientHello (hello_record minor h @ rest) = Inr (chSession h, first_host (chExts h))"
  by (rule parse_hello_record [OF assms])

theorem client_hello_parsed_witness:
  "let h = \<lparr>chVersion = [3, 3], chRandom = replicate 32 7, chSession = [1, 2], chSuites = [0x13, 1], chCompression = [0],
            chExts = [OtherExt 43 [2, 3, 4], ServerName [(1, [9]), (0, str ''a.b'')], ServerName [(0, str ''c'')]]\<rparr>
   in hello_ok 3 h \<and> ParseTLSClientHello (hello_record 3 h @ [5, 6]) = Inr ([1, 2], str ''a.b'')"
proof -
  let ?h = "\<lparr>chVersion = [3, 3], chRandom = replicate 32 7, chSession = [1, 2], chSuites = [0x13, 1], chCompression = [0],
    chExts = [OtherExt 43 [2, 3, 4], ServerName [(1, [9]), (0, str ''a.b'')], ServerName [(0, str ''c'')]]\<rparr>"
  have ok: "hello_ok 3 ?h" by (simp add: hello_ok_def hello_body_def ext_entry_def)
  show ?thesis using client_hello_parsed [OF ok, of "[5, 6]"] ok by (simp add: first_host_def)
qed

end
