(* ===== verification/Replay_Cache.thy ===== *)
theory Replay_Cache
  imports Crypto_Core "HOL-Library.AList"
begin

text \<open>
  The two caches that remember what has been presented to the server: the client hellos of
  \<^verbatim>\<open>cmd/server/main.go\<close> (\<^verbatim>\<open>handshakeReplayCache\<close>) and the TLS session
  identifiers of \<^verbatim>\<open>obsidian/reality.go\<close> (\<^verbatim>\<open>RealityReplayCache\<close>).
  Times are nanoseconds; the clock is an argument. The Go maps are association lists with
  distinct keys. Both caches implement one contract, and what an observer may rely on is
  proved once from it.
\<close>

section \<open>Model\<close>

record replayCache =
  rcTtl :: int
  rcSeen :: "(bytes \<times> int) list"

text \<open>The body of both: report a live entry; else drop the expired entries of a large table and enter the key.\<close>

definition cache_lookup :: "int \<Rightarrow> bytes \<Rightarrow> replayCache \<Rightarrow> bool" where
  "cache_lookup now key c = (case map_of (rcSeen c) key of None \<Rightarrow> False | Some exp \<Rightarrow> now < exp)"

definition cache_enter :: "nat \<Rightarrow> int \<Rightarrow> bytes \<Rightarrow> replayCache \<Rightarrow> replayCache" where
  "cache_enter limit now key c =
     (let seen = (if limit < length (rcSeen c) then filter (\<lambda>(k, exp). now < exp) (rcSeen c) else rcSeen c)
      in c\<lparr>rcSeen := AList.update key (now + rcTtl c) seen\<rparr>)"

definition DefaultReplayTTL :: int where "DefaultReplayTTL = 60 * 1000000000"

definition NewRealityReplayCache :: "int \<Rightarrow> replayCache" where
  "NewRealityReplayCache ttl = \<lparr>rcTtl = (if ttl \<le> 0 then DefaultReplayTTL else ttl), rcSeen = []\<rparr>"

definition SeenOrAdd :: "int \<Rightarrow> bytes \<Rightarrow> replayCache \<Rightarrow> bool \<times> replayCache" where
  "SeenOrAdd now sessionID c =
     (if length sessionID \<noteq> 32 then (False, c)
      else if cache_lookup now sessionID c then (True, c)
      else (False, cache_enter 8192 now sessionID c))"

definition newHandshakeReplayCache :: "int \<Rightarrow> replayCache" where
  "newHandshakeReplayCache ttl = \<lparr>rcTtl = ttl, rcSeen = []\<rparr>"

definition replay_key :: "crypto_lib \<Rightarrow> bytes \<Rightarrow> bytes" where
  "replay_key P hello = take 32 (HmacSHA256 P (str ''obsidian_handshake_replay_cache_v2'') hello @ replicate 32 0)"

definition Seen :: "crypto_lib \<Rightarrow> int \<Rightarrow> bytes \<Rightarrow> replayCache \<Rightarrow> bool \<times> replayCache" where
  "Seen P now hello c =
     (if cache_lookup now (replay_key P hello) c then (True, c)
      else (False, cache_enter 4096 now (replay_key P hello) c))"

section \<open>Contract\<close>

text \<open>
  What a cache promises: it reports the entries that are live, and a presentation it does not
  report makes its key live for the lifetime of the cache, without ending the life of another.
\<close>

locale expiring_cache =
  fixes check :: "int \<Rightarrow> 'k \<Rightarrow> 'c \<Rightarrow> bool \<times> 'c"
    and live :: "'c \<Rightarrow> int \<Rightarrow> 'k \<Rightarrow> bool"
    and key :: "'k \<Rightarrow> 'b"
    and valid :: "'k \<Rightarrow> bool"
    and inv :: "'c \<Rightarrow> bool"
    and ttl :: "'c \<Rightarrow> int"
  assumes inv_check: "inv c \<Longrightarrow> inv (snd (check now k c))"
    and ttl_check: "ttl (snd (check now k c)) = ttl c"
    and reports: "inv c \<Longrightarrow> valid k \<Longrightarrow> fst (check now k c) = live c now k"
    and lives: "inv c \<Longrightarrow> valid k \<Longrightarrow> now \<le> t \<Longrightarrow>
      live (snd (check now k c)) t k' \<longleftrightarrow>
        live c t k' \<or> \<not> live c now k \<and> key k' = key k \<and> t < now + ttl c"
begin

lemma answer_iff:
  assumes "inv c" and "\<forall>x \<in> set calls. valid (snd x)" and "sorted (map fst calls)" and "j < length calls"
  shows "answers check calls c ! j \<longleftrightarrow>
    live c (fst (calls ! j)) (snd (calls ! j)) \<or>
    (\<exists>i < j. \<not> answers check calls c ! i \<and> key (snd (calls ! j)) = key (snd (calls ! i)) \<and>
       fst (calls ! j) < fst (calls ! i) + ttl c)"
  using assms
proof (induction calls arbitrary: c j)
  case (Cons x calls)
  obtain now k where x: "x = (now, k)" by (cases x)
  obtain seen c' where ch: "check now k c = (seen, c')" by (cases "check now k c")
  have v: "valid k" using Cons.prems(2) x by simp
  have s: "seen = live c now k" using reports [OF Cons.prems(1) v, of now] ch by simp
  have i: "inv c'" and tt: "ttl c' = ttl c" using inv_check [OF Cons.prems(1), of now k] ttl_check [of now k c] ch by simp_all
  show ?case
  proof (cases j)
    case 0
    then show ?thesis using x ch s by simp
  next
    case (Suc m)
    then have m: "m < length calls" using Cons.prems(4) by simp
    let ?t = "fst (calls ! m)" and ?k = "snd (calls ! m)"
    have "now \<le> ?t" using Cons.prems(3) x m by (simp add: image_subset_iff)
    then have l: "live c' ?t ?k \<longleftrightarrow> live c ?t ?k \<or> \<not> seen \<and> key ?k = key k \<and> ?t < now + ttl c"
      using lives [OF Cons.prems(1) v, of now ?t ?k] ch s by simp
    have "answers check calls c' ! m \<longleftrightarrow> live c' ?t ?k \<or>
        (\<exists>i < m. \<not> answers check calls c' ! i \<and> key ?k = key (snd (calls ! i)) \<and> ?t < fst (calls ! i) + ttl c)"
      using Cons.IH [OF i _ _ m] Cons.prems(2,3) tt by simp
    then show ?thesis unfolding l Suc Ex_less_Suc2 using x ch by (simp only: answers.simps Let_def prod.case nth_Cons_0 nth_Cons_Suc fst_conv snd_conv) argo
  qed
qed simp

text \<open>From a cache with nothing live: reported are exactly the repetitions within the lifetime of an accepted one.\<close>

lemma reported_iff_recent:
  assumes "inv c" and "\<And>t k. \<not> live c t k" and "\<forall>x \<in> set calls. valid (snd x)"
    and "sorted (map fst calls)" and "j < length calls"
  shows "answers check calls c ! j \<longleftrightarrow>
    (\<exists>i < j. \<not> answers check calls c ! i \<and> key (snd (calls ! j)) = key (snd (calls ! i)) \<and>
       fst (calls ! j) < fst (calls ! i) + ttl c)"
  using answer_iff [OF assms(1,3-5)] assms(2) by simp

end

section \<open>The two caches\<close>

definition cache_wf :: "replayCache \<Rightarrow> bool" where
  "cache_wf c \<longleftrightarrow> distinct (map fst (rcSeen c))"

lemma cache_enter_wf [simp]: "cache_wf c \<Longrightarrow> cache_wf (cache_enter limit now key c)"
  by (simp add: cache_wf_def cache_enter_def distinct_update distinct_filter_keys Let_def)

lemma cache_enter_ttl [simp]: "rcTtl (cache_enter limit now key c) = rcTtl c"
  by (simp add: cache_enter_def Let_def)

lemma cache_enter_lives:
  assumes "cache_wf c" and "\<not> cache_lookup now key c" and "now \<le> t"
  shows "cache_lookup t key' (cache_enter limit now key c) \<longleftrightarrow>
    cache_lookup t key' c \<or> key' = key \<and> t < now + rcTtl c"
  using assms
  by (auto simp: cache_lookup_def cache_enter_def cache_wf_def Let_def update_conv' map_of_filter_value
      simp del: map_of_eq_Some_iff Some_eq_map_of_iff split: option.splits if_splits)

interpretation reality_cache: expiring_cache SeenOrAdd "\<lambda>c t k. cache_lookup t k c" id "\<lambda>k. length k = 32" cache_wf rcTtl
  by unfold_locales (auto simp: SeenOrAdd_def cache_enter_lives)

interpretation hello_cache: expiring_cache "Seen P" "\<lambda>c t k. cache_lookup t (replay_key P k) c" "replay_key P" "\<lambda>_. True" cache_wf rcTtl
  for P by unfold_locales (auto simp: Seen_def cache_enter_lives)

lemma new_caches_wf [simp]: "cache_wf (NewRealityReplayCache ttl)" "cache_wf (newHandshakeReplayCache ttl)"
  by (simp_all add: cache_wf_def NewRealityReplayCache_def newHandshakeReplayCache_def)

lemma new_caches_empty [simp]:
  "\<not> cache_lookup t k (NewRealityReplayCache ttl)" "\<not> cache_lookup t k (newHandshakeReplayCache ttl)"
  by (simp_all add: cache_lookup_def NewRealityReplayCache_def newHandshakeReplayCache_def)

lemma replay_key_is_hmac:
  "sha_ok P \<Longrightarrow> replay_key P hello = HmacSHA256 P (str ''obsidian_handshake_replay_cache_v2'') hello"
  by (simp add: replay_key_def)

section \<open>Property\<close>

text \<open>
  Fact. Over any sequence of client hellos at non-decreasing times the hello cache of
  the server reports a hello exactly when one with the same keyed hash was let through less
  than the lifetime of the cache before: no replay within the lifetime passes, and no hello
  is refused that was not let through recently, however large the table grows and whenever
  it is purged.
\<close>
theorem hello_replays_reported_exactly:
  assumes "sha_ok P" and "sorted (map fst calls)" and "j < length calls"
  shows "answers (Seen P) calls (newHandshakeReplayCache ttl) ! j \<longleftrightarrow>
    (\<exists>i < j. \<not> answers (Seen P) calls (newHandshakeReplayCache ttl) ! i \<and>
       HmacSHA256 P (str ''obsidian_handshake_replay_cache_v2'') (snd (calls ! j)) =
       HmacSHA256 P (str ''obsidian_handshake_replay_cache_v2'') (snd (calls ! i)) \<and>
       fst (calls ! j) < fst (calls ! i) + ttl)"
  using hello_cache.reported_iff_recent [OF new_caches_wf(2) new_caches_empty(2) _ assms(2,3), of P ttl]
  by (simp add: replay_key_is_hmac [OF assms(1)]) (simp add: newHandshakeReplayCache_def)

theorem hello_replays_reported_exactly_witness:
  "sorted (map fst [(0 :: int, [1 :: byte]), (119, [1])]) \<and>
   \<not> answers (Seen toy_lib) [(0, [1]), (119, [1])] (newHandshakeReplayCache 120) ! 0 \<and>
   answers (Seen toy_lib) [(0, [1]), (119, [1])] (newHandshakeReplayCache 120) ! 1"
proof -
  let ?calls = "[(0, [1]), (119, [1])] :: (int \<times> bytes) list"
  let ?a = "answers (Seen toy_lib) ?calls (newHandshakeReplayCache 120)"
  note iff = hello_replays_reported_exactly [OF toy_sha_ok, of ?calls _ 120]
  have "\<not> ?a ! 0" using iff [of 0] by simp
  moreover from this have "?a ! 1" using iff [of 1] by (simp del: answers.simps)
  ultimately show ?thesis by simp
qed

end
