(* ===== verification/Reality_Demux.thy ===== *)
theory Reality_Demux
  imports Reality_Hello Replay_Cache
begin

text \<open>
  The second half of \<^verbatim>\<open>obsidian/reality.go\<close>: the demultiplexer that hands authenticated
  connections to the tunnel and relays every other connection, byte for byte, to the fallback
  host. A connection is the byte stream it will deliver up to its first read error, together with
  the sizes in which the network cuts it (the \<open>k\<close>-th read gives at most \<open>Suc (chunk k)\<close> bytes);
  the two clock readings, the answer of the fallback host, the random bytes of a server hello and
  the success of the write are arguments, and so is \<^verbatim>\<open>strings.ToLower\<close>, of which nothing is used.
\<close>

section \<open>Model\<close>

record RealityDemuxConfig =
  FallbackTarget :: bytes
  ServerNames :: "bytes list"
  AuthKey :: bytes
  HandshakeTimeout :: int
  DialTimeout :: int
  ReplayTTL :: int

record RealityDemuxer =
  rdCfg :: RealityDemuxConfig
  rdCache :: replayCache
  rdNames :: "bytes set"

definition DefaultDialTimeout :: int where "DefaultDialTimeout = 10 * 1000000000"
definition DefaultHandshakeTimeout :: int where "DefaultHandshakeTimeout = 5 * 1000000000"

definition NewRealityDemuxer :: "(bytes \<Rightarrow> bytes) \<Rightarrow> RealityDemuxConfig \<Rightarrow> RealityDemuxer" where
  "NewRealityDemuxer ToLower cfg =
     (let cfg = (if HandshakeTimeout cfg \<le> 0 then cfg\<lparr>HandshakeTimeout := DefaultHandshakeTimeout\<rparr> else cfg);
          cfg = (if DialTimeout cfg \<le> 0 then cfg\<lparr>DialTimeout := DefaultDialTimeout\<rparr> else cfg);
          cfg = (if ReplayTTL cfg \<le> 0 then cfg\<lparr>ReplayTTL := DefaultReplayTTL\<rparr> else cfg)
      in \<lparr>rdCfg = cfg, rdCache = NewRealityReplayCache (ReplayTTL cfg),
          rdNames = set (map (\<lambda>n. ToLower (trim_space n)) (ServerNames cfg))\<rparr>)"

text \<open>
  Repeated reads into a buffer of \<open>lim\<close> bytes until \<open>target\<close> are there: the bytes read, the rest
  of the stream and whether the target was reached. A read returns at least one byte.
\<close>

function read_until :: "(nat \<Rightarrow> nat) \<Rightarrow> nat \<Rightarrow> nat \<Rightarrow> nat \<Rightarrow> bytes \<Rightarrow> bytes \<Rightarrow> bytes \<times> bytes \<times> bool" where
  "read_until chunk k lim target got s =
     (if target \<le> length got then (got, s, True)
      else if s = [] \<or> lim \<le> length got then (got, s, False)
      else let n = min (lim - length got) (Suc (chunk k))
           in read_until chunk (Suc k) lim target (got @ take n s) (drop n s))"
  by pat_completeness auto
termination by (relation "measure (\<lambda>(chunk, k, lim, target, got, s). length s)") auto

declare read_until.simps [simp del]

datatype incoming = Relayed bytes bytes | Dropped | Admitted bytes bytes

text \<open>The fallback of every refusal: the bytes read so far go to the target, if there is one.\<close>

definition divert :: "RealityDemuxer \<Rightarrow> bytes \<Rightarrow> incoming" where
  "divert d first = (if FallbackTarget (rdCfg d) \<noteq> [] then Relayed (FallbackTarget (rdCfg d)) first else Dropped)"

text \<open>
  \<^verbatim>\<open>fetchServerHelloFromFallback\<close>: the real host is dialled, gets the client hello, and answers with a stream that ends when it
  closes or the deadline passes. What comes with the first reads is returned, with the whole first record if it is a handshake record and gets there.
\<close>

record fallback_io =
  fbDial :: bool
  fbWrite :: bool
  fbChunk :: "nat \<Rightarrow> nat"
  fbStream :: bytes

definition fetchServerHelloFromFallback :: "bytes \<Rightarrow> fallback_io \<Rightarrow> bytes res" where
  "fetchServerHelloFromFallback targetAddr io =
     (if targetAddr = [] then Inl (Errorf ''empty fallback target'')
      else if \<not> fbDial io then Inl (Errorf ''dial'')
      else if \<not> fbWrite io then Inl (Errorf ''write'')
      else case read_until (fbChunk io) 0 4096 5 [] (fbStream io) of
             (buf, s, False) \<Rightarrow> Inl (Errorf ''unexpected EOF'')
           | (buf, s, True) \<Rightarrow>
               if buf ! 0 = 0x16 then
                 let needed = 5 + unat (rd16 (subslice 3 5 buf))
                 in (case read_until (fbChunk io) 4096 needed needed buf s of (buf, s, ok) \<Rightarrow> Inr buf)
               else Inr buf)"

text \<open>\<open>fetched\<close> is the result of that call.\<close>

record reading =
  verifiedAt :: int
  seenAt :: int
  fetched :: "bytes res"
  helloRandom :: bytes
  helloShare :: bytes
  written :: bool

definition name_allowed :: "(bytes \<Rightarrow> bytes) \<Rightarrow> RealityDemuxer \<Rightarrow> bytes \<Rightarrow> bool" where
  "name_allowed ToLower d sni \<longleftrightarrow> rdNames d = {} \<or> ToLower (trim_space sni) \<in> rdNames d"

definition server_hello :: "RealityDemuxer \<Rightarrow> reading \<Rightarrow> bytes \<Rightarrow> bytes" where
  "server_hello d w sessionID =
     (if FallbackTarget (rdCfg d) \<noteq> [] then
        case fetched w of
          Inl e \<Rightarrow> buildTLSServerHelloRecord sessionID (helloRandom w) (helloShare w)
        | Inr b \<Rightarrow> if b = [] then buildTLSServerHelloRecord sessionID (helloRandom w) (helloShare w) else b
      else buildTLSServerHelloRecord sessionID (helloRandom w) (helloShare w))"

text \<open>What happens once a whole record is in the buffer (\<open>buf\<close> is \<^verbatim>\<open>buf[:n]\<close>).\<close>

definition admit :: "crypto_lib \<Rightarrow> (bytes \<Rightarrow> bytes) \<Rightarrow> reading \<Rightarrow> bytes \<Rightarrow> nat \<Rightarrow> RealityDemuxer \<Rightarrow> incoming \<times> RealityDemuxer" where
  "admit P ToLower w buf needed d =
     (case ParseTLSClientHello buf of
        Inl e \<Rightarrow> (divert d buf, d)
      | Inr (sessionID, sni) \<Rightarrow>
          if \<not> name_allowed ToLower d sni then (divert d buf, d)
          else if \<not> VerifySessionID P (verifiedAt w div 1000000000) sessionID sni (AuthKey (rdCfg d)) DefaultAuthWindowSec
          then (divert d buf, d)
          else case SeenOrAdd (seenAt w) sessionID (rdCache d) of
                 (True, c) \<Rightarrow> (divert d buf, d\<lparr>rdCache := c\<rparr>)
               | (False, c) \<Rightarrow>
                   if written w then (Admitted (server_hello d w sessionID) (drop needed buf), d\<lparr>rdCache := c\<rparr>)
                   else (Dropped, d\<lparr>rdCache := c\<rparr>))"

definition processIncoming ::
    "crypto_lib \<Rightarrow> (bytes \<Rightarrow> bytes) \<Rightarrow> (nat \<Rightarrow> nat) \<Rightarrow> reading \<Rightarrow> bytes \<Rightarrow> RealityDemuxer \<Rightarrow> incoming \<times> bytes \<times> RealityDemuxer" where
  "processIncoming P ToLower chunk w stream d =
     (case read_until chunk 0 4096 5 [] stream of
        (buf, s, False) \<Rightarrow> (divert d buf, s, d)
      | (buf, s, True) \<Rightarrow>
          if buf ! 0 \<noteq> 0x16 \<or> buf ! 1 \<noteq> 0x03 \<or> buf ! 2 < 0x01 \<or> 0x03 < buf ! 2 then (divert d buf, s, d)
          else
            let needed = 5 + unat (rd16 (subslice 3 5 buf))
            in case read_until chunk 4096 needed needed buf s of
                 (buf, s, False) \<Rightarrow> (divert d buf, s, d)
               | (buf, s, True) \<Rightarrow> (case admit P ToLower w buf needed d of (r, d') \<Rightarrow> (r, s, d')))"

text \<open>Relaying: what reaches the target and what reaches the client.\<close>

definition TransparentSNIProxy ::
    "bytes \<Rightarrow> bool \<Rightarrow> bool \<Rightarrow> bytes \<Rightarrow> bytes \<Rightarrow> bytes \<Rightarrow> (bytes \<times> bytes) res" where
  "TransparentSNIProxy targetAddr dialed wrote firstBytes fromClient fromTarget =
     (if targetAddr = [] then Inl (Errorf ''empty fallback target address'')
      else if \<not> dialed then Inl (Errorf ''failed to dial fallback backend'')
      else if firstBytes \<noteq> [] \<and> \<not> wrote then Inl (Errorf ''write'')
      else Inr (firstBytes @ fromClient, fromTarget))"

record peekedConn =
  peeked :: bytes
  pcOffset :: nat

definition newPeekedConn :: "bytes \<Rightarrow> peekedConn" where
  "newPeekedConn p = \<lparr>peeked = p, pcOffset = 0\<rparr>"

text \<open>A read with a buffer of \<open>n\<close> bytes; \<open>chunk\<close> bounds what the connection gives at once.\<close>

definition peeked_Read :: "nat \<Rightarrow> nat \<Rightarrow> peekedConn \<Rightarrow> bytes \<Rightarrow> bytes res \<times> peekedConn \<times> bytes" where
  "peeked_Read n chunk c s =
     (if pcOffset c < length (peeked c) then
        let b = take n (drop (pcOffset c) (peeked c)); offset = pcOffset c + length b
        in (Inr b, c\<lparr>pcOffset := offset, peeked := if length (peeked c) \<le> offset then [] else peeked c\<rparr>, s)
      else if s = [] then (Inl ErrEOF, c, s)
      else let m = min n (Suc chunk) in (Inr (take m s), c, drop m s))"

section \<open>Reading\<close>

lemma read_until_inv:
  "target \<le> lim \<Longrightarrow>
   (case read_until chunk k lim target got s of
      (got', s', ok) \<Rightarrow> got' @ s' = got @ s \<and> (ok \<longleftrightarrow> target \<le> length got + length s) \<and> (ok \<longrightarrow> target \<le> length got'))"
proof (induction chunk k lim target got s rule: read_until.induct)
  case (1 chunk k lim target got s)
  show ?case
  proof (cases "target \<le> length got \<or> s = []")
    case False
    let ?n = "min (lim - length got) (Suc (chunk k))"
    have "length got + length s = length (got @ take ?n s) + length (drop ?n s)" by simp
    moreover have "\<not> lim \<le> length got" using False 1(2) by linarith
    ultimately show ?thesis
      using False 1(1) [OF _ _ refl 1(2)] by (subst read_until.simps) (simp add: Let_def add.assoc del: length_append)
  qed (use 1(2) in \<open>subst read_until.simps, auto\<close>)
qed

lemma read_until_spec:
  assumes "read_until chunk k lim target got s = (got', s', ok)" and "target \<le> lim"
  shows "got' @ s' = got @ s" and "ok \<longleftrightarrow> target \<le> length got + length s" and "ok \<Longrightarrow> target \<le> length got'"
  using read_until_inv [OF assms(2), where chunk = chunk and k = k and got = got and s = s] assms(1) by simp_all

lemma read_until_length:
  "length (fst (read_until chunk k lim target got s)) \<le> max lim (length got)"
proof (induction chunk k lim target got s rule: read_until.induct)
  case (1 chunk k lim target got s)
  show ?case
  proof (cases "target \<le> length got \<or> s = [] \<or> lim \<le> length got")
    case False
    let ?n = "min (lim - length got) (Suc (chunk k))"
    have "read_until chunk k lim target got s = read_until chunk (Suc k) lim target (got @ take ?n s) (drop ?n s)"
      using False by (subst read_until.simps) (simp add: Let_def)
    moreover have "max lim (length (got @ take ?n s)) = lim" using False by auto
    ultimately show ?thesis using 1 False by (simp add: Let_def)
  qed (subst read_until.simps, auto)
qed

text \<open>A stream that begins with a whole handshake record, long enough for a server hello.\<close>

definition whole_record :: "bytes \<Rightarrow> bool" where
  "whole_record s \<longleftrightarrow> 5 \<le> length s \<and> s ! 0 = 0x16 \<and>
     (let n = unat (rd16 (subslice 3 5 s)) in 23 \<le> n \<and> n \<le> 16384 \<and> 5 + n \<le> length s)"

definition record_length :: "bytes \<Rightarrow> nat" where
  "record_length s = 5 + unat (rd16 (subslice 3 5 s))"

lemma record_length_append: "5 \<le> length b \<Longrightarrow> record_length (b @ x) = record_length b"
  by (simp add: record_length_def go_simps)

lemma fetched_record:
  assumes "fetchServerHelloFromFallback target io = Inr b" and "whole_record (fbStream io)"
  shows "whole_record b" and "length (drop (record_length b) b) \<le> 4068"
proof -
  let ?s = "fbStream io"
  let ?r = "record_length ?s"
  have w: "?s ! 0 = 0x16" "28 \<le> ?r" "?r \<le> 16389" "?r \<le> length ?s" "5 \<le> length ?s"
    using assms(2) by (simp_all add: whole_record_def record_length_def Let_def)
  obtain buf s where r: "read_until (fbChunk io) 0 4096 5 [] ?s = (buf, s, True)"
    using assms(1) by (auto simp: fetchServerHelloFromFallback_def split: if_splits prod.splits bool.splits)
  note f = read_until_spec [OF r]
  have l: "length buf \<le> 4096" "5 \<le> length buf" "?s = buf @ s" using f read_until_length [of "fbChunk io" 0 4096 5 "[]" ?s] r by simp_all
  have first: "x ! 0 = 0x16" if "?s = x @ y" "x \<noteq> []" for x y using w(1) that by (simp add: nth_append)
  have h: "buf ! 0 = 0x16" "record_length buf = ?r" using first [OF l(3)] l(2,3) record_length_append [OF l(2), of s] by force+
  obtain buf' s' ok where r': "read_until (fbChunk io) 4096 ?r ?r buf s = (buf', s', ok)" using prod_cases3 by blast
  have b: "b = buf'" using assms(1) r h(1) h(2) r' by (auto simp: fetchServerHelloFromFallback_def record_length_def Let_def split: if_splits)
  note f' = read_until_spec [OF r' order_refl]
  have "ok" using f'(2) l(3) w(4) by (metis length_append)
  then have l': "?r \<le> length b" "length b \<le> max ?r 4096" "?s = b @ s'"
    using f'(1,3) l b read_until_length [of "fbChunk io" 4096 ?r ?r buf s] r' by auto
  then have e: "record_length b = ?r" using record_length_append [of b s'] w(2) by simp
  moreover have "b ! 0 = 0x16" using first [OF l'(3)] w(2) l'(1) by force
  ultimately show "whole_record b" "length (drop (record_length b) b) \<le> 4068"
    using w(2,3) l'(1,2) by (auto simp: whole_record_def record_length_def Let_def)
qed

lemma parse_local:
  assumes "5 \<le> length r" and "length r = 5 + unat (rd16 (subslice 3 5 r))"
  shows "ParseTLSClientHello (r @ e) = ParseTLSClientHello r"
proof -
  have "subslice 3 5 (r @ e) = subslice 3 5 r" using assms(1) by (simp add: go_simps)
  moreover have "subslice 5 (length r) (r @ e) = subslice 5 (length r) r" by (simp add: go_simps)
  ultimately show ?thesis using assms by (simp add: ParseTLSClientHello_def nth_append Let_def)
qed

section \<open>What a connection presents\<close>

definition first_record :: "bytes \<Rightarrow> bytes option" where
  "first_record s =
     (let needed = 5 + unat (rd16 (subslice 3 5 s))
      in if 5 \<le> length s \<and> needed \<le> length s then Some (take needed s) else None)"

text \<open>
  The session identifier of a connection whose first record is a client hello for an allowed name
  with a valid token.
\<close>

definition presented :: "crypto_lib \<Rightarrow> (bytes \<Rightarrow> bytes) \<Rightarrow> int \<Rightarrow> RealityDemuxer \<Rightarrow> bytes \<Rightarrow> bytes option" where
  "presented P ToLower at d s =
     (case first_record s of
        None \<Rightarrow> None
      | Some r \<Rightarrow>
          case ParseTLSClientHello r of
            Inl e \<Rightarrow> None
          | Inr (sid, sni) \<Rightarrow>
              if name_allowed ToLower d sni \<and>
                 VerifySessionID P (at div 1000000000) sid sni (AuthKey (rdCfg d)) DefaultAuthWindowSec
              then Some sid else None)"

lemma presented_length: "presented P L at d s = Some sid \<Longrightarrow> length sid = 32"
  by (auto simp: presented_def VerifySessionID_def TLSSessionIDSize_def split: option.splits sum.splits if_splits)

lemma first_record_Some:
  assumes "first_record s = Some r"
  shows "s = r @ drop (length r) s" and "5 \<le> length r" and "length r = 5 + unat (rd16 (subslice 3 5 r))" and "length r \<le> length s"
proof -
  have r: "r = take (5 + unat (rd16 (subslice 3 5 s))) s" and l: "5 + unat (rd16 (subslice 3 5 s)) \<le> length s"
    using assms by (auto simp: first_record_def Let_def split: if_splits)
  then show "s = r @ drop (length r) s" "5 \<le> length r" "length r \<le> length s" by auto
  have "subslice 3 5 r = subslice 3 5 s" unfolding r by (simp add: subslice_def drop_take numeral_2_eq_2)
  then show "length r = 5 + unat (rd16 (subslice 3 5 r))" using r l by simp
qed

text \<open>Once the buffer holds the record, the outcome is that of what the connection presents.\<close>

lemma admit_presented:
  assumes "first_record s = Some r" and "buf @ s' = s" and "length r \<le> length buf"
  shows "admit P L w buf (length r) d =
    (case presented P L (verifiedAt w) d s of
       None \<Rightarrow> (divert d buf, d)
     | Some sid \<Rightarrow>
         if cache_lookup (seenAt w) sid (rdCache d) then (divert d buf, d)
         else (if written w then Admitted (server_hello d w sid) (drop (length r) buf) else Dropped,
               d\<lparr>rdCache := cache_enter 8192 (seenAt w) sid (rdCache d)\<rparr>))"
proof -
  have "take (length r) buf = r"
    using first_record_Some(1) [OF assms(1)] assms(2,3) by (metis append_eq_append_conv_if append_eq_conv_conj)
  then have "buf = r @ drop (length r) buf" by (metis append_take_drop_id)
  then have pl: "ParseTLSClientHello buf = ParseTLSClientHello r"
    using parse_local [OF first_record_Some(2,3) [OF assms(1)]] by metis
  show ?thesis
  proof (cases "presented P L (verifiedAt w) d s")
    case None
    then show ?thesis unfolding admit_def pl
      by (auto simp: presented_def assms(1) split: option.splits sum.splits if_splits)
  next
    case (Some sid)
    then show ?thesis unfolding admit_def pl using presented_length [OF Some]
      by (auto simp: presented_def assms(1) SeenOrAdd_def split: option.splits sum.splits if_splits)
  qed
qed

lemma presented_header:
  assumes "presented P L at d s = Some sid"
  shows "s ! 0 = 0x16" and "s ! 1 = 3" and "\<not> s ! 2 < 1" and "\<not> 3 < s ! 2"
proof -
  obtain r where r: "first_record s = Some r" and p: "\<exists>x. ParseTLSClientHello r = Inr x"
    using assms by (auto simp: presented_def split: option.splits sum.splits)
  have n: "s ! i = r ! i" if "i < 5" for i
    using first_record_Some(1,2) [OF r] that by (metis nth_append order_less_le_trans)
  have "r ! 0 = 0x16 \<and> r ! 1 = 3 \<and> \<not> r ! 2 < 1 \<and> \<not> 3 < r ! 2"
    using p unfolding ParseTLSClientHello_def by (metis Inl_not_Inr)
  then show "s ! 0 = 0x16" "s ! 1 = 3" "\<not> s ! 2 < 1" "\<not> 3 < s ! 2" using n [of 0] n [of 1] n [of 2] by simp_all
qed

lemma foreign_presents_nothing:
  assumes "s = buf @ s1" and "5 \<le> length s \<Longrightarrow> 5 \<le> length buf"
    and "5 \<le> length s \<Longrightarrow> buf ! 0 \<noteq> 0x16 \<or> buf ! 1 \<noteq> 0x03 \<or> buf ! 2 < 0x01 \<or> 0x03 < buf ! 2"
  shows "presented P L at d s = None"
proof (rule ccontr)
  assume "presented P L at d s \<noteq> None"
  then obtain sid where sid: "presented P L at d s = Some sid" by auto
  then have "5 \<le> length s" by (auto simp: presented_def first_record_def Let_def split: if_splits option.splits)
  moreover from this have "buf ! i = s ! i" if "i < 5" for i using that assms(2) by (simp add: assms(1) nth_append)
  ultimately show False using assms(3) presented_header [OF sid] by simp
qed

lemma process_outcome:
  obtains (admitted) sid hello extra s' where "presented P L (verifiedAt w) d s = Some sid"
      and "\<not> cache_lookup (seenAt w) sid (rdCache d)" and "first_record s = Some hello" and "s = hello @ extra @ s'"
      and "processIncoming P L chunk w s d =
        (if written w then Admitted (server_hello d w sid) extra else Dropped, s',
         d\<lparr>rdCache := cache_enter 8192 (seenAt w) sid (rdCache d)\<rparr>)"
  | (diverted) first s' where "\<And>sid. presented P L (verifiedAt w) d s = Some sid \<Longrightarrow> cache_lookup (seenAt w) sid (rdCache d)"
      and "s = first @ s'" and "processIncoming P L chunk w s d = (divert d first, s', d)"
proof -
  let ?pr = "presented P L (verifiedAt w) d s"
  obtain buf s1 ok1 where r1: "read_until chunk 0 4096 5 [] s = (buf, s1, ok1)" by (metis prod_cases3)
  note sp1 = read_until_spec [OF r1]
  have b: "s = buf @ s1" and o1: "ok1 \<longleftrightarrow> 5 \<le> length s" using sp1(1,2) by simp_all
  let ?bad = "buf ! 0 \<noteq> 0x16 \<or> buf ! 1 \<noteq> 0x03 \<or> buf ! 2 < 0x01 \<or> 0x03 < buf ! 2"
  show thesis
  proof (cases "ok1 \<and> \<not> ?bad")
    case False
    then have "?pr = None" using o1 sp1(3) by (intro foreign_presents_nothing [OF b]) auto
    then show thesis using False r1 b by (intro diverted [of buf s1]) (auto simp: processIncoming_def split: bool.splits)
  next
    case True
    let ?n = "5 + unat (rd16 (subslice 3 5 buf))"
    obtain buf2 s2 ok2 where r2: "read_until chunk 4096 ?n ?n buf s1 = (buf2, s2, ok2)" by (metis prod_cases3)
    note sp2 = read_until_spec [OF r2]
    have b2: "s = buf2 @ s2" and o2: "ok2 \<longleftrightarrow> ?n \<le> length s" using sp2(1,2) b by simp_all
    have l: "5 \<le> length buf" using True sp1(3) by simp
    then have n: "subslice 3 5 s = subslice 3 5 buf" by (simp add: b go_simps)
    have pi: "processIncoming P L chunk w s d =
        (if ok2 then case admit P L w buf2 ?n d of (r, d') \<Rightarrow> (r, s2, d') else (divert d buf2, s2, d))"
      using True r1 r2 by (auto simp: processIncoming_def Let_def split: bool.splits)
    show thesis
    proof (cases ok2)
      case False
      then have "first_record s = None" using o2 n by (simp add: first_record_def)
      then show thesis using False pi b2 by (intro diverted [of buf2 s2]) (auto simp: presented_def)
    next
      case ok: True
      then have fr: "first_record s = Some (take ?n s)" and ln: "length (take ?n s) = ?n" using o2 n l by (simp_all add: first_record_def)
      have l2: "?n \<le> length buf2" using sp2(3) ok by simp
      have tk: "take ?n s = take ?n buf2" using l2 b2 by simp
      note ad = admit_presented [OF fr b2 [symmetric], unfolded ln, OF l2, of P L w d]
      show thesis
      proof (cases "\<exists>sid. ?pr = Some sid \<and> \<not> cache_lookup (seenAt w) sid (rdCache d)")
        case True
        then obtain sid where "?pr = Some sid" "\<not> cache_lookup (seenAt w) sid (rdCache d)" by blast
        then show thesis using ad pi ok by (intro admitted [OF _ _ fr]) (use l2 in \<open>simp_all add: tk b2\<close>)
      next
        case False
        then show thesis using ad pi ok b2 by (intro diverted [of buf2 s2]) (auto split: option.splits)
      qed
    qed
  qed
qed

section \<open>Sequences of connections\<close>

type_synonym arrival = "(nat \<Rightarrow> nat) \<times> reading \<times> bytes"

fun serve :: "crypto_lib \<Rightarrow> (bytes \<Rightarrow> bytes) \<Rightarrow> arrival list \<Rightarrow> RealityDemuxer \<Rightarrow> incoming list" where
  "serve P L [] d = []"
| "serve P L ((chunk, w, s) # cs) d = (case processIncoming P L chunk w s d of (r, s', d') \<Rightarrow> r # serve P L cs d')"

fun is_admitted :: "incoming \<Rightarrow> bool" where
  "is_admitted (Admitted h e) = True"
| "is_admitted r = False"

abbreviation arrived :: "arrival \<Rightarrow> int" where "arrived a \<equiv> seenAt (fst (snd a))"

lemma length_serve [simp]: "length (serve P L cs d) = length cs"
  by (induction P L cs d rule: serve.induct) (auto split: prod.splits)

lemma presented_same:
  "rdCfg d' = rdCfg d \<Longrightarrow> rdNames d' = rdNames d \<Longrightarrow> presented P L at d' s = presented P L at d s"
  by (simp add: presented_def name_allowed_def split: option.splits sum.splits)

lemma process_state:
  assumes "processIncoming P L chunk w s d = (r, s', d')"
  shows "\<not> is_admitted r \<and> d' = d \<or>
    (\<exists>sid. presented P L (verifiedAt w) d s = Some sid \<and> \<not> cache_lookup (seenAt w) sid (rdCache d) \<and>
       d' = d\<lparr>rdCache := cache_enter 8192 (seenAt w) sid (rdCache d)\<rparr>)"
proof (rule process_outcome [of P L w d s chunk])
  fix first t assume "processIncoming P L chunk w s d = (divert d first, t, d)"
  then show ?thesis using assms by (auto simp: divert_def)
qed (use assms in auto)

text \<open>Configuration and lifetime stay, entries stay alive, an admitted identifier is entered.\<close>

lemma process_keeps:
  assumes "processIncoming P L chunk w s d = (r, s', d')" and "cache_wf (rdCache d)"
  shows "rdCfg d' = rdCfg d" "rdNames d' = rdNames d" "cache_wf (rdCache d')" "rcTtl (rdCache d') = rcTtl (rdCache d)"
    and "seenAt w \<le> t \<Longrightarrow> cache_lookup t sid (rdCache d) \<Longrightarrow> cache_lookup t sid (rdCache d')"
    and "is_admitted r \<Longrightarrow> presented P L (verifiedAt w) d s = Some sid \<Longrightarrow> \<not> cache_lookup (seenAt w) sid (rdCache d)"
    and "is_admitted r \<Longrightarrow> presented P L (verifiedAt w) d s = Some sid \<Longrightarrow> seenAt w \<le> t \<Longrightarrow>
      t < seenAt w + rcTtl (rdCache d) \<Longrightarrow> cache_lookup t sid (rdCache d')"
  using process_state [OF assms(1)] assms(2) by (auto simp: cache_enter_lives)

lemma still_live:
  assumes "cache_wf (rdCache d)" and "cache_lookup (arrived (cs ! j)) sid (rdCache d)"
    and "sorted (map arrived cs)" and "j < length cs" and "is_admitted (serve P L cs d ! j)"
  shows "presented P L (verifiedAt (fst (snd (cs ! j)))) d (snd (snd (cs ! j))) \<noteq> Some sid"
  using assms
proof (induction cs arbitrary: d j)
  case (Cons a cs)
  obtain chunk w s where a: "a = (chunk, w, s)" by (cases a)
  obtain r s' d' where pi: "processIncoming P L chunk w s d = (r, s', d')" by (metis prod_cases3)
  note k = process_keeps [OF pi Cons.prems(1)]
  show ?case
  proof (cases j)
    case 0
    then show ?thesis using k(6) [of sid] Cons.prems(2,5) a pi by auto
  next
    case (Suc m)
    then have "seenAt w \<le> arrived (cs ! m)" using Cons.prems(3,4) a by simp
    then show ?thesis
      using Cons.IH [OF k(3), of m] k(5) Cons.prems(2-5) a pi Suc presented_same [OF k(1,2)] by simp
  qed
qed simp

lemma admitted_again_after_ttl:
  assumes "cache_wf (rdCache d)" and "sorted (map arrived cs)" and "i < j" and "j < length cs"
    and "is_admitted (serve P L cs d ! i)" and "is_admitted (serve P L cs d ! j)"
    and "presented P L (verifiedAt (fst (snd (cs ! i)))) d (snd (snd (cs ! i))) = Some sid"
    and "presented P L (verifiedAt (fst (snd (cs ! j)))) d (snd (snd (cs ! j))) = Some sid"
  shows "arrived (cs ! i) + rcTtl (rdCache d) \<le> arrived (cs ! j)"
  using assms
proof (induction cs arbitrary: d i j)
  case (Cons a cs)
  obtain chunk w s where a: "a = (chunk, w, s)" by (cases a)
  obtain r s' d' where pi: "processIncoming P L chunk w s d = (r, s', d')" by (metis prod_cases3)
  note k = process_keeps [OF pi Cons.prems(1)]
  obtain n where j: "j = Suc n" using Cons.prems(3) by (cases j) auto
  have le: "seenAt w \<le> arrived (cs ! n)" using Cons.prems(2,4) a j by simp
  show ?case
  proof (cases i)
    case 0
    show ?thesis
    proof (rule ccontr)
      assume "\<not> ?thesis"
      then have "cache_lookup (arrived (cs ! n)) sid (rdCache d')"
        using k(7) [of sid "arrived (cs ! n)"] Cons.prems(5,7) a pi 0 j le by auto
      from still_live [OF k(3) this, of P L] Cons.prems(2,4,6,8) presented_same [OF k(1,2)] show False using a pi j by simp
    qed
  next
    case (Suc m)
    then show ?thesis
      using Cons.IH [OF k(3), of m n] Cons.prems(2-8) k(4) a pi j presented_same [OF k(1,2)] by simp
  qed
qed simp

section \<open>Peeked connections\<close>

definition content :: "peekedConn \<Rightarrow> bytes \<Rightarrow> bytes" where
  "content c s = drop (pcOffset c) (peeked c) @ s"

lemma peeked_Read_next:
  assumes "peeked_Read n k c s = (Inr b, c', s')"
  shows "b @ content c' s' = content c s"
  using assms append_take_drop_id [of n "drop (pcOffset c) (peeked c)"]
  by (auto simp: peeked_Read_def content_def Let_def add.commute split: if_splits)

lemma peeked_Read_progress: "content c s \<noteq> [] \<Longrightarrow> 0 < n \<Longrightarrow> \<exists>b c' s'. peeked_Read n k c s = (Inr b, c', s') \<and> b \<noteq> []"
  by (auto simp: peeked_Read_def content_def Let_def)

section \<open>Tokens in time\<close>

abbreviation second :: int where "second \<equiv> 1000000000"

text \<open>What the holder of the key presents for a name at a time.\<close>

definition authentic :: "crypto_lib \<Rightarrow> (bytes \<Rightarrow> bytes) \<Rightarrow> int \<Rightarrow> RealityDemuxer \<Rightarrow> bytes \<Rightarrow> bytes \<Rightarrow> bool" where
  "authentic P L at d s sid \<longleftrightarrow>
     (\<exists>hello sni rnd ts. first_record s = Some hello \<and> ParseTLSClientHello hello = Inr (sid, sni) \<and> name_allowed L d sni \<and>
        length rnd = 16 \<and> sid = session_token P (AuthKey (rdCfg d)) sni rnd ts \<and> \<bar>at div second - sint ts\<bar> \<le> 30)"

lemma presented_iff_authentic:
  assumes "sha_ok P" and "AuthKey (rdCfg d) \<noteq> []" and "\<bar>at div second\<bar> < 2 ^ 62"
  shows "presented P L at d s = Some sid \<longleftrightarrow> authentic P L at d s sid"
  unfolding presented_def authentic_def
  using verify_iff_token [OF assms, of DefaultAuthWindowSec]
  by (auto simp: DefaultAuthWindowSec_def split: option.splits sum.splits if_splits)

lemma authentic_token_time:
  assumes "authentic P L a d s sid" and "authentic P L b d t sid" and "sha_ok P"
  shows "b < a + 61 * second"
proof -
  obtain sni rnd ts where a: "sid = session_token P (AuthKey (rdCfg d)) sni rnd ts" "length rnd = 16" "\<bar>a div second - sint ts\<bar> \<le> 30"
    using assms(1) by (auto simp: authentic_def)
  obtain sni' rnd' ts' where b: "sid = session_token P (AuthKey (rdCfg d)) sni' rnd' ts'" "length rnd' = 16" "\<bar>b div second - sint ts'\<bar> \<le> 30"
    using assms(2) by (auto simp: authentic_def)
  have "subslice 16 24 sid = be64 ts" "subslice 16 24 sid = be64 ts'"
    using a(1,2) b(1,2) by (simp_all add: session_token_def subslice_def)
  then have "ts = ts'" by (metis be64.enc_inject)
  then have "b div second \<le> a div second + 60" using a(3) b(3) unfolding abs_le_iff by simp
  then show ?thesis by linarith
qed

section \<open>Genuine clients\<close>

lemma first_record_hello:
  assumes "hello_ok minor h"
  shows "first_record (hello_record minor h @ rest) = Some (hello_record minor h)"
proof -
  let ?hs = "1 # drop 1 (be32 (of_nat (length (hello_body h)))) @ hello_body h"
  have n: "length ?hs < 65536" using assms by (simp add: hello_ok_def)
  have r: "hello_record minor h = [0x16, 3, minor] @ be16 (of_nat (length ?hs)) @ ?hs" by (simp add: hello_record_def Let_def)
  have "unat (rd16 (subslice 3 5 (hello_record minor h @ rest))) = length ?hs"
    unfolding r using subslice_mid [of "[0x16, 3, minor]" 3 5 "be16 (of_nat (length ?hs))" "?hs @ rest"] unat_rd16_be16 [OF n] by simp
  moreover have "length (hello_record minor h) = 5 + length ?hs" unfolding r by simp
  ultimately show ?thesis by (simp add: first_record_def)
qed

lemma genuine_is_authentic:
  assumes "hello_ok minor h" and "chSession h = session_token P (AuthKey (rdCfg d)) (first_host (chExts h)) rnd ts"
    and "length rnd = 16" and "name_allowed L d (first_host (chExts h))" and "\<bar>at div second - sint ts\<bar> \<le> 30"
  shows "authentic P L at d (hello_record minor h @ rest) (chSession h)"
  unfolding authentic_def
  using first_record_hello [OF assms(1)] parse_hello_record [OF assms(1), of "[]"] assms(2-5) by auto

text \<open>A client that knows the key is let in, unless its token is in the cache.\<close>

lemma genuine_admitted:
  assumes "sha_ok P" and "AuthKey (rdCfg d) \<noteq> []" and "\<bar>verifiedAt w div second\<bar> < 2 ^ 62"
    and "authentic P L (verifiedAt w) d s sid" and "\<not> cache_lookup (seenAt w) sid (rdCache d)" and "written w"
  obtains sh extra s' where "processIncoming P L chunk w s d =
    (Admitted sh extra, s', d\<lparr>rdCache := cache_enter 8192 (seenAt w) sid (rdCache d)\<rparr>)"
proof -
  have p: "presented P L (verifiedAt w) d s = Some sid" using presented_iff_authentic [OF assms(1-3)] assms(4) by simp
  show thesis by (rule process_outcome [of P L w d s chunk]) (use p assms(5,6) that in auto)
qed

lemma replayed_hello_admitted:
  assumes "sha_ok P" and "AuthKey cfg \<noteq> []" and "ServerNames cfg = []" and "ReplayTTL cfg = 0" and "hello_ok minor h"
    and "chSession h = session_token P (AuthKey cfg) (first_host (chExts h)) rnd (of_int t)" and "length rnd = 16" and "\<bar>t\<bar> < 2 ^ 61"
    and "verifiedAt w = (t - 30) * second" and "seenAt w = (t - 30) * second" and "written w"
    and "verifiedAt v = (t + 30) * second" and "seenAt v = (t + 30) * second" and "written v"
  shows "map is_admitted (serve P L [(chunk, w, hello_record minor h), (chunk', v, hello_record minor h)]
    (NewRealityDemuxer L cfg)) = [True, True]"
proof -
  let ?d = "NewRealityDemuxer L cfg" and ?r = "hello_record minor h" and ?sid = "chSession h"
  have d: "AuthKey (rdCfg ?d) = AuthKey cfg" "rdNames ?d = {}" "rdCache ?d = NewRealityReplayCache DefaultReplayTTL"
    using assms(3,4) by (auto simp: NewRealityDemuxer_def Let_def DefaultReplayTTL_def)
  have ttl: "rcTtl (NewRealityReplayCache DefaultReplayTTL) = 60 * second"
    by (simp add: NewRealityReplayCache_def DefaultReplayTTL_def)
  have ts: "sint (of_int t :: u64) = t" using assms(8) by (simp add: signed_take_bit_int_eq_self sint_sbintrunc')
  have au: "authentic P L ((t + k) * second) ?d (?r @ []) ?sid" if "\<bar>k\<bar> \<le> 30" for k
    using assms(6,7) d that ts by (intro genuine_is_authentic [OF assms(5)]) (auto simp: name_allowed_def)
  have b: "\<bar>(t + k) * second div second\<bar> < 2 ^ 62" if "\<bar>k\<bar> \<le> 30" for k using assms(8) that by simp
  obtain sh e s' where 1: "processIncoming P L chunk w ?r ?d =
      (Admitted sh e, s', ?d\<lparr>rdCache := cache_enter 8192 (seenAt w) ?sid (rdCache ?d)\<rparr>)"
    by (rule genuine_admitted [OF assms(1), of ?d w L ?r ?sid chunk])
      (use au [of "- 30"] b [of "- 30"] assms(2,9-11) d in auto)
  let ?d' = "?d\<lparr>rdCache := cache_enter 8192 (seenAt w) ?sid (rdCache ?d)\<rparr>"
  have a: "authentic P L (verifiedAt v) ?d' ?r ?sid"
    using au [of 30] assms(12) by (auto simp: authentic_def name_allowed_def)
  have n: "\<not> cache_lookup (seenAt v) ?sid (rdCache ?d')"
    using cache_enter_lives [of "rdCache ?d" "seenAt w" ?sid "seenAt v" ?sid 8192] assms(10,13) ttl unfolding d(3) by simp
  have k: "AuthKey (rdCfg ?d') \<noteq> []" "\<bar>verifiedAt v div second\<bar> < 2 ^ 62" using assms(2,12) d(1) b [of 30] by simp_all
  obtain sh' e' s'' where 2: "processIncoming P L chunk' v ?r ?d' =
      (Admitted sh' e', s'', ?d'\<lparr>rdCache := cache_enter 8192 (seenAt v) ?sid (rdCache ?d')\<rparr>)"
    by (rule genuine_admitted [OF assms(1) k a n assms(14)])
  show ?thesis using 1 2 by simp
qed

text \<open>A concrete client, server and clock.\<close>

definition example_cfg :: RealityDemuxConfig where
  "example_cfg = \<lparr>FallbackTarget = str ''a:443'', ServerNames = [], AuthKey = [1], HandshakeTimeout = 0, DialTimeout = 0, ReplayTTL = 0\<rparr>"

definition example_hello :: client_hello where
  "example_hello = \<lparr>chVersion = [3, 3], chRandom = replicate 32 7,
     chSession = session_token toy_lib [1] [] (replicate 16 2) 100, chSuites = [0x13, 1], chCompression = [0], chExts = []\<rparr>"

definition example_reading :: "int \<Rightarrow> reading" where
  "example_reading t = \<lparr>verifiedAt = t * second, seenAt = t * second, fetched = Inl ErrEOF,
     helloRandom = replicate 32 0, helloShare = replicate 32 0, written = True\<rparr>"

lemma example_key [simp]: "AuthKey example_cfg = [1]" by (simp add: example_cfg_def)

lemma example_hello_ok: "hello_ok 3 example_hello"
  by (simp add: hello_ok_def hello_body_def example_hello_def toy_sha_ok)

lemma example_session: "chSession example_hello = session_token toy_lib (AuthKey example_cfg) (first_host (chExts example_hello)) (replicate 16 2) (of_int 100)"
  by (simp add: example_hello_def example_cfg_def first_host_def)

abbreviation example_demuxer :: RealityDemuxer where "example_demuxer \<equiv> NewRealityDemuxer id example_cfg"

lemma example_demuxer [simp]:
  "AuthKey (rdCfg example_demuxer) = [1]" "rdNames example_demuxer = {}"
  "rdCache example_demuxer = NewRealityReplayCache DefaultReplayTTL" "FallbackTarget (rdCfg example_demuxer) = str ''a:443''"
  by (simp_all add: NewRealityDemuxer_def example_cfg_def Let_def DefaultReplayTTL_def)

lemma example_authentic:
  "\<bar>t - 100\<bar> \<le> 30 \<Longrightarrow> authentic toy_lib id (t * second) example_demuxer (hello_record 3 example_hello) (chSession example_hello)"
  using genuine_is_authentic [OF example_hello_ok, of toy_lib example_demuxer "replicate 16 2" 100 id "t * second" "[]"] example_session
  by (simp add: name_allowed_def)

lemma example_admitted_twice:
  "map is_admitted (serve toy_lib id [(\<lambda>_. 0, example_reading 70, hello_record 3 example_hello),
     (\<lambda>_. 9, example_reading 130, hello_record 3 example_hello)] example_demuxer) = [True, True]"
  by (rule replayed_hello_admitted [OF toy_sha_ok _ _ _ example_hello_ok example_session])
    (simp_all add: example_cfg_def example_reading_def)

section \<open>Properties\<close>

text \<open>
  Property C26. However the network cuts its bytes, a connection is admitted exactly when its
  first TLS record is a client hello for an allowed name whose session identifier is a token made
  with the key for that name, at most 30 seconds off the server's clock, and not in the replay cache.
  The tunnel then reads exactly what follows that record, and the client gets the fallback host's
  answer or a well-formed server hello with its own identifier. Every other connection is relayed
  (or closed, if there is no fallback host) and the fallback host receives exactly the bytes the
  client sent, none lost, added or reordered; the demultiplexer is unchanged.
\<close>
theorem demux_admits_exactly_authenticated:
  assumes "sha_ok P" and "AuthKey (rdCfg d) \<noteq> []" and "\<bar>verifiedAt w div second\<bar> < 2 ^ 62"
    and "length (helloRandom w) = 32" and "length (helloShare w) = 32" and "written w"
  shows "case processIncoming P L chunk w s d of
     (Admitted sh extra, s', d') \<Rightarrow>
       (\<exists>sid hello. authentic P L (verifiedAt w) d s sid \<and> \<not> cache_lookup (seenAt w) sid (rdCache d) \<and>
          first_record s = Some hello \<and> s = hello @ content (newPeekedConn extra) s' \<and>
          (fetched w = Inr sh \<or> echoes_session sid sh))
   | (Relayed target first, s', d') \<Rightarrow>
       (\<forall>sid. authentic P L (verifiedAt w) d s sid \<longrightarrow> cache_lookup (seenAt w) sid (rdCache d)) \<and> d' = d \<and>
       target = FallbackTarget (rdCfg d) \<and> TransparentSNIProxy target True True first s' reply = Inr (s, reply)
   | (Dropped, s', d') \<Rightarrow>
       (\<forall>sid. authentic P L (verifiedAt w) d s sid \<longrightarrow> cache_lookup (seenAt w) sid (rdCache d)) \<and> d' = d \<and>
       FallbackTarget (rdCfg d) = []"
proof -
  note au = presented_iff_authentic [OF assms(1-3), of L s]
  show ?thesis
  proof (rule process_outcome [of P L w d s chunk])
    fix sid hello extra s'
    assume a: "presented P L (verifiedAt w) d s = Some sid" "\<not> cache_lookup (seenAt w) sid (rdCache d)"
      "first_record s = Some hello" "s = hello @ extra @ s'"
      "processIncoming P L chunk w s d =
        (if written w then Admitted (server_hello d w sid) extra else Dropped, s',
         d\<lparr>rdCache := cache_enter 8192 (seenAt w) sid (rdCache d)\<rparr>)"
    have "fetched w = Inr (server_hello d w sid) \<or> echoes_session sid (server_hello d w sid)"
      using server_hello_echoes [OF presented_length [OF a(1)] assms(4,5)] by (auto simp: server_hello_def split: sum.splits)
    then show ?thesis using a assms(6) au by (auto simp: content_def newPeekedConn_def)
  next
    fix first s'
    assume a: "\<And>sid. presented P L (verifiedAt w) d s = Some sid \<Longrightarrow> cache_lookup (seenAt w) sid (rdCache d)"
      "s = first @ s'" "processIncoming P L chunk w s d = (divert d first, s', d)"
    then show ?thesis using au by (auto simp: divert_def TransparentSNIProxy_def)
  qed
qed

theorem demux_admits_exactly_authenticated_witness:
  "\<exists>sh e s' d' sid. processIncoming toy_lib id (\<lambda>_. 0) (example_reading 110) (hello_record 3 example_hello @ [1, 2]) example_demuxer =
     (Admitted sh e, s', d') \<and> content (newPeekedConn e) s' = [1, 2] \<and> echoes_session sid sh"
proof -
  let ?s = "hello_record 3 example_hello @ [1, 2]" and ?w = "example_reading 110" and ?d = example_demuxer
  have "authentic toy_lib id (110 * second) ?d ?s (chSession example_hello)"
    using genuine_is_authentic [OF example_hello_ok, of toy_lib ?d "replicate 16 2" 100 id "110 * second" "[1, 2]"] example_session
    by (simp add: name_allowed_def)
  moreover obtain sh e s' d' where p: "processIncoming toy_lib id (\<lambda>_. 0) ?w ?s ?d = (Admitted sh e, s', d')"
    by (rule genuine_admitted [OF toy_sha_ok, of ?d ?w id ?s "chSession example_hello" "\<lambda>_. 0"])
      (use calculation in \<open>simp_all add: example_reading_def\<close>)
  ultimately show ?thesis
    using demux_admits_exactly_authenticated [OF toy_sha_ok, where d = ?d and w = ?w and L = id and chunk = "\<lambda>_. 0" and s = ?s] first_record_hello [OF example_hello_ok]
    by (auto simp: example_reading_def)
qed

text \<open>
  Property C27. A token is good for one connection: over any sequence of connections, if the
  same session identifier is admitted twice, then the second time is at least the lifetime of
  the replay cache after the first, and less than 61 seconds after it. With a cache lifetime of 61
  seconds or more (and one clock reading per connection) no token is admitted twice.
\<close>
theorem token_admitted_once:
  assumes "sha_ok P" and "AuthKey (rdCfg d) \<noteq> []" and "cache_wf (rdCache d)" and "sorted (map arrived cs)"
    and "\<forall>a \<in> set cs. \<bar>verifiedAt (fst (snd a)) div second\<bar> < 2 ^ 62"
    and "i < j" and "j < length cs" and "is_admitted (serve P L cs d ! i)" and "is_admitted (serve P L cs d ! j)"
    and "authentic P L (verifiedAt (fst (snd (cs ! i)))) d (snd (snd (cs ! i))) sid"
    and "authentic P L (verifiedAt (fst (snd (cs ! j)))) d (snd (snd (cs ! j))) sid"
  shows "arrived (cs ! i) + rcTtl (rdCache d) \<le> arrived (cs ! j) \<and>
    verifiedAt (fst (snd (cs ! j))) < verifiedAt (fst (snd (cs ! i))) + 61 * second"
proof -
  have "presented P L (verifiedAt (fst (snd (cs ! k)))) d (snd (snd (cs ! k))) = Some sid" if "k = i \<or> k = j" for k
    using presented_iff_authentic [OF assms(1,2), of _ L "snd (snd (cs ! k))" sid] assms(5-7,10,11) that by auto
  then show ?thesis
    using admitted_again_after_ttl [OF assms(3,4,6-9), of sid] authentic_token_time [OF assms(10,11,1)] by simp
qed

theorem token_admitted_once_witness:
  "arrived (\<lambda>_. 0, example_reading 70, []) + 60 * second \<le> arrived (\<lambda>_. 9, example_reading 130, []) \<and>
   verifiedAt (example_reading 130) < verifiedAt (example_reading 70) + 61 * second"
proof -
  let ?cs = "[(\<lambda>_. 0, example_reading 70, hello_record 3 example_hello), (\<lambda>_. 9, example_reading 130, hello_record 3 example_hello)] :: arrival list"
  have m: "is_admitted (serve toy_lib id ?cs example_demuxer ! i) = map is_admitted (serve toy_lib id ?cs example_demuxer) ! i" if "i < 2" for i
    by (rule nth_map [symmetric]) (use that in \<open>simp del: serve.simps\<close>)
  have a: "is_admitted (serve toy_lib id ?cs example_demuxer ! 0)" "is_admitted (serve toy_lib id ?cs example_demuxer ! 1)"
    using m [of 0] m [of 1] unfolding example_admitted_twice by (simp_all del: serve.simps)
  show ?thesis
    using token_admitted_once [OF toy_sha_ok, of example_demuxer ?cs 0 1 id "chSession example_hello"] a
      example_authentic [of 70] example_authentic [of 130]
    by (simp add: example_reading_def NewRealityReplayCache_def DefaultReplayTTL_def del: serve.simps)
qed

text \<open>
  Fact. The default lifetime of the replay cache, 60 seconds, is shorter than the life
  of a token: a client hello that is captured when its time stamp is 30 seconds ahead of the server's
  clock is admitted, and admitted again 60 seconds later when it is replayed byte for byte.
\<close>
theorem default_ttl_replay_gap:
  assumes "sha_ok P" and "AuthKey cfg \<noteq> []" and "ServerNames cfg = []" and "ReplayTTL cfg = 0" and "hello_ok minor h"
    and "chSession h = session_token P (AuthKey cfg) (first_host (chExts h)) rnd (of_int t)" and "length rnd = 16" and "\<bar>t\<bar> < 2 ^ 61"
    and "verifiedAt w = (t - 30) * second" and "seenAt w = (t - 30) * second" and "written w"
    and "verifiedAt v = (t + 30) * second" and "seenAt v = (t + 30) * second" and "written v"
  shows "map is_admitted (serve P L [(chunk, w, hello_record minor h), (chunk', v, hello_record minor h)]
    (NewRealityDemuxer L cfg)) = [True, True]"
  by (rule replayed_hello_admitted [OF assms])

theorem default_ttl_replay_gap_witness:
  "map is_admitted (serve toy_lib id [(\<lambda>_. 0, example_reading 70, hello_record 3 example_hello),
     (\<lambda>_. 9, example_reading 130, hello_record 3 example_hello)] example_demuxer) = [True, True]"
  by (rule default_ttl_replay_gap [OF toy_sha_ok _ _ _ example_hello_ok example_session])
    (simp_all add: example_cfg_def example_reading_def)

end
