(* ===== verification/Go_Strings.thy ===== *)
theory Go_Strings
  imports Obsidian_Prelude
begin

text \<open>
  Go strings as the lists of their runes (code points), and what the program uses of the
  packages \<^verbatim>\<open>strings\<close> and \<^verbatim>\<open>encoding/hex\<close>. The case table of Unicode enters
  as an argument for the runes outside ASCII.
\<close>

type_synonym rune = nat
type_synonym gostring = "rune list"

definition lit :: "string \<Rightarrow> gostring" where
  "lit s = map of_char s"

section \<open>Package strings and hex\<close>

definition IsSpace :: "rune \<Rightarrow> bool" where
  "IsSpace c \<longleftrightarrow> (9 \<le> c \<and> c \<le> 13) \<or> c = 32 \<or> c = 0x85 \<or> c = 0xA0 \<or> c = 0x1680 \<or>
     (0x2000 \<le> c \<and> c \<le> 0x200A) \<or> c = 0x2028 \<or> c = 0x2029 \<or> c = 0x202F \<or> c = 0x205F \<or> c = 0x3000"

definition TrimSpace :: "gostring \<Rightarrow> gostring" where
  "TrimSpace s = rev (dropWhile IsSpace (rev (dropWhile IsSpace s)))"

definition HasPrefix :: "gostring \<Rightarrow> gostring \<Rightarrow> bool" where
  "HasPrefix s p \<longleftrightarrow> take (length p) s = p"

definition TrimPrefix :: "gostring \<Rightarrow> gostring \<Rightarrow> gostring" where
  "TrimPrefix s p = (if HasPrefix s p then drop (length p) s else s)"

fun IndexByte :: "gostring \<Rightarrow> rune \<Rightarrow> nat option" where
  "IndexByte [] c = None"
| "IndexByte (x # xs) c = (if x = c then Some 0 else map_option Suc (IndexByte xs c))"

definition fromHexChar :: "rune \<Rightarrow> nat option" where
  "fromHexChar c =
     (if 48 \<le> c \<and> c \<le> 57 then Some (c - 48)
      else if 97 \<le> c \<and> c \<le> 102 then Some (c - 97 + 10)
      else if 65 \<le> c \<and> c \<le> 70 then Some (c - 65 + 10)
      else None)"

fun DecodeString :: "gostring \<Rightarrow> bytes option" where
  "DecodeString [] = Some []"
| "DecodeString [x] = None"
| "DecodeString (x # y # r) =
     do { a \<leftarrow> fromHexChar x; b \<leftarrow> fromHexChar y; bs \<leftarrow> DecodeString r;
          Some (of_nat (16 * a + b) # bs) }"

definition TrimSuffix :: "gostring \<Rightarrow> gostring \<Rightarrow> gostring" where
  "TrimSuffix s p = (if HasPrefix (rev s) (rev p) then take (length s - length p) s else s)"

fun str_Contains :: "gostring \<Rightarrow> gostring \<Rightarrow> bool" where
  "str_Contains [] p \<longleftrightarrow> p = []"
| "str_Contains (x # xs) p \<longleftrightarrow> HasPrefix (x # xs) p \<or> str_Contains xs p"

text \<open>\<^verbatim>\<open>if idx := strings.IndexAny(s, chars); idx >= 0 { s = s[:idx] }\<close>\<close>

definition cut_at_any :: "gostring \<Rightarrow> gostring \<Rightarrow> gostring" where
  "cut_at_any s chars = takeWhile (\<lambda>c. c \<notin> set chars) s"

definition ToLower :: "(rune \<Rightarrow> rune) \<Rightarrow> gostring \<Rightarrow> gostring" where
  "ToLower unicode s = map (\<lambda>c. if 65 \<le> c \<and> c \<le> 90 then c + 32 else if c < 128 then c else unicode c) s"

definition hexDigit :: "nat \<Rightarrow> rune" where
  "hexDigit n = (if n < 10 then 48 + n else 87 + n)"

definition EncodeToString :: "bytes \<Rightarrow> gostring" where
  "EncodeToString b = concat (map (\<lambda>x. [hexDigit (unat x div 16), hexDigit (unat x mod 16)]) b)"

lemma fromHexChar_hexDigit: "n < 16 \<Longrightarrow> fromHexChar (hexDigit n) = Some n"
  by (auto simp: fromHexChar_def hexDigit_def)

lemma decode_encode_hex [simp]: "DecodeString (EncodeToString b) = Some b"
proof (induction b)
  case (Cons x b)
  have "unat x div 16 < 16" "unat x mod 16 < 16" using unat_bound [of x] by auto
  moreover have "of_nat (16 * (unat x div 16) + unat x mod 16) = x" unfolding mult_div_mod_eq by simp
  ultimately show ?case using Cons by (simp add: EncodeToString_def fromHexChar_hexDigit del: of_nat_add of_nat_mult)
qed (simp add: EncodeToString_def)

lemma lit_eq_iff [simp]: "lit s = lit t \<longleftrightarrow> s = t"
  by (simp add: lit_def inj_map_eq_map [OF inj_of_char])

lemma lit_empty_iff [simp]: "lit s = [] \<longleftrightarrow> s = []" "[] = lit s \<longleftrightarrow> s = []"
  by (auto simp: lit_def)

end
