(* ===== verification/Cps_Signature.thy ===== *)
theory Cps_Signature
  imports Go_Strings Crypto_Core
begin

text \<open>
  \<^verbatim>\<open>obsidian/cps.go\<close>: the parser of protocol-signature strings and the generator of
  packets from them.
\<close>

text \<open>The data of a token is kept with its kind.\<close>

datatype cpsToken =
    tokenBytes bytes
  | tokenTime
  | tokenRand int
  | tokenRandAlnum int
  | tokenRandDigit int

section \<open>Parsing\<close>

text \<open>The accumulator of \<^verbatim>\<open>parseN\<close> is a 64-bit int: the product wraps.\<close>

fun parse_digits :: "u64 \<Rightarrow> gostring \<Rightarrow> u64 option" where
  "parse_digits n [] = Some n"
| "parse_digits n (c # cs) =
     (if c < 48 \<or> 57 < c then None else parse_digits (n * 10 + of_nat (c - 48)) cs)"

definition parseN :: "gostring \<Rightarrow> int res" where
  "parseN s =
     (case parse_digits 0 (TrimSpace s) of
        None \<Rightarrow> Inl (Errorf ''expected integer'')
      | Some n \<Rightarrow>
          if sint n \<le> 0 then Inl (Errorf ''length must be > 0'')
          else if 65535 < sint n then Inl (Errorf ''length too large'')
          else Inr (sint n))"

definition parseTag :: "gostring \<Rightarrow> cpsToken res" where
  "parseTag tag0 =
     (let tag = TrimSpace tag0
      in if tag = lit ''t'' then Inr tokenTime
         else if HasPrefix tag (lit ''b '') then
           (case DecodeString (filter (\<lambda>c. c \<noteq> 32) (TrimPrefix (TrimPrefix tag (lit ''b '')) (lit ''0x''))) of
              None \<Rightarrow> Inl (Errorf ''CPS <b>: invalid hex'')
            | Some b \<Rightarrow> Inr (tokenBytes b))
         else if HasPrefix tag (lit ''rc '') then
           (case parseN (TrimPrefix tag (lit ''rc '')) of
              Inl e \<Rightarrow> Inl (Errorf ''CPS <rc>'') | Inr n \<Rightarrow> Inr (tokenRandAlnum n))
         else if HasPrefix tag (lit ''rd '') then
           (case parseN (TrimPrefix tag (lit ''rd '')) of
              Inl e \<Rightarrow> Inl (Errorf ''CPS <rd>'') | Inr n \<Rightarrow> Inr (tokenRandDigit n))
         else if HasPrefix tag (lit ''r '') then
           (case parseN (TrimPrefix tag (lit ''r '')) of
              Inl e \<Rightarrow> Inl (Errorf ''CPS <r>'') | Inr n \<Rightarrow> Inr (tokenRand n))
         else Inl (Errorf ''CPS: unknown tag''))"

lemma length_TrimSpace: "length (TrimSpace s) \<le> length s"
  unfolding TrimSpace_def using length_dropWhile_le le_trans by (metis length_rev)

function parse_tags :: "gostring \<Rightarrow> cpsToken list res" where
  "parse_tags rest =
     (if rest = [] then Inr []
      else if hd rest \<noteq> 60 then Inl (Errorf ''CPS: expected <'')
      else case IndexByte rest 62 of
             None \<Rightarrow> Inl (Errorf ''CPS: unclosed tag'')
           | Some e \<Rightarrow>
               (case parseTag (subslice 1 e rest) of
                  Inl err \<Rightarrow> Inl err
                | Inr tok \<Rightarrow>
                    (case parse_tags (TrimSpace (drop (e + 1) rest)) of
                       Inl err \<Rightarrow> Inl err
                     | Inr toks \<Rightarrow> Inr (tok # toks))))"
  by pat_completeness auto
termination
proof (relation "measure length", simp, goal_cases)
  case (1 rest e tok)
  have "length (TrimSpace (drop (e + 1) rest)) \<le> length rest - (e + 1)"
    using length_TrimSpace [of "drop (e + 1) rest"] by simp
  moreover have "length rest > 0" using 1 by simp
  ultimately show ?case by (simp del: length_greater_0_conv)
qed

declare parse_tags.simps [simp del]

definition ParseCPS :: "gostring \<Rightarrow> cpsToken list res" where
  "ParseCPS s =
     (case parse_tags (TrimSpace s) of
        Inl e \<Rightarrow> Inl e
      | Inr toks \<Rightarrow> if toks = [] then Inl (Errorf ''CPS: empty signature'') else Inr toks)"

section \<open>Generation\<close>

definition alnumChars :: bytes where
  "alnumChars = str ''ABCDEFGHIJKLMNOPQRSTUVWXYZabcdefghijklmnopqrstuvwxyz0123456789''"

definition digitChars :: bytes where
  "digitChars = str ''0123456789''"

definition randomCharset :: "(nat \<Rightarrow> byte) \<Rightarrow> nat \<Rightarrow> int \<Rightarrow> bytes \<Rightarrow> bytes res" where
  "randomCharset rnd off n charset =
     (case RandomBytes rnd off n of
        Inl e \<Rightarrow> Inl e
      | Inr rb \<Rightarrow> Inr (map (\<lambda>b. charset ! unat (b mod of_nat (length charset))) rb))"

definition generate_token :: "(nat \<Rightarrow> byte) \<Rightarrow> nat \<Rightarrow> u32 \<Rightarrow> cpsToken \<Rightarrow> bytes res" where
  "generate_token rnd off unix tok =
     (case tok of
        tokenBytes d \<Rightarrow> Inr d
      | tokenTime \<Rightarrow> Inr (le32 unix)
      | tokenRand n \<Rightarrow> RandomBytes rnd off n
      | tokenRandAlnum n \<Rightarrow> randomCharset rnd off n alnumChars
      | tokenRandDigit n \<Rightarrow> randomCharset rnd off n digitChars)"

text \<open>\<^verbatim>\<open>Generate\<close> concatenates the chunks; each takes its random bytes after those of
  the tokens before it.\<close>

fun Generate :: "(nat \<Rightarrow> byte) \<Rightarrow> nat \<Rightarrow> u32 \<Rightarrow> cpsToken list \<Rightarrow> bytes res" where
  "Generate rnd off unix [] = Inr []"
| "Generate rnd off unix (tok # toks) =
     (case generate_token rnd off unix tok of
        Inl e \<Rightarrow> Inl e
      | Inr chunk \<Rightarrow>
          (case Generate rnd (off + length chunk) unix toks of
             Inl e \<Rightarrow> Inl e
           | Inr out \<Rightarrow> Inr (chunk @ out)))"

definition PresetQUIC :: gostring where
  "PresetQUIC = lit ''<b 0xc00000000108><rc 8><b 0x08><rc 8><b 0x0044b000000001><r 1170>''"

definition PresetDNS :: gostring where
  "PresetDNS = lit ''<r 2><b 0x010000010000000000010377777706676f6f676c6503636f6d00000100010000291000000000000000>''"

definition PresetSIP :: gostring where
  "PresetSIP = lit ''<b 0x524547495354455220736970><rc 12><b 0x20534950 2f322e30><r 80>''"

definition PresetSTUN :: gostring where
  "PresetSTUN = lit ''<b 0x000100002112a442><r 12>''"

section \<open>The textual form of a token\<close>

definition hex_digit :: "nat \<Rightarrow> rune" where
  "hex_digit d = (if d < 10 then 48 + d else 87 + d)"

definition show_byte :: "byte \<Rightarrow> gostring" where
  "show_byte b = [hex_digit (unat b div 16), hex_digit (unat b mod 16)]"

fun show_nat :: "nat \<Rightarrow> gostring" where
  "show_nat n = (if n < 10 then [48 + n] else show_nat (n div 10) @ [48 + n mod 10])"

declare show_nat.simps [simp del]

definition tag_body :: "cpsToken \<Rightarrow> gostring" where
  "tag_body tok =
     (case tok of
        tokenBytes d \<Rightarrow> lit ''b 0x'' @ concat (map show_byte d)
      | tokenTime \<Rightarrow> lit ''t''
      | tokenRand n \<Rightarrow> lit ''r '' @ show_nat (nat n)
      | tokenRandAlnum n \<Rightarrow> lit ''rc '' @ show_nat (nat n)
      | tokenRandDigit n \<Rightarrow> lit ''rd '' @ show_nat (nat n))"

definition show_token :: "cpsToken \<Rightarrow> gostring" where
  "show_token tok = 60 # tag_body tok @ [62]"

definition token_ok :: "cpsToken \<Rightarrow> bool" where
  "token_ok tok =
     (case tok of
        tokenRand n \<Rightarrow> 0 < n \<and> n \<le> 65535
      | tokenRandAlnum n \<Rightarrow> 0 < n \<and> n \<le> 65535
      | tokenRandDigit n \<Rightarrow> 0 < n \<and> n \<le> 65535
      | _ \<Rightarrow> True)"

definition token_length :: "cpsToken \<Rightarrow> nat" where
  "token_length tok =
     (case tok of tokenBytes d \<Rightarrow> length d | tokenTime \<Rightarrow> 4
      | tokenRand n \<Rightarrow> nat n | tokenRandAlnum n \<Rightarrow> nat n | tokenRandDigit n \<Rightarrow> nat n)"

section \<open>Lemmas\<close>

lemma dropWhile_hd: "s = [] \<or> \<not> Q (hd s) \<Longrightarrow> dropWhile Q s = s"
  by (cases s) auto

lemma TrimSpace_id: "s \<noteq> [] \<Longrightarrow> \<not> IsSpace (hd s) \<Longrightarrow> \<not> IsSpace (last s) \<Longrightarrow> TrimSpace s = s"
  by (simp add: TrimSpace_def dropWhile_hd hd_rev)

lemma TrimSpace_Nil [simp]: "TrimSpace [] = []"
  by (simp add: TrimSpace_def)

lemma IndexByte_append: "c \<notin> set xs \<Longrightarrow> IndexByte (xs @ c # ys) c = Some (length xs)"
  by (induction xs) auto

lemma fromHexChar_hex_digit: "d < 16 \<Longrightarrow> fromHexChar (hex_digit d) = Some d"
  by (auto simp: fromHexChar_def hex_digit_def)

lemma hex_digit_range: "d < 16 \<Longrightarrow> hex_digit d \<in> {48..57} \<union> {97..102}"
  by (auto simp: hex_digit_def)

lemma DecodeString_show: "DecodeString (concat (map show_byte d)) = Some d"
proof (induction d)
  case (Cons b d)
  have "unat b < 256" using unat_bound [of b] by simp
  then have "unat b div 16 < 16" "unat b mod 16 < 16" by auto
  moreover have "(of_nat (16 * (unat b div 16) + unat b mod 16) :: byte) = b"
    by (simp only: mult_div_mod_eq) simp
  ultimately show ?case
    using Cons by (simp add: show_byte_def fromHexChar_hex_digit del: of_nat_add of_nat_mult)
qed simp

lemma show_byte_chars: "c \<in> set (concat (map show_byte d)) \<Longrightarrow> c \<in> {48..57} \<union> {97..102}"
proof -
  assume "c \<in> set (concat (map show_byte d))"
  then obtain b where c: "c \<in> set (show_byte b)" by auto
  have "unat b < 256" using unat_bound [of b] by simp
  then have "hex_digit (unat b div 16) \<in> {48..57} \<union> {97..102}"
    "hex_digit (unat b mod 16) \<in> {48..57} \<union> {97..102}"
    by (auto intro!: hex_digit_range simp del: Un_iff)
  with c show ?thesis unfolding show_byte_def by (elim set_ConsD [elim_format] disjE) simp_all
qed

lemma show_nat_chars: "c \<in> set (show_nat n) \<Longrightarrow> 48 \<le> c \<and> c \<le> 57"
proof (induction n rule: show_nat.induct)
  case (1 n)
  then show ?case by (subst (asm) (2) show_nat.simps) (auto split: if_splits)
qed

lemma show_nat_not_Nil [simp]: "show_nat n \<noteq> []"
  by (subst show_nat.simps) simp

lemma last_show_nat: "last (show_nat n) \<noteq> 32"
  using show_nat_chars [OF last_in_set [OF show_nat_not_Nil], of n] by auto

lemma parse_digits_append:
  "(\<forall>c \<in> set xs. 48 \<le> c \<and> c \<le> 57) \<Longrightarrow>
   parse_digits a (xs @ ys) = parse_digits (foldl (\<lambda>n c. n * 10 + of_nat (c - 48)) a xs) ys"
  by (induction xs arbitrary: a) auto

lemma foldl_show_nat: "foldl (\<lambda>n c. n * 10 + of_nat (c - 48)) 0 (show_nat n) = (of_nat n :: u64)"
proof (induction n rule: show_nat.induct)
  case (1 n)
  have "of_nat (n div 10) * 10 + of_nat (n mod 10) = (of_nat (n div 10 * 10 + n mod 10) :: u64)"
    by (simp only: of_nat_add of_nat_mult of_nat_numeral)
  then have "of_nat (n div 10) * 10 + of_nat (n mod 10) = (of_nat n :: u64)" by (simp only: div_mult_mod_eq)
  with 1 show ?case
    by (cases "n < 10"; subst show_nat.simps) simp_all
qed

lemma parse_digits_show: "parse_digits 0 (show_nat n) = Some (of_nat n)"
  using parse_digits_append [of "show_nat n" 0 "[]"] show_nat_chars by (auto simp: foldl_show_nat)

lemma sint_of_nat_small: "n \<le> 65535 \<Longrightarrow> sint (of_nat n :: u64) = int n"
  by (simp add: signed_of_nat signed_take_bit_int_eq_self)

lemma digit_not_space: "48 \<le> c \<Longrightarrow> c \<le> 122 \<Longrightarrow> \<not> IsSpace c"
  by (auto simp: IsSpace_def)

lemma parseN_show:
  assumes "0 < n" and "n \<le> 65535"
  shows "parseN (show_nat (nat n)) = Inr n"
proof -
  have c: "48 \<le> c \<and> c \<le> 57" if "c \<in> set (show_nat (nat n))" for c using that by (rule show_nat_chars)
  have T: "TrimSpace (show_nat (nat n)) = show_nat (nat n)"
    using c [OF hd_in_set [OF show_nat_not_Nil]] c [OF last_in_set [OF show_nat_not_Nil]]
    by (intro TrimSpace_id) (auto simp: digit_not_space)
  have "sint (of_nat (nat n) :: u64) = n" using assms sint_of_nat_small [of "nat n"] by simp
  then show ?thesis
    unfolding parseN_def T parse_digits_show option.case using assms by simp
qed

lemma tag_body_chars: "c \<in> set (tag_body tok) \<Longrightarrow> c = 32 \<or> (48 \<le> c \<and> c \<le> 57) \<or> (97 \<le> c \<and> c \<le> 122)"
  using show_byte_chars [of c] show_nat_chars [of c]
  by (cases tok) (auto simp: tag_body_def lit_def simp del: set_concat set_map)

lemma tag_body_trimmed: "TrimSpace (tag_body tok) = tag_body tok"
proof (rule TrimSpace_id)
  have h: "hd (tag_body tok) \<in> {98, 114, 116}" "tag_body tok \<noteq> []"
    by (cases tok; simp add: tag_body_def lit_def)+
  then show "tag_body tok \<noteq> []" "\<not> IsSpace (hd (tag_body tok))" by (auto simp: IsSpace_def)
  have "last (tag_body tok) \<noteq> 32"
  proof (cases tok)
    case (tokenBytes d)
    have "last (concat (map show_byte d)) \<noteq> 32" if "concat (map show_byte d) \<noteq> []"
      using show_byte_chars [OF last_in_set [OF that]] by auto
    then show ?thesis by (auto simp: tokenBytes tag_body_def lit_def last_append simp del: concat_eq_Nil_conv)
  qed (simp_all add: tag_body_def lit_def last_show_nat)
  with tag_body_chars [OF last_in_set [OF h(2)]] show "\<not> IsSpace (last (tag_body tok))"
    by (auto simp: IsSpace_def)
qed

lemma parseTag_body: "token_ok tok \<Longrightarrow> parseTag (tag_body tok) = Inr tok"
proof -
  assume ok: "token_ok tok"
  have f: "filter (\<lambda>c. c \<noteq> 32) (concat (map show_byte d)) = concat (map show_byte d)" for d
    by (rule filter_True) (auto dest: show_byte_chars simp del: set_concat set_map)
  show ?thesis
    unfolding parseTag_def tag_body_trimmed Let_def
    using ok by (cases tok)
      (simp_all add: tag_body_def lit_def HasPrefix_def TrimPrefix_def f DecodeString_show parseN_show token_ok_def)
qed

lemma TrimSpace_show: "TrimSpace (concat (map show_token toks)) = concat (map show_token toks)"
proof (cases toks rule: rev_cases)
  case (snoc ts t)
  have "hd (concat (map show_token toks)) = 60 \<and> concat (map show_token toks) \<noteq> []"
    by (cases ts) (simp_all add: snoc show_token_def)
  moreover have "last (concat (map show_token toks)) = 62" by (simp add: snoc show_token_def)
  ultimately show ?thesis by (intro TrimSpace_id) (simp_all add: IsSpace_def)
qed simp

lemma parse_tags_show:
  "\<forall>tok \<in> set toks. token_ok tok \<Longrightarrow> parse_tags (concat (map show_token toks)) = Inr toks"
proof (induction toks)
  case Nil
  show ?case by (subst parse_tags.simps) simp
next
  case (Cons tok toks)
  define rest where "rest = concat (map show_token toks)"
  have trim: "TrimSpace rest = rest" unfolding rest_def by (rule TrimSpace_show)
  have "62 \<notin> set (60 # tag_body tok)" using tag_body_chars [of 62 tok] by auto
  from IndexByte_append [OF this, of rest]
  have I: "IndexByte (60 # tag_body tok @ 62 # rest) 62 = Some (Suc (length (tag_body tok)))" by simp
  have e: "concat (map show_token (tok # toks)) = 60 # tag_body tok @ 62 # rest"
    by (simp add: show_token_def rest_def)
  have "parse_tags rest = Inr toks" using Cons by (simp add: rest_def)
  then show ?case
    unfolding e using Cons.prems I
    by (subst parse_tags.simps) (simp add: subslice_def parseTag_body trim)
qed

lemma ParseCPS_show:
  "toks \<noteq> [] \<Longrightarrow> \<forall>tok \<in> set toks. token_ok tok \<Longrightarrow> ParseCPS (concat (map show_token toks)) = Inr toks"
  by (simp add: ParseCPS_def TrimSpace_show parse_tags_show)

lemma parseN_range: "parseN s = Inr n \<Longrightarrow> 0 < n \<and> n \<le> 65535"
  by (auto simp: parseN_def split: option.splits if_splits)

lemma parseTag_ok: "parseTag s = Inr tok \<Longrightarrow> token_ok tok"
  by (auto simp: parseTag_def Let_def token_ok_def dest: parseN_range split: if_splits option.splits sum.splits)

lemma parse_tags_ok: "parse_tags s = Inr toks \<Longrightarrow> \<forall>tok \<in> set toks. token_ok tok"
proof (induction s arbitrary: toks rule: parse_tags.induct)
  case (1 rest)
  show ?case
  proof (cases "toks = []")
    case False
    then obtain e tok ts where "rest \<noteq> []" "\<not> hd rest \<noteq> 60" "IndexByte rest 62 = Some e"
      and t: "parseTag (subslice 1 e rest) = Inr tok"
      and "parse_tags (TrimSpace (drop (e + 1) rest)) = Inr ts" and toks: "toks = tok # ts"
      using 1(2) by (subst (asm) parse_tags.simps) (auto split: if_splits option.splits sum.splits)
    then have "\<forall>tok \<in> set ts. token_ok tok" by (intro 1(1))
    with toks parseTag_ok [OF t] show ?thesis by simp
  qed simp
qed

lemma generate_token_ok:
  "token_ok tok \<Longrightarrow> \<exists>b. generate_token rnd off unix tok = Inr b \<and> length b = token_length tok"
  by (auto simp: generate_token_def token_ok_def token_length_def randomCharset_def RandomBytes_def
      split: cpsToken.splits)

lemma Generate_ok:
  "\<forall>tok \<in> set toks. token_ok tok \<Longrightarrow>
   \<exists>b. Generate rnd off unix toks = Inr b \<and> length b = sum_list (map token_length toks)"
proof (induction toks arbitrary: off)
  case (Cons tok toks)
  then obtain b where b: "generate_token rnd off unix tok = Inr b" "length b = token_length tok"
    using generate_token_ok by fastforce
  then show ?case using Cons.IH [of "off + length b"] Cons.prems by auto
qed simp

section \<open>Properties\<close>

text \<open>
  Property C18. Parsing inverts the textual form: every non-empty sequence of tokens whose
  lengths lie between 1 and 65535 is written as a signature string that parses back to it;
  and conversely every signature the parser accepts has such tokens, so that generating a
  packet from it cannot fail and gives exactly the sum of the token lengths.
\<close>
theorem cps_round_trip_and_generate:
  assumes "toks \<noteq> []" and "\<forall>tok \<in> set toks. token_ok tok" and "ParseCPS s = Inr toks'"
  shows "ParseCPS (concat (map show_token toks)) = Inr toks \<and>
         (\<exists>pkt. Generate rnd off unix toks' = Inr pkt \<and> length pkt = sum_list (map token_length toks'))"
proof
  show "ParseCPS (concat (map show_token toks)) = Inr toks"
    using assms(1,2) by (rule ParseCPS_show)
  have "\<forall>tok \<in> set toks'. token_ok tok"
    using assms(3) parse_tags_ok by (auto simp: ParseCPS_def split: sum.splits if_splits)
  then show "\<exists>pkt. Generate rnd off unix toks' = Inr pkt \<and> length pkt = sum_list (map token_length toks')"
    by (rule Generate_ok)
qed

lemmas show_defs = show_token_def tag_body_def show_byte_def hex_digit_def show_nat.simps lit_def

lemma ParseCPS_PresetSTUN:
  "ParseCPS PresetSTUN = Inr [tokenBytes [0, 1, 0, 0, 0x21, 0x12, 0xa4, 0x42], tokenRand 12]"
proof -
  have e: "PresetSTUN = concat (map show_token [tokenBytes [0, 1, 0, 0, 0x21, 0x12, 0xa4, 0x42], tokenRand 12])"
    by (simp add: PresetSTUN_def show_defs)
  show ?thesis unfolding e by (rule ParseCPS_show) (simp_all add: token_ok_def)
qed

lemma ParseCPS_PresetQUIC:
  "ParseCPS PresetQUIC = Inr [tokenBytes [0xc0, 0, 0, 0, 1, 8], tokenRandAlnum 8, tokenBytes [8],
     tokenRandAlnum 8, tokenBytes [0, 0x44, 0xb0, 0, 0, 0, 1], tokenRand 1170]"
proof -
  have e: "PresetQUIC = concat (map show_token [tokenBytes [0xc0, 0, 0, 0, 1, 8], tokenRandAlnum 8, tokenBytes [8],
     tokenRandAlnum 8, tokenBytes [0, 0x44, 0xb0, 0, 0, 0, 1], tokenRand 1170])"
    by (simp add: PresetQUIC_def show_defs)
  show ?thesis unfolding e by (rule ParseCPS_show) (simp_all add: token_ok_def)
qed

lemma ParseCPS_PresetDNS:
  "ParseCPS PresetDNS = Inr [tokenRand 2, tokenBytes [1, 0, 0, 1, 0, 0, 0, 0, 0, 1, 3, 0x77, 0x77, 0x77, 6,
     0x67, 0x6f, 0x6f, 0x67, 0x6c, 0x65, 3, 0x63, 0x6f, 0x6d, 0, 0, 1, 0, 1, 0, 0, 0x29, 0x10, 0, 0, 0, 0, 0, 0, 0]]"
proof -
  have e: "PresetDNS = concat (map show_token [tokenRand 2, tokenBytes [1, 0, 0, 1, 0, 0, 0, 0, 0, 1, 3, 0x77, 0x77, 0x77, 6,
     0x67, 0x6f, 0x6f, 0x67, 0x6c, 0x65, 3, 0x63, 0x6f, 0x6d, 0, 0, 1, 0, 1, 0, 0, 0x29, 0x10, 0, 0, 0, 0, 0, 0, 0]])"
    by (simp add: PresetDNS_def show_defs)
  show ?thesis unfolding e by (rule ParseCPS_show) (simp_all add: token_ok_def)
qed

lemma preset_generates:
  assumes "ParseCPS s = Inr toks"
  shows "\<exists>pkt. Generate rnd off unix toks = Inr pkt \<and> length pkt = sum_list (map token_length toks)"
  by (rule Generate_ok) (use assms parse_tags_ok in \<open>auto simp: ParseCPS_def split: sum.splits if_splits\<close>)

theorem cps_round_trip_and_generate_witness:
  "ParseCPS (concat (map show_token [tokenTime, tokenRandDigit 7])) = Inr [tokenTime, tokenRandDigit 7] \<and>
   (\<exists>pkt. Generate (\<lambda>i. of_nat i) 0 9 [tokenBytes [0, 1, 0, 0, 0x21, 0x12, 0xa4, 0x42], tokenRand 12] = Inr pkt \<and>
          length pkt = 20)"
  using cps_round_trip_and_generate [OF _ _ ParseCPS_PresetSTUN, of "[tokenTime, tokenRandDigit 7]" "\<lambda>i. of_nat i" 0 9]
  by (simp add: token_ok_def token_length_def)

text \<open>
  Fact. The built-in QUIC, STUN and DNS signatures parse, and whatever the random bytes and the clock
  they generate packets of the size the protocol they imitate requires: 1200 bytes for a
  QUIC Initial, a 20-byte STUN header carrying the magic cookie, 43 bytes for the DNS query.
\<close>
theorem cps_presets:
  "(\<exists>toks pkt. ParseCPS PresetQUIC = Inr toks \<and> Generate rnd off unix toks = Inr pkt \<and> length pkt = 1200) \<and>
   (\<exists>toks pkt. ParseCPS PresetSTUN = Inr toks \<and> Generate rnd off unix toks = Inr pkt \<and> length pkt = 20 \<and>
      subslice 4 8 pkt = [0x21, 0x12, 0xA4, 0x42]) \<and>
   (\<exists>toks pkt. ParseCPS PresetDNS = Inr toks \<and> Generate rnd off unix toks = Inr pkt \<and> length pkt = 43)"
proof (intro conjI)
  show "\<exists>toks pkt. ParseCPS PresetQUIC = Inr toks \<and> Generate rnd off unix toks = Inr pkt \<and> length pkt = 1200"
    using preset_generates [OF ParseCPS_PresetQUIC, of rnd off unix] ParseCPS_PresetQUIC
    by (auto simp: token_length_def)
  show "\<exists>toks pkt. ParseCPS PresetSTUN = Inr toks \<and> Generate rnd off unix toks = Inr pkt \<and> length pkt = 20 \<and>
      subslice 4 8 pkt = [0x21, 0x12, 0xA4, 0x42]"
    by (simp add: ParseCPS_PresetSTUN generate_token_def RandomBytes_def subslice_def)
  show "\<exists>toks pkt. ParseCPS PresetDNS = Inr toks \<and> Generate rnd off unix toks = Inr pkt \<and> length pkt = 43"
    using preset_generates [OF ParseCPS_PresetDNS, of rnd off unix] ParseCPS_PresetDNS
    by (auto simp: token_length_def)
qed

text \<open>
  Fact. The length of a random tag is accumulated in a 64-bit int that wraps: a
  length of \<open>2\<^sup>6\<^sup>4 + 1\<close> is not refused as too large but accepted as 1.
\<close>
theorem cps_length_wraps:
  "ParseCPS (lit ''<r 18446744073709551617>'') = Inr [tokenRand 1]"
  by (simp add: ParseCPS_def parse_tags.simps lit_def TrimSpace_def IsSpace_def parseTag_def HasPrefix_def
      TrimPrefix_def parseN_def subslice_def)

end
