(* ===== verification/Header_Ranges.thy ===== *)
theory Header_Ranges
  imports Obsidian_Prelude
begin

text \<open>
  \<^verbatim>\<open>obsidian/protocol.go\<close>, the range-based packet types: \<^verbatim>\<open>HeaderRange\<close>,
  \<^verbatim>\<open>HeaderConfig\<close> and the classification of a received type identifier. A packet
  type is a \<^verbatim>\<open>uint8\<close>, so that the default branches of the switches are modelled.
\<close>

type_synonym PacketType = byte

abbreviation PacketData :: PacketType where "PacketData \<equiv> 1"
abbreviation PacketKeepalive :: PacketType where "PacketKeepalive \<equiv> 2"
abbreviation PacketNoise :: PacketType where "PacketNoise \<equiv> 3"
abbreviation PacketHandshake :: PacketType where "PacketHandshake \<equiv> 4"
abbreviation PacketClose :: PacketType where "PacketClose \<equiv> 5"

definition known_type :: "PacketType \<Rightarrow> bool" where
  "known_type pt \<longleftrightarrow> pt \<in> {PacketData, PacketKeepalive, PacketNoise, PacketHandshake, PacketClose}"

record HeaderRange =
  rMin :: u32
  rMax :: u32

definition Pick :: "u32 \<Rightarrow> HeaderRange \<Rightarrow> u32 option" where
  "Pick draw h =
     (if rMax h \<le> rMin h then Some (rMin h)
      else case Uint32N draw (rMax h - rMin h + 1) of
             None \<Rightarrow> None
           | Some v \<Rightarrow> Some (rMin h + v))"

definition Contains :: "HeaderRange \<Rightarrow> u32 \<Rightarrow> bool" where
  "Contains h v \<longleftrightarrow> rMin h \<le> v \<and> v \<le> rMax h"

record HeaderConfig =
  hData :: HeaderRange
  hKeepalive :: HeaderRange
  hNoise :: HeaderRange
  hHandshake :: HeaderRange
  hClose :: HeaderRange

definition DefaultHeaderConfig :: HeaderConfig where
  "DefaultHeaderConfig =
     \<lparr>hData = \<lparr>rMin = 0x10000000, rMax = 0x1FFFFFFF\<rparr>,
      hKeepalive = \<lparr>rMin = 0x20000000, rMax = 0x2FFFFFFF\<rparr>,
      hNoise = \<lparr>rMin = 0x30000000, rMax = 0x3FFFFFFF\<rparr>,
      hHandshake = \<lparr>rMin = 0x40000000, rMax = 0x4FFFFFFF\<rparr>,
      hClose = \<lparr>rMin = 0x50000000, rMax = 0x5FFFFFFF\<rparr>\<rparr>"

text \<open>\<^verbatim>\<open>Validate\<close>: the inner loop over \<open>j > i\<close>, then the outer loop over \<open>i\<close>.\<close>

definition overlap :: "HeaderRange \<Rightarrow> HeaderRange \<Rightarrow> bool" where
  "overlap a b \<longleftrightarrow> rMin a \<le> rMax b \<and> rMin b \<le> rMax a"

fun validate_from :: "HeaderRange \<Rightarrow> HeaderRange list \<Rightarrow> unit res" where
  "validate_from a [] = Inr ()"
| "validate_from a (b # bs) =
     (if overlap a b then Inl (Errorf ''header ranges overlap'') else validate_from a bs)"

fun validate_all :: "HeaderRange list \<Rightarrow> unit res" where
  "validate_all [] = Inr ()"
| "validate_all (a # as) =
     (case validate_from a as of Inl e \<Rightarrow> Inl e | Inr _ \<Rightarrow> validate_all as)"

definition Validate :: "HeaderConfig \<Rightarrow> unit res" where
  "Validate hc = validate_all [hData hc, hKeepalive hc, hNoise hc, hHandshake hc, hClose hc]"

definition typeIDToPacketType :: "HeaderConfig \<Rightarrow> u32 \<Rightarrow> PacketType res" where
  "typeIDToPacketType hc v =
     (if Contains (hData hc) v then Inr PacketData
      else if Contains (hKeepalive hc) v then Inr PacketKeepalive
      else if Contains (hNoise hc) v then Inr PacketNoise
      else if Contains (hHandshake hc) v then Inr PacketHandshake
      else if Contains (hClose hc) v then Inr PacketClose
      else Inl (Errorf ''unknown type-id''))"

definition rangeFor :: "HeaderConfig \<Rightarrow> PacketType \<Rightarrow> HeaderRange" where
  "rangeFor hc pt =
     (if pt = PacketData then hData hc
      else if pt = PacketKeepalive then hKeepalive hc
      else if pt = PacketNoise then hNoise hc
      else if pt = PacketHandshake then hHandshake hc
      else if pt = PacketClose then hClose hc
      else hData hc)"

section \<open>Lemmas\<close>

lemma known_typeE:
  assumes "known_type pt"
  obtains "pt = PacketData" | "pt = PacketKeepalive" | "pt = PacketNoise" | "pt = PacketHandshake" | "pt = PacketClose"
  using assms unfolding known_type_def by blast

lemma known_type_simps [simp]:
  "known_type PacketData" "known_type PacketKeepalive" "known_type PacketNoise"
  "known_type PacketHandshake" "known_type PacketClose"
  by (simp_all add: known_type_def)

lemma validate_from_eq:
  "validate_from a bs =
     (if \<exists>b \<in> set bs. overlap a b then Inl (Errorf ''header ranges overlap'') else Inr ())"
  by (induction bs) auto

lemma validate_all_Inr: "validate_all as = Inr u \<longleftrightarrow> sorted_wrt (\<lambda>a b. \<not> overlap a b) as"
  by (induction as) (auto simp: validate_from_eq)

lemma Contains_overlap: "Contains a v \<Longrightarrow> Contains b v \<Longrightarrow> overlap a b"
  by (auto simp: Contains_def overlap_def)

lemma Pick_Contains:
  assumes "rMin h \<le> rMax h" and "Pick draw h = Some v"
  shows "Contains h v"
proof (cases "rMax h \<le> rMin h")
  case True
  with assms show ?thesis by (auto simp: Pick_def Contains_def)
next
  case False
  with assms obtain d where d: "Uint32N draw (rMax h - rMin h + 1) = Some d" "v = rMin h + d"
    by (auto simp: Pick_def split: option.splits)
  have "d < rMax h - rMin h + 1" using Uint32N_Some [OF d(1)] .
  then have "d \<le> rMax h - rMin h"
    by (metis inc_le linorder_not_le word_le_less_eq)
  moreover have "rMin h \<le> rMax h" using assms(1) .
  ultimately show ?thesis
    using d(2) unfolding Contains_def by unat_arith
qed

lemma Pick_None_iff:
  "Pick draw h = None \<longleftrightarrow> rMin h = 0 \<and> rMax h = - 1"
proof
  assume n: "Pick draw h = None"
  then have lt: "rMin h < rMax h" and z: "rMax h - rMin h + 1 = 0"
    by (auto simp: Pick_def Uint32N_def not_le split: option.splits if_splits)
  have "rMax h - rMin h = - 1" using z by (simp add: eq_neg_iff_add_eq_0)
  then have "unat (rMax h) - unat (rMin h) = unat (- 1 :: u32)"
    using lt unat_sub [of "rMin h" "rMax h"] by simp
  moreover have "unat (rMax h) \<le> unat (- 1 :: u32)"
    using word_n1_ge [of "rMax h"] by (simp only: word_le_nat_alt)
  moreover have "unat (rMin h) < unat (rMax h)" using lt by (simp only: word_less_nat_alt)
  moreover have "a - b = m \<Longrightarrow> a \<le> m \<Longrightarrow> b < a \<Longrightarrow> b = 0 \<and> a = m" for a b m :: nat
    by linarith
  ultimately have "unat (rMin h) = 0 \<and> unat (rMax h) = unat (- 1 :: u32)" by blast
  then show "rMin h = 0 \<and> rMax h = - 1" 
    by (blast intro: unat_eq_zero [THEN iffD1] word_unat_eq_iff [THEN iffD2])
qed (simp add: Pick_def Uint32N_def)

lemma Validate_Inr:
  "Validate hc = Inr () \<longleftrightarrow>
     \<not> overlap (hData hc) (hKeepalive hc) \<and> \<not> overlap (hData hc) (hNoise hc) \<and>
     \<not> overlap (hData hc) (hHandshake hc) \<and> \<not> overlap (hData hc) (hClose hc) \<and>
     \<not> overlap (hKeepalive hc) (hNoise hc) \<and> \<not> overlap (hKeepalive hc) (hHandshake hc) \<and>
     \<not> overlap (hKeepalive hc) (hClose hc) \<and> \<not> overlap (hNoise hc) (hHandshake hc) \<and>
     \<not> overlap (hNoise hc) (hClose hc) \<and> \<not> overlap (hHandshake hc) (hClose hc)"
  unfolding Validate_def validate_all_Inr by simp

lemma Validate_disjoint:
  assumes "Validate hc = Inr ()" and "known_type a" and "known_type b"
    and "Contains (rangeFor hc a) v" and "Contains (rangeFor hc b) v"
  shows "a = b"
proof -
  have "overlap (rangeFor hc a) (rangeFor hc b)" "overlap (rangeFor hc b) (rangeFor hc a)"
    using assms(4,5) by (blast intro: Contains_overlap)+
  with assms(1) show ?thesis
    unfolding Validate_Inr
    by (rule_tac known_typeE [OF assms(2)]; rule_tac known_typeE [OF assms(3)]; simp add: rangeFor_def)
qed

lemma typeIDToPacketType_Inr:
  "typeIDToPacketType hc v = Inr pt \<Longrightarrow> known_type pt \<and> Contains (rangeFor hc pt) v"
  by (auto simp: typeIDToPacketType_def rangeFor_def split: if_splits)

lemma typeIDToPacketType_ex:
  "known_type pt \<Longrightarrow> Contains (rangeFor hc pt) v \<Longrightarrow> \<exists>pt'. typeIDToPacketType hc v = Inr pt'"
  by (erule known_typeE) (auto simp: typeIDToPacketType_def rangeFor_def)

lemma typeIDToPacketType_iff:
  assumes "Validate hc = Inr ()"
  shows "typeIDToPacketType hc v = Inr pt \<longleftrightarrow> known_type pt \<and> Contains (rangeFor hc pt) v"
proof
  assume R: "known_type pt \<and> Contains (rangeFor hc pt) v"
  then obtain pt' where "typeIDToPacketType hc v = Inr pt'"
    using typeIDToPacketType_ex by blast
  with R show "typeIDToPacketType hc v = Inr pt"
    using Validate_disjoint [OF assms] typeIDToPacketType_Inr by blast
qed (rule typeIDToPacketType_Inr)

lemma Validate_Pick_defined:
  assumes "Validate hc = Inr ()"
  shows "Pick draw (rangeFor hc pt) \<noteq> None"
proof
  assume "Pick draw (rangeFor hc pt) = None"
  then have full: "rMin (rangeFor hc pt) = 0" "rMax (rangeFor hc pt) = - 1"
    by (simp_all add: Pick_None_iff)
  then have o: "overlap (rangeFor hc pt) b" "overlap b (rangeFor hc pt)" for b
    by (simp_all add: overlap_def word_coorder.extremum)
  have "rangeFor hc pt \<in> {hData hc, hKeepalive hc, hNoise hc, hHandshake hc, hClose hc}"
    by (simp add: rangeFor_def)
  then show False
    using assms o(1) [of "hKeepalive hc"] o(2) [of "hData hc"] unfolding Validate_Inr by auto
qed

definition headers_ok :: "HeaderConfig \<Rightarrow> bool" where
  "headers_ok hc \<longleftrightarrow> Validate hc = Inr () \<and>
     (\<forall>pt. known_type pt \<longrightarrow> rMin (rangeFor hc pt) \<le> rMax (rangeFor hc pt))"

lemma DefaultHeaderConfig_ok [simp]: "headers_ok DefaultHeaderConfig"
  unfolding headers_ok_def Validate_Inr
  by (auto simp: DefaultHeaderConfig_def overlap_def rangeFor_def elim!: known_typeE)

lemma Pick_classified:
  assumes "headers_ok hc" and "known_type pt"
  obtains v where "Pick draw (rangeFor hc pt) = Some v" and "typeIDToPacketType hc v = Inr pt"
proof -
  have V: "Validate hc = Inr ()" and le: "rMin (rangeFor hc pt) \<le> rMax (rangeFor hc pt)"
    using assms by (auto simp: headers_ok_def)
  obtain v where v: "Pick draw (rangeFor hc pt) = Some v"
    using Validate_Pick_defined [OF V] by blast
  then show thesis
    using that assms(2) typeIDToPacketType_iff [OF V] Pick_Contains [OF le v] by blast
qed

section \<open>Properties\<close>

text \<open>
  Fact. Once \<^verbatim>\<open>Validate\<close> accepts a header configuration, a received type
  identifier is classified as a packet type exactly when it lies in that type's range:
  the order of the switch in \<^verbatim>\<open>typeIDToPacketType\<close> does not matter, and no draw of
  \<^verbatim>\<open>Pick\<close> panics; an identifier picked from a range that is not inverted is
  classified as the type it was picked for.
\<close>
theorem validated_type_ids_unambiguous:
  assumes "Validate hc = Inr ()"
  shows "(typeIDToPacketType hc v = Inr pt \<longleftrightarrow> known_type pt \<and> Contains (rangeFor hc pt) v) \<and>
         Pick draw (rangeFor hc pt) \<noteq> None \<and>
         (known_type pt \<and> rMin (rangeFor hc pt) \<le> rMax (rangeFor hc pt) \<longrightarrow>
            typeIDToPacketType hc (the (Pick draw (rangeFor hc pt))) = Inr pt)"
proof (intro conjI impI)
  show some: "Pick draw (rangeFor hc pt) \<noteq> None" by (rule Validate_Pick_defined [OF assms])
  assume k: "known_type pt \<and> rMin (rangeFor hc pt) \<le> rMax (rangeFor hc pt)"
  obtain w where w: "Pick draw (rangeFor hc pt) = Some w" using some by blast
  have "Contains (rangeFor hc pt) w" using Pick_Contains [OF conjunct2 [OF k] w] .
  then show "typeIDToPacketType hc (the (Pick draw (rangeFor hc pt))) = Inr pt"
    unfolding typeIDToPacketType_iff [OF assms] w option.sel by (rule conjI [OF conjunct1 [OF k]])
qed (rule typeIDToPacketType_iff [OF assms])

theorem validated_type_ids_unambiguous_witness:
  "Validate DefaultHeaderConfig = Inr () \<and>
   typeIDToPacketType DefaultHeaderConfig (the (Pick 77 (rangeFor DefaultHeaderConfig PacketNoise))) = Inr PacketNoise"
proof
  show V: "Validate DefaultHeaderConfig = Inr ()"
    using DefaultHeaderConfig_ok unfolding headers_ok_def by (rule conjunct1)
  have "rMin (rangeFor DefaultHeaderConfig PacketNoise) \<le> rMax (rangeFor DefaultHeaderConfig PacketNoise)"
    by (simp add: rangeFor_def DefaultHeaderConfig_def)
  then show "typeIDToPacketType DefaultHeaderConfig (the (Pick 77 (rangeFor DefaultHeaderConfig PacketNoise))) = Inr PacketNoise"
    by (intro validated_type_ids_unambiguous [OF V, THEN conjunct2, THEN conjunct2, rule_format] conjI)
       simp
qed

text \<open>
  Fact. \<^verbatim>\<open>Validate\<close> does not look at inverted ranges: a configuration whose
  Close range has its bounds swapped is accepted, and every Close packet the sender
  builds from it carries an identifier the receiver rejects as unknown.
\<close>
theorem inverted_range_accepted_but_undecodable:
  "\<exists>hc. Validate hc = Inr () \<and>
        (\<forall>draw. \<exists>v. Pick draw (rangeFor hc PacketClose) = Some v \<and>
                    typeIDToPacketType hc v = Inl (Errorf ''unknown type-id''))"
  by (rule exI [of _ "DefaultHeaderConfig\<lparr>hClose := \<lparr>rMin = 0x5FFFFFFF, rMax = 0x50000000\<rparr>\<rparr>"])
     (simp add: Validate_Inr DefaultHeaderConfig_def overlap_def rangeFor_def Pick_def
       typeIDToPacketType_def Contains_def)

end
