(* ===== verification/Bucket_Padding.thy ===== *)
theory Bucket_Padding
  imports Obsidian_Prelude
begin

text \<open>
  The bucket padding of \<^verbatim>\<open>obsidian/obfuscation.go\<close>
  (\<^verbatim>\<open>CalculateBucketPaddingWithTrailer\<close>) and \<^verbatim>\<open>PaddingConfig\<close> of
  \<^verbatim>\<open>obsidian/protocol.go\<close>. Sizes are Go ints far below \<open>2\<^sup>6\<^sup>3\<close>, modelled as \<open>int\<close>.
\<close>

record PaddingConfig =
  DataMin :: int
  DataMax :: int
  NoiseMin :: int
  NoiseMax :: int
  KeepaliveMin :: int
  KeepaliveMax :: int
  UseBucketPadding :: bool
  BucketMTU :: int
  MaxTrailer :: int

definition DefaultPaddingConfig :: PaddingConfig where
  "DefaultPaddingConfig =
     \<lparr>DataMin = 0, DataMax = 32, NoiseMin = 16, NoiseMax = 128,
      KeepaliveMin = 8, KeepaliveMax = 64, UseBucketPadding = True,
      BucketMTU = 1360, MaxTrailer = 32\<rparr>"

text \<open>The loop over the bucket sizes: the padding up to the first bucket that fits.\<close>

fun bucket_base :: "int \<Rightarrow> int list \<Rightarrow> int option" where
  "bucket_base payloadLen [] = None"
| "bucket_base payloadLen (b # bs) =
     (if payloadLen \<le> b then Some (b - payloadLen) else bucket_base payloadLen bs)"

text \<open>\<open>trailer_draw\<close> is the raw draw behind \<^verbatim>\<open>rand.IntN(maxSteps+1)\<close>, whose bound is
  positive whenever it is reached.\<close>

definition bucket_trailer :: "nat \<Rightarrow> int \<Rightarrow> int" where
  "bucket_trailer trailer_draw maxTrailer =
     (if 4 \<le> maxTrailer then the (IntN trailer_draw (maxTrailer div 4 + 1)) * 4 else 0)"

text \<open>The part of the function after the base padding is known.\<close>

definition bucket_finish :: "int \<Rightarrow> int \<Rightarrow> int \<Rightarrow> int" where
  "bucket_finish payloadLen maxMTU pad0 =
     (let pad = (if payloadLen + pad0 > maxMTU then maxMTU - payloadLen else pad0);
          rem = (payloadLen + pad) mod 4;
          pad' = (if rem \<noteq> 0 then
                    (let p = pad + (4 - rem)
                     in if payloadLen + p > maxMTU \<and> 4 \<le> maxMTU then p - 4 else p)
                  else pad)
      in if pad' < 0 then 0 else pad')"

definition CalculateBucketPaddingWithTrailer :: "nat \<Rightarrow> int \<Rightarrow> int \<Rightarrow> int \<Rightarrow> int" where
  "CalculateBucketPaddingWithTrailer trailer_draw payloadLen maxMTU maxTrailer =
     (if payloadLen \<le> 0 \<or> payloadLen \<ge> maxMTU then 0
      else
        case (case bucket_base payloadLen [64, 256, 512, 1024] of
                Some p \<Rightarrow> Some p
              | None \<Rightarrow> (if 1024 < maxMTU \<and> payloadLen < maxMTU then Some (maxMTU - payloadLen) else None)) of
          None \<Rightarrow> 0
        | Some basePad \<Rightarrow>
            bucket_finish payloadLen maxMTU (basePad + bucket_trailer trailer_draw maxTrailer))"

definition CalculateBucketPadding :: "int \<Rightarrow> int \<Rightarrow> int" where
  "CalculateBucketPadding payloadLen maxMTU = CalculateBucketPaddingWithTrailer 0 payloadLen maxMTU 0"

section \<open>Lemmas\<close>

lemma bucket_base_bounds:
  "bucket_base n bs = Some p \<Longrightarrow> 0 \<le> p \<and> n + p \<in> set bs"
  by (induction n bs rule: bucket_base.induct) (auto split: if_splits)

lemma bucket_trailer_nonneg: "0 \<le> bucket_trailer d m"
  using IntN_defined [of "m div 4 + 1" d] IntN_Some [of d "m div 4 + 1"]
  by (auto simp: bucket_trailer_def)

lemma bucket_trailer_le: "0 \<le> m \<Longrightarrow> bucket_trailer d m \<le> m"
proof (cases "4 \<le> m")
  case True
  then have "0 < m div 4 + 1" by presburger
  then obtain v where v: "IntN d (m div 4 + 1) = Some v" using IntN_defined by blast
  then have "v \<le> m div 4" using IntN_Some by fastforce
  then have "v * 4 \<le> m" by presburger
  with v True show ?thesis by (simp add: bucket_trailer_def)
qed (simp add: bucket_trailer_def)

lemma bucket_finish_nonneg: "0 \<le> bucket_finish n mtu p"
  by (simp add: bucket_finish_def Let_def)

lemma bucket_finish_fits:
  assumes "0 < n" and "n < mtu" and "4 \<le> mtu"
  shows "n + bucket_finish n mtu p \<le> mtu"
  using assms pos_mod_bound [of 4 "mtu"] pos_mod_bound [of 4 "n + p"] pos_mod_sign [of 4 "n + p"]
  unfolding bucket_finish_def Let_def by (auto simp: not_less)

lemma bucket_finish_aligned:
  assumes "0 < bucket_finish n mtu p"
  shows "(n + bucket_finish n mtu p) mod 4 = 0"
proof -
  define q where "q = (if n + p > mtu then mtu - n else p)"
  have "bucket_finish n mtu p = q \<and> (n + q) mod 4 = 0 \<or>
        bucket_finish n mtu p = q + (4 - (n + q) mod 4) \<or>
        bucket_finish n mtu p = q + (4 - (n + q) mod 4) - 4 \<or> bucket_finish n mtu p = 0"
    unfolding bucket_finish_def Let_def q_def [symmetric] by auto
  with assms show ?thesis by presburger
qed

lemma CalculateBucketPadding_nonneg: "0 \<le> CalculateBucketPaddingWithTrailer d n mtu t"
  by (auto simp: CalculateBucketPaddingWithTrailer_def bucket_finish_nonneg split: option.splits)

section \<open>Properties\<close>

text \<open>
  Fact. For every draw of the trailer, the padding is non-negative, the padded
  length never exceeds an MTU of at least 4 bytes (unless the payload alone does), and
  a packet that is padded at all ends on a 4-byte boundary.
\<close>
theorem bucket_padding_fits_and_aligns:
  assumes "4 \<le> maxMTU" and "0 \<le> payloadLen"
  shows "0 \<le> CalculateBucketPaddingWithTrailer d payloadLen maxMTU t \<and>
         payloadLen + CalculateBucketPaddingWithTrailer d payloadLen maxMTU t \<le> max payloadLen maxMTU \<and>
         (0 < CalculateBucketPaddingWithTrailer d payloadLen maxMTU t \<longrightarrow>
            (payloadLen + CalculateBucketPaddingWithTrailer d payloadLen maxMTU t) mod 4 = 0)"
proof (intro conjI)
  show "0 \<le> CalculateBucketPaddingWithTrailer d payloadLen maxMTU t"
    by (rule CalculateBucketPadding_nonneg)
  show "payloadLen + CalculateBucketPaddingWithTrailer d payloadLen maxMTU t \<le> max payloadLen maxMTU"
    using assms bucket_finish_fits [of payloadLen maxMTU]
    by (auto simp: CalculateBucketPaddingWithTrailer_def le_max_iff_disj split: option.splits)
  show "0 < CalculateBucketPaddingWithTrailer d payloadLen maxMTU t \<longrightarrow>
      (payloadLen + CalculateBucketPaddingWithTrailer d payloadLen maxMTU t) mod 4 = 0"
    using bucket_finish_aligned
    by (auto simp: CalculateBucketPaddingWithTrailer_def split: option.splits if_splits)
qed

theorem bucket_padding_fits_and_aligns_witness:
  "CalculateBucketPaddingWithTrailer 3 100 1360 32 = 168 \<and> (100 + 168) mod 4 = (0::int) \<and>
   100 + CalculateBucketPaddingWithTrailer 3 100 1360 32 \<le> max 100 1360"
proof -
  have e: "CalculateBucketPaddingWithTrailer 3 100 1360 32 = 168"
    by (simp add: CalculateBucketPaddingWithTrailer_def bucket_finish_def bucket_trailer_def IntN_def)
  show ?thesis
    using bucket_padding_fits_and_aligns [of 1360 100 3 32] unfolding e by simp
qed

end
