(* ===== verification/Packet_Codec.thy ===== *)
theory Packet_Codec
  imports Crypto_Core Header_Ranges Bucket_Padding
begin

text \<open>
  \<^verbatim>\<open>obsidian/protocol.go\<close>, packets: header protection, encoding into a caller's
  buffer or a fresh one, and decoding. A cipher is passed in and returned updated, since
  every call of the AEAD advances its counter, on the error paths too.
\<close>

definition maxPayload :: nat where "maxPayload = 65535"
definition maxFrameSize :: nat where "maxFrameSize = maxPayload + 512"
definition packetHeaderSize :: nat where "packetHeaderSize = 8"
definition obsidianVersion :: byte where "obsidianVersion = 2"

lemmas packet_sizes [simp] = maxPayload_def maxFrameSize_def packetHeaderSize_def

record Packet =
  pType :: PacketType
  pPayload :: bytes

text \<open>The random draws one framed packet consumes.\<close>

record draws =
  trailerDraw :: nat
  padDraw :: nat
  padRng :: "nat \<Rightarrow> u64"
  typeDraw :: u32

section \<open>Header protection\<close>

definition xorPacketHeader :: "crypto_lib \<Rightarrow> bytes \<Rightarrow> bytes option \<Rightarrow> bytes \<Rightarrow> bytes res" where
  "xorPacketHeader P header key sample =
     (case key of
        None \<Rightarrow> Inr header
      | Some k \<Rightarrow>
          if length header \<noteq> packetHeaderSize then Inl (Errorf ''invalid packet header size'')
          else if length sample < 16 then Inl (Errorf ''packet header protection sample too short'')
          else Inr (xor_bytes header (map (chacha20 P k (take 12 sample)) [0..<packetHeaderSize])))"

section \<open>Encoding\<close>

definition packet_aad :: "u32 \<Rightarrow> nat \<Rightarrow> nat \<Rightarrow> bytes" where
  "packet_aad typeID payLen padLen =
     be32 typeID @ be16 (of_nat payLen) @ [of_nat padLen, obsidianVersion]"

definition pad_cap :: "int \<Rightarrow> int \<Rightarrow> int" where
  "pad_cap padMin padMax =
     (let maxPad = (if padMax < padMin then padMin else padMax)
      in if maxPad > 255 then 255 else maxPad)"

definition encodePacketWithHeaderProtectionBuffer ::
    "crypto_lib \<Rightarrow> draws \<Rightarrow> nat \<Rightarrow> Cipher \<Rightarrow> bytes option \<Rightarrow> HeaderConfig \<Rightarrow> PacketType \<Rightarrow> bytes
       \<Rightarrow> int \<Rightarrow> int \<Rightarrow> bytes res \<times> Cipher" where
  "encodePacketWithHeaderProtectionBuffer P r dstLen c headerKey hc ptype payload padMin padMax =
     (if length payload > maxPayload then (Inl (Errorf ''payload too large''), c)
      else if pad_cap padMin padMax < 0 then (Inl Panic, c)
      else
        case FastRandomPaddingInplace (padDraw r) (padRng r) (nat (pad_cap padMin padMax)) padMin padMax of
          None \<Rightarrow> (Inl Panic, c)
        | Some pad \<Rightarrow>
            let plaintext = payload @ pad;
                required = packetHeaderSize + length plaintext + TagSize
            in if dstLen < required then (Inl ErrShortBuffer, c)
               else
                 case Pick (typeDraw r) (rangeFor hc ptype) of
                   None \<Rightarrow> (Inl Panic, c)
                 | Some typeID \<Rightarrow>
                     let aad = packet_aad typeID (length payload) (length pad);
                         (ct, c') = Encrypt P c plaintext aad
                     in case xorPacketHeader P aad headerKey (take TagSize ct) of
                          Inl e \<Rightarrow> (Inl e, c')
                        | Inr h \<Rightarrow> (Inr (h @ ct), c'))"

definition encodePacketWithHeaderProtection ::
    "crypto_lib \<Rightarrow> draws \<Rightarrow> Cipher \<Rightarrow> bytes option \<Rightarrow> HeaderConfig \<Rightarrow> PacketType \<Rightarrow> bytes
       \<Rightarrow> int \<Rightarrow> int \<Rightarrow> bytes res \<times> Cipher" where
  "encodePacketWithHeaderProtection P r c headerKey hc ptype payload padMin padMax =
     (if length payload > maxPayload then (Inl (Errorf ''payload too large''), c)
      else
        let size = int packetHeaderSize + int (length payload) + pad_cap padMin padMax + int TagSize
        in if size < 0 then (Inl Panic, c)
           else encodePacketWithHeaderProtectionBuffer P r (nat size) c headerKey hc ptype payload padMin padMax)"

definition EncodePacket ::
    "crypto_lib \<Rightarrow> draws \<Rightarrow> Cipher \<Rightarrow> PacketType \<Rightarrow> bytes \<Rightarrow> bytes res \<times> Cipher" where
  "EncodePacket P r c ptype payload =
     encodePacketWithHeaderProtection P r c None DefaultHeaderConfig ptype payload 16 128"

section \<open>Decoding\<close>

text \<open>
  The checks \<^verbatim>\<open>decodePacketWithHeaderProtection\<close> and \<^verbatim>\<open>ParseFrameInto\<close> share,
  line for line: the unmasked header, the packet type and the two lengths, or an error.
\<close>

definition parse_header ::
    "crypto_lib \<Rightarrow> bytes option \<Rightarrow> HeaderConfig \<Rightarrow> bytes \<Rightarrow> (bytes \<times> PacketType \<times> nat \<times> nat) res" where
  "parse_header P headerKey hc data =
     (if length data < packetHeaderSize + TagSize then Inl (Errorf ''packet too short'')
      else
        let ct = drop packetHeaderSize data
        in case xorPacketHeader P (take packetHeaderSize data) headerKey ct of
             Inl e \<Rightarrow> Inl e
           | Inr aad \<Rightarrow>
               let typeID = rd32 (subslice 0 4 aad);
                   payLen = unat (rd16 (subslice 4 6 aad));
                   padLen = unat (aad ! 6)
               in if aad ! 7 \<noteq> obsidianVersion then Inl (Errorf ''unknown protocol version'')
                  else case typeIDToPacketType hc typeID of
                         Inl e \<Rightarrow> Inl e
                       | Inr ptype \<Rightarrow>
                           if length ct \<noteq> payLen + padLen + TagSize then Inl (Errorf ''length mismatch'')
                           else Inr (aad, ptype, payLen, padLen))"

definition decodePacketWithHeaderProtection ::
    "crypto_lib \<Rightarrow> Cipher \<Rightarrow> bytes option \<Rightarrow> HeaderConfig \<Rightarrow> bytes \<Rightarrow> Packet res \<times> Cipher" where
  "decodePacketWithHeaderProtection P c headerKey hc data =
     (case parse_header P headerKey hc data of
        Inl e \<Rightarrow> (Inl e, c)
      | Inr (aad, ptype, payLen, padLen) \<Rightarrow>
          (case Decrypt P c (drop packetHeaderSize data) aad of
             (None, c') \<Rightarrow> (Inl (Errorf ''decrypt''), c')
           | (Some plaintext, c') \<Rightarrow> (Inr \<lparr>pType = ptype, pPayload = take payLen plaintext\<rparr>, c')))"

definition DecodePacket :: "crypto_lib \<Rightarrow> Cipher \<Rightarrow> bytes \<Rightarrow> Packet res \<times> Cipher" where
  "DecodePacket P c data = decodePacketWithHeaderProtection P c None DefaultHeaderConfig data"

section \<open>Lemmas\<close>

lemma length_packet_aad [simp]: "length (packet_aad t n p) = 8"
  by (simp add: packet_aad_def)

lemma packet_aad_fields:
  "rd32 (subslice 0 4 (packet_aad t n p)) = t"
  "rd16 (subslice 4 6 (packet_aad t n p)) = of_nat n"
  "packet_aad t n p ! 6 = of_nat p"
  "packet_aad t n p ! 7 = obsidianVersion"
  using be32.dec_at [of "[]" 0 t "be16 (of_nat n) @ [of_nat p, obsidianVersion]"]
    be16.dec_at [of "be32 t" 4 "of_nat n" "[of_nat p, obsidianVersion]"]
  by (simp_all add: packet_aad_def nth_append)

lemma pad_cap_le: "pad_cap a b \<le> 255"
  by (simp add: pad_cap_def Let_def)

lemma length_xorPacketHeader:
  "xorPacketHeader P h k s = Inr h' \<Longrightarrow> length h = 8 \<Longrightarrow> length h' = 8"
  by (auto simp: xorPacketHeader_def split: option.splits if_splits)

text \<open>Masking twice with the same sample is the identity; only its first 12 bytes count.\<close>

lemma xorPacketHeader_invol:
  assumes "length h = 8" and "16 \<le> length s" and "take 12 s' = take 12 s" and "16 \<le> length s'"
  obtains h' where "xorPacketHeader P h k s = Inr h'" and "xorPacketHeader P h' k s' = Inr h"
  using assms by (cases k) (auto simp: xorPacketHeader_def)

lemma Decrypt_Encrypt_pair:
  "aead_ok P \<Longrightarrow> Decrypt P c (fst (Encrypt P c p a)) a = (Some p, c\<lparr>counter := counter c + 1\<rparr>)"
  by (rule prod_eqI) (simp_all add: Decrypt_Encrypt)

text \<open>What a successful encoding is made of.\<close>

lemma encode_buffer_eq:
  assumes "encodePacketWithHeaderProtectionBuffer P r dstLen c hk hc ptype payload mn mx = (Inr pkt, c')"
  obtains pad t h where
    "FastRandomPaddingInplace (padDraw r) (padRng r) (nat (pad_cap mn mx)) mn mx = Some pad"
    "Pick (typeDraw r) (rangeFor hc ptype) = Some t"
    "xorPacketHeader P (packet_aad t (length payload) (length pad)) hk
       (take 16 (fst (Encrypt P c (payload @ pad) (packet_aad t (length payload) (length pad))))) = Inr h"
    "pkt = h @ fst (Encrypt P c (payload @ pad) (packet_aad t (length payload) (length pad)))"
    "c' = c\<lparr>counter := counter c + 1\<rparr>" "length payload \<le> 65535" "length pad \<le> 255"
proof -
  from assms have L: "length payload \<le> 65535"
    by (auto simp: encodePacketWithHeaderProtectionBuffer_def split: if_splits)
  from assms obtain pad where
    pad: "FastRandomPaddingInplace (padDraw r) (padRng r) (nat (pad_cap mn mx)) mn mx = Some pad"
    by (auto simp: encodePacketWithHeaderProtectionBuffer_def split: if_splits option.splits)
  have "length pad \<le> 255"
    using FastRandomPaddingInplace_bound [OF pad] pad_cap_le [of mn mx] by linarith
  with assms L pad that show thesis
    by (auto simp: encodePacketWithHeaderProtectionBuffer_def Let_def split_beta
        split: if_splits option.splits sum.splits)
qed

lemma encode_fresh_eq_buffer:
  assumes "pad_cap mn mx + 24 + int (length payload) \<le> int dstLen"
  shows "encodePacketWithHeaderProtectionBuffer P r dstLen c hk hc ptype payload mn mx =
         encodePacketWithHeaderProtection P r c hk hc ptype payload mn mx"
proof (cases "length payload > maxPayload \<or> pad_cap mn mx < 0")
  case True
  then show ?thesis
    by (auto simp: encodePacketWithHeaderProtectionBuffer_def encodePacketWithHeaderProtection_def Let_def)
next
  case False
  have "nat (pad_cap mn mx) + 24 + length payload \<le> dstLen" using assms False by linarith
  with False show ?thesis
    by (auto simp: encodePacketWithHeaderProtectionBuffer_def encodePacketWithHeaderProtection_def Let_def
        nat_add_distrib split: option.split dest: FastRandomPaddingInplace_bound)
qed

lemma encode_fresh_as_buffer:
  "encodePacketWithHeaderProtection P r c hk hc ptype payload mn mx =
   encodePacketWithHeaderProtectionBuffer P r (nat (pad_cap mn mx + 24 + int (length payload))) c hk hc ptype payload mn mx"
  by (rule encode_fresh_eq_buffer [symmetric]) linarith

text \<open>Encoding succeeds on every payload that fits and every non-negative padding range.\<close>

lemma encode_succeeds:
  assumes "aead_ok P" and "headers_ok hc" and "known_type ptype"
    and "length payload \<le> 65535" and "0 \<le> mn"
  obtains pkt where "encodePacketWithHeaderProtection P r c hk hc ptype payload mn mx =
                       (Inr pkt, c\<lparr>counter := counter c + 1\<rparr>)"
proof -
  have cap: "0 \<le> pad_cap mn mx" using assms(5) by (simp add: pad_cap_def Let_def)
  obtain pad where pad: "FastRandomPaddingInplace (padDraw r) (padRng r) (nat (pad_cap mn mx)) mn mx = Some pad"
    using FastRandomPaddingInplace_defined [OF assms(5)] by blast
  obtain t where t: "Pick (typeDraw r) (rangeFor hc ptype) = Some t"
    using Pick_classified [OF assms(2,3)] by blast
  define aad where "aad = packet_aad t (length payload) (length pad)"
  have l: "length aad = 8" "16 \<le> length (take 16 (fst (Encrypt P c (payload @ pad) aad)))"
    using length_Encrypt [OF assms(1)] by (simp_all add: aad_def)
  obtain h where "xorPacketHeader P aad hk (take 16 (fst (Encrypt P c (payload @ pad) aad))) = Inr h"
    using xorPacketHeader_invol [OF l refl l(2)] by blast
  then show thesis
    using that assms(4) cap pad t FastRandomPaddingInplace_bound [OF pad] unfolding encode_fresh_as_buffer
    by (auto simp: encodePacketWithHeaderProtectionBuffer_def Let_def split_beta nat_add_distrib aad_def)
qed

lemma length_encode_buffer:
  assumes "aead_ok P" and "encodePacketWithHeaderProtectionBuffer P r n c hk hc ptype payload mn mx = (Inr pkt, c')"
  shows "24 + length payload \<le> length pkt \<and> length pkt \<le> 279 + length payload"
  using assms(2) by (rule encode_buffer_eq) (use assms(1) in \<open>auto simp: length_Encrypt dest: length_xorPacketHeader\<close>)

lemma decode_encode_buffer:
  assumes P: "aead_ok P" and hc: "headers_ok hc" and pt: "known_type ptype"
    and enc: "encodePacketWithHeaderProtectionBuffer P r n c hk hc ptype payload mn mx = (Inr pkt, c')"
  shows "decodePacketWithHeaderProtection P c hk hc pkt = (Inr \<lparr>pType = ptype, pPayload = payload\<rparr>, c')"
proof -
  from enc obtain pad t h where t: "Pick (typeDraw r) (rangeFor hc ptype) = Some t"
    and h: "xorPacketHeader P (packet_aad t (length payload) (length pad)) hk
       (take 16 (fst (Encrypt P c (payload @ pad) (packet_aad t (length payload) (length pad))))) = Inr h"
    and pkt: "pkt = h @ fst (Encrypt P c (payload @ pad) (packet_aad t (length payload) (length pad)))"
    and c': "c' = c\<lparr>counter := counter c + 1\<rparr>" and L: "length payload \<le> 65535" "length pad \<le> 255"
    by (rule encode_buffer_eq)
  define aad where "aad = packet_aad t (length payload) (length pad)"
  define ct where "ct = fst (Encrypt P c (payload @ pad) aad)"
  have len: "length ct = length payload + length pad + 16" "length h = 8" "length aad = 8"
    using length_Encrypt [OF P] length_xorPacketHeader [OF h] by (simp_all add: ct_def aad_def)
  obtain h' where "xorPacketHeader P aad hk (take 16 ct) = Inr h'" "xorPacketHeader P h' hk ct = Inr aad"
    using len by (auto intro: xorPacketHeader_invol [of aad "take 16 ct" ct P hk])
  then have inv: "xorPacketHeader P h hk ct = Inr aad" using h by (simp add: ct_def aad_def)
  have tid: "typeIDToPacketType hc t = Inr ptype" using t Pick_classified [OF hc pt] by (metis option.inject)
  have n: "unat (of_nat (length payload) :: u16) = length payload" "unat (of_nat (length pad) :: byte) = length pad"
    using L by (simp_all add: unat_of_nat_small)
  have "parse_header P hk hc pkt = Inr (aad, ptype, length payload, length pad)"
    using len inv tid n unfolding parse_header_def pkt Let_def ct_def [symmetric] aad_def [symmetric]
    by (simp add: aad_def packet_aad_fields)
  moreover have "drop 8 pkt = ct" using len pkt by (simp add: ct_def aad_def)
  ultimately show ?thesis
    by (simp add: decodePacketWithHeaderProtection_def ct_def c' Decrypt_Encrypt_pair [OF P])
qed

section \<open>Properties\<close>

text \<open>
  Property C6. Encoding and decoding a packet: for every payload of at most 65535 bytes,
  every non-negative padding range, every known packet type, with or without header
  protection and for every random draw, encoding succeeds, takes one nonce, adds between
  24 and 279 bytes, and decoding with a cipher in the same position gives back the type and
  the payload and takes one nonce too.
\<close>
theorem packet_round_trip:
  assumes "aead_ok P" and "headers_ok hc" and "known_type ptype"
    and "length payload \<le> maxPayload" and "0 \<le> padMin"
  shows "\<exists>pkt. encodePacketWithHeaderProtection P r c hk hc ptype payload padMin padMax =
                 (Inr pkt, c\<lparr>counter := counter c + 1\<rparr>) \<and>
               24 + length payload \<le> length pkt \<and> length pkt \<le> 279 + length payload \<and>
               decodePacketWithHeaderProtection P c hk hc pkt =
                 (Inr \<lparr>pType = ptype, pPayload = payload\<rparr>, c\<lparr>counter := counter c + 1\<rparr>)"
proof -
  have L: "length payload \<le> 65535" using assms(4) by simp
  obtain pkt where e: "encodePacketWithHeaderProtection P r c hk hc ptype payload padMin padMax =
      (Inr pkt, c\<lparr>counter := counter c + 1\<rparr>)"
    by (rule encode_succeeds [OF assms(1-3) L assms(5)])
  note b = e [unfolded encode_fresh_as_buffer]
  show ?thesis
    using e length_encode_buffer [OF assms(1) b] decode_encode_buffer [OF assms(1-3) b]
    by (intro exI [of _ pkt] conjI) auto
qed

theorem packet_round_trip_witness:
  "\<exists>pkt. fst (encodePacketWithHeaderProtection toy_lib
              \<lparr>trailerDraw = 0, padDraw = 7, padRng = \<lambda>i. 5, typeDraw = 11\<rparr>
              (NewCipher (replicate 32 1) (replicate 12 2)) (Some (replicate 32 3)) DefaultHeaderConfig
              PacketKeepalive [1, 2, 3] 8 64) = Inr pkt \<and>
         fst (decodePacketWithHeaderProtection toy_lib (NewCipher (replicate 32 1) (replicate 12 2))
              (Some (replicate 32 3)) DefaultHeaderConfig pkt) =
           Inr \<lparr>pType = PacketKeepalive, pPayload = [1, 2, 3]\<rparr>"
proof -
  have "\<exists>pkt. encodePacketWithHeaderProtection toy_lib
              \<lparr>trailerDraw = 0, padDraw = 7, padRng = \<lambda>i. 5, typeDraw = 11\<rparr>
              (NewCipher (replicate 32 1) (replicate 12 2)) (Some (replicate 32 3)) DefaultHeaderConfig
              PacketKeepalive [1, 2, 3] 8 64 =
                (Inr pkt, (NewCipher (replicate 32 1) (replicate 12 2))\<lparr>counter := counter (NewCipher (replicate 32 1) (replicate 12 2)) + 1\<rparr>) \<and>
         24 + length [1, 2, 3 :: byte] \<le> length pkt \<and> length pkt \<le> 279 + length [1, 2, 3 :: byte] \<and>
         decodePacketWithHeaderProtection toy_lib (NewCipher (replicate 32 1) (replicate 12 2))
              (Some (replicate 32 3)) DefaultHeaderConfig pkt =
           (Inr \<lparr>pType = PacketKeepalive, pPayload = [1, 2, 3]\<rparr>,
            (NewCipher (replicate 32 1) (replicate 12 2))\<lparr>counter := counter (NewCipher (replicate 32 1) (replicate 12 2)) + 1\<rparr>)"
    by (rule packet_round_trip) (simp_all add: toy_aead_ok)
  then show ?thesis by (elim exE conjE) (metis fst_conv)
qed

text \<open>
  Fact. What decoding accepts is well formed: the datagram is exactly the header, the
  payload, the padding and the tag, the version is 2, the type identifier lies in the range
  of the type returned, and the payload is the authenticated plaintext cut to its announced
  length; anything shorter than a header and a tag is refused without using a nonce.
\<close>
theorem decode_accepts_only_well_formed:
  assumes "aead_ok P"
  shows "(length data < 24 \<longrightarrow> decodePacketWithHeaderProtection P c hk hc data = (Inl (Errorf ''packet too short''), c)) \<and>
         (\<forall>pkt c'. decodePacketWithHeaderProtection P c hk hc data = (Inr pkt, c') \<longrightarrow>
            (\<exists>aad plaintext padLen. xorPacketHeader P (take 8 data) hk (drop 8 data) = Inr aad \<and>
               aad ! 7 = obsidianVersion \<and> Contains (rangeFor hc (pType pkt)) (rd32 (take 4 aad)) \<and>
               fst (Decrypt P c (drop 8 data) aad) = Some plaintext \<and>
               pPayload pkt = take (unat (rd16 (subslice 4 6 aad))) plaintext \<and>
               length (pPayload pkt) = unat (rd16 (subslice 4 6 aad)) \<and>
               length data = 24 + length (pPayload pkt) + padLen \<and> padLen = unat (aad ! 6)))"
proof (intro conjI allI impI)
  fix pkt c'
  assume d: "decodePacketWithHeaderProtection P c hk hc data = (Inr pkt, c')"
  then obtain aad ptype payLen padLen plaintext where
    h: "parse_header P hk hc data = Inr (aad, ptype, payLen, padLen)"
    and D: "Decrypt P c (drop 8 data) aad = (Some plaintext, c')"
    and pkt: "pkt = \<lparr>pType = ptype, pPayload = take payLen plaintext\<rparr>"
    by (auto simp: decodePacketWithHeaderProtection_def split: sum.splits prod.splits option.splits)
  from h have H: "xorPacketHeader P (take 8 data) hk (drop 8 data) = Inr aad" "aad ! 7 = obsidianVersion"
      "typeIDToPacketType hc (rd32 (take 4 aad)) = Inr ptype" "payLen = unat (rd16 (subslice 4 6 aad))"
      "padLen = unat (aad ! 6)" "length data = 24 + payLen + padLen"
    by (auto simp: parse_header_def Let_def subslice_zero split: if_splits sum.splits)
  have "length (drop 8 data) = length plaintext + 16"
    using D by (auto simp: Decrypt_def simp del: length_drop split: prod.splits intro: aead_okD(3) [OF assms])
  then have "length plaintext = payLen + padLen" using H(6) by simp
  with H D pkt typeIDToPacketType_Inr [OF H(3)]
  show "\<exists>aad plaintext padLen. xorPacketHeader P (take 8 data) hk (drop 8 data) = Inr aad \<and>
               aad ! 7 = obsidianVersion \<and> Contains (rangeFor hc (pType pkt)) (rd32 (take 4 aad)) \<and>
               fst (Decrypt P c (drop 8 data) aad) = Some plaintext \<and>
               pPayload pkt = take (unat (rd16 (subslice 4 6 aad))) plaintext \<and>
               length (pPayload pkt) = unat (rd16 (subslice 4 6 aad)) \<and>
               length data = 24 + length (pPayload pkt) + padLen \<and> padLen = unat (aad ! 6)"
    by (intro exI [of _ aad] exI [of _ plaintext] exI [of _ padLen]) simp
qed (simp add: decodePacketWithHeaderProtection_def parse_header_def)

theorem decode_accepts_only_well_formed_witness:
  "decodePacketWithHeaderProtection toy_lib (NewCipher [] []) None DefaultHeaderConfig [1, 2, 3] =
     (Inl (Errorf ''packet too short''), NewCipher [] [])"
  by (rule decode_accepts_only_well_formed [OF toy_aead_ok, THEN conjunct1, rule_format]) simp

end
