(* ===== verification/Stream_Framer.thy ===== *)
theory Stream_Framer
  imports Packet_Codec
begin

text \<open>
  \<^verbatim>\<open>obsidian/protocol.go\<close>, \<^verbatim>\<open>StreamFramer\<close>: the length-prefixed framing of
  packets on a byte stream, with the length masked by a keyed counter. Each operation
  returns the framer with its ciphers and frame counters advanced.
\<close>

record StreamFramer =
  EncCipher :: Cipher
  DecCipher :: Cipher
  HeaderCfg :: HeaderConfig
  PaddingCfg :: PaddingConfig
  EncHeaderKey :: "bytes option"
  DecHeaderKey :: "bytes option"
  EncFrameKey :: "bytes option"
  DecFrameKey :: "bytes option"
  encFrameCtr :: u64
  decFrameCtr :: u64

definition NewStreamFramer :: "Cipher \<Rightarrow> Cipher \<Rightarrow> StreamFramer" where
  "NewStreamFramer enc dec =
     \<lparr>EncCipher = enc, DecCipher = dec, HeaderCfg = DefaultHeaderConfig,
      PaddingCfg = DefaultPaddingConfig, EncHeaderKey = None, DecHeaderKey = None,
      EncFrameKey = None, DecFrameKey = None, encFrameCtr = 0, decFrameCtr = 0\<rparr>"

definition NewProtectedStreamFramer :: "Cipher \<Rightarrow> Cipher \<Rightarrow> bytes \<Rightarrow> bytes \<Rightarrow> StreamFramer" where
  "NewProtectedStreamFramer enc dec encHeaderKey decHeaderKey =
     (NewStreamFramer enc dec)
       \<lparr>EncHeaderKey := Some encHeaderKey, DecHeaderKey := Some decHeaderKey,
        EncFrameKey := Some encHeaderKey, DecFrameKey := Some decHeaderKey\<rparr>"

section \<open>Masked frame lengths\<close>

definition fastHmacSHA256Stack :: "crypto_lib \<Rightarrow> bytes \<Rightarrow> bytes \<Rightarrow> bytes" where
  "fastHmacSHA256Stack P key data =
     (let k = (if length key > 64 then overwrite 0 (take 32 (sha256 P key)) (replicate 64 0)
               else overwrite 0 key (replicate 64 0));
          innerHash = sha256 P (map (\<lambda>i. k ! i XOR 0x36) [0..<64] @ data)
      in sha256 P (map (\<lambda>i. k ! i XOR 0x5c) [0..<64] @ innerHash))"

definition frame_mask_msg :: "u64 \<Rightarrow> bytes" where
  "frame_mask_msg ctr = take 16 (str ''obsidian_frame_v3'') @ be64 ctr"

definition maskFrameLen :: "crypto_lib \<Rightarrow> bytes option \<Rightarrow> u64 \<Rightarrow> u32 \<Rightarrow> u32" where
  "maskFrameLen P key ctr n =
     (case key of
        None \<Rightarrow> n
      | Some k \<Rightarrow> n XOR rd32 (take 4 (fastHmacSHA256Stack P k (frame_mask_msg ctr))))"

section \<open>Sending\<close>

definition paddingFor :: "StreamFramer \<Rightarrow> PacketType \<Rightarrow> int \<times> int" where
  "paddingFor f pt =
     (if pt = PacketData then (DataMin (PaddingCfg f), DataMax (PaddingCfg f))
      else if pt = PacketNoise then (NoiseMin (PaddingCfg f), NoiseMax (PaddingCfg f))
      else if pt = PacketKeepalive then (KeepaliveMin (PaddingCfg f), KeepaliveMax (PaddingCfg f))
      else (16, 64))"

text \<open>The padding range both framing functions choose, in the same first lines.\<close>

definition frame_padding :: "StreamFramer \<Rightarrow> draws \<Rightarrow> PacketType \<Rightarrow> bytes \<Rightarrow> int \<times> int" where
  "frame_padding f r ptype payload =
     (if ptype = PacketData \<and> UseBucketPadding (PaddingCfg f) then
        let padLen = CalculateBucketPaddingWithTrailer (trailerDraw r) (int (length payload))
                       (BucketMTU (PaddingCfg f)) (MaxTrailer (PaddingCfg f))
        in (padLen, padLen)
      else paddingFor f ptype)"

definition Frame ::
    "crypto_lib \<Rightarrow> draws \<Rightarrow> StreamFramer \<Rightarrow> PacketType \<Rightarrow> bytes \<Rightarrow> bytes res \<times> StreamFramer" where
  "Frame P r f ptype payload =
     (let (padMin, padMax) = frame_padding f r ptype payload
      in case encodePacketWithHeaderProtection P r (EncCipher f) (EncHeaderKey f) (HeaderCfg f)
                ptype payload padMin padMax of
           (Inl e, c') \<Rightarrow> (Inl e, f\<lparr>EncCipher := c'\<rparr>)
         | (Inr pkt, c') \<Rightarrow>
             (Inr (be32 (maskFrameLen P (EncFrameKey f) (encFrameCtr f) (of_nat (length pkt))) @ pkt),
              f\<lparr>EncCipher := c', encFrameCtr := encFrameCtr f + 1\<rparr>))"

definition FrameWithBuffer ::
    "crypto_lib \<Rightarrow> draws \<Rightarrow> StreamFramer \<Rightarrow> nat \<Rightarrow> PacketType \<Rightarrow> bytes \<Rightarrow> bytes res \<times> StreamFramer" where
  "FrameWithBuffer P r f dstLen ptype payload =
     (let (padMin, padMax) = frame_padding f r ptype payload
      in if dstLen < 4 then (Inl ErrShortBuffer, f)
         else case encodePacketWithHeaderProtectionBuffer P r (dstLen - 4) (EncCipher f) (EncHeaderKey f)
                     (HeaderCfg f) ptype payload padMin padMax of
                (Inl e, c') \<Rightarrow> (Inl e, f\<lparr>EncCipher := c'\<rparr>)
              | (Inr pkt, c') \<Rightarrow>
                  (Inr (be32 (maskFrameLen P (EncFrameKey f) (encFrameCtr f) (of_nat (length pkt))) @ pkt),
                   f\<lparr>EncCipher := c', encFrameCtr := encFrameCtr f + 1\<rparr>))"

section \<open>Receiving\<close>

definition DecodeFrameLen :: "crypto_lib \<Rightarrow> StreamFramer \<Rightarrow> u32 \<Rightarrow> u32 \<times> StreamFramer" where
  "DecodeFrameLen P f masked =
     (maskFrameLen P (DecFrameKey f) (decFrameCtr f) masked, f\<lparr>decFrameCtr := decFrameCtr f + 1\<rparr>)"

definition ParseFrame :: "crypto_lib \<Rightarrow> StreamFramer \<Rightarrow> bytes \<Rightarrow> Packet res \<times> StreamFramer" where
  "ParseFrame P f raw =
     (let (r, c') = decodePacketWithHeaderProtection P (DecCipher f) (DecHeaderKey f) (HeaderCfg f) raw
      in (r, f\<lparr>DecCipher := c'\<rparr>))"

text \<open>
  \<^verbatim>\<open>ParseFrameInto\<close> returns the packet type and the payload length; the third
  component is what it has written at the start of \<open>dst\<close>.
\<close>

definition ParseFrameInto ::
    "crypto_lib \<Rightarrow> StreamFramer \<Rightarrow> nat \<Rightarrow> bytes \<Rightarrow> (PacketType \<times> nat \<times> bytes) res \<times> StreamFramer" where
  "ParseFrameInto P f dstLen raw =
     (case parse_header P (DecHeaderKey f) (HeaderCfg f) raw of
        Inl e \<Rightarrow> (Inl e, f)
      | Inr (aad, ptype, payLen, padLen) \<Rightarrow>
          let (r, c') = Decrypt P (DecCipher f) (drop packetHeaderSize raw) aad;
              f' = f\<lparr>DecCipher := c'\<rparr>
          in case r of
               None \<Rightarrow> (Inl (Errorf ''decrypt''), f')
             | Some plaintext \<Rightarrow>
                 if dstLen < payLen + padLen
                 then (Inr (ptype, payLen, take dstLen (take payLen plaintext)), f')
                 else (Inr (ptype, payLen, plaintext), f'))"

text \<open>\<^verbatim>\<open>dst[:payLen]\<close> panics beyond the capacity of \<open>dst\<close>, here its length.\<close>

definition ParseFrameWithBuffer ::
    "crypto_lib \<Rightarrow> StreamFramer \<Rightarrow> nat \<Rightarrow> bytes \<Rightarrow> Packet res \<times> StreamFramer" where
  "ParseFrameWithBuffer P f dstLen raw =
     (case ParseFrameInto P f dstLen raw of
        (Inl e, f') \<Rightarrow> (Inl e, f')
      | (Inr (ptype, payLen, written), f') \<Rightarrow>
          if dstLen < payLen then (Inl Panic, f')
          else (Inr \<lparr>pType = ptype, pPayload = take payLen written\<rparr>, f'))"

section \<open>Lemmas\<close>

text \<open>The stack-allocated HMAC is the HMAC of the library.\<close>

lemma fast_hmac_eq:
  assumes "sha_ok P"
  shows "fastHmacSHA256Stack P key data = HmacSHA256 P key data"
proof -
  define key' where "key' = (if length key > 64 then sha256 P key else key)"
  have len: "length key' \<le> 64" using sha_okD [OF assms, of key] by (simp add: key'_def)
  have k: "(if length key > 64 then overwrite 0 (take 32 (sha256 P key)) (replicate 64 0)
            else overwrite 0 key (replicate 64 0)) = key' @ replicate (64 - length key') 0"
    using sha_okD [OF assms, of key] by (auto simp: overwrite_def key'_def)
  have "map (\<lambda>i. g ((key' @ replicate (64 - length key') 0) ! i)) [0..<64] =
        map g (key' @ replicate (64 - length key') (0 :: byte))" for g :: "byte \<Rightarrow> byte"
    by (rule nth_equalityI) (use len in \<open>simp_all add: nth_append\<close>)
  note m = this [of "\<lambda>b. b XOR 0x36"] this [of "\<lambda>b. b XOR 0x5c"]
  show ?thesis
    unfolding fastHmacSHA256Stack_def HmacSHA256_def Let_def k m key'_def [symmetric] by simp
qed

lemma maskFrameLen_invol: "maskFrameLen P k ctr (maskFrameLen P k ctr n) = n"
  by (cases k) (simp_all add: maskFrameLen_def xor.assoc)

lemma FrameWithBuffer_eq_Frame:
  assumes "28 + 255 + length payload \<le> dstLen"
  shows "FrameWithBuffer P r f dstLen ptype payload = Frame P r f ptype payload"
proof -
  obtain a b where ab: "frame_padding f r ptype payload = (a, b)" by force
  have "pad_cap a b + 24 + int (length payload) \<le> int (dstLen - 4)"
    using assms pad_cap_le [of a b] by linarith
  then have "encodePacketWithHeaderProtectionBuffer P r (dstLen - 4) c hk hc ptype payload a b =
             encodePacketWithHeaderProtection P r c hk hc ptype payload a b" for c hk hc
    by (rule encode_fresh_eq_buffer)
  with assms show ?thesis by (simp add: FrameWithBuffer_def Frame_def ab)
qed

lemma parse_header_lengths:
  "parse_header P hk hc raw = Inr (aad, ptype, payLen, padLen) \<Longrightarrow> length raw = payLen + padLen + 24"
  by (auto simp: parse_header_def Let_def split: if_splits sum.splits)

text \<open>With a buffer as long as the frame's plaintext the three parsers agree.\<close>

lemma ParseFrameInto_eq_ParseFrame:
  assumes "length raw \<le> dstLen + 24"
  shows "ParseFrame P f raw =
           (case ParseFrameInto P f dstLen raw of
              (Inl e, f') \<Rightarrow> (Inl e, f')
            | (Inr (ptype, payLen, written), f') \<Rightarrow> (Inr \<lparr>pType = ptype, pPayload = take payLen written\<rparr>, f'))"
  using assms
  by (auto simp: ParseFrame_def ParseFrameInto_def decodePacketWithHeaderProtection_def
      dest: parse_header_lengths split: sum.split prod.split option.split)

lemma ParseFrameInto_bounds:
  assumes "ParseFrameInto P f dstLen raw = (Inr (ptype, payLen, written), f')"
  shows "payLen + 24 \<le> length raw"
  using assms
  by (auto simp: ParseFrameInto_def Let_def dest!: parse_header_lengths
      split: sum.splits prod.splits option.splits if_splits)

section \<open>Two framers in lock-step\<close>

definition framer_ok :: "StreamFramer \<Rightarrow> bool" where
  "framer_ok f \<longleftrightarrow> headers_ok (HeaderCfg f) \<and> 0 \<le> DataMin (PaddingCfg f) \<and>
     0 \<le> NoiseMin (PaddingCfg f) \<and> 0 \<le> KeepaliveMin (PaddingCfg f)"

text \<open>\<open>rx\<close> is positioned to read the next frame \<open>tx\<close> writes.\<close>

definition in_sync :: "StreamFramer \<Rightarrow> StreamFramer \<Rightarrow> bool" where
  "in_sync tx rx \<longleftrightarrow>
     DecCipher rx = EncCipher tx \<and> DecHeaderKey rx = EncHeaderKey tx \<and>
     DecFrameKey rx = EncFrameKey tx \<and> decFrameCtr rx = encFrameCtr tx \<and> HeaderCfg rx = HeaderCfg tx"

lemma frame_padding_nonneg:
  "framer_ok f \<Longrightarrow> frame_padding f r pt p = (a, b) \<Longrightarrow> 0 \<le> a"
  by (auto simp: frame_padding_def framer_ok_def paddingFor_def Let_def CalculateBucketPadding_nonneg split: if_splits)

lemma Frame_succeeds:
  assumes "aead_ok P" and "framer_ok f" and "known_type pt" and "length payload \<le> 65535"
  obtains pkt mn mx where
    "encodePacketWithHeaderProtection P r (EncCipher f) (EncHeaderKey f) (HeaderCfg f) pt payload mn mx =
       (Inr pkt, (EncCipher f)\<lparr>counter := counter (EncCipher f) + 1\<rparr>)"
    "Frame P r f pt payload =
       (Inr (be32 (maskFrameLen P (EncFrameKey f) (encFrameCtr f) (of_nat (length pkt))) @ pkt),
        f\<lparr>EncCipher := (EncCipher f)\<lparr>counter := counter (EncCipher f) + 1\<rparr>,
          encFrameCtr := encFrameCtr f + 1\<rparr>)"
proof -
  obtain a b where ab: "frame_padding f r pt payload = (a, b)" by force
  have hc: "headers_ok (HeaderCfg f)" using assms(2) by (simp add: framer_ok_def)
  obtain pkt where pkt: "encodePacketWithHeaderProtection P r (EncCipher f) (EncHeaderKey f) (HeaderCfg f) pt payload a b =
       (Inr pkt, (EncCipher f)\<lparr>counter := counter (EncCipher f) + 1\<rparr>)"
    by (rule encode_succeeds [OF assms(1) hc assms(3,4) frame_padding_nonneg [OF assms(2) ab]])
  show thesis by (rule that [OF pkt]) (simp add: Frame_def ab pkt)
qed

text \<open>One frame crosses: the receiver recovers the length, then the packet, and both
  sides are in lock-step again.\<close>

lemma frame_crosses:
  assumes "aead_ok P" and "framer_ok tx" and "in_sync tx rx" and "known_type pt" and "length payload \<le> 65535"
  obtains pkt tx' rx1 rx' masked where
    "Frame P r tx pt payload = (Inr (be32 masked @ pkt), tx')"
    "DecodeFrameLen P rx masked = (of_nat (length pkt), rx1)"
    "ParseFrame P rx1 pkt = (Inr \<lparr>pType = pt, pPayload = payload\<rparr>, rx')"
    "in_sync tx' rx'" "framer_ok tx'" "24 + length payload \<le> length pkt" "length pkt \<le> 279 + length payload"
proof -
  from Frame_succeeds [OF assms(1,2,4,5), of r] obtain pkt mn mx where
    e: "encodePacketWithHeaderProtection P r (EncCipher tx) (EncHeaderKey tx) (HeaderCfg tx) pt payload mn mx =
       (Inr pkt, (EncCipher tx)\<lparr>counter := counter (EncCipher tx) + 1\<rparr>)"
    and f: "Frame P r tx pt payload =
       (Inr (be32 (maskFrameLen P (EncFrameKey tx) (encFrameCtr tx) (of_nat (length pkt))) @ pkt),
        tx\<lparr>EncCipher := (EncCipher tx)\<lparr>counter := counter (EncCipher tx) + 1\<rparr>,
          encFrameCtr := encFrameCtr tx + 1\<rparr>)" by blast
  have hc: "headers_ok (HeaderCfg tx)" using assms(2) by (simp add: framer_ok_def)
  note e' = e [unfolded encode_fresh_as_buffer]
  have d: "decodePacketWithHeaderProtection P (EncCipher tx) (EncHeaderKey tx) (HeaderCfg tx) pkt =
      (Inr \<lparr>pType = pt, pPayload = payload\<rparr>, (EncCipher tx)\<lparr>counter := counter (EncCipher tx) + 1\<rparr>)"
    by (rule decode_encode_buffer [OF assms(1) hc assms(4) e'])
  show thesis
  proof (rule that)
    show "Frame P r tx pt payload = (Inr (be32 (maskFrameLen P (EncFrameKey tx) (encFrameCtr tx) (of_nat (length pkt))) @ pkt),
        tx\<lparr>EncCipher := (EncCipher tx)\<lparr>counter := counter (EncCipher tx) + 1\<rparr>,
          encFrameCtr := encFrameCtr tx + 1\<rparr>)" by (rule f)
    show "DecodeFrameLen P rx (maskFrameLen P (EncFrameKey tx) (encFrameCtr tx) (of_nat (length pkt))) =
        (of_nat (length pkt), rx\<lparr>decFrameCtr := decFrameCtr rx + 1\<rparr>)"
      using assms(3) by (simp add: DecodeFrameLen_def in_sync_def maskFrameLen_invol)
    show "ParseFrame P (rx\<lparr>decFrameCtr := decFrameCtr rx + 1\<rparr>) pkt =
        (Inr \<lparr>pType = pt, pPayload = payload\<rparr>,
         rx\<lparr>decFrameCtr := decFrameCtr rx + 1, DecCipher := (EncCipher tx)\<lparr>counter := counter (EncCipher tx) + 1\<rparr>\<rparr>)"
      using assms(3) d by (simp add: ParseFrame_def in_sync_def)
  qed (use assms(2,3) length_encode_buffer [OF assms(1) e'] in \<open>auto simp: in_sync_def framer_ok_def\<close>)
qed

section \<open>Properties\<close>

text \<open>
  Fact. The hand-written stack HMAC is HMAC-SHA256 for every key and message, so the
  frame length is masked by the first four bytes of a MAC over the label and the frame
  counter; the label that is authenticated is the first 16 bytes of the literal. Masking
  is undone by masking again.
\<close>
theorem frame_length_mask_is_hmac:
  assumes "sha_ok P"
  shows "fastHmacSHA256Stack P key data = HmacSHA256 P key data \<and>
         maskFrameLen P (Some key) ctr n =
           n XOR rd32 (take 4 (HmacSHA256 P key (str ''obsidian_frame_v'' @ be64 ctr))) \<and>
         maskFrameLen P k ctr (maskFrameLen P k ctr n) = n"
  using fast_hmac_eq [OF assms] maskFrameLen_invol
  by (simp add: maskFrameLen_def frame_mask_msg_def str_def)

theorem frame_length_mask_is_hmac_witness:
  "fastHmacSHA256Stack toy_lib (replicate 70 1) [5] = HmacSHA256 toy_lib (replicate 70 1) [5]"
  by (rule frame_length_mask_is_hmac [OF toy_sha_ok, THEN conjunct1])

text \<open>
  Property C12. The allocation-free paths do what the allocating ones do: with a destination
  at least 283 bytes longer than the payload \<^verbatim>\<open>FrameWithBuffer\<close> returns the bytes and
  the state of \<^verbatim>\<open>Frame\<close>, and with a destination as long as the plaintext
  \<^verbatim>\<open>ParseFrameWithBuffer\<close> returns what \<^verbatim>\<open>ParseFrame\<close> returns, on every input and
  every error path.
\<close>
theorem buffered_framing_equivalent:
  assumes "283 + length payload \<le> dstLen" and "length raw \<le> dstLen' + 24"
  shows "FrameWithBuffer P r f dstLen ptype payload = Frame P r f ptype payload \<and>
         ParseFrameWithBuffer P f dstLen' raw = ParseFrame P f raw"
proof
  show "FrameWithBuffer P r f dstLen ptype payload = Frame P r f ptype payload"
    using assms(1) by (intro FrameWithBuffer_eq_Frame) simp
  show "ParseFrameWithBuffer P f dstLen' raw = ParseFrame P f raw"
    unfolding ParseFrameInto_eq_ParseFrame [OF assms(2)] ParseFrameWithBuffer_def
    using assms(2) by (auto dest: ParseFrameInto_bounds split: prod.split sum.split)
qed

theorem buffered_framing_equivalent_witness:
  "FrameWithBuffer toy_lib \<lparr>trailerDraw = 0, padDraw = 7, padRng = \<lambda>i. 5, typeDraw = 11\<rparr>
     (NewStreamFramer (NewCipher [] []) (NewCipher [] [])) 300 PacketData [1, 2] =
   Frame toy_lib \<lparr>trailerDraw = 0, padDraw = 7, padRng = \<lambda>i. 5, typeDraw = 11\<rparr>
     (NewStreamFramer (NewCipher [] []) (NewCipher [] [])) PacketData [1, 2] \<and>
   ParseFrameWithBuffer toy_lib (NewStreamFramer (NewCipher [] []) (NewCipher [] [])) 10 [1, 2, 3] =
   ParseFrame toy_lib (NewStreamFramer (NewCipher [] []) (NewCipher [] [])) [1, 2, 3]"
  by (rule buffered_framing_equivalent) simp_all

end
