(* ===== verification/Stream_Tunnel.thy ===== *)
theory Stream_Tunnel
  imports Stream_Framer
begin

text \<open>
  \<^verbatim>\<open>obsidian/obfuscation.go\<close>, \<^verbatim>\<open>Tunnel\<close>: sending packets on a stream
  connection, the receive loop, the consumer side and the noise and keepalive timers.
  Times are nanoseconds and every reading of the clock is an argument; the connection is
  the bytes it still delivers (receiving) and the answers of its \<^verbatim>\<open>Write\<close> (sending).
\<close>

section \<open>Configuration\<close>

datatype JitterProfile = JitterOff | JitterLight | JitterMedium | JitterHeavy

definition Millisecond :: int where "Millisecond = 1000000"
definition Second :: int where "Second = 1000 * Millisecond"
definition Minute :: int where "Minute = 60 * Second"

lemmas duration_defs = Millisecond_def Second_def Minute_def

definition window :: "JitterProfile \<Rightarrow> int" where
  "window j = (case j of JitterLight \<Rightarrow> 5 * Millisecond | JitterMedium \<Rightarrow> 20 * Millisecond
                       | JitterHeavy \<Rightarrow> 50 * Millisecond | JitterOff \<Rightarrow> 0)"

record TunnelConfig =
  NoiseMinInterval :: int
  NoiseMaxInterval :: int
  KeepaliveInterval :: int
  KeepaliveJitter :: int
  MaxSessionDuration :: int
  MaxSessionPackets :: u64
  tcJitter :: JitterProfile
  DataPadMin :: int
  DataPadMax :: int
  tcUseBucketPadding :: bool
  tcBucketMTU :: int
  tcMaxTrailer :: int

definition DefaultTunnelConfig :: TunnelConfig where
  "DefaultTunnelConfig =
     \<lparr>NoiseMinInterval = 10 * Second, NoiseMaxInterval = 40 * Second,
      KeepaliveInterval = 20 * Second, KeepaliveJitter = 5 * Second,
      MaxSessionDuration = 360 * Minute, MaxSessionPackets = 2 ^ 48, tcJitter = JitterOff,
      DataPadMin = 0, DataPadMax = 0, tcUseBucketPadding = False, tcBucketMTU = 1360,
      tcMaxTrailer = 0\<rparr>"

section \<open>State\<close>

definition tunnelDataQueueSize :: nat where "tunnelDataQueueSize = 256"

record Tunnel =
  framer :: StreamFramer
  tJitter :: JitterProfile
  dataIn :: "bytes list"
  lastAuthNano :: int
  lastDataSendNano :: int
  createdAt :: int
  maxDuration :: int
  maxPackets :: u64
  packetCount :: u64
  cancelled :: bool
  dataClosed :: bool

text \<open>\<open>jit\<close> is the raw draw of \<^verbatim>\<open>rand.IntN(5)\<close>, \<open>coin\<close> the outcome of
  \<^verbatim>\<open>rand.Float64() < 0.5\<close>.\<close>

definition dyn_duration :: "nat \<Rightarrow> bool \<Rightarrow> int \<Rightarrow> int" where
  "dyn_duration jit coin d =
     (if 0 < d then
        let jitterMin = (1 + the (IntN jit 5)) * Minute;
            d' = (if coin then d - jitterMin else d + jitterMin)
        in if d' < Minute then Minute else d'
      else d)"

definition NewTunnel :: "nat \<Rightarrow> bool \<Rightarrow> int \<Rightarrow> StreamFramer \<Rightarrow> TunnelConfig \<Rightarrow> Tunnel" where
  "NewTunnel jit coin now f cfg =
     \<lparr>framer = f\<lparr>PaddingCfg := (PaddingCfg f)\<lparr>DataMin := DataPadMin cfg, DataMax := DataPadMax cfg,
                    UseBucketPadding := tcUseBucketPadding cfg, BucketMTU := tcBucketMTU cfg,
                    MaxTrailer := tcMaxTrailer cfg\<rparr>\<rparr>,
      tJitter = tcJitter cfg, dataIn = [], lastAuthNano = now, lastDataSendNano = 0,
      createdAt = now, maxDuration = dyn_duration jit coin (MaxSessionDuration cfg),
      maxPackets = MaxSessionPackets cfg, packetCount = 0, cancelled = False, dataClosed = False\<rparr>"

definition sessionExpired :: "Tunnel \<Rightarrow> int \<Rightarrow> u64 \<Rightarrow> bool" where
  "sessionExpired t now count =
     (if count AND 1023 \<noteq> 0 then False
      else if 0 < maxDuration t \<and> now - createdAt t \<ge> maxDuration t then True
      else if 0 < maxPackets t \<and> count \<ge> maxPackets t then True
      else False)"

section \<open>Sending\<close>

text \<open>
  \<open>w i frame\<close> is the answer of the \<open>i\<close>-th \<^verbatim>\<open>conn.Write\<close>: the number of bytes taken
  and an error. The first component of the result is what reached the connection.
\<close>

function writeFrameLocked ::
    "(nat \<Rightarrow> bytes \<Rightarrow> int \<times> go_error option) \<Rightarrow> nat \<Rightarrow> bytes \<Rightarrow> bytes \<times> unit res" where
  "writeFrameLocked w i frame =
     (if frame = [] then ([], Inr ())
      else
        let (n, err) = w i frame; sent = take (nat n) frame
        in case err of
             Some e \<Rightarrow> (sent, Inl e)
           | None \<Rightarrow>
               if n \<le> 0 then (sent, Inl ErrShortWrite)
               else if n > int (length frame) then (sent, Inl (Errorf ''connection write exceeded frame length''))
               else let (more, r) = writeFrameLocked w (Suc i) (drop (nat n) frame) in (sent @ more, r))"
  by pat_completeness auto
termination
  by (relation "measure (\<lambda>(w, i, frame). length frame)") auto

declare writeFrameLocked.simps [simp del]

text \<open>\<open>now\<close> is read for the expiry check, \<open>now'\<close> after the write.\<close>

definition writePacket ::
    "crypto_lib \<Rightarrow> draws \<Rightarrow> (nat \<Rightarrow> bytes \<Rightarrow> int \<times> go_error option) \<Rightarrow> int \<Rightarrow> int
       \<Rightarrow> Tunnel \<Rightarrow> PacketType \<Rightarrow> bytes \<Rightarrow> bytes \<times> unit res \<times> Tunnel" where
  "writePacket P r w now now' t ptype payload =
     (let count = packetCount t + 1;
          t1 = t\<lparr>packetCount := count\<rparr>
      in if sessionExpired t1 now count then ([], Inl ErrClosedPipe, t1\<lparr>cancelled := True\<rparr>)
         else
           let (fr, f') = FrameWithBuffer P r (framer t1)
                            (4 + packetHeaderSize + length payload + 256 + TagSize) ptype payload;
               t2 = t1\<lparr>framer := f'\<rparr>
           in case fr of
                Inl e \<Rightarrow> ([], Inl e, t2)
              | Inr frame \<Rightarrow>
                  (case writeFrameLocked w 0 frame of
                     (sent, Inl e) \<Rightarrow> (sent, Inl e, t2\<lparr>cancelled := True\<rparr>)
                   | (sent, Inr _) \<Rightarrow> (sent, Inr (), t2\<lparr>lastAuthNano := now'\<rparr>)))"

text \<open>The result says whether \<^verbatim>\<open>applyBurstJitter\<close> sleeps.\<close>

definition applyBurstJitter :: "int \<Rightarrow> Tunnel \<Rightarrow> bool \<times> Tunnel" where
  "applyBurstJitter now t =
     (if window (tJitter t) \<le> 0 then (False, t)
      else (\<not> now - lastDataSendNano t < window (tJitter t), t\<lparr>lastDataSendNano := now\<rparr>))"

definition SendData ::
    "crypto_lib \<Rightarrow> draws \<Rightarrow> (nat \<Rightarrow> bytes \<Rightarrow> int \<times> go_error option) \<Rightarrow> int \<Rightarrow> int \<Rightarrow> int
       \<Rightarrow> Tunnel \<Rightarrow> bytes \<Rightarrow> bytes \<times> unit res \<times> Tunnel" where
  "SendData P r w now0 now now' t payload =
     writePacket P r w now now' (snd (applyBurstJitter now0 t)) PacketData payload"

section \<open>Receiving\<close>

text \<open>\<^verbatim>\<open>io.ReadFull\<close> on the remaining bytes of a connection that then reports EOF.\<close>

definition ReadFull :: "nat \<Rightarrow> bytes \<Rightarrow> (bytes \<times> bytes) res" where
  "ReadFull n inp =
     (if n \<le> length inp then Inr (take n inp, drop n inp)
      else if inp = [] then Inl ErrEOF else Inl ErrUnexpectedEOF)"

datatype recv_event = Stop | Skip | Deliver bytes

text \<open>One iteration of \<^verbatim>\<open>recvLoop\<close>; \<open>Deliver\<close> is the send on \<^verbatim>\<open>dataIn\<close>.\<close>

definition recv_iter ::
    "crypto_lib \<Rightarrow> int \<Rightarrow> Tunnel \<Rightarrow> bytes \<Rightarrow> recv_event \<times> bytes \<times> Tunnel" where
  "recv_iter P now t inp =
     (let count = packetCount t + 1; t1 = t\<lparr>packetCount := count\<rparr>
      in if sessionExpired t1 now count then (Stop, inp, t1)
         else case ReadFull 4 inp of
           Inl e \<Rightarrow> (Stop, [], t1)
         | Inr (lenBuf, inp1) \<Rightarrow>
             let (frameLen, f1) = DecodeFrameLen P (framer t1) (rd32 lenBuf);
                 t2 = t1\<lparr>framer := f1\<rparr>
             in if frameLen > of_nat maxFrameSize then (Stop, inp1, t2)
                else case ReadFull (unat frameLen) inp1 of
                  Inl e \<Rightarrow> (Stop, [], t2)
                | Inr (raw, inp2) \<Rightarrow>
                    let (r, f2) = ParseFrameInto P f1 (unat frameLen) raw;
                        t3 = t2\<lparr>framer := f2\<rparr>
                    in case r of
                         Inl e \<Rightarrow> (Stop, inp2, t3)
                       | Inr (ptype, payLen, buf) \<Rightarrow>
                           let t4 = t3\<lparr>lastAuthNano := now\<rparr>
                           in if ptype = PacketData then (Deliver (take payLen buf), inp2, t4)
                              else if ptype = PacketClose then (Stop, inp2, t4)
                              else (Skip, inp2, t4))"

lemma ReadFull_Inr: "ReadFull n inp = Inr (a, b) \<Longrightarrow> inp = a @ b \<and> length a = n"
  by (auto simp: ReadFull_def split: if_splits)

lemma recv_iter_consumes:
  "recv_iter P now t inp = (ev, rest, t') \<Longrightarrow> ev \<noteq> Stop \<Longrightarrow> length rest < length inp"
  by (auto simp: recv_iter_def Let_def dest!: ReadFull_Inr
      split: if_splits sum.splits prod.splits)

text \<open>
  The whole loop with a consumer that keeps up: the payloads handed over in order, and
  the tunnel after the deferred \<^verbatim>\<open>cancel\<close>. Every iteration consumes input, so the loop
  ends once the connection does. \<open>clk i\<close> is the clock in iteration \<open>i\<close>.
\<close>

function recvLoop ::
    "crypto_lib \<Rightarrow> (nat \<Rightarrow> int) \<Rightarrow> nat \<Rightarrow> Tunnel \<Rightarrow> bytes \<Rightarrow> bytes list \<times> Tunnel" where
  "recvLoop P clk i t inp =
     (case recv_iter P (clk i) t inp of
        (Stop, rest, t') \<Rightarrow> ([], t'\<lparr>cancelled := True, dataClosed := True\<rparr>)
      | (Skip, rest, t') \<Rightarrow> recvLoop P clk (Suc i) t' rest
      | (Deliver p, rest, t') \<Rightarrow>
          let (ps, t'') = recvLoop P clk (Suc i) t' rest in (p # ps, t''))"
  by pat_completeness auto
termination
  by (relation "measure (\<lambda>(P, clk, i, t, inp). length inp)") (auto dest!: recv_iter_consumes [OF sym])

declare recvLoop.simps [simp del]

section \<open>Consumer, timers and shutdown\<close>

text \<open>
  The \<^verbatim>\<open>select\<close> that \<^verbatim>\<open>RecvDataInto\<close> and \<^verbatim>\<open>RecvData\<close> have in common: a packet is ready (or the channel is
  closed and empty), the context of the caller is done, or the tunnel is cancelled. \<open>ctx\<close> is \<open>None\<close> for the nil context and says otherwise whether it is done; of several ready cases the one
  in \<open>pick\<close> is taken, so a cancelled tunnel may still hand out queued packets. \<open>None\<close> is a call that stays blocked.
\<close>

datatype pick = PickData | PickCtx | PickDone

definition select_packet :: "bool option \<Rightarrow> pick \<Rightarrow> Tunnel \<Rightarrow> (bytes res \<times> Tunnel) option" where
  "select_packet ctx pick t =
     (if pick = PickCtx \<and> ctx = Some True then Some (Inl (Errorf ''context done''), t)
      else if pick = PickDone \<and> cancelled t then Some (Inl ErrEOF, t)
      else case dataIn t of
             p # q \<Rightarrow> Some (Inr p, t\<lparr>dataIn := q\<rparr>)
           | [] \<Rightarrow>
               if ctx = Some True then Some (Inl (Errorf ''context done''), t)
               else if cancelled t \<or> dataClosed t then Some (Inl ErrEOF, t)
               else None)"

definition RecvDataInto :: "bool option \<Rightarrow> pick \<Rightarrow> nat \<Rightarrow> Tunnel \<Rightarrow> (bytes res \<times> Tunnel) option" where
  "RecvDataInto ctx pick dstLen t =
     (case select_packet ctx pick t of
        Some (Inr p, t') \<Rightarrow> Some (if dstLen < length p then Inl ErrShortBuffer else Inr p, t')
      | r \<Rightarrow> r)"

definition RecvData :: "bool option \<Rightarrow> pick \<Rightarrow> Tunnel \<Rightarrow> (bytes res \<times> Tunnel) option" where
  "RecvData ctx pick t = select_packet ctx pick t"

text \<open>One iteration of \<^verbatim>\<open>drainDataIn\<close>, the last part of \<^verbatim>\<open>Close\<close>; \<open>None\<close> ends it.\<close>

definition drain_packet :: "Tunnel \<Rightarrow> (bytes \<times> Tunnel) option" where
  "drain_packet t = (case dataIn t of [] \<Rightarrow> None | p # q \<Rightarrow> Some (p, t\<lparr>dataIn := q\<rparr>))"

definition NewNoisePacket :: "nat \<Rightarrow> (nat \<Rightarrow> u64) \<Rightarrow> Packet" where
  "NewNoisePacket draw rng =
     \<lparr>pType = PacketNoise, pPayload = FastRandomBytes rng 0 (nat (64 + the (IntN draw 448)))\<rparr>"

definition NewKeepalivePacket :: "nat \<Rightarrow> (nat \<Rightarrow> u64) \<Rightarrow> u64 \<Rightarrow> Packet" where
  "NewKeepalivePacket draw rng unixMilli =
     \<lparr>pType = PacketKeepalive,
      pPayload = be64 unixMilli @ FastRandomBytes rng 0 (nat (8 + the (IntN draw 32)))\<rparr>"

text \<open>What a firing of the noise or the keepalive timer does: nothing while the tunnel was
  active recently, one packet otherwise. The flag says whether the loop goes on.\<close>

definition noise_tick ::
    "crypto_lib \<Rightarrow> draws \<Rightarrow> (nat \<Rightarrow> bytes \<Rightarrow> int \<times> go_error option) \<Rightarrow> nat \<Rightarrow> int \<Rightarrow> int \<Rightarrow> int
       \<Rightarrow> Tunnel \<Rightarrow> bytes \<times> bool \<times> Tunnel" where
  "noise_tick P r w draw maxInterval now now' t =
     (if 0 < maxInterval \<and> now - lastAuthNano t < maxInterval then ([], True, t)
      else
        let pkt = NewNoisePacket draw (padRng r);
            (sent, res, t') = writePacket P r w now now' t (pType pkt) (pPayload pkt)
        in (sent, res = Inr (), t'))"

definition keepalive_tick ::
    "crypto_lib \<Rightarrow> draws \<Rightarrow> (nat \<Rightarrow> bytes \<Rightarrow> int \<times> go_error option) \<Rightarrow> nat \<Rightarrow> int \<Rightarrow> int \<Rightarrow> int
       \<Rightarrow> Tunnel \<Rightarrow> bytes \<times> bool \<times> Tunnel" where
  "keepalive_tick P r w draw interval now now' t =
     (if 0 < interval \<and> now - lastAuthNano t < interval then ([], True, t)
      else
        let pkt = NewKeepalivePacket draw (padRng r) (of_int (now div Millisecond));
            (sent, res, t') = writePacket P r w now now' t (pType pkt) (pPayload pkt)
        in (sent, res = Inr (), t'))"

section \<open>What the stream means\<close>

text \<open>
  The specification of the receiving side, independent of clocks, counters, buffers and
  scheduling: one frame of the stream, and the DATA payloads of the whole stream up to a
  Close packet or the first frame that does not parse.
\<close>

definition rx_step :: "crypto_lib \<Rightarrow> StreamFramer \<Rightarrow> bytes \<Rightarrow> recv_event \<times> bytes \<times> StreamFramer" where
  "rx_step P f inp =
     (if length inp < 4 then (Stop, [], f)
      else
        let (n, f1) = DecodeFrameLen P f (rd32 (take 4 inp))
        in if n > of_nat maxFrameSize \<or> length inp - 4 < unat n then (Stop, [], f1)
           else case ParseFrame P f1 (take (unat n) (drop 4 inp)) of
                  (Inl e, f2) \<Rightarrow> (Stop, [], f2)
                | (Inr p, f2) \<Rightarrow>
                    (if pType p = PacketData then Deliver (pPayload p)
                     else if pType p = PacketClose then Stop else Skip,
                     drop (4 + unat n) inp, f2))"

lemma rx_step_consumes: "rx_step P f inp = (ev, rest, f') \<Longrightarrow> ev \<noteq> Stop \<Longrightarrow> length rest < length inp"
  by (auto simp: rx_step_def Let_def split: if_splits sum.splits prod.splits)

function stream_data :: "crypto_lib \<Rightarrow> StreamFramer \<Rightarrow> bytes \<Rightarrow> bytes list" where
  "stream_data P f inp =
     (case rx_step P f inp of
        (Stop, rest, f') \<Rightarrow> []
      | (Skip, rest, f') \<Rightarrow> stream_data P f' rest
      | (Deliver p, rest, f') \<Rightarrow> p # stream_data P f' rest)"
  by pat_completeness auto
termination
  by (relation "measure (\<lambda>(P, f, inp). length inp)") (auto dest!: rx_step_consumes [OF sym])

declare stream_data.simps [simp del]

section \<open>Lemmas\<close>

lemma recv_iter_rx_step:
  assumes "recv_iter P now t inp = (ev, rest, t')"
    and "\<not> sessionExpired (t\<lparr>packetCount := packetCount t + 1\<rparr>) now (packetCount t + 1)"
  obtains rest' where "rx_step P (framer t) inp = (ev, rest', framer t')" "ev \<noteq> Stop \<Longrightarrow> rest' = rest"
proof (cases "length inp < 4")
  case True
  with assms that [of "[]"] show thesis
    by (auto simp: recv_iter_def rx_step_def ReadFull_def split: if_splits)
next
  case False
  then have R4: "ReadFull 4 inp = Inr (take 4 inp, drop 4 inp)" by (simp add: ReadFull_def)
  obtain n f1 where D: "DecodeFrameLen P (framer t) (rd32 (take 4 inp)) = (n, f1)" by force
  show thesis
  proof (cases "n > of_nat maxFrameSize \<or> length inp - 4 < unat n")
    case True
    with assms that [of "[]"] R4 D False show thesis
      by (auto simp: recv_iter_def rx_step_def ReadFull_def Let_def split: if_splits)
  next
    case ok: False
    define raw where "raw = take (unat n) (drop 4 inp)"
    have Rn: "ReadFull (unat n) (drop 4 inp) = Inr (raw, drop (4 + unat n) inp)"
      using ok by (simp add: ReadFull_def raw_def add.commute [of 4])
    have "length raw \<le> unat n + 24" by (simp add: raw_def)
    note PF = ParseFrameInto_eq_ParseFrame [OF this, of P f1]
    obtain r f2 where I: "ParseFrameInto P f1 (unat n) raw = (r, f2)" by force
    have S: "rx_step P (framer t) inp =
        (case ParseFrame P f1 raw of
           (Inl e, f2) \<Rightarrow> (Stop, [], f2)
         | (Inr p, f2) \<Rightarrow>
             (if pType p = PacketData then Deliver (pPayload p)
              else if pType p = PacketClose then Stop else Skip,
              drop (4 + unat n) inp, f2))"
      using ok D False by (simp add: rx_step_def raw_def)
    have T: "recv_iter P now t inp =
        (case r of
           Inl e \<Rightarrow> (Stop, drop (4 + unat n) inp, t\<lparr>packetCount := packetCount t + 1, framer := f2\<rparr>)
         | Inr (ptype, payLen, buf) \<Rightarrow>
             (if ptype = PacketData then Deliver (take payLen buf)
              else if ptype = PacketClose then Stop else Skip,
              drop (4 + unat n) inp, t\<lparr>packetCount := packetCount t + 1, framer := f2, lastAuthNano := now\<rparr>))"
      using ok R4 D Rn I assms(2) by (auto simp: recv_iter_def Let_def split: sum.split)
    show thesis
      by (rule that [of "fst (snd (rx_step P (framer t) inp))"]) (use S T I PF assms(1) in \<open>auto split: sum.splits prod.splits\<close>)
  qed
qed

lemma recv_iter_expired:
  "sessionExpired (t\<lparr>packetCount := packetCount t + 1\<rparr>) now (packetCount t + 1) \<Longrightarrow>
   recv_iter P now t inp = (Stop, inp, t\<lparr>packetCount := packetCount t + 1\<rparr>)"
  by (simp add: recv_iter_def Let_def)

lemma recv_iter_frame:
  "recv_iter P now t inp = (ev, rest, t') \<Longrightarrow>
   dataIn t' = dataIn t \<and> cancelled t' = cancelled t \<and> dataClosed t' = dataClosed t \<and> PaddingCfg (framer t') = PaddingCfg (framer t)"
  by (auto simp: recv_iter_def Let_def DecodeFrameLen_def ParseFrameInto_def
      split: if_splits sum.splits prod.splits option.splits)

end
