(* ===== verification/Handshake_Frames.thy ===== *)
theory Handshake_Frames
  imports Cps_Signature Header_Ranges Stream_Tunnel
begin

text \<open>
  The camouflage around the handshake of \<^verbatim>\<open>obsidian/handshake.go\<close>: the obfuscation
  parameters (with \<^verbatim>\<open>obsidian/profiles.go\<close>), the signature and junk trains, and the
  hello frames without a fixed magic, found by scanning the stream.
\<close>

section \<open>Parameters\<close>

record ObfuscationConfig =
  JunkCount :: int
  JunkMin :: int
  JunkMax :: int
  S1Min :: int
  S1Max :: int
  S2Min :: int
  S2Max :: int
  PrePadMax :: int
  ocMaxTrailer :: int
  Signatures :: "cpsToken list option list"
  Headers :: HeaderConfig

definition DefaultObfuscationConfig :: ObfuscationConfig where
  "DefaultObfuscationConfig =
     \<lparr>JunkCount = 3, JunkMin = 64, JunkMax = 512, S1Min = 64, S1Max = 256, S2Min = 64, S2Max = 256,
      PrePadMax = 64, ocMaxTrailer = 32, Signatures = [], Headers = DefaultHeaderConfig\<rparr>"

definition NormalizeProfile :: "gostring \<Rightarrow> gostring" where
  "NormalizeProfile profile =
     (if profile = lit ''balanced'' \<or> profile = lit ''stealth'' then profile else lit ''fast-secure'')"

definition ApplyProfile ::
    "gostring \<Rightarrow> TunnelConfig \<Rightarrow> ObfuscationConfig \<Rightarrow> TunnelConfig \<times> ObfuscationConfig" where
  "ApplyProfile profile tc oc =
     (if NormalizeProfile profile = lit ''stealth'' then
        (tc\<lparr>tcJitter := JitterLight, NoiseMinInterval := 10 * Second, NoiseMaxInterval := 40 * Second,
           tcUseBucketPadding := True, tcBucketMTU := 1360, tcMaxTrailer := 64\<rparr>,
         oc\<lparr>ocMaxTrailer := 64, JunkCount := max (JunkCount oc) 4, JunkMin := max (JunkMin oc) 96,
           JunkMax := max (JunkMax oc) 768, S1Min := max (S1Min oc) 96, S1Max := max (S1Max oc) 384,
           S2Min := max (S2Min oc) 96, S2Max := max (S2Max oc) 384\<rparr>)
      else if NormalizeProfile profile = lit ''balanced'' then
        (tc\<lparr>tcJitter := JitterOff, DataPadMin := 0, DataPadMax := 0, tcUseBucketPadding := False,
           tcBucketMTU := 1360, tcMaxTrailer := 0\<rparr>,
         oc\<lparr>ocMaxTrailer := 0\<rparr>)
      else
        (tc\<lparr>tcJitter := JitterOff, DataPadMin := 0, DataPadMax := 0, tcUseBucketPadding := False,
           tcBucketMTU := 1360, tcMaxTrailer := 0\<rparr>,
         oc\<lparr>ocMaxTrailer := 0, JunkCount := max (JunkCount oc) 3, JunkMin := max (JunkMin oc) 64,
           JunkMax := max (JunkMax oc) 512, S1Min := max (S1Min oc) 64, S1Max := max (S1Max oc) 256,
           S2Min := max (S2Min oc) 64, S2Max := max (S2Max oc) 256, PrePadMax := max (PrePadMax oc) 64\<rparr>))"

section \<open>Trains\<close>

text \<open>Each train is a sequence of length-prefixed packets.\<close>

definition train_frame :: "bytes \<Rightarrow> bytes" where
  "train_frame pkt = be32 (of_nat (length pkt)) @ pkt"

fun BuildSignatureTrain :: "(nat \<Rightarrow> byte) \<Rightarrow> nat \<Rightarrow> u32 \<Rightarrow> cpsToken list option list \<Rightarrow> bytes res" where
  "BuildSignatureTrain rnd off unix [] = Inr []"
| "BuildSignatureTrain rnd off unix (None # sigs) = BuildSignatureTrain rnd off unix sigs"
| "BuildSignatureTrain rnd off unix (Some sig # sigs) =
     (case Generate rnd off unix sig of
        Inl e \<Rightarrow> Inl (Errorf ''signature generate'')
      | Inr pkt \<Rightarrow>
          (case BuildSignatureTrain rnd (off + length pkt) unix sigs of
             Inl e \<Rightarrow> Inl e
           | Inr out \<Rightarrow> Inr (train_frame pkt @ out)))"

definition randomRangeInt :: "(nat \<Rightarrow> byte) \<Rightarrow> nat \<Rightarrow> int \<Rightarrow> int \<Rightarrow> int" where
  "randomRangeInt rnd off mn mx =
     (if mx \<le> mn then mn else mn + uint (rd16 [rnd off, rnd (off + 1)]) mod (mx - mn))"

fun junk_frames :: "(nat \<Rightarrow> byte) \<Rightarrow> nat \<Rightarrow> nat \<Rightarrow> ObfuscationConfig \<Rightarrow> bytes res" where
  "junk_frames rnd off 0 cfg = Inr []"
| "junk_frames rnd off (Suc n) cfg =
     (let sz = randomRangeInt rnd off (JunkMin cfg) (JunkMax cfg)
      in case RandomBytes rnd (off + 2) sz of
           Inl e \<Rightarrow> Inl e
         | Inr payload \<Rightarrow>
             (case junk_frames rnd (off + 2 + length payload) n cfg of
                Inl e \<Rightarrow> Inl e
              | Inr out \<Rightarrow> Inr (train_frame payload @ out)))"

text \<open>The Go remainder \<^verbatim>\<open>int(rb[0]) % cfg.JunkCount\<close> takes the sign of the dividend,
  so it is the remainder by the absolute value.\<close>

definition BuildJunkTrain :: "(nat \<Rightarrow> byte) \<Rightarrow> nat \<Rightarrow> ObfuscationConfig \<Rightarrow> (bytes \<times> nat) res" where
  "BuildJunkTrain rnd off cfg =
     (if JunkCount cfg = 0 then Inr ([], 0)
      else
        let count = 1 + nat (uint (rnd off) mod \<bar>JunkCount cfg\<bar>)
        in case junk_frames rnd (off + 1) count cfg of
             Inl e \<Rightarrow> Inl e
           | Inr out \<Rightarrow> Inr (out, count))"

fun SkipJunkFrames :: "bytes \<Rightarrow> nat \<Rightarrow> bytes" where
  "SkipJunkFrames buf 0 = buf"
| "SkipJunkFrames buf (Suc n) =
     (if length buf < 4 then buf
      else
        let frameLen = unat (rd32 (take 4 buf))
        in if 1024 < frameLen \<or> length buf < 4 + frameLen then buf
           else SkipJunkFrames (drop (4 + frameLen) buf) n)"

section \<open>Hello frames\<close>

definition hello_mac :: "crypto_lib \<Rightarrow> bytes \<Rightarrow> bytes \<Rightarrow> bytes" where
  "hello_mac P serverPub n = HmacSHA256 P serverPub (n @ str ''obsidian_hello_frame_v3'')"

definition hello_frame :: "crypto_lib \<Rightarrow> bytes \<Rightarrow> bytes \<Rightarrow> bytes \<Rightarrow> bytes" where
  "hello_frame P serverPub n payload =
     (let mac = hello_mac P serverPub n
      in n @ take 8 mac @ be32 (of_nat (length payload) XOR rd32 (subslice 8 12 mac)) @ payload)"

definition BuildHelloFrame :: "crypto_lib \<Rightarrow> (nat \<Rightarrow> byte) \<Rightarrow> nat \<Rightarrow> bytes \<Rightarrow> bytes \<Rightarrow> bytes res" where
  "BuildHelloFrame P rnd off serverPub payload =
     (if length payload > 8192 then Inl (Errorf ''hello payload too large'')
      else case RandomBytes rnd off 16 of
             Inl e \<Rightarrow> Inl e
           | Inr n \<Rightarrow> Inr (hello_frame P serverPub n payload))"

text \<open>Whether the 28-byte window at hand is the start of a hello frame.\<close>

definition hello_tag_ok :: "crypto_lib \<Rightarrow> bytes \<Rightarrow> bytes \<Rightarrow> bool" where
  "hello_tag_ok P serverPub buf =
     ConstantTimeEqual (subslice 16 24 buf) (take 8 (hello_mac P serverPub (take 16 buf)))"

text \<open>
  The scan of \<^verbatim>\<open>ReadHelloFrame\<close>: \<open>buf\<close> is the window, \<open>inp\<close> what the reader still
  delivers; the result is the payload and the rest of the stream.
\<close>

fun hello_scan :: "crypto_lib \<Rightarrow> bytes \<Rightarrow> int \<Rightarrow> int \<Rightarrow> int \<Rightarrow> bytes \<Rightarrow> bytes \<Rightarrow> (bytes \<times> bytes) res" where
  "hello_scan P serverPub maxScan maxPay scanned buf inp =
     (if hello_tag_ok P serverPub buf then
        let mac = hello_mac P serverPub (take 16 buf);
            payloadLen = unat (rd32 (subslice 24 28 buf) XOR rd32 (subslice 8 12 mac))
        in if int payloadLen > maxPay then Inl (Errorf ''hello payload too large'')
           else case ReadFull payloadLen inp of
                  Inl e \<Rightarrow> Inl (Errorf ''read hello payload'')
                | Inr r \<Rightarrow> Inr r
      else if scanned \<ge> maxScan then Inl (Errorf ''hello frame not found'')
      else case inp of
             [] \<Rightarrow> Inl ErrEOF
           | b # inp' \<Rightarrow> hello_scan P serverPub maxScan maxPay (scanned + 1) (tl buf @ [b]) inp')"

declare hello_scan.simps [simp del]

definition ReadHelloFrame :: "crypto_lib \<Rightarrow> bytes \<Rightarrow> bytes \<Rightarrow> int \<Rightarrow> int \<Rightarrow> (bytes \<times> bytes) res" where
  "ReadHelloFrame P inp serverPub maxScan0 maxPayload0 =
     (let maxScan = (if maxScan0 \<le> 0 then 4096 else maxScan0);
          maxPay = (if maxPayload0 \<le> 0 then 8192 else maxPayload0)
      in case ReadFull 28 inp of
           Inl e \<Rightarrow> Inl e
         | Inr (buf, inp') \<Rightarrow> hello_scan P serverPub maxScan maxPay 28 buf inp')"

section \<open>Lemmas\<close>

lemma window_shift:
  assumes "28 \<le> length Y"
  shows "tl (take 28 (a # Y)) @ [Y ! 27] = take 28 Y" and "drop 28 (a # Y) = Y ! 27 # drop 28 Y"
  using assms take_Suc_conv_app_nth [of 27 Y] Cons_nth_drop_Suc [of 27 Y]
  by (simp_all add: numeral_eq_Suc take_Suc_conv_app_nth)

lemma hello_scan_skip:
  assumes "28 \<le> length X" and "\<forall>k < length j. \<not> hello_tag_ok P pub (take 28 (drop k (j @ X)))"
    and "scanned + int (length j) \<le> maxScan"
  shows "hello_scan P pub maxScan maxPay scanned (take 28 (j @ X)) (drop 28 (j @ X)) =
         hello_scan P pub maxScan maxPay (scanned + int (length j)) (take 28 X) (drop 28 X)"
  using assms(2,3)
proof (induction j arbitrary: scanned)
  case (Cons a j)
  have len: "28 \<le> length (j @ X)" using assms(1) by simp
  have no: "\<not> hello_tag_ok P pub (take 28 (a # j @ X))" using Cons.prems(1) by force
  have IH: "hello_scan P pub maxScan maxPay (scanned + 1) (take 28 (j @ X)) (drop 28 (j @ X)) =
      hello_scan P pub maxScan maxPay (scanned + 1 + int (length j)) (take 28 X) (drop 28 X)"
    by (rule Cons.IH) (use Cons.prems in \<open>force+\<close>)
  have "hello_scan P pub maxScan maxPay scanned (take 28 (a # j @ X)) (drop 28 (a # j @ X)) =
        hello_scan P pub maxScan maxPay (scanned + 1) (take 28 (j @ X)) (drop 28 (j @ X))"
    using no Cons.prems(2) window_shift [OF len, of a]
    by (subst hello_scan.simps) (simp del: take_append drop_append)
  with IH show ?case by (simp add: algebra_simps)
qed simp

lemma length_hello_frame:
  "sha_ok P \<Longrightarrow> length n = 16 \<Longrightarrow> length (hello_frame P pub n payload) = 28 + length payload"
  by (simp add: hello_frame_def hello_mac_def Let_def)

lemma hello_scan_frame:
  assumes "sha_ok P" and "length n = 16" and "int (length payload) \<le> maxPay" and "length payload < 2 ^ 32"
  shows "hello_scan P pub maxScan maxPay scanned (take 28 (hello_frame P pub n payload @ tail))
           (drop 28 (hello_frame P pub n payload @ tail)) = Inr (payload, tail)"
proof -
  define mac where "mac = hello_mac P pub n"
  define len where "len = (of_nat (length payload) :: u32) XOR rd32 (subslice 8 12 mac)"
  have l: "length mac = 32" using assms(1) by (simp add: mac_def hello_mac_def)
  have w: "take 28 (hello_frame P pub n payload @ tail) = n @ take 8 mac @ be32 len"
    "drop 28 (hello_frame P pub n payload @ tail) = payload @ tail"
    using assms(2) l by (simp_all add: hello_frame_def mac_def len_def Let_def)
  have f: "take 16 (n @ take 8 mac @ be32 len) = n" "subslice 16 24 (n @ take 8 mac @ be32 len) = take 8 mac"
    "subslice 24 28 (n @ take 8 mac @ be32 len) = be32 len"
    using assms(2) l by (simp_all add: subslice_def)
  have n: "unat (len XOR rd32 (subslice 8 12 mac)) = length payload"
    using assms(4) by (simp add: len_def xor.assoc unat_of_nat_small)
  have tag: "hello_tag_ok P pub (n @ take 8 mac @ be32 len)"
    unfolding hello_tag_ok_def f mac_def [symmetric] ConstantTimeEqual_def by (rule refl)
  have r: "ReadFull (length payload) (payload @ tail) = Inr (payload, tail)" by (simp add: ReadFull_def)
  show ?thesis
    unfolding w hello_scan.simps [of P pub maxScan maxPay scanned "n @ take 8 mac @ be32 len"] Let_def
      f mac_def [symmetric] rd32_be32 n r
    using tag assms(3) by simp
qed

lemma hello_scan_gives_up:
  assumes "28 \<le> length X" and "\<forall>k \<le> length j. \<not> hello_tag_ok P pub (take 28 (drop k (j @ X)))"
    and "scanned + int (length j) = maxScan"
  shows "hello_scan P pub maxScan maxPay scanned (take 28 (j @ X)) (drop 28 (j @ X)) =
         Inl (Errorf ''hello frame not found'')"
proof -
  have "\<not> hello_tag_ok P pub (take 28 X)" using assms(2) [rule_format, of "length j"] by simp
  then have "hello_scan P pub maxScan maxPay maxScan (take 28 X) (drop 28 X) = Inl (Errorf ''hello frame not found'')"
    by (subst hello_scan.simps) simp
  moreover have "\<forall>k < length j. \<not> hello_tag_ok P pub (take 28 (drop k (j @ X)))"
    using assms(2) by simp
  ultimately show ?thesis using hello_scan_skip [OF assms(1)] assms(3) by simp
qed

lemma SkipJunkFrames_frame:
  "length pkt \<le> 1024 \<Longrightarrow> SkipJunkFrames (train_frame pkt @ rest) (Suc n) = SkipJunkFrames rest n"
  by (simp add: train_frame_def rd32_be32 unat_of_nat_small Let_def)

lemma randomRangeInt_range:
  assumes "mn < mx"
  shows "mn \<le> randomRangeInt rnd off mn mx \<and> randomRangeInt rnd off mn mx < mx"
proof -
  define v where "v = uint (rd16 [rnd off, rnd (off + 1)]) mod (mx - mn)"
  have "0 \<le> v" "v < mx - mn" using assms by (simp_all add: v_def)
  moreover have "randomRangeInt rnd off mn mx = mn + v"
    using assms by (simp add: randomRangeInt_def v_def)
  ultimately show ?thesis by linarith
qed

lemma RandomBytes_defined:
  assumes "0 \<le> n"
  obtains b where "RandomBytes rnd off n = Inr b" "int (length b) = n"
  using assms by (simp only: RandomBytes_def) (simp del: upt_Suc)

lemma junk_frames_ok:
  assumes "0 \<le> JunkMin cfg" and "JunkMin cfg < JunkMax cfg" and "JunkMax cfg \<le> 1025"
  shows "\<exists>out. junk_frames rnd off n cfg = Inr out \<and> (\<forall>rest. SkipJunkFrames (out @ rest) n = rest) \<and>
               int (length out) \<le> int n * (JunkMax cfg + 3)"
proof (induction n arbitrary: off)
  case (Suc n)
  define sz where "sz = randomRangeInt rnd off (JunkMin cfg) (JunkMax cfg)"
  have sz: "0 \<le> sz" "sz < JunkMax cfg" using randomRangeInt_range [OF assms(2), of rnd off] assms(1) by (auto simp: sz_def)
  obtain p where p: "RandomBytes rnd (off + 2) sz = Inr p" "int (length p) = sz"
    by (rule RandomBytes_defined [OF sz(1)])
  obtain out where out: "junk_frames rnd (off + 2 + length p) n cfg = Inr out"
      "\<forall>rest. SkipJunkFrames (out @ rest) n = rest" "int (length out) \<le> int n * (JunkMax cfg + 3)"
    using Suc by blast
  have "length p \<le> 1024" using p(2) sz assms(3) by linarith
  then have "\<forall>rest. SkipJunkFrames ((train_frame p @ out) @ rest) (Suc n) = rest"
    using out(2) by (simp add: SkipJunkFrames_frame del: SkipJunkFrames.simps)
  moreover have "junk_frames rnd off (Suc n) cfg = Inr (train_frame p @ out)"
    using p out(1) by (simp add: sz_def)
  moreover have "int (length (train_frame p @ out)) \<le> int (Suc n) * (JunkMax cfg + 3)"
    using out(3) p(2) sz by (simp add: train_frame_def algebra_simps)
  ultimately show ?case by blast
qed simp

text \<open>No window that begins in \<open>j\<close>, with \<open>X\<close> behind it, carries a valid tag by accident.\<close>

definition no_false_hello :: "crypto_lib \<Rightarrow> bytes \<Rightarrow> bytes \<Rightarrow> bytes \<Rightarrow> bool" where
  "no_false_hello P pub j X \<longleftrightarrow> (\<forall>k < length j. \<not> hello_tag_ok P pub (take 28 (drop k (j @ X))))"

lemma hello_frame_behind:
  assumes "sha_ok P" and "BuildHelloFrame P rnd off pub payload = Inr frame" and "0 < maxScan" and "int (length payload) \<le> maxPay" and "0 < maxPay"
    and "no_false_hello P pub junk (frame @ tail)" and "28 + int (length junk) \<le> maxScan"
  shows "ReadHelloFrame P (junk @ frame @ tail) pub maxScan maxPay = Inr (payload, tail)"
proof -
  obtain n where n: "length n = 16" "frame = hello_frame P pub n payload" "length payload \<le> 8192"
    using assms(2) RandomBytes_Inr [of rnd off 16]
    by (auto simp: BuildHelloFrame_def split: if_splits sum.splits)
  define X where "X = frame @ tail"
  have X: "28 \<le> length X" using length_hello_frame [OF assms(1) n(1)] by (simp add: X_def n(2))
  have "ReadHelloFrame P (junk @ X) pub maxScan maxPay =
      hello_scan P pub maxScan maxPay 28 (take 28 (junk @ X)) (drop 28 (junk @ X))"
    using X assms(3,5) by (simp add: ReadHelloFrame_def ReadFull_def)
  then show ?thesis
    unfolding X_def [symmetric] using hello_scan_skip [OF X] assms(6,7) n hello_scan_frame [OF assms(1) n(1) assms(4)]
    by (simp add: X_def no_false_hello_def)
qed

section \<open>Properties\<close>

text \<open>
  Property C17. A hello frame is found in the stream: after any prefix (signature and junk
  trains) that does not by accident contain a window carrying a valid tag, and that fits in
  the scan limit, \<^verbatim>\<open>ReadHelloFrame\<close> returns the payload \<^verbatim>\<open>BuildHelloFrame\<close> framed and
  leaves the rest of the stream unread. When the scan limit is used up by the prefix, the
  frame is given up even though it follows.
\<close>
theorem hello_frame_found_within_scan:
  assumes "sha_ok P" and "BuildHelloFrame P rnd off pub payload = Inr frame"
    and "0 < maxScan" and "int (length payload) \<le> maxPay" and "0 < maxPay"
    and "\<forall>k < length junk. \<not> hello_tag_ok P pub (take 28 (drop k (junk @ frame @ tail)))"
  shows "(28 + int (length junk) \<le> maxScan \<longrightarrow>
            ReadHelloFrame P (junk @ frame @ tail) pub maxScan maxPay = Inr (payload, tail)) \<and>
         (28 \<le> maxScan \<and> maxScan < 28 + int (length junk) \<longrightarrow>
            ReadHelloFrame P (junk @ frame @ tail) pub maxScan maxPay = Inl (Errorf ''hello frame not found''))"
proof -
  obtain n where n: "length n = 16" "frame = hello_frame P pub n payload" "length payload \<le> 8192"
    using assms(2) RandomBytes_Inr [of rnd off 16]
    by (auto simp: BuildHelloFrame_def split: if_splits sum.splits)
  define X where "X = frame @ tail"
  have X: "28 \<le> length X" using length_hello_frame [OF assms(1) n(1)] by (simp add: X_def n(2))
  have R: "ReadHelloFrame P (junk @ X) pub maxScan maxPay =
      hello_scan P pub maxScan maxPay 28 (take 28 (junk @ X)) (drop 28 (junk @ X))"
    using X assms(3,5) by (simp add: ReadHelloFrame_def ReadFull_def)
  show ?thesis unfolding X_def [symmetric]
  proof (intro conjI impI)
    assume "28 + int (length junk) \<le> maxScan"
    then show "ReadHelloFrame P (junk @ X) pub maxScan maxPay = Inr (payload, tail)"
      using hello_frame_behind [OF assms(1-5)] assms(6) by (simp add: X_def no_false_hello_def)
  next
    assume lim: "28 \<le> maxScan \<and> maxScan < 28 + int (length junk)"
    define m where "m = nat (maxScan - 28)"
    have m: "m < length junk" "28 + int m = maxScan" using lim by (auto simp: m_def)
    have j: "junk @ X = take m junk @ (drop m junk @ X)" by simp
    have "hello_scan P pub maxScan maxPay 28 (take 28 (take m junk @ (drop m junk @ X)))
        (drop 28 (take m junk @ (drop m junk @ X))) = Inl (Errorf ''hello frame not found'')"
    proof (rule hello_scan_gives_up)
      show "\<forall>k \<le> length (take m junk). \<not> hello_tag_ok P pub (take 28 (drop k (take m junk @ (drop m junk @ X))))"
        unfolding j [symmetric] using assms(6) m(1) by (simp add: X_def)
    qed (use X m in auto)
    then show "ReadHelloFrame P (junk @ X) pub maxScan maxPay = Inl (Errorf ''hello frame not found'')"
      unfolding R j [symmetric] .
  qed
qed

theorem hello_frame_found_within_scan_witness:
  "ReadHelloFrame toy_lib (hello_frame toy_lib [7, 7] (replicate 16 5) [1, 2, 3] @ [9]) [7, 7] 4096 8192 =
     Inr ([1, 2, 3], [9])"
proof -
  have b: "BuildHelloFrame toy_lib (\<lambda>i. 5) 0 [7, 7] [1, 2, 3] = Inr (hello_frame toy_lib [7, 7] (replicate 16 5) [1, 2, 3])"
    by (simp add: BuildHelloFrame_def RandomBytes_def map_replicate_const)
  show ?thesis
    using hello_frame_found_within_scan [OF toy_sha_ok b, of 4096 8192 "[]" "[9]"] by simp
qed

text \<open>
  Fact. A junk train is skipped exactly: for frame sizes up to 1024 bytes building the
  train succeeds, it announces between 1 and \<^verbatim>\<open>JunkCount\<close> frames, its length is bounded by
  the configuration, and \<^verbatim>\<open>SkipJunkFrames\<close> with the announced count leaves exactly the
  bytes that follow.
\<close>
theorem junk_train_skipped:
  assumes "0 < JunkCount cfg" and "0 \<le> JunkMin cfg" and "JunkMin cfg < JunkMax cfg" and "JunkMax cfg \<le> 1025"
  shows "\<exists>train count. BuildJunkTrain rnd off cfg = Inr (train, count) \<and>
           1 \<le> count \<and> int count \<le> JunkCount cfg \<and>
           int (length train) \<le> JunkCount cfg * (JunkMax cfg + 3) \<and>
           SkipJunkFrames (train @ rest) count = rest"
proof -
  define count where "count = 1 + nat (uint (rnd off) mod JunkCount cfg)"
  have c: "1 \<le> count" "int count \<le> JunkCount cfg"
    using assms(1) pos_mod_bound [OF assms(1), of "uint (rnd off)"] pos_mod_sign [OF assms(1), of "uint (rnd off)"]
    by (auto simp: count_def)
  obtain out where o: "junk_frames rnd (off + 1) count cfg = Inr out" "\<forall>rest. SkipJunkFrames (out @ rest) count = rest"
      "int (length out) \<le> int count * (JunkMax cfg + 3)"
    using junk_frames_ok [OF assms(2-4)] by blast
  have "int count * (JunkMax cfg + 3) \<le> JunkCount cfg * (JunkMax cfg + 3)"
    using c(2) assms(2,3) by (intro mult_right_mono) auto
  with c o assms(1) show ?thesis
    by (intro exI [of _ out] exI [of _ count]) (auto simp: BuildJunkTrain_def count_def)
qed

theorem junk_train_skipped_witness:
  "\<exists>train count. BuildJunkTrain (\<lambda>i. of_nat i) 0 DefaultObfuscationConfig = Inr (train, count) \<and>
     SkipJunkFrames (train @ [1, 2]) count = [1, 2]"
proof -
  have "\<exists>train count. BuildJunkTrain (\<lambda>i. of_nat i) 0 DefaultObfuscationConfig = Inr (train, count) \<and>
           1 \<le> count \<and> int count \<le> JunkCount DefaultObfuscationConfig \<and>
           int (length train) \<le> JunkCount DefaultObfuscationConfig * (JunkMax DefaultObfuscationConfig + 3) \<and>
           SkipJunkFrames (train @ [1, 2]) count = [1, 2]"
    by (rule junk_train_skipped) (simp_all add: DefaultObfuscationConfig_def)
  then show ?thesis by blast
qed

end
