(* ===== verification/Client_Transport.thy ===== *)
theory Client_Transport
  imports Reality_Demux Handshake_Frames
begin

text \<open>
  How a client reaches the server (\<^verbatim>\<open>obsidian/transport.go\<close>): the choice of the server name,
  the HTTP/2 preface, the connection disguised as a TLS handshake, the pinned TLS connection, and the
  older server-side handler that tells clients by the preface. Dialling, writing and the TLS
  library are arguments: \<open>U\<close> is what uTLS marshals for a name and a session identifier, \<open>isIP\<close> whether
  a host text is an address, \<open>draw\<close> a random number. A connection is the bytes the peer will send.
\<close>

section \<open>Names and preface\<close>

definition DefaultSNIPool :: "bytes list" where
  "DefaultSNIPool =
     map str [''www.microsoft.com'', ''cdn.cloudflare.com'', ''ajax.googleapis.com'', ''static.cloudflareinsights.com'',
       ''fonts.gstatic.com'', ''update.googleapis.com'', ''clients1.google.com'']"

definition PickSNI :: "nat \<Rightarrow> bytes list \<Rightarrow> bytes" where
  "PickSNI draw pool =
     (let pool = (if pool = [] then DefaultSNIPool else pool) in pool ! (draw mod length pool))"

definition http2Preface :: bytes where
  "http2Preface = str ''PRI * HTTP/2.0'' @ [13, 10, 13, 10] @ str ''SM'' @ [13, 10, 13, 10]"

definition http2SettingsFrame :: bytes where
  "http2SettingsFrame = [0, 0, 0, 4, 0, 0, 0, 0, 0]"

definition SendHTTP2Preface :: bytes where
  "SendHTTP2Preface = http2Preface @ http2SettingsFrame"

definition RecvHTTP2Preface :: "bytes \<Rightarrow> bytes res" where
  "RecvHTTP2Preface inp =
     rbind (ReadFull (length http2Preface) inp) (\<lambda>(buf, inp').
       if \<not> ConstantTimeEqual buf http2Preface then Inl (Errorf ''expected HTTP/2 preface not found'') else Inr inp')"

section \<open>Dialling\<close>

record ClientTransportConfig =
  ctServerHost :: bytes
  ctServerPort :: bytes
  ctSNI :: bytes
  ctSNIPool :: "bytes list"
  ctVerifyCert :: bool
  ctServerPubPin :: bytes
  ctRealityEnabled :: bool
  ctRealityAuthKey :: bytes

definition BuildTLSClientHelloRecord :: "(bytes \<Rightarrow> bytes \<Rightarrow> bytes res) \<Rightarrow> bytes \<Rightarrow> bytes \<Rightarrow> bytes res" where
  "BuildTLSClientHelloRecord U sni sessionID =
     rbind (U sni sessionID) (\<lambda>rawHello. Inr ([0x16, 0x03, 0x01] @ be16 (of_nat (length rawHello)) @ rawHello))"

definition reality_sni :: "(bytes \<Rightarrow> bool) \<Rightarrow> nat \<Rightarrow> ClientTransportConfig \<Rightarrow> bytes" where
  "reality_sni isIP draw cfg =
     (if ctSNI cfg \<noteq> [] then ctSNI cfg
      else if \<not> isIP (ctServerHost cfg) \<and> ctServerHost cfg \<noteq> [] then ctServerHost cfg
      else if ctSNIPool cfg \<noteq> [] then PickSNI draw (ctSNIPool cfg)
      else PickSNI draw DefaultSNIPool)"

definition tls_sni :: "(bytes \<Rightarrow> bool) \<Rightarrow> nat \<Rightarrow> ClientTransportConfig \<Rightarrow> bytes" where
  "tls_sni isIP draw cfg =
     (if ctSNI cfg \<noteq> [] then ctSNI cfg
      else if \<not> isIP (ctServerHost cfg) \<and> ctServerHost cfg \<noteq> [] then ctServerHost cfg
      else if ctSNIPool cfg \<noteq> [] then PickSNI draw (ctSNIPool cfg)
      else ctServerHost cfg)"

text \<open>The answer of the server is read as one TLS record; what remains of the stream is returned.\<close>

definition read_server_hello :: "bytes \<Rightarrow> bytes res" where
  "read_server_hello inp =
     (case ReadFull 5 inp of
        Inl e \<Rightarrow> Inl (Errorf ''read reality server hello record header'')
      | Inr (respHeader, inp) \<Rightarrow>
          if respHeader ! 0 \<noteq> 0x16 \<and> respHeader ! 0 \<noteq> 0x14 then Inl (Errorf ''unexpected TLS record content type'')
          else
            let recordLen = unat (rd16 (subslice 3 5 respHeader))
            in if 16384 < recordLen then Inl (Errorf ''server hello record too large'')
               else case ReadFull recordLen inp of
                      Inl e \<Rightarrow> Inl (Errorf ''read reality server hello body'')
                    | Inr (respBody, inp) \<Rightarrow> Inr inp)"

text \<open>
  What the world answers while dialling: the random bytes of the token and the clock, the
  connection attempt, the write, and for TLS the outcome of the handshake (below).
\<close>

record dial_world =
  dwDraw :: nat
  dwRandom :: "bytes res"
  dwUnix :: int
  dwDial :: "unit res"
  dwWrite :: "unit res"

text \<open>The result: the bytes written, and the stream from the server or the error.\<close>

definition DialObsidianREALITY ::
    "crypto_lib \<Rightarrow> (bytes \<Rightarrow> bytes \<Rightarrow> bytes res) \<Rightarrow> (bytes \<Rightarrow> bool) \<Rightarrow> dial_world \<Rightarrow> ClientTransportConfig \<Rightarrow> bytes
       \<Rightarrow> bytes \<times> bytes res" where
  "DialObsidianREALITY P U isIP w cfg inp =
     (let sni = reality_sni isIP (dwDraw w) cfg
      in case GenerateSessionID P (dwRandom w) (dwUnix w) (ctRealityAuthKey cfg) sni of
           Inl e \<Rightarrow> ([], Inl (Errorf ''generate reality session id''))
         | Inr sessionID \<Rightarrow>
             case dwDial w of
               Inl e \<Rightarrow> ([], Inl e)
             | Inr _ \<Rightarrow>
                 case BuildTLSClientHelloRecord U sni sessionID of
                   Inl e \<Rightarrow> ([], Inl (Errorf ''build client hello record''))
                 | Inr clientHelloRecord \<Rightarrow>
                     case dwWrite w of
                       Inl e \<Rightarrow> ([], Inl (Errorf ''send reality client hello''))
                     | Inr _ \<Rightarrow> (clientHelloRecord, read_server_hello inp))"

text \<open>
  The TLS handshake gets the name, whether the library's own chain check is off, and the callback that
  sees the certificates of the peer.
\<close>

definition VerifyPeerCertificate :: "crypto_lib \<Rightarrow> bytes \<Rightarrow> bytes list \<Rightarrow> unit res" where
  "VerifyPeerCertificate P pin rawCerts =
     (if pin \<noteq> [] then
        if rawCerts = [] then Inl (Errorf ''no peer certificates presented'')
        else if \<not> ConstantTimeEqual (sha256 P (rawCerts ! 0)) pin then Inl (Errorf ''server certificate pin mismatch'')
        else Inr ()
      else Inr ())"

definition DialObsidian ::
    "crypto_lib \<Rightarrow> (bytes \<Rightarrow> bytes \<Rightarrow> bytes res) \<Rightarrow> (bytes \<Rightarrow> bool \<Rightarrow> (bytes list \<Rightarrow> unit res) \<Rightarrow> unit res) \<Rightarrow> (bytes \<Rightarrow> bool)
       \<Rightarrow> dial_world \<Rightarrow> ClientTransportConfig \<Rightarrow> bytes \<Rightarrow> bytes \<times> bytes res" where
  "DialObsidian P U Handshake isIP w cfg inp =
     (if ctRealityEnabled cfg then DialObsidianREALITY P U isIP w cfg inp
      else
        let sni = tls_sni isIP (dwDraw w) cfg
        in case dwDial w of
             Inl e \<Rightarrow> ([], Inl e)
           | Inr _ \<Rightarrow>
               case Handshake sni (ctServerPubPin cfg \<noteq> [] \<or> \<not> ctVerifyCert cfg) (VerifyPeerCertificate P (ctServerPubPin cfg)) of
                 Inl e \<Rightarrow> ([], Inl e)
               | Inr _ \<Rightarrow>
                   case dwWrite w of
                     Inl e \<Rightarrow> ([], Inl e)
                   | Inr _ \<Rightarrow> (SendHTTP2Preface, Inr inp))"

definition DialTCPTimeoutWithConfig :: "dial_world \<Rightarrow> bytes \<Rightarrow> bytes \<times> bytes res" where
  "DialTCPTimeoutWithConfig w inp =
     (case dwDial w of
        Inl e \<Rightarrow> ([], Inl e)
      | Inr _ \<Rightarrow> (case dwWrite w of Inl e \<Rightarrow> ([], Inl e) | Inr _ \<Rightarrow> (SendHTTP2Preface, Inr inp)))"

section \<open>Telling clients by the preface\<close>

text \<open>Where a connection goes: to the tunnel, closed, or to the backend with what was read.\<close>

datatype handled = ToTunnel bytes | ToBackend bytes | HClosed

definition Handle :: "bytes \<Rightarrow> handled \<times> bytes" where
  "Handle inp =
     (case ReadFull (length http2Preface) inp of
        Inl e \<Rightarrow> (HClosed, [])
      | Inr (buf, inp') \<Rightarrow> (if ConstantTimeEqual buf http2Preface then ToTunnel buf else ToBackend buf, inp'))"

text \<open>What the backend receives of a connection; nothing without a backend, a dial or a write.\<close>

definition forwardToBackend :: "bytes \<Rightarrow> bool \<Rightarrow> bool \<Rightarrow> bytes \<Rightarrow> bytes \<Rightarrow> bytes option" where
  "forwardToBackend backendAddr dialed wrote firstBytes rest =
     (if backendAddr = [] then None else if \<not> dialed then None else if \<not> wrote then None else Some (firstBytes @ rest))"

section \<open>Lemmas\<close>

lemma PickSNI_in: "pool \<noteq> [] \<Longrightarrow> PickSNI draw pool \<in> set pool"
  by (simp add: PickSNI_def)

lemma length_http2Preface [simp]: "length http2Preface = 24"
  by (simp add: http2Preface_def)

lemma preface_received: "RecvHTTP2Preface (SendHTTP2Preface @ rest) = Inr (http2SettingsFrame @ rest)"
  by (simp add: RecvHTTP2Preface_def SendHTTP2Preface_def ReadFull_def ConstantTimeEqual_def)

lemma take_drop_eq: "take n s = x \<Longrightarrow> s = x @ drop n s"
  by (metis append_take_drop_id)

lemma preface_accepted_iff: "RecvHTTP2Preface inp = Inr rest \<longleftrightarrow> inp = http2Preface @ rest"
proof
  assume "RecvHTTP2Preface inp = Inr rest"
  then have "take 24 inp = http2Preface" "rest = drop 24 inp"
    by (auto simp: RecvHTTP2Preface_def ReadFull_def rbind_Inr ConstantTimeEqual_def split: if_splits)
  then show "inp = http2Preface @ rest" using take_drop_eq by blast
qed (simp add: RecvHTTP2Preface_def ReadFull_def ConstantTimeEqual_def)

lemma handle_preserves_bytes:
  "Handle inp = (ToTunnel first, rest) \<Longrightarrow> first = http2Preface \<and> inp = first @ rest"
  "Handle inp = (ToBackend first, rest) \<Longrightarrow> first \<noteq> http2Preface \<and> inp = first @ rest"
  using take_drop_eq [of 24 inp http2Preface]
  by (auto simp: Handle_def ReadFull_def ConstantTimeEqual_def split: if_splits sum.splits)

text \<open>The first record of the answer is read exactly; what came with it is left on the stream.\<close>

lemma read_server_hello_record:
  assumes "whole_record sh"
  shows "read_server_hello (sh @ rest) = Inr (drop (record_length sh) sh @ rest)"
proof -
  obtain n where n: "unat (rd16 (subslice 3 5 sh)) = n" "n \<le> 16384" "5 + n \<le> length sh" "sh ! 0 = 0x16"
    using assms by (simp add: whole_record_def Let_def)
  have "subslice 3 5 (take 5 (sh @ rest)) = subslice 3 5 sh" using n(3) by (simp add: subslice_def drop_take numeral_2_eq_2)
  moreover have "take 5 (sh @ rest) ! 0 = 0x16" using n(3,4) by (simp add: nth_append)
  ultimately show ?thesis using n by (auto simp: read_server_hello_def ReadFull_def Let_def record_length_def add.commute)
qed

section \<open>Meeting the demultiplexer\<close>

text \<open>
  What is relied on of uTLS: for the name it marshals a well-formed client hello that carries the
  session identifier it is given and the name.
\<close>

definition utls_builds :: "(bytes \<Rightarrow> bytes \<Rightarrow> bytes res) \<Rightarrow> bytes \<Rightarrow> bool" where
  "utls_builds U sni \<longleftrightarrow>
     (\<forall>sid. length sid = 32 \<longrightarrow>
        (\<exists>h raw. U sni sid = Inr raw \<and> hello_ok 1 h \<and> chSession h = sid \<and> first_host (chExts h) = sni \<and>
           hello_record 1 h = [0x16, 3, 1] @ be16 (of_nat (length raw)) @ raw))"

text \<open>
  A disguised client and the server meet: the client's record is admitted however it is cut up,
  the tunnel reads what the client sends next, and the client reads on behind the server hello, which is the
  demultiplexer's own or what the real host sent. With the real host's more than one record may have come.
\<close>

definition site_answers :: "fallback_io \<Rightarrow> bool" where
  "site_answers io \<longleftrightarrow> (fbDial io \<and> fbWrite io \<and> 5 \<le> length (fbStream io) \<longrightarrow> whole_record (fbStream io))"

definition surplus :: "bytes \<Rightarrow> bytes" where
  "surplus sh = drop (record_length sh) sh"

lemma reality_dial_met:
  assumes "sha_ok P" and "AuthKey (rdCfg d) \<noteq> []" and "ctRealityAuthKey cfg = AuthKey (rdCfg d)"
    and sni: "sni = reality_sni isIP (dwDraw w) cfg" and U: "utls_builds U sni" and "name_allowed L d sni"
    and rnd: "dwRandom w = Inr rnd" "length rnd = 16" and io: "dwDial w = Inr ()" "dwWrite w = Inr ()"
    and t: "\<bar>dwUnix w\<bar> < 2 ^ 61" "\<bar>verifiedAt r div second - dwUnix w\<bar> \<le> 30"
    and r: "length (helloRandom r) = 32" "length (helloShare r) = 32" "written r"
    and site: "fetched r = fetchServerHelloFromFallback (FallbackTarget (rdCfg d)) io" "site_answers io"
    and tok: "tok = session_token P (AuthKey (rdCfg d)) sni rnd (of_int (dwUnix w))"
    and new: "\<not> cache_lookup (seenAt r) tok (rdCache d)"
  obtains hello sh extra s' where
    "DialObsidianREALITY P U isIP w cfg (sh @ reply) = (hello, Inr (surplus sh @ reply))" "length (surplus sh) \<le> 4068"
    "case fetched r of Inl e \<Rightarrow> surplus sh = [] | Inr b \<Rightarrow> sh = b"
    "processIncoming P L chunk r (hello @ onward) d =
       (Admitted sh extra, s', d\<lparr>rdCache := cache_enter 8192 (seenAt r) tok (rdCache d)\<rparr>)"
    "content (newPeekedConn extra) s' = onward"
proof -
  have l: "length tok = 32" using rnd(2) assms(1) tok by simp
  obtain h raw where h: "U sni tok = Inr raw" "hello_ok 1 h" "chSession h = tok" "first_host (chExts h) = sni"
      "hello_record 1 h = [0x16, 3, 1] @ be16 (of_nat (length raw)) @ raw"
    using U l by (auto simp: utls_builds_def)
  let ?hello = "hello_record 1 h"
  have g: "GenerateSessionID P (dwRandom w) (dwUnix w) (ctRealityAuthKey cfg) sni = Inr tok"
    using rnd by (simp add: GenerateSessionID_def assms(3) tok session_token_def Let_def AuthTagSize_def)
  have ts: "sint (of_int (dwUnix w) :: u64) = dwUnix w"
    using t(1) by (intro sint_of_int_fits) auto
  have au: "authentic P L (verifiedAt r) d (?hello @ onward) tok"
    using genuine_is_authentic [OF h(2), of P d rnd "of_int (dwUnix w)" L "verifiedAt r" onward] h(3,4) tok rnd(2) assms(6) t(2) ts by simp
  have b: "\<bar>verifiedAt r div second\<bar> < 2 ^ 62" using t by simp
  have pr: "presented P L (verifiedAt r) d (?hello @ onward) = Some tok"
    using presented_iff_authentic [OF assms(1,2) b] au by simp
  have fr: "first_record (?hello @ onward) = Some ?hello" by (rule first_record_hello [OF h(2)])
  let ?sh = "server_hello d r tok"
  have own: "whole_record (buildTLSServerHelloRecord tok (helloRandom r) (helloShare r)) \<and> surplus (buildTLSServerHelloRecord tok (helloRandom r) (helloShare r)) = []"
    using server_hello_echoes [OF l r(1,2)] l r(1,2) nth_take [of 0 3 "buildTLSServerHelloRecord tok (helloRandom r) (helloShare r)"]
    by (auto simp: echoes_session_def whole_record_def surplus_def record_length_def Let_def buildTLSServerHelloRecord_def)
  have fe: "whole_record b \<and> length (surplus b) \<le> 4068 \<and> FallbackTarget (rdCfg d) \<noteq> [] \<and> b \<noteq> []" if "fetched r = Inr b" for b
  proof -
    have "fetchServerHelloFromFallback (FallbackTarget (rdCfg d)) io = Inr b" using that site(1) by simp
    moreover from this have "fbDial io \<and> fbWrite io \<and> 5 \<le> length (fbStream io)"
      using read_until_spec(2) [of "fbChunk io" 0 4096 5 "[]" "fbStream io"]
      by (auto simp: fetchServerHelloFromFallback_def split: if_splits prod.splits bool.splits)
    ultimately have "whole_record b \<and> length (surplus b) \<le> 4068" "FallbackTarget (rdCfg d) \<noteq> []"
      using fetched_record site(2) by (auto simp: site_answers_def surplus_def fetchServerHelloFromFallback_def)
    then show ?thesis by (auto simp: whole_record_def)
  qed
  have es: "whole_record ?sh" "length (surplus ?sh) \<le> 4068" "case fetched r of Inl e \<Rightarrow> surplus ?sh = [] | Inr b \<Rightarrow> ?sh = b"
    using own fe by (auto simp: server_hello_def split: sum.splits)
  have dial: "DialObsidianREALITY P U isIP w cfg (?sh @ reply) = (?hello, Inr (surplus ?sh @ reply))"
    using g io h(1,5) read_server_hello_record [OF es(1)] sni
    by (simp add: DialObsidianREALITY_def Let_def BuildTLSClientHelloRecord_def surplus_def)
  show thesis
    by (rule process_outcome [of P L r d "?hello @ onward" chunk])
      (use pr new fr r(3) dial es(2,3) that in \<open>auto simp: content_def newPeekedConn_def\<close>)
qed

end
