(* ===== verification/Tunnel_Delivery.thy ===== *)
theory Tunnel_Delivery
  imports Stream_Tunnel
begin

text \<open>
  Delivery over a stream tunnel: a sequence of framed packets against the receive loop,
  and the tunnel as a system of concurrent goroutines (receive loop, consumer, senders,
  shutdown) whose interleavings keep the order of the data.
\<close>

section \<open>Sequences of frames\<close>

fun frames :: "crypto_lib \<Rightarrow> StreamFramer \<Rightarrow> (draws \<times> Packet) list \<Rightarrow> bytes res \<times> StreamFramer" where
  "frames P f [] = (Inr [], f)"
| "frames P f ((r, p) # ps) =
     (case Frame P r f (pType p) (pPayload p) of
        (Inl e, f') \<Rightarrow> (Inl e, f')
      | (Inr b, f') \<Rightarrow>
          (case frames P f' ps of
             (Inl e, f'') \<Rightarrow> (Inl e, f'')
           | (Inr bs, f'') \<Rightarrow> (Inr (b @ bs), f'')))"

text \<open>What the peer's application is owed: the DATA payloads before the first Close.\<close>

fun data_until_close :: "Packet list \<Rightarrow> bytes list" where
  "data_until_close [] = []"
| "data_until_close (p # ps) =
     (if pType p = PacketData then pPayload p # data_until_close ps
      else if pType p = PacketClose then [] else data_until_close ps)"

definition sendable :: "Packet \<Rightarrow> bool" where
  "sendable p \<longleftrightarrow> known_type (pType p) \<and> length (pPayload p) \<le> maxPayload"

lemma rx_step_frame:
  assumes "DecodeFrameLen P rx masked = (of_nat (length pkt), rx1)"
    and "ParseFrame P rx1 pkt = (Inr p, rx')" and "length pkt \<le> 66047"
  shows "rx_step P rx ((be32 masked @ pkt) @ rest) =
           (if pType p = PacketData then Deliver (pPayload p)
            else if pType p = PacketClose then Stop else Skip, rest, rx')"
proof -
  have n: "unat (of_nat (length pkt) :: u32) = length pkt"
    using assms(3) by (simp add: unat_of_nat_small)
  then have "\<not> (of_nat (length pkt) :: u32) > of_nat maxFrameSize"
    using assms(3) by (simp add: word_less_nat_alt)
  with assms(1,2) n show ?thesis
    by (simp add: rx_step_def rd32_be32)
qed

lemma stream_data_Nil: "stream_data P f [] = []"
  by (subst stream_data.simps) (simp add: rx_step_def)

lemma stream_data_frames:
  assumes "aead_ok P" and "framer_ok tx" and "in_sync tx rx" and "\<forall>(r, p) \<in> set ps. sendable p"
  shows "\<exists>bs tx'. frames P tx ps = (Inr bs, tx') \<and> stream_data P rx bs = data_until_close (map snd ps)"
  using assms(2,3,4)
proof (induction ps arbitrary: tx rx)
  case Nil
  then show ?case by (simp add: stream_data_Nil)
next
  case (Cons rp ps)
  obtain r p where rp: "rp = (r, p)" by force
  with Cons.prems(3) have s: "known_type (pType p)" "length (pPayload p) \<le> 65535"
    by (auto simp: sendable_def)
  obtain pkt tx' rx1 rx' masked where
    F: "Frame P r tx (pType p) (pPayload p) = (Inr (be32 masked @ pkt), tx')"
    and D: "DecodeFrameLen P rx masked = (of_nat (length pkt), rx1)"
    and Q: "ParseFrame P rx1 pkt = (Inr \<lparr>pType = pType p, pPayload = pPayload p\<rparr>, rx')"
    and y: "in_sync tx' rx'" "framer_ok tx'"
    and l: "24 + length (pPayload p) \<le> length pkt" "length pkt \<le> 279 + length (pPayload p)"
    by (rule frame_crosses [OF assms(1) Cons.prems(1,2) s, of r])
  obtain bs tx'' where bs: "frames P tx' ps = (Inr bs, tx'')"
      "stream_data P rx' bs = data_until_close (map snd ps)"
    using Cons.IH [OF y(2,1)] Cons.prems(3) by auto
  have "length pkt \<le> 66047" using l s by simp
  note R = rx_step_frame [OF D Q this, of bs]
  show ?case
    using F bs R by (subst stream_data.simps) (simp add: rp)
qed

section \<open>The receive loop\<close>

lemma recvLoop_prefix: "\<exists>rest. fst (recvLoop P clk i t inp) @ rest = stream_data P (framer t) inp"
proof (induction "length inp" arbitrary: i t inp rule: less_induct)
  case less
  obtain ev rest t' where R: "recv_iter P (clk i) t inp = (ev, rest, t')" by (metis prod_cases3)
  show ?case
  proof (cases "ev = Stop")
    case True
    then show ?thesis by (subst recvLoop.simps) (simp add: R)
  next
    case False
    then have "\<not> sessionExpired (t\<lparr>packetCount := packetCount t + 1\<rparr>) (clk i) (packetCount t + 1)"
      using R recv_iter_expired by fastforce
    with R False have S: "rx_step P (framer t) inp = (ev, rest, framer t')"
      by (metis recv_iter_rx_step)
    obtain r where "fst (recvLoop P clk (Suc i) t' rest) @ r = stream_data P (framer t') rest"
      using less recv_iter_consumes [OF R False] by blast
    then show ?thesis
      using False
      by (subst recvLoop.simps, subst stream_data.simps)
         (auto simp: R S split: recv_event.split prod.split intro: exI [of _ r])
  qed
qed

lemma recvLoop_complete:
  assumes "\<And>j. maxDuration t \<le> 0 \<or> clk j - createdAt t < maxDuration t"
    and "maxPackets t = 0 \<or> unat (packetCount t) + length inp + 1 < unat (maxPackets t)"
  shows "fst (recvLoop P clk i t inp) = stream_data P (framer t) inp"
  using assms
proof (induction "length inp" arbitrary: i t inp rule: less_induct)
  case less
  obtain ev rest t' where R: "recv_iter P (clk i) t inp = (ev, rest, t')" by (metis prod_cases3)
  have c: "maxPackets t = 0 \<or> unat (packetCount t + 1) = unat (packetCount t) + 1"
    using less.prems(2) unat_bound [of "maxPackets t"] by (auto simp: unat_add_1)
  have "\<not> sessionExpired (t\<lparr>packetCount := packetCount t + 1\<rparr>) (clk i) (packetCount t + 1)"
    using less.prems(1) [of i] less.prems(2) c by (auto simp: sessionExpired_def word_le_nat_alt)
  with R obtain rest' where S: "rx_step P (framer t) inp = (ev, rest', framer t')" "ev \<noteq> Stop \<Longrightarrow> rest' = rest"
    by (rule recv_iter_rx_step) blast
  have k: "maxDuration t' = maxDuration t" "maxPackets t' = maxPackets t" "createdAt t' = createdAt t"
      "packetCount t' = packetCount t + 1"
    using R by (auto simp: recv_iter_def Let_def split: if_splits sum.splits prod.splits)
  show ?case
  proof (cases "ev = Stop")
    case True
    then show ?thesis by (subst recvLoop.simps, subst stream_data.simps) (simp add: R S)
  next
    case False
    then have "fst (recvLoop P clk (Suc i) t' rest) = stream_data P (framer t') rest"
      using less.hyps [OF recv_iter_consumes [OF R False]] recv_iter_consumes [OF R False] less.prems k c
      by auto
    then show ?thesis
      using False S
      by (subst recvLoop.simps, subst stream_data.simps)
         (auto simp: R split: recv_event.split prod.split)
  qed
qed

section \<open>Writing\<close>

lemma writeFrameLocked_sent:
  assumes "writeFrameLocked w i frame = (sent, r)"
  shows "(\<exists>rest. sent @ rest = frame) \<and> (r = Inr () \<longrightarrow> sent = frame)"
  using assms
proof (induction w i frame arbitrary: sent r rule: writeFrameLocked.induct)
  case (1 w i frame)
  obtain n err where w: "w i frame = (n, err)" by force
  have td: "take (nat n) frame @ drop (nat n) frame = frame" by simp
  show ?case
  proof (cases "frame \<noteq> [] \<and> err = None \<and> 0 < n \<and> n \<le> int (length frame)")
    case True
    obtain more r' where m: "writeFrameLocked w (Suc i) (drop (nat n) frame) = (more, r')" by force
    then have "writeFrameLocked w i frame = (take (nat n) frame @ more, r')"
      using True w by (subst writeFrameLocked.simps) simp
    then have eq: "sent = take (nat n) frame @ more" "r = r'" using 1(2) by simp_all
    have "(\<exists>rest. more @ rest = drop (nat n) frame) \<and> (r' = Inr () \<longrightarrow> more = drop (nat n) frame)"
      using 1(1) True w m by auto
    then show ?thesis using eq td by (metis append_assoc)
  next
    case False
    then have "(frame = [] \<and> sent = [] \<and> r = Inr ()) \<or> (sent = take (nat n) frame \<and> (\<exists>e. r = Inl e))"
      using 1(2) w unfolding writeFrameLocked.simps [of w i frame] by (auto simp: Let_def split: if_splits option.splits)
    then show ?thesis using td by (elim disjE conjE exE) (simp, metis sum.distinct(1))
  qed
qed

lemma FrameWithBuffer_tx_only:
  "FrameWithBuffer P r f n pt p = (res, f') \<Longrightarrow>
   f' = f\<lparr>EncCipher := EncCipher f', encFrameCtr := encFrameCtr f'\<rparr>"
  by (auto simp: FrameWithBuffer_def split: prod.splits if_splits sum.splits)

lemma writePacket_frame:
  assumes "writePacket P r w now now' t pt p = (sent, res, t')"
  shows "dataIn t' = dataIn t \<and> dataClosed t' = dataClosed t \<and> (cancelled t \<longrightarrow> cancelled t') \<and>
         framer t' = (framer t)\<lparr>EncCipher := EncCipher (framer t'), encFrameCtr := encFrameCtr (framer t')\<rparr>"
proof -
  obtain fr f' where F: "FrameWithBuffer P r (framer t) (4 + packetHeaderSize + length p + 256 + TagSize) pt p = (fr, f')"
    by force
  show ?thesis
    using assms F FrameWithBuffer_tx_only [OF F]
    unfolding writePacket_def Let_def
    by (auto split: if_splits sum.splits prod.splits)
qed

lemma rx_step_tx_irrelevant:
  "rx_step P f inp = (ev, rest, f') \<Longrightarrow>
   rx_step P (f\<lparr>EncCipher := c, encFrameCtr := k\<rparr>) inp = (ev, rest, f'\<lparr>EncCipher := c, encFrameCtr := k\<rparr>)"
  by (auto simp: rx_step_def DecodeFrameLen_def ParseFrame_def Let_def split: if_splits sum.splits prod.splits)

lemma stream_data_tx_irrelevant:
  "stream_data P (f\<lparr>EncCipher := c, encFrameCtr := k\<rparr>) inp = stream_data P f inp"
proof (induction "length inp" arbitrary: f inp rule: less_induct)
  case less
  obtain ev rest f' where R: "rx_step P f inp = (ev, rest, f')" by (metis prod_cases3)
  show ?case
    using less rx_step_consumes [OF R]
    by (subst (1 2) stream_data.simps)
       (auto simp: R rx_step_tx_irrelevant [OF R] split: recv_event.split)
qed

lemma writePacket_stream_data:
  assumes "writePacket P r w now now' t pt p = (sent, res, t')"
  shows "stream_data P (framer t') inp = stream_data P (framer t) inp"
  using writePacket_frame [OF assms] stream_data_tx_irrelevant by metis

section \<open>The goroutines of a tunnel\<close>

text \<open>
  The tunnel with the bytes still to arrive, the packet the receive loop is handing over
  (blocked while the channel is full), what the consumer has been given so far, and the packets that left the channel, each with whether it went to the consumer
  or was thrown away by \<^verbatim>\<open>Close\<close>, which takes one packet at a time beside a consumer that still receives.
\<close>

record tun_sys =
  tun :: Tunnel
  wire :: bytes
  pend :: "bytes option"
  got :: "bytes list"
  taken :: "(bool \<times> bytes) list"

inductive tun_step :: "crypto_lib \<Rightarrow> tun_sys \<Rightarrow> tun_sys \<Rightarrow> bool" for P where
  recv_stop: "pend s = None \<Longrightarrow> \<not> dataClosed (tun s) \<Longrightarrow> recv_iter P now (tun s) (wire s) = (Stop, rest, t') \<Longrightarrow>
     tun_step P s (s\<lparr>tun := t'\<lparr>dataClosed := True\<rparr>, wire := rest\<rparr>)"
| recv_broken: "pend s = None \<Longrightarrow> \<not> dataClosed (tun s) \<Longrightarrow>
     tun_step P s (s\<lparr>tun := (tun s)\<lparr>packetCount := packetCount (tun s) + 1, dataClosed := True\<rparr>\<rparr>)"
| recv_skip: "pend s = None \<Longrightarrow> \<not> dataClosed (tun s) \<Longrightarrow> recv_iter P now (tun s) (wire s) = (Skip, rest, t') \<Longrightarrow>
     tun_step P s (s\<lparr>tun := t', wire := rest\<rparr>)"
| recv_data: "pend s = None \<Longrightarrow> \<not> dataClosed (tun s) \<Longrightarrow> recv_iter P now (tun s) (wire s) = (Deliver p, rest, t') \<Longrightarrow>
     tun_step P s (s\<lparr>tun := t', wire := rest, pend := Some p\<rparr>)"
| enqueue: "pend s = Some p \<Longrightarrow> length (dataIn (tun s)) < tunnelDataQueueSize \<Longrightarrow>
     tun_step P s (s\<lparr>tun := (tun s)\<lparr>dataIn := dataIn (tun s) @ [p]\<rparr>, pend := None\<rparr>)"
| abandon: "pend s = Some p \<Longrightarrow> cancelled (tun s) \<Longrightarrow>
     tun_step P s (s\<lparr>tun := (tun s)\<lparr>dataClosed := True\<rparr>, pend := None\<rparr>)"
| consume: "RecvData ctx pick (tun s) = Some (Inr p, t') \<Longrightarrow>
     tun_step P s (s\<lparr>tun := t', got := got s @ [p], taken := taken s @ [(True, p)]\<rparr>)"
| consume_fails: "RecvData ctx pick (tun s) = Some (Inl e, t') \<Longrightarrow> tun_step P s (s\<lparr>tun := t'\<rparr>)"
| send: "writePacket P r w now now' (tun s) pt p = (sent, res, t') \<Longrightarrow>
     tun_step P s (s\<lparr>tun := t'\<rparr>)"
| cancel: "tun_step P s (s\<lparr>tun := (tun s)\<lparr>cancelled := True\<rparr>\<rparr>)"
| drain: "dataClosed (tun s) \<Longrightarrow> cancelled (tun s) \<Longrightarrow> drain_packet (tun s) = Some (p, t') \<Longrightarrow>
     tun_step P s (s\<lparr>tun := t', taken := taken s @ [(False, p)]\<rparr>)"

definition pend_list :: "tun_sys \<Rightarrow> bytes list" where
  "pend_list s = (case pend s of None \<Rightarrow> [] | Some p \<Rightarrow> [p])"

definition tun_inv :: "crypto_lib \<Rightarrow> bytes list \<Rightarrow> tun_sys \<Rightarrow> bool" where
  "tun_inv P ds s \<longleftrightarrow> length (dataIn (tun s)) \<le> tunnelDataQueueSize \<and>
     got s = map snd (filter fst (taken s)) \<and>
     (dataClosed (tun s) \<and> cancelled (tun s) \<or> got s = map snd (taken s)) \<and>
     (\<exists>rest. map snd (taken s) @ dataIn (tun s) @ pend_list s @ rest = ds \<and>
             (\<not> dataClosed (tun s) \<longrightarrow> rest = stream_data P (framer (tun s)) (wire s)))"

lemma stream_data_step:
  assumes "recv_iter P now t inp = (ev, rest, t')" and "ev \<noteq> Stop"
  shows "stream_data P (framer t) inp =
           (case ev of Deliver p \<Rightarrow> [p] | _ \<Rightarrow> []) @ stream_data P (framer t') rest"
proof -
  have "\<not> sessionExpired (t\<lparr>packetCount := packetCount t + 1\<rparr>) now (packetCount t + 1)"
    using assms recv_iter_expired by fastforce
  with assms have "rx_step P (framer t) inp = (ev, rest, framer t')" by (metis recv_iter_rx_step)
  with assms(2) show ?thesis by (subst stream_data.simps) (auto split: recv_event.split)
qed

lemma RecvData_takes:
  "RecvData ctx pick t = Some (Inr p, t') \<Longrightarrow>
   dataIn t = p # dataIn t' \<and> framer t' = framer t \<and> cancelled t' = cancelled t \<and> dataClosed t' = dataClosed t"
  by (auto simp: RecvData_def select_packet_def split: if_splits list.splits)

lemma RecvData_fails: "RecvData ctx pick t = Some (Inl e, t') \<Longrightarrow> t' = t"
  by (auto simp: RecvData_def select_packet_def split: if_splits list.splits)

lemma tun_step_inv:
  assumes "tun_step P s s'" and "tun_inv P ds s"
  shows "tun_inv P ds s'"
  using assms
proof (cases rule: tun_step.cases)
  case (recv_stop now rest t')
  with assms(2) recv_iter_frame [OF recv_stop(4)] show ?thesis
    by (auto simp: tun_inv_def pend_list_def)
next
  case (recv_skip now rest t')
  with assms(2) recv_iter_frame [OF recv_skip(4)] stream_data_step [OF recv_skip(4)] show ?thesis
    by (auto simp: tun_inv_def pend_list_def)
next
  case (recv_data now p rest t')
  with assms(2) recv_iter_frame [OF recv_data(4)] stream_data_step [OF recv_data(4)] show ?thesis
    by (auto simp: tun_inv_def pend_list_def)
next
  case (consume ctx pick p t')
  with assms(2) RecvData_takes [OF consume(2)] show ?thesis by (auto simp: tun_inv_def pend_list_def)
next
  case (consume_fails ctx pick e t')
  with assms(2) RecvData_fails [OF consume_fails(2)] show ?thesis by simp
next
  case (send r w now now' pt p sent res t')
  with assms(2) writePacket_frame [OF send(2)] writePacket_stream_data [OF send(2)] show ?thesis
    by (auto simp: tun_inv_def pend_list_def)
next
  case (drain p t')
  with assms(2) show ?thesis by (auto simp: tun_inv_def pend_list_def drain_packet_def split: list.splits)
qed (auto simp: tun_inv_def pend_list_def)

section \<open>Properties\<close>

text \<open>
  Property C1. Whatever the random draws (padding, trailer, type identifiers), every
  sequence of packets of known types with payloads up to 65535 bytes is framed without
  error, and the receive loop of a peer in lock-step hands its consumer exactly the DATA
  payloads sent before the first Close packet, in order, as long as the session limits
  (duration, packet count) are not reached.
\<close>
theorem tunnel_delivers_in_order:
  assumes "aead_ok P" and "framer_ok tx" and "in_sync tx (framer t)"
    and "\<forall>(r, p) \<in> set ps. sendable p"
    and "\<And>j. maxDuration t \<le> 0 \<or> clk j - createdAt t < maxDuration t"
  shows "\<exists>bs tx'. frames P tx ps = (Inr bs, tx') \<and>
           (maxPackets t = 0 \<or> unat (packetCount t) + length bs + 1 < unat (maxPackets t) \<longrightarrow>
              fst (recvLoop P clk i t bs) = data_until_close (map snd ps))"
proof -
  obtain bs tx' where bs: "frames P tx ps = (Inr bs, tx')"
      "stream_data P (framer t) bs = data_until_close (map snd ps)"
    using stream_data_frames [OF assms(1-4)] by (elim exE conjE)
  show ?thesis
    by (intro exI [of _ bs] exI [of _ tx'] conjI impI)
       (simp_all only: bs recvLoop_complete [OF assms(5)])
qed

definition example_draws :: draws where
  "example_draws = \<lparr>trailerDraw = 5, padDraw = 9, padRng = \<lambda>i. of_nat i, typeDraw = 99\<rparr>"

definition example_framer :: StreamFramer where
  "example_framer = (let c = NewCipher (replicate 32 1) (replicate 12 2)
     in NewProtectedStreamFramer c c (replicate 32 3) (replicate 32 3))"

definition example_tunnel :: Tunnel where
  "example_tunnel = NewTunnel 0 True 0 example_framer DefaultTunnelConfig"

lemma example_ok: "framer_ok example_framer" "in_sync example_framer (framer example_tunnel)"
  by (simp_all add: framer_ok_def in_sync_def example_framer_def example_tunnel_def NewTunnel_def
      NewProtectedStreamFramer_def NewStreamFramer_def DefaultPaddingConfig_def Let_def)

lemma example_limits: "maxDuration example_tunnel = 359 * Minute" "createdAt example_tunnel = 0"
  by (simp_all add: example_tunnel_def NewTunnel_def DefaultTunnelConfig_def dyn_duration_def
      IntN_def duration_defs)

theorem tunnel_delivers_in_order_witness:
  "\<exists>bs tx'. frames toy_lib example_framer
       [(example_draws, \<lparr>pType = PacketData, pPayload = [1, 2, 3]\<rparr>),
        (example_draws, \<lparr>pType = PacketClose, pPayload = []\<rparr>)] = (Inr bs, tx') \<and>
     (maxPackets example_tunnel = 0 \<or> unat (packetCount example_tunnel) + length bs + 1 < unat (maxPackets example_tunnel) \<longrightarrow>
        fst (recvLoop toy_lib (\<lambda>j. 0) 0 example_tunnel bs) = [[1, 2, 3]])"
  using tunnel_delivers_in_order [OF toy_aead_ok example_ok,
      of "[(example_draws, \<lparr>pType = PacketData, pPayload = [1, 2, 3]\<rparr>),
           (example_draws, \<lparr>pType = PacketClose, pPayload = []\<rparr>)]" "\<lambda>j. 0" 0]
  by (simp add: sendable_def example_limits duration_defs)

lemma frames_arrive:
  assumes "aead_ok P" and "framer_ok tx" and "in_sync tx (framer t)" and "sendable \<lparr>pType = PacketData, pPayload = d\<rparr>"
    and "\<not> sessionExpired (t\<lparr>packetCount := packetCount t + 1\<rparr>) now (packetCount t + 1)"
  obtains b tx' t' where "Frame P r tx PacketData d = (Inr b, tx')"
    and "\<And>rest. recv_iter P now t (b @ rest) = (Deliver d, rest, t')"
    and "framer_ok tx'" and "in_sync tx' (framer t')" and "packetCount t' = packetCount t + 1" and "dataIn t' = dataIn t"
    and "cancelled t' = cancelled t" and "dataClosed t' = dataClosed t"
proof -
  have s: "known_type PacketData" "length d \<le> 65535" using assms(4) by (simp_all add: sendable_def)
  obtain pkt tx' rx1 rx' masked where
    F: "Frame P r tx PacketData d = (Inr (be32 masked @ pkt), tx')"
    and D: "DecodeFrameLen P (framer t) masked = (of_nat (length pkt), rx1)"
    and Q: "ParseFrame P rx1 pkt = (Inr \<lparr>pType = PacketData, pPayload = d\<rparr>, rx')"
    and y: "in_sync tx' rx'" "framer_ok tx'"
    and l: "24 + length d \<le> length pkt" "length pkt \<le> 279 + length d"
    by (rule frame_crosses [OF assms(1-3) s, of r])
  have "length pkt \<le> 66047" using l s by simp
  note R = rx_step_frame [OF D Q this]
  let ?t = "t\<lparr>packetCount := packetCount t + 1, framer := rx', lastAuthNano := now\<rparr>"
  have "recv_iter P now t ((be32 masked @ pkt) @ rest) = (Deliver d, rest, ?t)" for rest
  proof -
    obtain ev rest' t' where I: "recv_iter P now t ((be32 masked @ pkt) @ rest) = (ev, rest', t')" by (metis prod_cases3)
    from recv_iter_rx_step [OF I assms(5)] R [of rest] have e: "ev = Deliver d" "rest' = rest" "framer t' = rx'"
      by (auto elim: recv_iter_rx_step [OF I assms(5)])
    moreover have "t' = t\<lparr>packetCount := packetCount t + 1, framer := framer t', lastAuthNano := now\<rparr>"
      using I e(1) by (auto simp: recv_iter_def Let_def split: if_splits sum.splits prod.splits)
    ultimately show ?thesis using I by simp
  qed
  from that [OF F this y(2)] y(1) show thesis by simp
qed

text \<open>
  Property C5. However the receive loop, the consumers (with or without a context of their own), concurrent
  senders and a \<^verbatim>\<open>Close\<close> that empties the channel packet by packet interleave, the channel never holds more than
  256 packets, and the packets that leave it, with those still in it, are an initial part of the DATA payloads of the
  incoming stream: nothing is reordered, duplicated or invented. What the consumers received are the
  packets \<^verbatim>\<open>Close\<close> did not throw away, and as long as the receive loop runs or the tunnel is not cancelled that is all of
  them, so nothing is skipped before a shutdown.
\<close>
theorem tunnel_interleavings_keep_order:
  assumes "(tun_step P)\<^sup>*\<^sup>* \<lparr>tun = t, wire = inp, pend = None, got = [], taken = []\<rparr> s"
    and "dataIn t = []" and "\<not> dataClosed t"
  shows "length (dataIn (tun s)) \<le> 256 \<and>
         (\<exists>rest. map snd (taken s) @ dataIn (tun s) @ rest = stream_data P (framer t) inp) \<and>
         got s = map snd (filter fst (taken s)) \<and>
         (dataClosed (tun s) \<and> cancelled (tun s) \<or> got s = map snd (taken s))"
proof -
  have "tun_inv P (stream_data P (framer t) inp) s"
    using assms(1)
  proof (induction rule: rtranclp_induct)
    case base
    show ?case using assms(2,3) by (simp add: tun_inv_def pend_list_def)
  qed (rule tun_step_inv)
  then show ?thesis by (auto simp: tun_inv_def tunnelDataQueueSize_def)
qed

lemma two_packets_one_drained:
  assumes "recv_iter P n t (b @ c) = (Deliver p, c, t1)" and "recv_iter P n' t1 c = (Deliver q, [], t2)"
    and "dataIn t = []" "dataIn t1 = []" "dataIn t2 = []" "\<not> dataClosed t" "\<not> dataClosed t1" "\<not> dataClosed t2"
  shows "\<exists>s. (tun_step P)\<^sup>*\<^sup>* \<lparr>tun = t, wire = b @ c, pend = None, got = [], taken = []\<rparr> s \<and>
     got s = [p] \<and> taken s = [(True, p), (False, q)] \<and> dataIn (tun s) = []"
proof -
  let ?s = "\<lambda>t w pe g tk. \<lparr>tun = t, wire = w, pend = pe, got = g, taken = tk\<rparr>"
  let ?u = "t2\<lparr>dataIn := [q], packetCount := packetCount t2 + 1, dataClosed := True\<rparr>"
  have "tun_step P (?s t (b @ c) None [] []) (?s t1 c (Some p) [] [])" (is "tun_step P ?a0 ?a1")
    using tun_step.recv_data [of ?a0 P n p c t1] assms by simp
  moreover have "tun_step P ?a1 (?s (t1\<lparr>dataIn := [p]\<rparr>) c None [] [])" (is "tun_step P _ ?a2")
    using tun_step.enqueue [of ?a1 p P] assms by (simp add: tunnelDataQueueSize_def)
  moreover have "tun_step P ?a2 (?s t1 c None [p] [(True, p)])" (is "tun_step P _ ?a3")
    using tun_step.consume [of None PickData ?a2 p t1 P] assms
    by (simp add: RecvData_def select_packet_def)
  moreover have "tun_step P ?a3 (?s t2 [] (Some q) [p] [(True, p)])" (is "tun_step P _ ?a4")
    using tun_step.recv_data [of ?a3 P n' q "[]" t2] assms by simp
  moreover have "tun_step P ?a4 (?s (t2\<lparr>dataIn := [q]\<rparr>) [] None [p] [(True, p)])" (is "tun_step P _ ?a5")
    using tun_step.enqueue [of ?a4 q P] assms by (simp add: tunnelDataQueueSize_def)
  moreover have "tun_step P ?a5 (?s ?u [] None [p] [(True, p)])" (is "tun_step P _ ?a6")
    using tun_step.recv_broken [of ?a5 P] assms by simp
  moreover have "tun_step P ?a6 (?s (?u\<lparr>cancelled := True\<rparr>) [] None [p] [(True, p)])" (is "tun_step P _ ?a7")
    using tun_step.cancel [of P ?a6] by simp
  moreover have "tun_step P ?a7 (?s (?u\<lparr>cancelled := True, dataIn := []\<rparr>) [] None [p] [(True, p), (False, q)])" (is "tun_step P _ ?a8")
    using tun_step.drain [of ?a7 q "?u\<lparr>cancelled := True, dataIn := []\<rparr>" P] by (simp add: drain_packet_def)
  ultimately have "(tun_step P)\<^sup>*\<^sup>* ?a0 ?a8" by (meson converse_rtranclp_into_rtranclp rtranclp.rtrancl_refl)
  then show ?thesis by (intro exI [of _ ?a8] conjI) simp_all
qed

theorem tunnel_interleavings_keep_order_witness:
  "\<exists>inp s. (tun_step toy_lib)\<^sup>*\<^sup>* \<lparr>tun = example_tunnel, wire = inp, pend = None, got = [], taken = []\<rparr> s \<and>
     got s = [[1, 2, 3]] \<and> taken s = [(True, [1, 2, 3]), (False, [4])] \<and>
     (\<exists>rest. [[1, 2, 3], [4]] @ rest = stream_data toy_lib (framer example_tunnel) inp)"
proof -
  have e: "dataIn example_tunnel = []" "\<not> dataClosed example_tunnel" "packetCount example_tunnel = 0"
    by (simp_all add: example_tunnel_def NewTunnel_def)
  have x: "\<not> sessionExpired (t\<lparr>packetCount := packetCount t + 1\<rparr>) 0 (packetCount t + 1)" if "packetCount t \<in> {0, 1}" for t
    using that by (auto simp: sessionExpired_def)
  obtain b tx1 t1 where 1: "\<And>rest. recv_iter toy_lib 0 example_tunnel (b @ rest) = (Deliver [1, 2, 3], rest, t1)"
      "framer_ok tx1" "in_sync tx1 (framer t1)" "packetCount t1 = 1" "dataIn t1 = []" "\<not> dataClosed t1"
    by (rule frames_arrive [OF toy_aead_ok example_ok _ x, of "[1, 2, 3]" example_draws])
      (simp add: sendable_def, simp add: e, simp add: e, blast)
  obtain c tx2 t2 where 2: "\<And>rest. recv_iter toy_lib 0 t1 (c @ rest) = (Deliver [4], rest, t2)"
      "dataIn t2 = []" "\<not> dataClosed t2"
    by (rule frames_arrive [OF toy_aead_ok 1(2,3) _ x, of "[4]" example_draws])
      (simp add: sendable_def, simp add: 1(4), simp add: 1(4-6), blast)
  obtain s where s: "(tun_step toy_lib)\<^sup>*\<^sup>* \<lparr>tun = example_tunnel, wire = b @ c, pend = None, got = [], taken = []\<rparr> s"
      "got s = [[1, 2, 3]]" "taken s = [(True, [1, 2, 3]), (False, [4])]" "dataIn (tun s) = []"
    using two_packets_one_drained [OF 1(1) 2(1) [of "[]", simplified] e(1) 1(5) 2(2) e(2) 1(6) 2(3)] by blast
  with tunnel_interleavings_keep_order [OF s(1) e(1,2)] show ?thesis
    by (intro exI [of _ "b @ c"] exI [of _ s] conjI) simp_all
qed

text \<open>
  Property C9. Sending a packet of known type with a payload of at most 65535 bytes never
  fails for lack of buffer space: either the session has expired, or the bytes written are
  the frame \<^verbatim>\<open>Frame\<close> builds (completely on success, an initial part of it when the
  connection fails), and every failure cancels the tunnel.
\<close>
theorem writePacket_whole_frame_or_cancel:
  assumes "aead_ok P" and "framer_ok (framer t)" and "sendable \<lparr>pType = pt, pPayload = payload\<rparr>"
    and "writePacket P r w now now' t pt payload = (sent, res, t')"
  shows "\<exists>frame rest. fst (Frame P r (framer t) pt payload) = Inr frame \<and> sent @ rest = frame \<and>
           (case res of Inr _ \<Rightarrow> sent = frame \<and> cancelled t' = cancelled t | Inl e \<Rightarrow> cancelled t') \<and>
           packetCount t' = packetCount t + 1"
proof -
  have s: "known_type pt" "length payload \<le> 65535" using assms(3) by (simp_all add: sendable_def)
  obtain frame f' where F: "Frame P r (framer t) pt payload = (Inr frame, f')"
    by (rule Frame_succeeds [OF assms(1,2) s])
  have B: "FrameWithBuffer P r (framer t) (284 + length payload) pt payload = (Inr frame, f')"
    using F FrameWithBuffer_eq_Frame [of payload "284 + length payload"] by simp
  obtain x y where W: "writeFrameLocked w 0 frame = (x, y)" by force
  have "(\<exists>rest. x @ rest = frame) \<and> (y = Inr () \<longrightarrow> x = frame)" by (rule writeFrameLocked_sent [OF W])
  with assms(4) F B W show ?thesis
    by (auto simp: writePacket_def Let_def algebra_simps split: if_splits sum.splits)
qed

theorem writePacket_whole_frame_or_cancel_witness:
  "\<exists>frame rest. fst (Frame toy_lib example_draws (framer example_tunnel) PacketData [1, 2, 3]) = Inr frame \<and>
     fst (writePacket toy_lib example_draws (\<lambda>i fr. (1, None)) 0 0 example_tunnel PacketData [1, 2, 3]) @ rest = frame"
proof -
  obtain sent res t' where
    W: "writePacket toy_lib example_draws (\<lambda>i fr. (1, None)) 0 0 example_tunnel PacketData [1, 2, 3] = (sent, res, t')"
    by (metis prod_cases3)
  have "framer_ok (framer example_tunnel)"
    by (simp add: framer_ok_def example_framer_def example_tunnel_def NewTunnel_def DefaultTunnelConfig_def
        NewProtectedStreamFramer_def NewStreamFramer_def DefaultPaddingConfig_def Let_def)
  from writePacket_whole_frame_or_cancel [OF toy_aead_ok this _ W] show ?thesis
    unfolding W by (auto simp: sendable_def)
qed

end
