(* ===== verification/Hybrid_Handshake.thy ===== *)
theory Hybrid_Handshake
  imports Handshake_Frames Tunnel_Delivery
begin

text \<open>
  The hybrid X25519 and ML-KEM handshake of \<^verbatim>\<open>obsidian/handshake.go\<close>: the messages of
  both sides, the checks of the server (timestamp, proof of the static key, allowlist) and
  of the client (magic, session identifier, proof of the server key), and the framers both
  end up with. Clock readings are 64-bit Unix seconds.
\<close>

text \<open>The draws one hello message consumes.\<close>

record hello_draws =
  hPadDraw :: nat
  hPadRng :: "nat \<Rightarrow> u64"
  hRnd :: "nat \<Rightarrow> byte"
  hOff :: nat
  hKem :: bytes

definition abs64 :: "u64 \<Rightarrow> u64" where
  "abs64 x = (if sint x < 0 then - x else x)"

definition prePadding :: "(nat \<Rightarrow> byte) \<Rightarrow> nat \<Rightarrow> int \<Rightarrow> bytes res" where
  "prePadding rnd off maxLen =
     (if maxLen \<le> 0 then Inr []
      else
        let sz = uint (rnd off) mod (maxLen + 1)
        in if sz = 0 then Inr [] else RandomBytes rnd (off + 1) sz)"

definition serverStaticProof :: "crypto_lib \<Rightarrow> bytes \<Rightarrow> bytes \<Rightarrow> bytes \<Rightarrow> bytes \<Rightarrow> bytes \<Rightarrow> bytes" where
  "serverStaticProof P staticShared clientEph salt serverEph sessionID =
     HmacSHA256 P staticShared (str ''obsidian_server_auth_v1'' @ clientEph @ salt @ serverEph @ sessionID)"

definition client_proof :: "crypto_lib \<Rightarrow> bytes \<Rightarrow> bytes \<Rightarrow> bytes \<Rightarrow> bytes \<Rightarrow> bytes \<Rightarrow> bytes \<Rightarrow> bytes" where
  "client_proof P staticShared magic ephPub mlkemPub salt ts =
     HmacSHA256 P staticShared (magic @ ephPub @ mlkemPub @ salt @ ts)"

section \<open>Client\<close>

record ClientHandshake =
  serverStaticPub :: bytes
  ephemeralKeypair :: Keypair
  mlkemKeypair :: MLKEMKeypair
  staticKeypair :: Keypair
  cSalt :: bytes
  cSessionKeys :: "SessionKeys option"
  cObfCfg :: ObfuscationConfig

text \<open>\<open>ephRnd\<close>, \<open>kemSeed\<close> and \<open>saltRnd\<close> are the random bytes drawn for the ephemeral key,
  the ML-KEM key and the salt.\<close>

definition NewClientHandshakeWithStaticKey ::
    "crypto_lib \<Rightarrow> bytes \<Rightarrow> bytes \<Rightarrow> bytes \<Rightarrow> bytes \<Rightarrow> Keypair option \<Rightarrow> ObfuscationConfig \<Rightarrow> ClientHandshake res" where
  "NewClientHandshakeWithStaticKey P ephRnd kemSeed saltRnd srvPub static cfg =
     (case static of
        None \<Rightarrow> Inl (Errorf ''client static keypair is nil'')
      | Some st \<Rightarrow>
          rbind (GenerateKeypair P ephRnd) (\<lambda>eph.
            Inr \<lparr>serverStaticPub = srvPub, ephemeralKeypair = eph,
                 mlkemKeypair = GenerateMLKEMKeypair P kemSeed, staticKeypair = st,
                 cSalt = saltRnd, cSessionKeys = None, cObfCfg = cfg\<rparr>))"

definition BuildHello :: "crypto_lib \<Rightarrow> hello_draws \<Rightarrow> u64 \<Rightarrow> ClientHandshake \<Rightarrow> bytes res" where
  "BuildHello P d now c =
     (let eph = ephemeralKeypair c; ephPub = Public eph; salt = cSalt c
      in rbind (DHSafe P (Private eph) (serverStaticPub c)) (\<lambda>shared.
           let tmpKeys = DeriveKeys P shared salt ephPub (serverStaticPub c);
               tmpCipher = NewCipher (ClientKey tmpKeys) (ClientIV tmpKeys);
               ts = be64 now;
               mlkemEncPub = EncapsulationKey (mlkemKeypair c)
           in rbind (DHSafe P (Private (staticKeypair c)) (serverStaticPub c)) (\<lambda>staticShared.
                let clientProof = client_proof P staticShared (DynamicMagic tmpKeys) ephPub mlkemEncPub salt ts;
                    identity = DynamicMagic tmpKeys @ Public (staticKeypair c) @ ts @ clientProof;
                    encIdentity = fst (Encrypt P tmpCipher identity (ephPub @ mlkemEncPub))
                in rbind (RandomPadding (hPadDraw d) (hPadRng d) (S1Min (cObfCfg c)) (S1Max (cObfCfg c))) (\<lambda>s1.
                   rbind (prePadding (hRnd d) (hOff d) (PrePadMax (cObfCfg c))) (\<lambda>prePad.
                     Inr ([of_nat (length prePad)] @ prePad @ ephPub @ mlkemEncPub @ salt @
                          be16 (of_nat (length encIdentity)) @ encIdentity @
                          be16 (of_nat (length s1)) @ s1))))))"

text \<open>The part of \<^verbatim>\<open>ProcessServerHello\<close> that cuts the message into its fields.\<close>

definition parse_server_hello :: "bytes \<Rightarrow> (bytes \<times> bytes \<times> bytes) res" where
  "parse_server_hello data =
     (if length data < 1 then Inl (Errorf ''server hello too short'')
      else
        let prePadLen = unat (data ! 0); offset = 1
        in if length data < offset + prePadLen + KeySize + MLKEM768CiphertextSize + 2
           then Inl (Errorf ''server hello truncated at pre-pad'')
           else
             let offset = offset + prePadLen
             in rbind (sl offset (offset + KeySize) data) (\<lambda>serverEphPub.
                let offset = offset + KeySize
                in rbind (sl offset (offset + MLKEM768CiphertextSize) data) (\<lambda>kemCt.
                   let offset = offset + MLKEM768CiphertextSize
                   in if length data < offset + 2 then Inl (Errorf ''server hello truncated at conf_len'')
                      else rbind (sl offset (offset + 2) data) (\<lambda>lenb.
                        let confLen = unat (rd16 lenb); offset = offset + 2
                        in if length data < offset + confLen then Inl (Errorf ''server hello truncated at confirm'')
                           else rbind (sl offset (offset + confLen) data) (\<lambda>encConfirm.
                             Inr (serverEphPub, kemCt, encConfirm))))))"

definition ProcessServerHello ::
    "crypto_lib \<Rightarrow> ClientHandshake \<Rightarrow> bytes \<Rightarrow> StreamFramer res \<times> ClientHandshake" where
  "ProcessServerHello P c data =
     (let eph = ephemeralKeypair c; salt = cSalt c
      in case rbind (parse_server_hello data) (\<lambda>(serverEphPub, kemCt, encConfirm).
             rbind (DHSafe P (Private eph) serverEphPub) (\<lambda>sharedX25519.
             rbind (DecapsulateMLKEM P (Some (DecapsulationKey (mlkemKeypair c))) kemCt) (\<lambda>sharedMLKEM.
               let hybridSecret = DeriveHybridSecret P sharedX25519 sharedMLKEM salt
               in Inr (serverEphPub, kemCt, encConfirm, DeriveKeys P hybridSecret salt (Public eph) serverEphPub)))) of
           Inl e \<Rightarrow> (Inl e, c)
         | Inr (serverEphPub, kemCt, encConfirm, keys) \<Rightarrow>
             let c1 = c\<lparr>cSessionKeys := Some keys\<rparr>;
                 checks =
                   (case fst (Decrypt P (NewCipher (ServerKey keys) (ServerIV keys)) encConfirm (serverEphPub @ kemCt)) of
                      None \<Rightarrow> Inl (Errorf ''handshake confirm decrypt failed'')
                    | Some confirm \<Rightarrow>
                        if length confirm \<noteq> 16 + SessionIDSize + 32 then Inl (Errorf ''confirm too short'')
                        else if \<not> ConstantTimeEqual (take 16 confirm) (DynamicMagic keys)
                        then Inl (Errorf ''handshake magic mismatch'')
                        else if \<not> ConstantTimeEqual (subslice 16 (16 + SessionIDSize) confirm) (SessionID keys)
                        then Inl (Errorf ''handshake session ID mismatch'')
                        else rbind (DHSafe P (Private eph) (serverStaticPub c)) (\<lambda>staticShared.
                          if \<not> ConstantTimeEqual (drop (16 + SessionIDSize) confirm)
                                (serverStaticProof P staticShared (Public eph) salt serverEphPub (SessionID keys))
                          then Inl (Errorf ''server static proof mismatch'')
                          else Inr ()))
             in case checks of
                  Inl e \<Rightarrow> (Inl e, c1)
                | Inr _ \<Rightarrow>
                    let (clientHeaderKey, serverHeaderKey) = DeriveTCPHeaderKeys P keys;
                        framer = NewProtectedStreamFramer (NewCipher (ClientKey keys) (ClientIV keys))
                                   (NewCipher (ServerKey keys) (ServerIV keys)) clientHeaderKey serverHeaderKey
                    in (Inr (framer\<lparr>HeaderCfg := Headers (cObfCfg c)\<rparr>),
                        c1\<lparr>ephemeralKeypair := Keypair_Zero eph\<rparr>))"

section \<open>Server\<close>

record ServerHandshake =
  staticPriv :: bytes
  staticPub :: bytes
  ephKeypair :: Keypair
  allowedClients :: "bytes set option"
  clientStaticPub :: bytes
  sSessionKeys :: "SessionKeys option"
  sObfCfg :: ObfuscationConfig

definition NewServerHandshakeWithConfig ::
    "crypto_lib \<Rightarrow> bytes \<Rightarrow> bytes \<Rightarrow> bytes \<Rightarrow> bytes list option \<Rightarrow> ObfuscationConfig \<Rightarrow> ServerHandshake res" where
  "NewServerHandshakeWithConfig P ephRnd priv pub allowed cfg =
     rbind (GenerateKeypair P ephRnd) (\<lambda>eph.
       Inr \<lparr>staticPriv = priv, staticPub = pub, ephKeypair = eph,
            allowedClients = map_option set allowed, clientStaticPub = replicate KeySize 0,
            sSessionKeys = None, sObfCfg = cfg\<rparr>)"

definition parse_client_hello :: "bytes \<Rightarrow> (bytes \<times> bytes \<times> bytes \<times> bytes) res" where
  "parse_client_hello data =
     (if length data < 1 then Inl (Errorf ''client hello too short'')
      else
        let prePadLen = unat (data ! 0); offset = 1
        in if length data < offset + prePadLen + KeySize + MLKEM768EncapsulationKeySize + 32 + 2
           then Inl (Errorf ''client hello truncated at pre-pad'')
           else
             let offset = offset + prePadLen
             in rbind (sl offset (offset + KeySize) data) (\<lambda>clientEphPub.
                let offset = offset + KeySize
                in rbind (sl offset (offset + MLKEM768EncapsulationKeySize) data) (\<lambda>clientMLKEMPub.
                   let offset = offset + MLKEM768EncapsulationKeySize
                   in if length data < offset + 32 then Inl (Errorf ''client hello truncated at salt'')
                      else rbind (sl offset (offset + 32) data) (\<lambda>salt.
                        let offset = offset + 32
                        in if length data < offset + 2 then Inl (Errorf ''client hello truncated at enc_len'')
                           else rbind (sl offset (offset + 2) data) (\<lambda>lenb.
                             let encLen = unat (rd16 lenb); offset = offset + 2
                             in if length data < offset + encLen
                                then Inl (Errorf ''client hello truncated at enc_identity'')
                                else rbind (sl offset (offset + encLen) data) (\<lambda>encIdentity.
                                  Inr (clientEphPub, clientMLKEMPub, salt, encIdentity)))))))"

text \<open>\<^verbatim>\<open>ProcessClientHello\<close> up to the point where the claimed client key is stored.\<close>

definition open_identity ::
    "crypto_lib \<Rightarrow> ServerHandshake \<Rightarrow> bytes \<Rightarrow> (bytes \<times> bytes \<times> bytes \<times> bytes \<times> SessionKeys \<times> bytes) res" where
  "open_identity P s data =
     rbind (parse_client_hello data) (\<lambda>(clientEphPub, clientMLKEMPub, salt, encIdentity).
     rbind (DHSafe P (staticPriv s) clientEphPub) (\<lambda>shared.
       let tmpKeys = DeriveKeys P shared salt clientEphPub (staticPub s);
           tmpCipher = NewCipher (ClientKey tmpKeys) (ClientIV tmpKeys)
       in case fst (Decrypt P tmpCipher encIdentity (clientEphPub @ clientMLKEMPub)) of
            None \<Rightarrow> Inl (Errorf ''identity decrypt failed'')
          | Some identity \<Rightarrow>
              if length identity < 16 + KeySize + 8 + 32 then Inl (Errorf ''identity too short'')
              else if \<not> ConstantTimeEqual (take 16 identity) (DynamicMagic tmpKeys)
              then Inl (Errorf ''invalid dynamic magic'')
              else Inr (clientEphPub, clientMLKEMPub, salt, shared, tmpKeys, identity)))"

text \<open>The checks between storing the client key and deriving the session keys; the result
  is the ML-KEM secret and ciphertext and the ephemeral X25519 secret.\<close>

definition check_client ::
    "crypto_lib \<Rightarrow> hello_draws \<Rightarrow> u64 \<Rightarrow> ServerHandshake \<Rightarrow> bytes \<Rightarrow> bytes \<Rightarrow> bytes \<Rightarrow> SessionKeys \<Rightarrow> bytes
       \<Rightarrow> (bytes \<times> bytes \<times> bytes) res" where
  "check_client P d now s clientEphPub clientMLKEMPub salt tmpKeys identity =
     (let pub = subslice 16 (16 + KeySize) identity;
          tsb = subslice (16 + KeySize) (16 + KeySize + 8) identity
      in if sint (abs64 (now - rd64 tsb)) > 30 then Inl (Errorf ''replay/clock skew'')
         else rbind (DHSafe P (staticPriv s) pub) (\<lambda>staticShared.
           if \<not> ConstantTimeEqual (subslice (16 + KeySize + 8) (16 + KeySize + 8 + 32) identity)
                 (client_proof P staticShared (DynamicMagic tmpKeys) clientEphPub clientMLKEMPub salt tsb)
           then Inl (Errorf ''invalid client static proof'')
           else if (case allowedClients s of None \<Rightarrow> False | Some A \<Rightarrow> pub \<notin> A)
           then Inl (Errorf ''client public key not in allowlist'')
           else rbind (EncapsulateMLKEM P (hKem d) clientMLKEMPub) (\<lambda>(sharedMLKEM, kemCt).
                rbind (DHSafe P (Private (ephKeypair s)) clientEphPub) (\<lambda>sharedFinal.
                  Inr (sharedMLKEM, kemCt, sharedFinal)))))"

definition ProcessClientHello ::
    "crypto_lib \<Rightarrow> hello_draws \<Rightarrow> u64 \<Rightarrow> ServerHandshake \<Rightarrow> bytes
       \<Rightarrow> (bytes \<times> StreamFramer) res \<times> ServerHandshake" where
  "ProcessClientHello P d now s data =
     (case open_identity P s data of
        Inl e \<Rightarrow> (Inl e, s)
      | Inr (clientEphPub, clientMLKEMPub, salt, shared, tmpKeys, identity) \<Rightarrow>
          let s1 = s\<lparr>clientStaticPub := subslice 16 (16 + KeySize) identity\<rparr>; eph = ephKeypair s
          in case check_client P d now s clientEphPub clientMLKEMPub salt tmpKeys identity of
               Inl e \<Rightarrow> (Inl e, s1)
             | Inr (sharedMLKEM, kemCt, sharedFinal) \<Rightarrow>
                 let hybridSecret = DeriveHybridSecret P sharedFinal sharedMLKEM salt;
                     keys = DeriveKeys P hybridSecret salt clientEphPub (Public eph);
                     s2 = s1\<lparr>sSessionKeys := Some keys\<rparr>;
                     serverProof = serverStaticProof P shared clientEphPub salt (Public eph) (SessionID keys);
                     confirmPlain = DynamicMagic keys @ SessionID keys @ serverProof;
                     encConfirm = fst (Encrypt P (NewCipher (ServerKey keys) (ServerIV keys)) confirmPlain (Public eph @ kemCt));
                     paddings = rbind (RandomPadding (hPadDraw d) (hPadRng d) (S2Min (sObfCfg s)) (S2Max (sObfCfg s))) (\<lambda>pad2.
                                rbind (prePadding (hRnd d) (hOff d) (PrePadMax (sObfCfg s))) (\<lambda>prePad. Inr (pad2, prePad)))
                 in case paddings of
                      Inl e \<Rightarrow> (Inl e, s2)
                    | Inr (pad2, prePad) \<Rightarrow>
                        let hello = [of_nat (length prePad)] @ prePad @ Public eph @ kemCt @
                                    be16 (of_nat (length encConfirm)) @ encConfirm @
                                    be16 (of_nat (length pad2)) @ pad2;
                            (clientHeaderKey, serverHeaderKey) = DeriveTCPHeaderKeys P keys;
                            framer = NewProtectedStreamFramer (NewCipher (ServerKey keys) (ServerIV keys))
                                       (NewCipher (ClientKey keys) (ClientIV keys)) serverHeaderKey clientHeaderKey
                        in (Inr (hello, framer\<lparr>HeaderCfg := Headers (sObfCfg s)\<rparr>),
                            s2\<lparr>ephKeypair := Keypair_Zero eph\<rparr>))"

section \<open>Lemmas\<close>

definition kp_ok :: "crypto_lib \<Rightarrow> Keypair \<Rightarrow> bool" where
  "kp_ok P kp \<longleftrightarrow> x25519 P (Private kp) Basepoint = Some (Public kp)"

lemma GenerateKeypair_ok: "GenerateKeypair P rnd = Inr kp \<Longrightarrow> kp_ok P kp"
  by (auto simp: GenerateKeypair_def kp_ok_def Let_def split: option.splits)

lemma kp_ok_length: "dh_ok P \<Longrightarrow> kp_ok P kp \<Longrightarrow> length (Public kp) = 32"
  unfolding dh_ok_def kp_ok_def by blast

lemma DHSafe_sym:
  assumes "dh_ok P" and "kp_ok P a" and "kp_ok P b"
  shows "DHSafe P (Private a) (Public b) = DHSafe P (Private b) (Public a)"
proof -
  have "x25519 P (Private a) (Public b) = x25519 P (Private b) (Public a)"
    using assms unfolding dh_ok_def kp_ok_def by blast
  then show ?thesis by (simp add: DHSafe_def DH_def)
qed

lemma prePadding_ok: "\<exists>p. prePadding rnd off n = Inr p \<and> length p \<le> 255"
proof (cases "n \<le> 0 \<or> uint (rnd off) mod (n + 1) = 0")
  case True
  then show ?thesis by (auto simp: prePadding_def)
next
  case False
  have "uint (rnd off) \<le> 255" using unsigned_less [of "rnd off", where 'a = int] by simp
  then have "0 \<le> uint (rnd off) mod (n + 1)" "uint (rnd off) mod (n + 1) \<le> 255"
    using False zmod_le_nonneg_dividend [of "uint (rnd off)" "n + 1"] by auto
  moreover from this(1) obtain p where "RandomBytes rnd (off + 1) (uint (rnd off) mod (n + 1)) = Inr p"
      "int (length p) = uint (rnd off) mod (n + 1)" by (rule RandomBytes_defined)
  ultimately show ?thesis using False by (auto simp: prePadding_def)
qed

lemma RandomPadding_ok:
  assumes "0 \<le> mn"
  obtains b where "RandomPadding dr rng mn mx = Inr b" and "int (length b) \<le> max mn mx"
proof (cases "mx \<le> mn")
  case True
  then show thesis using assms that by (simp add: RandomPadding_def)
next
  case False
  then obtain v where v: "IntN dr (mx - mn) = Some v" "0 \<le> v" "v < mx - mn" by (auto simp: IntN_def)
  then show thesis using assms False that by (simp add: RandomPadding_def)
qed

text \<open>The field layout of the two hello messages.\<close>

lemma parse_client_hello_ok:
  assumes "length pre \<le> 255" and "length e = 32" and "length k = 1184" and "length t = 32"
    and "length i \<le> 65535"
  shows "parse_client_hello ([of_nat (length pre)] @ pre @ e @ k @ t @ be16 (of_nat (length i)) @ i @ rest) =
         Inr (e, k, t, i)"
proof -
  define data where "data = [of_nat (length pre)] @ pre @ e @ k @ t @ be16 (of_nat (length i)) @ i @ rest"
  have h: "unat (data ! 0) = length pre" using assms(1) by (simp add: data_def unat_of_nat_small)
  have n: "unat (of_nat (length i) :: u16) = length i" using assms(5) by (simp add: unat_of_nat_small)
  have len: "length data = 1 + length pre + 32 + 1184 + 32 + 2 + length i + length rest"
    using assms by (simp add: data_def)
  have c: "sl (1 + length pre) (1 + length pre + 32) data = Inr e"
    "sl (1 + length pre + 32) (1 + length pre + 32 + 1184) data = Inr k"
    "sl (1 + length pre + 32 + 1184) (1 + length pre + 32 + 1184 + 32) data = Inr t"
    "sl (1 + length pre + 32 + 1184 + 32) (1 + length pre + 32 + 1184 + 32 + 2) data = Inr (be16 (of_nat (length i)))"
    "sl (1 + length pre + 32 + 1184 + 32 + 2) (1 + length pre + 32 + 1184 + 32 + 2 + length i) data = Inr i"
    using len assms by (simp_all add: sl_Inr data_def subslice_def drop_Cons')
  show ?thesis
    unfolding data_def [symmetric] parse_client_hello_def Let_def h size_defs
    using len c n by (simp add: rd16_be16)
qed

lemma parse_server_hello_ok:
  assumes "length pre \<le> 255" and "length e = 32" and "length k = 1088" and "length i \<le> 65535"
  shows "parse_server_hello ([of_nat (length pre)] @ pre @ e @ k @ be16 (of_nat (length i)) @ i @ rest) =
         Inr (e, k, i)"
proof -
  define data where "data = [of_nat (length pre)] @ pre @ e @ k @ be16 (of_nat (length i)) @ i @ rest"
  have h: "unat (data ! 0) = length pre" using assms(1) by (simp add: data_def unat_of_nat_small)
  have n: "unat (of_nat (length i) :: u16) = length i" using assms(4) by (simp add: unat_of_nat_small)
  have len: "length data = 1 + length pre + 32 + 1088 + 2 + length i + length rest"
    using assms by (simp add: data_def)
  have c: "sl (1 + length pre) (1 + length pre + 32) data = Inr e"
    "sl (1 + length pre + 32) (1 + length pre + 32 + 1088) data = Inr k"
    "sl (1 + length pre + 32 + 1088) (1 + length pre + 32 + 1088 + 2) data = Inr (be16 (of_nat (length i)))"
    "sl (1 + length pre + 32 + 1088 + 2) (1 + length pre + 32 + 1088 + 2 + length i) data = Inr i"
    using len assms by (simp_all add: sl_Inr data_def subslice_def drop_Cons')
  show ?thesis
    unfolding data_def [symmetric] parse_server_hello_def Let_def h size_defs
    using len c n by (simp add: rd16_be16)
qed

section \<open>Agreement\<close>

text \<open>
  A client and a server that may talk: genuine key pairs, the client pins the server's key,
  and the three Diffie-Hellman secrets \<open>z1\<close> (ephemeral with server static), \<open>z2\<close> (client
  static with server static) and \<open>z3\<close> (ephemeral with ephemeral) are not degenerate.
\<close>

definition peers ::
    "crypto_lib \<Rightarrow> ClientHandshake \<Rightarrow> ServerHandshake \<Rightarrow> bytes \<Rightarrow> bytes \<Rightarrow> bytes \<Rightarrow> bool" where
  "peers P c s z1 z2 z3 \<longleftrightarrow>
     kp_ok P (ephemeralKeypair c) \<and> kp_ok P (staticKeypair c) \<and> kp_ok P (ephKeypair s) \<and>
     kp_ok P \<lparr>Private = staticPriv s, Public = staticPub s\<rparr> \<and> serverStaticPub c = staticPub s \<and>
     length (cSalt c) = 32 \<and>
     EncapsulationKey (mlkemKeypair c) = mlkem_pub P (DecapsulationKey (mlkemKeypair c)) \<and>
     DHSafe P (Private (ephemeralKeypair c)) (staticPub s) = Inr z1 \<and>
     DHSafe P (Private (staticKeypair c)) (staticPub s) = Inr z2 \<and>
     DHSafe P (Private (ephKeypair s)) (Public (ephemeralKeypair c)) = Inr z3 \<and>
     0 \<le> S1Min (cObfCfg c) \<and> 0 \<le> S2Min (sObfCfg s)"

definition prims_ok :: "crypto_lib \<Rightarrow> bool" where
  "prims_ok P \<longleftrightarrow> aead_ok P \<and> sha_ok P \<and> dh_ok P \<and> kem_ok P"

lemma peers_server_dh:
  assumes "prims_ok P" and "peers P c s z1 z2 z3"
  shows "DHSafe P (staticPriv s) (Public (ephemeralKeypair c)) = Inr z1"
    and "DHSafe P (staticPriv s) (Public (staticKeypair c)) = Inr z2"
    and "DHSafe P (Private (ephemeralKeypair c)) (Public (ephKeypair s)) = Inr z3"
proof -
  have d: "dh_ok P" using assms(1) by (simp add: prims_ok_def)
  let ?st = "\<lparr>Private = staticPriv s, Public = staticPub s\<rparr>"
  have k: "kp_ok P (ephemeralKeypair c)" "kp_ok P (staticKeypair c)" "kp_ok P (ephKeypair s)" "kp_ok P ?st"
    using assms(2) by (simp_all add: peers_def)
  show "DHSafe P (staticPriv s) (Public (ephemeralKeypair c)) = Inr z1"
    using DHSafe_sym [OF d k(1) k(4)] assms(2) by (simp add: peers_def)
  show "DHSafe P (staticPriv s) (Public (staticKeypair c)) = Inr z2"
    using DHSafe_sym [OF d k(2) k(4)] assms(2) by (simp add: peers_def)
  show "DHSafe P (Private (ephemeralKeypair c)) (Public (ephKeypair s)) = Inr z3"
    using DHSafe_sym [OF d k(3) k(1)] assms(2) by (simp add: peers_def)
qed

definition tmp_keys :: "crypto_lib \<Rightarrow> ClientHandshake \<Rightarrow> bytes \<Rightarrow> SessionKeys" where
  "tmp_keys P c z1 = DeriveKeys P z1 (cSalt c) (Public (ephemeralKeypair c)) (serverStaticPub c)"

definition client_identity :: "crypto_lib \<Rightarrow> u64 \<Rightarrow> ClientHandshake \<Rightarrow> bytes \<Rightarrow> bytes \<Rightarrow> bytes" where
  "client_identity P now c z1 z2 =
     DynamicMagic (tmp_keys P c z1) @ Public (staticKeypair c) @ be64 now @
     client_proof P z2 (DynamicMagic (tmp_keys P c z1)) (Public (ephemeralKeypair c))
       (EncapsulationKey (mlkemKeypair c)) (cSalt c) (be64 now)"

lemma client_identity_fields:
  assumes "sha_ok P" and "length (Public (staticKeypair c)) = 32"
  shows "length (client_identity P now c z1 z2) = 88"
    and "take 16 (client_identity P now c z1 z2) = DynamicMagic (tmp_keys P c z1)"
    and "subslice 16 48 (client_identity P now c z1 z2) = Public (staticKeypair c)"
    and "subslice 48 56 (client_identity P now c z1 z2) = be64 now"
    and "subslice 56 88 (client_identity P now c z1 z2) =
           client_proof P z2 (DynamicMagic (tmp_keys P c z1)) (Public (ephemeralKeypair c))
             (EncapsulationKey (mlkemKeypair c)) (cSalt c) (be64 now)"
proof -
  have "length (DynamicMagic (tmp_keys P c z1)) = 16"
    using DeriveKeys_wf by (simp add: tmp_keys_def keys_wf_def)
  moreover have "length (client_proof P k a b e t u) = 32" for k a b e t u
    using assms(1) by (simp add: client_proof_def)
  ultimately show "length (client_identity P now c z1 z2) = 88"
    and "take 16 (client_identity P now c z1 z2) = DynamicMagic (tmp_keys P c z1)"
    and "subslice 16 48 (client_identity P now c z1 z2) = Public (staticKeypair c)"
    and "subslice 48 56 (client_identity P now c z1 z2) = be64 now"
    and "subslice 56 88 (client_identity P now c z1 z2) =
           client_proof P z2 (DynamicMagic (tmp_keys P c z1)) (Public (ephemeralKeypair c))
             (EncapsulationKey (mlkemKeypair c)) (cSalt c) (be64 now)"
    using assms(2) by (simp_all add: client_identity_def subslice_def)
qed

text \<open>The client's hello, opened by the server.\<close>

lemma hello_opened:
  assumes "prims_ok P" and "peers P c s z1 z2 z3"
  obtains hello where "BuildHello P d now c = Inr hello"
    and "open_identity P s hello =
           Inr (Public (ephemeralKeypair c), EncapsulationKey (mlkemKeypair c), cSalt c, z1,
                tmp_keys P c z1, client_identity P now c z1 z2)"
    and "int (length hello) \<le> 1612 + max (S1Min (cObfCfg c)) (S1Max (cObfCfg c))"
proof -
  have P: "aead_ok P" "sha_ok P" "dh_ok P" "kem_ok P" using assms(1) by (simp_all add: prims_ok_def)
  have pe: "serverStaticPub c = staticPub s" "length (cSalt c) = 32"
    "DHSafe P (Private (ephemeralKeypair c)) (serverStaticPub c) = Inr z1"
    "DHSafe P (Private (staticKeypair c)) (serverStaticPub c) = Inr z2"
    using assms(2) by (simp_all add: peers_def)
  have len: "length (Public (ephemeralKeypair c)) = 32" "length (Public (staticKeypair c)) = 32"
    "length (EncapsulationKey (mlkemKeypair c)) = 1184"
    using assms(2) kp_ok_length [OF P(3)] P(4) by (simp_all add: peers_def kem_ok_def)
  let ?aad = "Public (ephemeralKeypair c) @ EncapsulationKey (mlkemKeypair c)"
  define enc where "enc = fst (Encrypt P (NewCipher (ClientKey (tmp_keys P c z1)) (ClientIV (tmp_keys P c z1)))
      (client_identity P now c z1 z2) ?aad)"
  have le: "length enc = 104" using length_Encrypt [OF P(1)] client_identity_fields(1) [OF P(2) len(2)] by (simp add: enc_def)
  obtain pre where pre: "prePadding (hRnd d) (hOff d) (PrePadMax (cObfCfg c)) = Inr pre" "length pre \<le> 255"
    using prePadding_ok by blast
  obtain b where b: "RandomPadding (hPadDraw d) (hPadRng d) (S1Min (cObfCfg c)) (S1Max (cObfCfg c)) = Inr b"
      "int (length b) \<le> max (S1Min (cObfCfg c)) (S1Max (cObfCfg c))"
    using RandomPadding_ok assms(2) unfolding peers_def by metis
  define hello where "hello = [of_nat (length pre)] @ pre @ Public (ephemeralKeypair c) @
     EncapsulationKey (mlkemKeypair c) @ cSalt c @ be16 (of_nat (length enc)) @ enc @ be16 (of_nat (length b)) @ b"
  have "BuildHello P d now c = Inr hello"
    using pe(3,4) pre(1) b(1)
    by (simp add: BuildHello_def Let_def hello_def enc_def client_identity_def tmp_keys_def)
  moreover have "parse_client_hello hello = Inr (Public (ephemeralKeypair c), EncapsulationKey (mlkemKeypair c), cSalt c, enc)"
    unfolding hello_def by (rule parse_client_hello_ok) (use pre len pe le in simp_all)
  then have "open_identity P s hello =
           Inr (Public (ephemeralKeypair c), EncapsulationKey (mlkemKeypair c), cSalt c, z1,
                tmp_keys P c z1, client_identity P now c z1 z2)"
    using peers_server_dh(1) [OF assms] client_identity_fields [OF P(2) len(2)] pe(1)
    by (simp add: open_identity_def Let_def tmp_keys_def [symmetric] Decrypt_Encrypt [OF P(1)] enc_def
        ConstantTimeEqual_def flip: pe(1))
  moreover have "int (length hello) \<le> 1612 + max (S1Min (cObfCfg c)) (S1Max (cObfCfg c))"
    using pre(2) b(2) len pe(2) le by (simp add: hello_def)
  ultimately show thesis by (rule that)
qed

definition admitted :: "ServerHandshake \<Rightarrow> bytes \<Rightarrow> bool" where
  "admitted s pub \<longleftrightarrow> (case allowedClients s of None \<Rightarrow> True | Some A \<Rightarrow> pub \<in> A)"

lemma client_checked:
  assumes "prims_ok P" and "peers P c s z1 z2 z3"
    and "sint (abs64 (now' - now)) \<le> 30" and "admitted s (Public (staticKeypair c))"
    and "mlkem_encap P (EncapsulationKey (mlkemKeypair c)) (hKem d) = Some (ss, ct)"
  shows "check_client P d now' s (Public (ephemeralKeypair c)) (EncapsulationKey (mlkemKeypair c)) (cSalt c)
           (tmp_keys P c z1) (client_identity P now c z1 z2) = Inr (ss, ct, z3)"
proof -
  have P: "sha_ok P" "dh_ok P" "kem_ok P" using assms(1) by (simp_all add: prims_ok_def)
  have len: "length (Public (staticKeypair c)) = 32" "length (EncapsulationKey (mlkemKeypair c)) = 1184"
    "DHSafe P (Private (ephKeypair s)) (Public (ephemeralKeypair c)) = Inr z3"
    using assms(2) kp_ok_length [OF P(2)] P(3) by (simp_all add: peers_def kem_ok_def)
  have a: "\<not> (case allowedClients s of None \<Rightarrow> False | Some A \<Rightarrow> Public (staticKeypair c) \<notin> A)"
    using assms(4) by (simp add: admitted_def split: option.splits)
  show ?thesis
    using client_identity_fields [OF P(1) len(1)] assms(3,5) len a peers_server_dh(2) [OF assms(1,2)]
    by (simp add: check_client_def Let_def rd64_be64 ConstantTimeEqual_def EncapsulateMLKEM_def)
qed

text \<open>The session keys of the two sides, and what they send next.\<close>

definition session_keys :: "crypto_lib \<Rightarrow> ClientHandshake \<Rightarrow> ServerHandshake \<Rightarrow> bytes \<Rightarrow> bytes \<Rightarrow> SessionKeys" where
  "session_keys P c s z3 ss =
     DeriveKeys P (DeriveHybridSecret P z3 ss (cSalt c)) (cSalt c) (Public (ephemeralKeypair c)) (Public (ephKeypair s))"

definition server_framer :: "crypto_lib \<Rightarrow> SessionKeys \<Rightarrow> HeaderConfig \<Rightarrow> StreamFramer" where
  "server_framer P k hc =
     (NewProtectedStreamFramer (NewCipher (ServerKey k) (ServerIV k)) (NewCipher (ClientKey k) (ClientIV k))
        (snd (DeriveTCPHeaderKeys P k)) (fst (DeriveTCPHeaderKeys P k)))\<lparr>HeaderCfg := hc\<rparr>"

definition client_framer :: "crypto_lib \<Rightarrow> SessionKeys \<Rightarrow> HeaderConfig \<Rightarrow> StreamFramer" where
  "client_framer P k hc =
     (NewProtectedStreamFramer (NewCipher (ClientKey k) (ClientIV k)) (NewCipher (ServerKey k) (ServerIV k))
        (fst (DeriveTCPHeaderKeys P k)) (snd (DeriveTCPHeaderKeys P k)))\<lparr>HeaderCfg := hc\<rparr>"

lemma framers_in_sync:
  "in_sync (client_framer P k hc) (server_framer P k hc)"
  "in_sync (server_framer P k hc) (client_framer P k hc)"
  "headers_ok hc \<Longrightarrow> framer_ok (client_framer P k hc)"
  "headers_ok hc \<Longrightarrow> framer_ok (server_framer P k hc)"
  by (simp_all add: in_sync_def framer_ok_def client_framer_def server_framer_def
      NewProtectedStreamFramer_def NewStreamFramer_def DefaultPaddingConfig_def)

definition confirm_plain :: "crypto_lib \<Rightarrow> ClientHandshake \<Rightarrow> ServerHandshake \<Rightarrow> bytes \<Rightarrow> SessionKeys \<Rightarrow> bytes" where
  "confirm_plain P c s z1 k =
     DynamicMagic k @ SessionID k @
     serverStaticProof P z1 (Public (ephemeralKeypair c)) (cSalt c) (Public (ephKeypair s)) (SessionID k)"

lemma confirm_plain_fields:
  assumes "sha_ok P" and "keys_wf k"
  shows "length (confirm_plain P c s z1 k) = 64"
    and "take 16 (confirm_plain P c s z1 k) = DynamicMagic k"
    and "subslice 16 32 (confirm_plain P c s z1 k) = SessionID k"
    and "drop 32 (confirm_plain P c s z1 k) =
           serverStaticProof P z1 (Public (ephemeralKeypair c)) (cSalt c) (Public (ephKeypair s)) (SessionID k)"
  using assms by (simp_all add: confirm_plain_def keys_wf_def subslice_def serverStaticProof_def)

lemma server_answers:
  assumes "prims_ok P" and "peers P c s z1 z2 z3"
    and "sint (abs64 (now' - now)) \<le> 30" and "admitted s (Public (staticKeypair c))"
    and "mlkem_encap P (EncapsulationKey (mlkemKeypair c)) (hKem d) = Some (ss, ct)" and "length ct = 1088"
    and "open_identity P s hello =
           Inr (Public (ephemeralKeypair c), EncapsulationKey (mlkemKeypair c), cSalt c, z1,
                tmp_keys P c z1, client_identity P now c z1 z2)"
  obtains answer s' where
    "ProcessClientHello P d now' s hello =
       (Inr (answer, server_framer P (session_keys P c s z3 ss) (Headers (sObfCfg s))), s')"
    "sSessionKeys s' = Some (session_keys P c s z3 ss)" "clientStaticPub s' = Public (staticKeypair c)"
    "parse_server_hello answer =
       Inr (Public (ephKeypair s), ct,
            fst (Encrypt P (NewCipher (ServerKey (session_keys P c s z3 ss)) (ServerIV (session_keys P c s z3 ss)))
                  (confirm_plain P c s z1 (session_keys P c s z3 ss)) (Public (ephKeypair s) @ ct)))"
    "int (length answer) \<le> 1460 + max (S2Min (sObfCfg s)) (S2Max (sObfCfg s))"
proof -
  have P: "aead_ok P" "sha_ok P" "dh_ok P" using assms(1) by (simp_all add: prims_ok_def)
  define k where "k = session_keys P c s z3 ss"
  define enc where "enc = fst (Encrypt P (NewCipher (ServerKey k) (ServerIV k)) (confirm_plain P c s z1 k) (Public (ephKeypair s) @ ct))"
  have wf: "keys_wf k" by (simp add: k_def session_keys_def DeriveKeys_wf)
  have le: "length enc = 80" using length_Encrypt [OF P(1)] confirm_plain_fields(1) [OF P(2) wf] by (simp add: enc_def)
  have len: "length (Public (ephKeypair s)) = 32" "length (Public (staticKeypair c)) = 32"
    using assms(2) kp_ok_length [OF P(3)] by (simp_all add: peers_def)
  obtain pre where pre: "prePadding (hRnd d) (hOff d) (PrePadMax (sObfCfg s)) = Inr pre" "length pre \<le> 255"
    using prePadding_ok by blast
  obtain b where b: "RandomPadding (hPadDraw d) (hPadRng d) (S2Min (sObfCfg s)) (S2Max (sObfCfg s)) = Inr b"
      "int (length b) \<le> max (S2Min (sObfCfg s)) (S2Max (sObfCfg s))"
    using RandomPadding_ok assms(2) unfolding peers_def by metis
  define answer where "answer = [of_nat (length pre)] @ pre @ Public (ephKeypair s) @ ct @
     be16 (of_nat (length enc)) @ enc @ be16 (of_nat (length b)) @ b"
  have "parse_server_hello answer = Inr (Public (ephKeypair s), ct, enc)"
    unfolding answer_def by (rule parse_server_hello_ok) (use pre len assms(6) le in simp_all)
  moreover have "ProcessClientHello P d now' s hello =
      (Inr (answer, server_framer P k (Headers (sObfCfg s))),
       s\<lparr>clientStaticPub := Public (staticKeypair c), sSessionKeys := Some k, ephKeypair := Keypair_Zero (ephKeypair s)\<rparr>)"
    using client_checked [OF assms(1-5)] client_identity_fields(3) [OF P(2) len(2)] pre(1) b(1)
    by (simp add: ProcessClientHello_def assms(7) Let_def split_beta answer_def enc_def k_def
        session_keys_def confirm_plain_def server_framer_def)
  moreover have "int (length answer) \<le> 1460 + max (S2Min (sObfCfg s)) (S2Max (sObfCfg s))"
    using pre(2) b(2) len(1) assms(6) le by (simp add: answer_def)
  ultimately show thesis
    using that [of answer "s\<lparr>clientStaticPub := Public (staticKeypair c), sSessionKeys := Some k, ephKeypair := Keypair_Zero (ephKeypair s)\<rparr>"]
    by (simp add: k_def enc_def)
qed

lemma client_finishes:
  assumes "prims_ok P" and "peers P c s z1 z2 z3" and "length ct = 1088"
    and "mlkem_decap P (DecapsulationKey (mlkemKeypair c)) ct = Some ss"
    and "parse_server_hello answer =
       Inr (Public (ephKeypair s), ct,
            fst (Encrypt P (NewCipher (ServerKey (session_keys P c s z3 ss)) (ServerIV (session_keys P c s z3 ss)))
                  (confirm_plain P c s z1 (session_keys P c s z3 ss)) (Public (ephKeypair s) @ ct)))"
  shows "ProcessServerHello P c answer =
           (Inr (client_framer P (session_keys P c s z3 ss) (Headers (cObfCfg c))),
            c\<lparr>cSessionKeys := Some (session_keys P c s z3 ss), ephemeralKeypair := Keypair_Zero (ephemeralKeypair c)\<rparr>)"
proof -
  have P: "aead_ok P" "sha_ok P" using assms(1) by (simp_all add: prims_ok_def)
  have z1: "DHSafe P (Private (ephemeralKeypair c)) (serverStaticPub c) = Inr z1"
    using assms(2) by (simp add: peers_def)
  define k where "k = session_keys P c s z3 ss"
  have wf: "keys_wf k" by (simp add: k_def session_keys_def DeriveKeys_wf)
  note f = confirm_plain_fields [OF P(2) wf, of c s z1]
  have k: "DeriveKeys P (DeriveHybridSecret P z3 ss (cSalt c)) (cSalt c) (Public (ephemeralKeypair c)) (Public (ephKeypair s)) = k"
    by (simp add: k_def session_keys_def)
  show ?thesis
    using assms(3,4) peers_server_dh(3) [OF assms(1,2)] z1 f
    unfolding ProcessServerHello_def assms(5) k_def [symmetric]
    by (simp add: DecapsulateMLKEM_def Let_def k Decrypt_Encrypt [OF P(1)] ConstantTimeEqual_def
        split_beta client_framer_def)
qed

section \<open>Acceptance\<close>

lemma parse_hello_no_panic: "parse_client_hello data \<noteq> Inl Panic" "parse_server_hello data \<noteq> Inl Panic"
  by (auto simp: parse_client_hello_def parse_server_hello_def Let_def sl_Inr rbind_def)

lemma check_client_Inr:
  assumes "check_client P d now s e k t tk identity = Inr r"
  shows "sint (abs64 (now - rd64 (subslice 48 56 identity))) \<le> 30 \<and>
         admitted s (subslice 16 48 identity) \<and>
         (\<exists>z. DHSafe P (staticPriv s) (subslice 16 48 identity) = Inr z \<and>
              subslice 56 88 identity = client_proof P z (DynamicMagic tk) e k t (subslice 48 56 identity))"
  using assms
  by (auto simp: check_client_def Let_def rbind_Inr ConstantTimeEqual_def admitted_def
      split: if_splits option.splits)

lemma ProcessClientHello_Inr:
  assumes "ProcessClientHello P d now s data = (Inr r, s')"
  obtains e k t z1 tk identity x where
    "open_identity P s data = Inr (e, k, t, z1, tk, identity)"
    "check_client P d now s e k t tk identity = Inr x"
    "clientStaticPub s' = subslice 16 48 identity"
proof -
  from assms obtain e k t z1 tk identity where O: "open_identity P s data = Inr (e, k, t, z1, tk, identity)"
    unfolding ProcessClientHello_def by (cases "open_identity P s data") auto
  from assms obtain x where C: "check_client P d now s e k t tk identity = Inr x"
    unfolding ProcessClientHello_def O
    by (cases "check_client P d now s e k t tk identity") (auto simp: Let_def)
  have "clientStaticPub s' = subslice 16 48 identity"
    using assms unfolding ProcessClientHello_def O C
    by (auto simp: Let_def C split: prod.splits sum.splits)
  with O C show thesis by (rule that)
qed

section \<open>Agreement\<close>

lemma agreement:
  assumes "prims_ok P" and "peers P c s z1 z2 z3"
    and "sint (abs64 (now' - now)) \<le> 30" and "admitted s (Public (staticKeypair c))"
    and "Headers (cObfCfg c) = Headers (sObfCfg s)"
  shows "\<exists>hello answer fS fC s' c' keys.
           BuildHello P d now c = Inr hello \<and>
           ProcessClientHello P d' now' s hello = (Inr (answer, fS), s') \<and>
           ProcessServerHello P c answer = (Inr fC, c') \<and>
           cSessionKeys c' = Some keys \<and> sSessionKeys s' = Some keys \<and> keys_wf keys \<and>
           clientStaticPub s' = Public (staticKeypair c) \<and> in_sync fC fS \<and> in_sync fS fC \<and>
           int (length hello) \<le> 1612 + max (S1Min (cObfCfg c)) (S1Max (cObfCfg c)) \<and>
           int (length answer) \<le> 1460 + max (S2Min (sObfCfg s)) (S2Max (sObfCfg s))"
proof -
  have K: "kem_ok P" and E: "EncapsulationKey (mlkemKeypair c) = mlkem_pub P (DecapsulationKey (mlkemKeypair c))"
    using assms(1,2) by (simp_all add: prims_ok_def peers_def)
  obtain ss ct where kem: "mlkem_encap P (EncapsulationKey (mlkemKeypair c)) (hKem d') = Some (ss, ct)" "length ct = 1088"
      "mlkem_decap P (DecapsulationKey (mlkemKeypair c)) ct = Some ss"
    unfolding E by (rule kem_okE [OF K])
  obtain hello where h: "BuildHello P d now c = Inr hello"
    and o: "open_identity P s hello =
           Inr (Public (ephemeralKeypair c), EncapsulationKey (mlkemKeypair c), cSalt c, z1,
                tmp_keys P c z1, client_identity P now c z1 z2)"
      "int (length hello) \<le> 1612 + max (S1Min (cObfCfg c)) (S1Max (cObfCfg c))"
    by (rule hello_opened [OF assms(1,2)])
  let ?k = "session_keys P c s z3 ss"
  obtain answer s' where a: "ProcessClientHello P d' now' s hello = (Inr (answer, server_framer P ?k (Headers (sObfCfg s))), s')"
    "sSessionKeys s' = Some ?k" "clientStaticPub s' = Public (staticKeypair c)"
    and p: "parse_server_hello answer =
       Inr (Public (ephKeypair s), ct,
            fst (Encrypt P (NewCipher (ServerKey ?k) (ServerIV ?k)) (confirm_plain P c s z1 ?k) (Public (ephKeypair s) @ ct)))"
      "int (length answer) \<le> 1460 + max (S2Min (sObfCfg s)) (S2Max (sObfCfg s))"
    by (rule server_answers [OF assms(1-4) kem(1,2) o(1)])
  note f = client_finishes [OF assms(1,2) kem(2,3) p(1)]
  have "keys_wf ?k" by (simp add: session_keys_def DeriveKeys_wf)
  then show ?thesis
    using h a f o(2) p(2) framers_in_sync(1,2) [where P = P and k = ?k and hc = "Headers (sObfCfg s)"] assms(5)
    by (intro exI conjI) (assumption | simp)+
qed

section \<open>Properties\<close>

text \<open>
  Property C2. Agreement: between a client that pins the server's key and a server that
  admits the client, with clocks at most 30 seconds apart, non-degenerate Diffie-Hellman
  values and any random draws, the three handshake steps succeed; both sides hold the same
  session keys, the server has the client's true static key, and the two framers are in
  lock-step in both directions.
\<close>
theorem handshake_agreement:
  assumes "prims_ok P" and "peers P c s z1 z2 z3"
    and "sint (abs64 (now' - now)) \<le> 30" and "admitted s (Public (staticKeypair c))"
    and "Headers (cObfCfg c) = Headers (sObfCfg s)"
  shows "\<exists>hello answer fS fC s' c' keys.
           BuildHello P d now c = Inr hello \<and>
           ProcessClientHello P d' now' s hello = (Inr (answer, fS), s') \<and>
           ProcessServerHello P c answer = (Inr fC, c') \<and>
           cSessionKeys c' = Some keys \<and> sSessionKeys s' = Some keys \<and> keys_wf keys \<and>
           clientStaticPub s' = Public (staticKeypair c) \<and> in_sync fC fS \<and> in_sync fS fC"
  using agreement [OF assms] by blast

definition example_kp :: "byte \<Rightarrow> Keypair" where
  "example_kp b = \<lparr>Private = replicate 32 b, Public = the (x25519 toy_lib (replicate 32 b) Basepoint)\<rparr>"

definition example_client :: ClientHandshake where
  "example_client =
     \<lparr>serverStaticPub = Public (example_kp 3), ephemeralKeypair = example_kp 1,
      mlkemKeypair = GenerateMLKEMKeypair toy_lib [1], staticKeypair = example_kp 2,
      cSalt = replicate 32 9, cSessionKeys = None, cObfCfg = DefaultObfuscationConfig\<rparr>"

definition example_server :: ServerHandshake where
  "example_server =
     \<lparr>staticPriv = Private (example_kp 3), staticPub = Public (example_kp 3), ephKeypair = example_kp 4,
      allowedClients = Some {Public (example_kp 2)}, clientStaticPub = [], sSessionKeys = None,
      sObfCfg = DefaultObfuscationConfig\<rparr>"

definition example_hello_draws :: hello_draws where
  "example_hello_draws = \<lparr>hPadDraw = 3, hPadRng = \<lambda>i. 1, hRnd = \<lambda>i. 2, hOff = 0, hKem = [7]\<rparr>"

lemma example_kp_ok: "kp_ok toy_lib (example_kp b)"
  by (simp add: kp_ok_def example_kp_def toy_lib_def)

lemma example_dh: "\<exists>z. DHSafe toy_lib (replicate 32 a) (Public (example_kp b)) = Inr z" if "a + b + 9 \<noteq> 0"
proof -
  define z where "z = the (x25519 toy_lib (replicate 32 a) (Public (example_kp b)))"
  have "z ! 0 = a + b + 9" by (simp add: z_def example_kp_def toy_lib_def Basepoint_def ac_simps)
  with that have "z \<noteq> replicate 32 0" by auto
  moreover have "x25519 toy_lib (replicate 32 a) (Public (example_kp b)) = Some z"
    unfolding z_def by (simp add: toy_lib_def)
  ultimately show ?thesis by (simp add: DHSafe_def DH_def ConstantTimeEqual_def)
qed

lemma example_peers: "\<exists>z1 z2 z3. peers toy_lib example_client example_server z1 z2 z3"
proof -
  obtain z1 z2 z3 where "DHSafe toy_lib (replicate 32 1) (Public (example_kp 3)) = Inr z1"
    "DHSafe toy_lib (replicate 32 2) (Public (example_kp 3)) = Inr z2"
    "DHSafe toy_lib (replicate 32 4) (Public (example_kp 1)) = Inr z3"
    using example_dh [of 1 3] example_dh [of 2 3] example_dh [of 4 1] by auto
  moreover have "Private (example_kp b) = replicate 32 b" for b by (simp add: example_kp_def)
  moreover have "kp_ok toy_lib \<lparr>Private = replicate 32 3, Public = Public (example_kp 3)\<rparr>"
    using example_kp_ok [of 3] by (simp add: kp_ok_def example_kp_def)
  ultimately have "peers toy_lib example_client example_server z1 z2 z3"
    using example_kp_ok
    by (simp add: peers_def example_client_def example_server_def GenerateMLKEMKeypair_def DefaultObfuscationConfig_def)
  then show ?thesis by blast
qed

lemma toy_prims_ok: "prims_ok toy_lib"
  by (simp add: prims_ok_def toy_aead_ok toy_sha_ok toy_dh_ok toy_kem_ok)

lemma example_admitted:
  "admitted example_server (Public (staticKeypair example_client))" "sint (abs64 (100 - 90)) \<le> 30"
  "Headers (cObfCfg example_client) = Headers (sObfCfg example_server)"
  by (simp_all add: admitted_def example_server_def example_client_def abs64_def)

theorem handshake_agreement_witness:
  "\<exists>hello answer fS fC s' c' keys.
     BuildHello toy_lib example_hello_draws 90 example_client = Inr hello \<and>
     ProcessClientHello toy_lib example_hello_draws 100 example_server hello = (Inr (answer, fS), s') \<and>
     ProcessServerHello toy_lib example_client answer = (Inr fC, c') \<and>
     cSessionKeys c' = Some keys \<and> sSessionKeys s' = Some keys \<and> keys_wf keys \<and>
     clientStaticPub s' = Public (staticKeypair example_client) \<and> in_sync fC fS \<and> in_sync fS fC"
proof -
  obtain z1 z2 z3 where "peers toy_lib example_client example_server z1 z2 z3" using example_peers by blast
  from handshake_agreement [OF toy_prims_ok this example_admitted(2,1,3)] show ?thesis .
qed

text \<open>
  Property C13. Authentication on the server: a client hello is accepted only if its identity
  decrypts and carries the session's dynamic magic, the timestamp is within 30 seconds (in
  64-bit arithmetic), the MAC keyed with the Diffie-Hellman of the server's static key and
  the claimed client key covers this very handshake, and the claimed key is admitted.
  Cutting the message into fields never runs out of its bounds.
\<close>
theorem server_accepts_only_authenticated:
  assumes "ProcessClientHello P d now s data = (Inr r, s')"
  shows "\<exists>e k t z1 tk identity z2.
           open_identity P s data = Inr (e, k, t, z1, tk, identity) \<and>
           clientStaticPub s' = subslice 16 48 identity \<and> admitted s (clientStaticPub s') \<and>
           sint (abs64 (now - rd64 (subslice 48 56 identity))) \<le> 30 \<and>
           DHSafe P (staticPriv s) (clientStaticPub s') = Inr z2 \<and>
           subslice 56 88 identity = client_proof P z2 (DynamicMagic tk) e k t (subslice 48 56 identity) \<and>
           parse_client_hello data \<noteq> Inl Panic"
proof -
  obtain e k t z1 tk identity x where o: "open_identity P s data = Inr (e, k, t, z1, tk, identity)"
    "check_client P d now s e k t tk identity = Inr x" "clientStaticPub s' = subslice 16 48 identity"
    by (rule ProcessClientHello_Inr [OF assms])
  with check_client_Inr [OF o(2)] parse_hello_no_panic(1) show ?thesis by auto
qed

theorem server_accepts_only_authenticated_witness:
  "\<exists>hello r s'. ProcessClientHello toy_lib example_hello_draws 100 example_server hello = (Inr r, s') \<and>
     admitted example_server (clientStaticPub s') \<and> clientStaticPub s' = Public (example_kp 2)"
proof -
  obtain z1 z2 z3 where p: "peers toy_lib example_client example_server z1 z2 z3" using example_peers by blast
  obtain hello where o: "open_identity toy_lib example_server hello =
      Inr (Public (ephemeralKeypair example_client), EncapsulationKey (mlkemKeypair example_client), cSalt example_client, z1,
           tmp_keys toy_lib example_client z1, client_identity toy_lib 90 example_client z1 z2)"
    by (rule hello_opened [OF toy_prims_ok p])
  obtain r s' where r: "ProcessClientHello toy_lib example_hello_draws 100 example_server hello = (Inr r, s')"
    "clientStaticPub s' = Public (staticKeypair example_client)"
    by (rule server_answers [OF toy_prims_ok p example_admitted(2,1) _ _ o,
          where d = example_hello_draws and ss = "replicate 32 7" and ct = "replicate 1088 2"])
       (simp_all add: toy_lib_def)
  from server_accepts_only_authenticated [OF r(1)] have "admitted example_server (clientStaticPub s')" by blast
  with r show ?thesis
    by (intro exI [of _ hello] exI [of _ r] exI [of _ s']) (simp add: example_client_def)
qed

text \<open>
  Property C14. Authentication of the server: the client accepts a server hello only if the
  confirmation decrypts under the hybrid session keys and proves knowledge of the
  Diffie-Hellman of the client's ephemeral key with the pinned server key; the ephemeral key
  pair is then wiped. A refused hello leaves it in place.
\<close>
theorem client_accepts_only_pinned_server:
  assumes "ProcessServerHello P c data = (r, c')"
  shows "(\<forall>f. r = Inr f \<longrightarrow> (\<exists>e ct enc keys confirm z.
            parse_server_hello data = Inr (e, ct, enc) \<and> cSessionKeys c' = Some keys \<and>
            fst (Decrypt P (NewCipher (ServerKey keys) (ServerIV keys)) enc (e @ ct)) = Some confirm \<and>
            DHSafe P (Private (ephemeralKeypair c)) (serverStaticPub c) = Inr z \<and>
            confirm = DynamicMagic keys @ SessionID keys @
              serverStaticProof P z (Public (ephemeralKeypair c)) (cSalt c) e (SessionID keys) \<and>
            ephemeralKeypair c' = Keypair_Zero (ephemeralKeypair c))) \<and>
         (\<forall>e. r = Inl e \<longrightarrow> ephemeralKeypair c' = ephemeralKeypair c) \<and>
         parse_server_hello data \<noteq> Inl Panic"
proof -
  have split: "x = a @ b @ y" if "take 16 x = a" "subslice 16 32 x = b" "drop 32 x = y" for x a b y :: bytes
    using that split3 [of 16 32 x] by (cases "32 \<le> length x") (auto simp: subslice_def)
  show ?thesis
    using assms parse_hello_no_panic(2) [of data] unfolding ProcessServerHello_def
    by (auto simp: Let_def rbind_Inr ConstantTimeEqual_def split_beta intro!: split
        split: sum.splits option.splits if_splits prod.splits)
qed

theorem client_accepts_only_pinned_server_witness:
  "ephemeralKeypair (snd (ProcessServerHello toy_lib example_client [1, 2, 3])) = ephemeralKeypair example_client \<and>
   parse_server_hello [1, 2, 3] \<noteq> Inl Panic"
proof -
  obtain r c' where e: "ProcessServerHello toy_lib example_client [1, 2, 3] = (r, c')" by force
  then have "\<exists>x. r = Inl x"
    by (auto simp: ProcessServerHello_def parse_server_hello_def Let_def)
  with client_accepts_only_pinned_server [OF e] show ?thesis unfolding e by auto
qed

text \<open>
  Fact. The 30-second window has a hole at the far end of the 64-bit range: a hello
  stamped exactly \<open>2\<^sup>6\<^sup>3\<close> seconds before the server's clock has a difference whose absolute
  value is still negative, and passes the check.
\<close>
theorem timestamp_window_hole:
  "sint (abs64 (now - (now - 2 ^ 63))) \<le> 30 \<and> sint (abs64 (now - (now - 2 ^ 63))) < 0"
proof -
  have "now - (now - 2 ^ 63) = (2 ^ 63 :: u64)" by simp
  then show ?thesis by (simp add: abs64_def)
qed

end
