(* ===== verification/Rate_Limits.thy ===== *)
theory Rate_Limits
  imports Obsidian_Prelude "HOL-Library.AList"
begin

text \<open>
  The limiters in front of the handshake: the token bucket per remote address
  (\<^verbatim>\<open>obsidian/ip_rate_limiter.go\<close>), the bound on concurrent holders
  (\<^verbatim>\<open>HandshakeRateLimiter\<close> of \<^verbatim>\<open>obsidian/obfuscation.go\<close>) as a system of
  threads that interleave atomic operations, and the gate of repeated log lines
  (\<^verbatim>\<open>cmd/server/ratelimited_log.go\<close>). Times are nanoseconds.
\<close>

section \<open>Token buckets per address\<close>

record ipRateEntry =
  ieLast :: int
  ieTokens :: int

record 'a IPRateLimiter =
  ipRate :: int
  ipBurst :: int
  ipCleanupInterval :: int
  ipEntryTTL :: int
  ipLastCleanup :: int
  ipEntries :: "('a \<times> ipRateEntry) list"

abbreviation sec :: int where "sec \<equiv> 1000000000"

text \<open>The arithmetic of \<^verbatim>\<open>int64\<close>.\<close>

definition wrap64 :: "int \<Rightarrow> int" where
  "wrap64 x = sint (of_int x :: u64)"

definition NewIPRateLimiter :: "int \<Rightarrow> int \<Rightarrow> int \<Rightarrow> 'a IPRateLimiter" where
  "NewIPRateLimiter now ratePerSecond burst =
     \<lparr>ipRate = (if ratePerSecond \<le> 0 then 20 else ratePerSecond), ipBurst = (if burst \<le> 0 then 5 else burst),
      ipCleanupInterval = sec, ipEntryTTL = 10 * sec, ipLastCleanup = now, ipEntries = []\<rparr>"

definition limiter_cleanup :: "int \<Rightarrow> 'a IPRateLimiter \<Rightarrow> 'a IPRateLimiter" where
  "limiter_cleanup now r =
     (if ipCleanupInterval r \<le> now - ipLastCleanup r
      then r\<lparr>ipEntries := filter (\<lambda>(ip, e). \<not> ipEntryTTL r < now - ieLast e) (ipEntries r), ipLastCleanup := now\<rparr>
      else r)"

text \<open>An invalid address is \<open>None\<close>.\<close>

definition Allow :: "int \<Rightarrow> 'a option \<Rightarrow> 'a IPRateLimiter \<Rightarrow> bool \<times> 'a IPRateLimiter" where
  "Allow now addr r =
     (case addr of
        None \<Rightarrow> (True, r)
      | Some a \<Rightarrow>
          let r = limiter_cleanup now r;
              maxTokens = wrap64 (ipBurst r * sec);
              cost = sec
          in case map_of (ipEntries r) a of
               None \<Rightarrow> (True, r\<lparr>ipEntries := AList.update a \<lparr>ieLast = now, ieTokens = wrap64 (maxTokens - cost)\<rparr> (ipEntries r)\<rparr>)
             | Some e \<Rightarrow>
                 let elapsed = now - ieLast e;
                     tokens = wrap64 (ieTokens e + wrap64 (elapsed * ipRate r));
                     tokens = (if maxTokens < tokens then maxTokens else tokens);
                     tokens' = (if tokens < cost then tokens else wrap64 (tokens - cost))
                 in (\<not> tokens < cost, r\<lparr>ipEntries := AList.update a \<lparr>ieLast = now, ieTokens = tokens'\<rparr> (ipEntries r)\<rparr>))"

section \<open>Concurrent holders\<close>

text \<open>
  A thread of \<^verbatim>\<open>Acquire\<close> is before its load, holds the value it loaded, has been granted, or
  has been refused; every step is one atomic operation of \<^verbatim>\<open>sync/atomic\<close>.
\<close>

datatype acquirer = Idle | Loaded int | Granted | Refused

record handshake_limiter =
  hlActive :: int
  hlMax :: int
  hlThreads :: "acquirer list"

definition NewHandshakeRateLimiter :: "int \<Rightarrow> nat \<Rightarrow> handshake_limiter" where
  "NewHandshakeRateLimiter maxConcurrent n = \<lparr>hlActive = 0, hlMax = maxConcurrent, hlThreads = replicate n Idle\<rparr>"

inductive limiter_step :: "handshake_limiter \<Rightarrow> handshake_limiter \<Rightarrow> bool" where
  load: "i < length (hlThreads s) \<Longrightarrow> hlThreads s ! i = Idle \<Longrightarrow>
    limiter_step s (s\<lparr>hlThreads := (hlThreads s)[i := if hlMax s \<le> hlActive s then Refused else Loaded (hlActive s)]\<rparr>)"
| cas: "i < length (hlThreads s) \<Longrightarrow> hlThreads s ! i = Loaded cur \<Longrightarrow>
    limiter_step s (if hlActive s = cur then s\<lparr>hlActive := cur + 1, hlThreads := (hlThreads s)[i := Granted]\<rparr>
                    else s\<lparr>hlThreads := (hlThreads s)[i := Idle]\<rparr>)"
| release: "i < length (hlThreads s) \<Longrightarrow> hlThreads s ! i = Granted \<Longrightarrow>
    limiter_step s (s\<lparr>hlActive := hlActive s - 1, hlThreads := (hlThreads s)[i := Idle]\<rparr>)"
| retry: "i < length (hlThreads s) \<Longrightarrow> hlThreads s ! i = Refused \<Longrightarrow>
    limiter_step s (s\<lparr>hlThreads := (hlThreads s)[i := Idle]\<rparr>)"

section \<open>Log lines\<close>

record rateLimitedLog =
  rlInterval :: int
  rlLast :: int
  rlSuppressed :: nat

text \<open>The second component is the count of the summary line, if one is printed.\<close>

definition Ready :: "int \<Rightarrow> rateLimitedLog \<Rightarrow> bool \<times> nat option \<times> rateLimitedLog" where
  "Ready now l =
     (if now - rlLast l < rlInterval l then (False, None, l\<lparr>rlSuppressed := rlSuppressed l + 1\<rparr>)
      else (True, if 0 < rlSuppressed l then Some (rlSuppressed l) else None, l\<lparr>rlSuppressed := 0, rlLast := now\<rparr>))"

section \<open>The contract of a token bucket\<close>

text \<open>
  A component keeps a level per key: it grants a call when the level covers the cost, takes the
  cost from the level of that key alone, and in between the level grows at most at a rate and never
  above a capacity. Whoever keeps to it bounds what is granted in any stretch of time.
\<close>

locale token_bucket =
  fixes check :: "int \<Rightarrow> 'k \<Rightarrow> 'c \<Rightarrow> bool \<times> 'c"
    and inv :: "'c \<Rightarrow> int \<Rightarrow> bool"
    and level :: "'c \<Rightarrow> int \<Rightarrow> 'k \<Rightarrow> int"
    and rate capacity cost :: int
  assumes check_inv: "inv c t \<Longrightarrow> t \<le> now \<Longrightarrow> inv (snd (check now k c)) now"
    and grants: "inv c t \<Longrightarrow> t \<le> now \<Longrightarrow> fst (check now k c) \<longleftrightarrow> cost \<le> level c now k"
    and pays: "inv c t \<Longrightarrow> t \<le> now \<Longrightarrow> level (snd (check now k c)) now k = level c now k - (if fst (check now k c) then cost else 0)"
    and others: "inv c t \<Longrightarrow> t \<le> now \<Longrightarrow> now \<le> u \<Longrightarrow> k' \<noteq> k \<Longrightarrow> level (snd (check now k c)) u k' = level c u k'"
    and refill: "inv c t \<Longrightarrow> t \<le> u \<Longrightarrow> u \<le> u' \<Longrightarrow> level c u' k \<le> level c u k + rate * (u' - u)"
    and level_bounds: "inv c t \<Longrightarrow> t \<le> t' \<Longrightarrow> 0 \<le> level c t' k \<and> level c t' k \<le> capacity"
begin

text \<open>The calls for one key that were granted.\<close>

definition granted :: "'k \<Rightarrow> (int \<times> 'k) list \<Rightarrow> 'c \<Rightarrow> nat" where
  "granted k calls c = length (filter (\<lambda>(call, ans). snd call = k \<and> ans) (zip calls (answers check calls c)))"

lemma inv_after:
  "inv c t \<Longrightarrow> sorted (map fst calls) \<Longrightarrow> \<forall>x \<in> set calls. t \<le> fst x \<Longrightarrow>
   \<exists>t'. inv (after_calls check calls c) t' \<and> t' \<in> insert t (fst ` set calls)"
proof (induction calls arbitrary: c t)
  case (Cons x calls)
  obtain now k where x: "x = (now, k)" by (cases x)
  have i: "inv (snd (check now k c)) now" using Cons.prems x by (intro check_inv) auto
  have "sorted (map fst calls)" "\<forall>y \<in> set calls. now \<le> fst y" using Cons.prems(2) x by auto
  from Cons.IH [OF i this] show ?case using x by auto
qed auto

lemma granted_bound:
  assumes "inv c t" and "t \<le> s" and "sorted (map fst calls)" and "\<forall>x \<in> set calls. s \<le> fst x"
    and "u = (if calls = [] then s else fst (last calls))"
  shows "cost * int (granted k calls c) \<le> level c s k + rate * (u - s)"
  using assms
proof (induction calls arbitrary: c t s)
  case Nil
  then show ?case using level_bounds [OF Nil(1,2)] by (simp add: granted_def)
next
  case (Cons x calls)
  obtain now k' where x: "x = (now, k')" by (cases x)
  let ?c = "snd (check now k' c)"
  have t: "t \<le> now" "s \<le> now" using Cons.prems(2,4) x by simp_all
  have i: "inv ?c now" using Cons.prems(1) t(1) by (rule check_inv)
  have u: "u = (if calls = [] then now else fst (last calls))" using Cons.prems(5) x by simp
  have "cost * int (granted k calls ?c) \<le> level ?c now k + rate * (u - now)"
    using Cons.IH [OF i order_refl _ _ u] Cons.prems(3) x by auto
  moreover have "level ?c now k = level c now k - (if k' = k \<and> fst (check now k' c) then cost else 0)"
    using pays [OF Cons.prems(1) t(1), of k] others [OF Cons.prems(1) t(1) order_refl, of k k'] by (cases "k' = k") auto
  moreover have "level c now k \<le> level c s k + rate * (now - s)" using refill [OF Cons.prems(1,2) t(2)] .
  moreover have "cost * int (granted k (x # calls) c) =
      (if k' = k \<and> fst (check now k' c) then cost else 0) + cost * int (granted k calls ?c)"
    unfolding granted_def x by (cases "check now k' c") (simp add: distrib_left)
  ultimately show ?case by (simp add: algebra_simps)
qed

lemma untouched:
  "inv c t \<Longrightarrow> sorted (map fst calls) \<Longrightarrow> \<forall>x \<in> set calls. t \<le> fst x \<and> fst x \<le> u \<Longrightarrow> k \<notin> snd ` set calls \<Longrightarrow>
   level (after_calls check calls c) u k = level c u k"
proof (induction calls arbitrary: c t)
  case (Cons x calls)
  obtain now k' where x: "x = (now, k')" by (cases x)
  have i: "inv (snd (check now k' c)) now" using Cons.prems x by (intro check_inv) auto
  have "level (after_calls check calls (snd (check now k' c))) u k = level (snd (check now k' c)) u k"
    using Cons.prems(2-4) x by (intro Cons.IH [OF i]) auto
  then show ?case using others [OF Cons.prems(1), of now u k k'] Cons.prems(3,4) x by auto
qed simp

text \<open>In any stretch of a run: the capacity, and what the rate adds in that time.\<close>

lemma stretch_bound:
  assumes "inv c t" and "sorted (map fst (pre @ win))" and "\<forall>x \<in> set (pre @ win). t \<le> fst x" and "win \<noteq> []"
  shows "cost * int (granted k win (after_calls check pre c)) \<le> capacity + rate * (fst (last win) - fst (hd win))"
proof -
  let ?c = "after_calls check pre c" and ?s = "fst (hd win)"
  obtain t' where t': "inv ?c t'" "t' \<in> insert t (fst ` set pre)"
    using inv_after [OF assms(1), of pre] assms(2,3) by (auto simp: sorted_append)
  have le: "t' \<le> ?s" using t'(2) assms(2-4) by (auto simp: sorted_append)
  have s: "\<forall>x \<in> set win. ?s \<le> fst x" using assms(2,4) by (cases win) (auto simp: sorted_append)
  have srt: "sorted (map fst win)" using assms(2) by (simp add: sorted_append)
  have "cost * int (granted k win ?c) \<le> level ?c ?s k + rate * (fst (last win) - ?s)"
    using granted_bound [OF t'(1) le srt s refl] assms(4) by simp
  then show ?thesis using level_bounds [OF t'(1) le, of k] by linarith
qed

end

section \<open>The limiter is a token bucket\<close>

lemma wrap64_id: "- (2 ^ 63) \<le> x \<Longrightarrow> x < 2 ^ 63 \<Longrightarrow> wrap64 x = x"
  by (simp add: wrap64_def signed_take_bit_int_eq_self sint_sbintrunc')

definition limiter_level :: "'a IPRateLimiter \<Rightarrow> int \<Rightarrow> 'a \<Rightarrow> int" where
  "limiter_level r t a =
     (case map_of (ipEntries r) a of
        None \<Rightarrow> ipBurst r * sec
      | Some e \<Rightarrow> min (ipBurst r * sec) (ieTokens e + (t - ieLast e) * ipRate r))"

text \<open>
  The burst is refilled within the lifetime of an idle entry, so that dropping the entry gives
  nothing away, and the accounting stays within 64 bits.
\<close>

definition limits_ok :: "int \<Rightarrow> int \<Rightarrow> bool" where
  "limits_ok rate burst \<longleftrightarrow> 0 < rate \<and> 0 < burst \<and> burst \<le> 10 * rate \<and> burst * sec + 11 * sec * rate < 2 ^ 63"

definition limiter_inv :: "int \<Rightarrow> int \<Rightarrow> 'a IPRateLimiter \<Rightarrow> int \<Rightarrow> bool" where
  "limiter_inv rate burst r t \<longleftrightarrow> limits_ok rate burst \<and> ipRate r = rate \<and> ipBurst r = burst \<and>
     ipCleanupInterval r = sec \<and> ipEntryTTL r = 10 * sec \<and> distinct (map fst (ipEntries r)) \<and> ipLastCleanup r \<le> t \<and>
     (\<forall>a e. map_of (ipEntries r) a = Some e \<longrightarrow>
        0 \<le> ieTokens e \<and> ieTokens e \<le> burst * sec \<and> ieLast e \<le> t \<and> ipLastCleanup r - 10 * sec \<le> ieLast e)"

lemma cleanup_lookup:
  assumes "limiter_inv rate burst r t"
  shows "map_of (ipEntries (limiter_cleanup now r)) a =
    (case map_of (ipEntries r) a of None \<Rightarrow> None
     | Some e \<Rightarrow> if sec \<le> now - ipLastCleanup r \<and> 10 * sec < now - ieLast e then None else Some e)"
  using assms by (auto simp: limiter_inv_def limiter_cleanup_def map_of_filter_value simp del: map_of_eq_Some_iff Some_eq_map_of_iff split: option.splits)

lemma limiter_entry:
  assumes "limiter_inv rate burst r t" and "map_of (ipEntries r) a = Some e"
  shows "0 \<le> ieTokens e" "ieTokens e \<le> burst * sec" "ieLast e \<le> t" "ipLastCleanup r - 10 * sec \<le> ieLast e"
  using assms unfolding limiter_inv_def by blast+

lemma cleanup_inv:
  assumes i: "limiter_inv rate burst r t" and t: "t \<le> now"
  shows "limiter_inv rate burst (limiter_cleanup now r) now"
proof -
  let ?r = "limiter_cleanup now r"
  have "0 \<le> ieTokens e \<and> ieTokens e \<le> burst * sec \<and> ieLast e \<le> now \<and> ipLastCleanup ?r - 10 * sec \<le> ieLast e"
    if "map_of (ipEntries ?r) a = Some e" for a e
  proof -
    have m: "map_of (ipEntries r) a = Some e" and c: "\<not> (sec \<le> now - ipLastCleanup r \<and> 10 * sec < now - ieLast e)"
      using that cleanup_lookup [OF i, of now a] by (auto split: option.splits if_splits)
    have "ipLastCleanup ?r = (if sec \<le> now - ipLastCleanup r then now else ipLastCleanup r)"
      using i by (simp add: limiter_cleanup_def limiter_inv_def)
    then show ?thesis using limiter_entry [OF i m] t c by (auto split: if_splits)
  qed
  moreover have "distinct (map fst (ipEntries ?r))" "ipLastCleanup ?r \<le> now" "ipRate ?r = rate" "ipBurst ?r = burst"
      "ipCleanupInterval ?r = sec" "ipEntryTTL ?r = 10 * sec"
    using i t by (simp_all add: limiter_inv_def limiter_cleanup_def distinct_filter_keys)
  ultimately show ?thesis using i unfolding limiter_inv_def by blast
qed

text \<open>What is left is recent.\<close>

lemma cleanup_recent:
  assumes i: "limiter_inv rate burst r t" and t: "t \<le> now" and e: "map_of (ipEntries (limiter_cleanup now r)) a = Some e"
  shows "0 \<le> now - ieLast e" and "now - ieLast e < 11 * sec"
proof -
  have m: "map_of (ipEntries r) a = Some e" and c: "\<not> (sec \<le> now - ipLastCleanup r \<and> 10 * sec < now - ieLast e)"
    using e cleanup_lookup [OF i, of now a] by (auto split: option.splits if_splits)
  have "ieLast e \<le> t \<and> ipLastCleanup r - 10 * sec \<le> ieLast e" using i m unfolding limiter_inv_def by blast
  then show "0 \<le> now - ieLast e" "now - ieLast e < 11 * sec" using t c by linarith+
qed

lemma cleanup_level:
  assumes i: "limiter_inv rate burst r t" and t: "now \<le> u"
  shows "limiter_level (limiter_cleanup now r) u a = limiter_level r u a"
proof -
  have same: "ipRate (limiter_cleanup now r) = rate" "ipBurst (limiter_cleanup now r) = burst" "ipRate r = rate" "ipBurst r = burst"
    using i by (simp_all add: limiter_inv_def limiter_cleanup_def)
  have full: "burst * sec \<le> ieTokens e + (u - ieLast e) * rate"
    if m: "map_of (ipEntries r) a = Some e" and old: "10 * sec < now - ieLast e" for e
  proof -
    have "0 \<le> ieTokens e" "0 < rate" "burst \<le> 10 * rate" using i m by (auto simp: limiter_inv_def limits_ok_def)
    moreover have "10 * sec * rate \<le> (u - ieLast e) * rate" using old t \<open>0 < rate\<close> by (intro mult_right_mono) auto
    ultimately show ?thesis by linarith
  qed
  show ?thesis
    using full cleanup_lookup [OF i, of now a] by (auto simp: limiter_level_def same split: option.splits if_splits)
qed

definition spend :: "int \<Rightarrow> 'a \<Rightarrow> 'a IPRateLimiter \<Rightarrow> 'a IPRateLimiter" where
  "spend now a r =
     (let l = limiter_level r now a; r' = limiter_cleanup now r
      in r'\<lparr>ipEntries := AList.update a \<lparr>ieLast = now, ieTokens = l - (if sec \<le> l then sec else 0)\<rparr> (ipEntries r')\<rparr>)"

lemma Allow_spends:
  assumes i: "limiter_inv rate burst r t" and t: "t \<le> now"
  shows "Allow now (Some a) r = (sec \<le> limiter_level r now a, spend now a r)"
proof -
  let ?r = "limiter_cleanup now r"
  have i': "limiter_inv rate burst ?r now" by (rule cleanup_inv [OF i t])
  have ok: "0 < rate" "1 \<le> burst" "burst * sec + 11 * sec * rate < 2 ^ 63" and rb: "ipRate ?r = rate" "ipBurst ?r = burst"
    using i' by (auto simp: limiter_inv_def limits_ok_def)
  have pos: "0 \<le> 11 * sec * rate" using ok(1) by simp
  have b: "wrap64 (burst * sec) = burst * sec" "wrap64 (burst * sec - sec) = burst * sec - sec"
    by (rule wrap64_id; use ok(2,3) pos in linarith)+
  note lv = cleanup_level [OF i order_refl, of now a, symmetric]
  show ?thesis
  proof (cases "map_of (ipEntries ?r) a")
    case None
    then have "limiter_level r now a = burst * sec" unfolding lv by (simp add: limiter_level_def rb)
    then show ?thesis using ok(2) None b rb by (simp add: Allow_def spend_def Let_def)
  next
    case (Some e)
    let ?p = "(now - ieLast e) * rate"
    note en = limiter_entry [OF i' Some] and rc = cleanup_recent [OF i t Some]
    have p: "0 \<le> ?p" "?p \<le> 11 * sec * rate" using rc ok(1) by (auto intro!: mult_right_mono)
    have w: "wrap64 ?p = ?p" "wrap64 (ieTokens e + ?p) = ieTokens e + ?p"
      by (rule wrap64_id; use p en(1,2) ok in linarith)+
    have l: "limiter_level r now a = min (burst * sec) (ieTokens e + ?p)" unfolding lv by (simp add: limiter_level_def rb Some)
    then have le: "0 \<le> limiter_level r now a" "limiter_level r now a \<le> burst * sec" using en(1) p(1) ok(2) by auto
    have m: "(if burst * sec < ieTokens e + ?p then burst * sec else ieTokens e + ?p) = limiter_level r now a" using l by auto
    have w': "wrap64 (limiter_level r now a - sec) = limiter_level r now a - sec"
      by (rule wrap64_id) (use le ok(2,3) pos in \<open>linarith+\<close>)
    show ?thesis
      by (simp only: Allow_def spend_def Let_def option.case Some rb b w m w') (cases "limiter_level r now a < sec"; simp)
  qed
qed

lemma limiter_level_bounds:
  assumes i: "limiter_inv rate burst r t" and t: "t \<le> u"
  shows "0 \<le> limiter_level r u a \<and> limiter_level r u a \<le> burst * sec"
proof -
  have ok: "0 < rate" "0 < burst" "ipRate r = rate" "ipBurst r = burst" using i by (auto simp: limiter_inv_def limits_ok_def)
  have "0 \<le> ieTokens e + (u - ieLast e) * rate" if "map_of (ipEntries r) a = Some e" for e
    using limiter_entry [OF i that] t ok(1) by simp
  then show ?thesis using ok by (auto simp: limiter_level_def split: option.splits)
qed

lemma limiter_refill:
  assumes i: "limiter_inv rate burst r t" and "u \<le> u'"
  shows "limiter_level r u' a \<le> limiter_level r u a + rate * (u' - u)"
proof -
  have "0 \<le> rate * (u' - u)" "ipRate r = rate" using i assms(2) by (auto simp: limiter_inv_def limits_ok_def)
  then show ?thesis by (auto simp: limiter_level_def min_def algebra_simps split: option.splits)
qed

lemma level_update:
  "limiter_level (r\<lparr>ipEntries := AList.update a e (ipEntries r)\<rparr>) u b =
     (if b = a then min (ipBurst r * sec) (ieTokens e + (u - ieLast e) * ipRate r) else limiter_level r u b)"
  by (cases "map_of (ipEntries r) b") (simp_all add: limiter_level_def update_conv')

lemma spend_level:
  assumes i: "limiter_inv rate burst r t" and t: "t \<le> now"
  shows "limiter_level (spend now a r) now a = limiter_level r now a - (if sec \<le> limiter_level r now a then sec else 0)"
    and "now \<le> u \<Longrightarrow> b \<noteq> a \<Longrightarrow> limiter_level (spend now a r) u b = limiter_level r u b"
proof -
  have "ipBurst (limiter_cleanup now r) = burst" using i by (simp add: limiter_inv_def limiter_cleanup_def)
  then show "limiter_level (spend now a r) now a = limiter_level r now a - (if sec \<le> limiter_level r now a then sec else 0)"
    using limiter_level_bounds [OF i t, of a] unfolding spend_def Let_def level_update by auto
  show "limiter_level (spend now a r) u b = limiter_level r u b" if "now \<le> u" "b \<noteq> a"
    using that cleanup_level [OF i, of now u b] unfolding spend_def Let_def level_update by simp
qed

lemma spend_inv:
  assumes i: "limiter_inv rate burst r t" and t: "t \<le> now"
  shows "limiter_inv rate burst (spend now a r) now"
proof -
  let ?r = "limiter_cleanup now r"
  have i': "limiter_inv rate burst ?r now" by (rule cleanup_inv [OF i t])
  have c: "ipLastCleanup ?r \<le> now" using i' by (simp add: limiter_inv_def)
  show ?thesis
    using i' c limiter_level_bounds [OF i t, of a] unfolding limiter_inv_def spend_def Let_def
    by (auto simp: update_conv' distinct_update simp del: map_of_eq_Some_iff Some_eq_map_of_iff)
qed

interpretation ip_bucket: token_bucket "\<lambda>now a. Allow now (Some a)" "limiter_inv rate burst" limiter_level rate "burst * sec" sec
  for rate burst
  by unfold_locales
    (auto simp: Allow_spends spend_level spend_inv limiter_refill dest: limiter_level_bounds)

lemma new_limiter_inv: "limits_ok rate burst \<Longrightarrow> limiter_inv rate burst (NewIPRateLimiter t rate burst) t"
  by (simp add: limiter_inv_def NewIPRateLimiter_def limits_ok_def)

lemma new_limiter_level: "limits_ok rate burst \<Longrightarrow> limiter_level (NewIPRateLimiter t rate burst) u a = burst * sec"
  by (simp add: limiter_level_def NewIPRateLimiter_def limits_ok_def)

section \<open>Holders\<close>

definition holders :: "handshake_limiter \<Rightarrow> nat" where
  "holders s = length (filter (\<lambda>t. t = Granted) (hlThreads s))"

lemma filter_update_length:
  "i < length xs \<Longrightarrow>
   length (filter Q (xs[i := y])) + (if Q (xs ! i) then 1 else 0) = length (filter Q xs) + (if Q y then 1 else 0)"
proof (induction xs arbitrary: i)
  case (Cons x xs)
  then show ?case by (cases i) auto
qed simp

text \<open>The counter counts the holders, and a value loaded below the bound stays below it.\<close>

definition holders_inv :: "handshake_limiter \<Rightarrow> bool" where
  "holders_inv s \<longleftrightarrow> hlActive s = int (holders s) \<and> (0 < hlMax s \<longrightarrow> hlActive s \<le> hlMax s) \<and>
     (\<forall>cur. Loaded cur \<in> set (hlThreads s) \<longrightarrow> cur < hlMax s)"

lemma in_updateD: "x \<in> set (xs[i := y]) \<Longrightarrow> x = y \<or> x \<in> set xs"
  using set_update_subset_insert [of xs i y] by blast

text \<open>One thread changes its state from one kind to another.\<close>

lemma holders_inv_update:
  assumes "holders_inv s" and "i < length (hlThreads s)" and "hlMax s' = hlMax s" and "hlThreads s' = (hlThreads s)[i := t]"
    and "hlActive s' = hlActive s + (if t = Granted then 1 else 0) - (if hlThreads s ! i = Granted then 1 else 0)"
    and "t = Granted \<Longrightarrow> hlActive s < hlMax s" and "\<And>cur. t = Loaded cur \<Longrightarrow> cur < hlMax s"
  shows "holders_inv s'"
  using assms filter_update_length [OF assms(2), of "\<lambda>t. t = Granted" t]
  by (auto simp: holders_inv_def holders_def dest!: in_updateD split: if_splits)

lemma limiter_step_inv: "limiter_step s s' \<Longrightarrow> holders_inv s \<Longrightarrow> holders_inv s'"
proof (induction rule: limiter_step.induct)
  case (load i s)
  then show ?case
    using holders_inv_update [OF load(3,1), of _ Refused] holders_inv_update [OF load(3,1), of _ "Loaded (hlActive s)"] by simp
next
  case (cas i s cur)
  have "Loaded cur \<in> set (hlThreads s)" using cas(1,2) by (metis nth_mem)
  then have "cur < hlMax s" using cas(3) by (simp add: holders_inv_def)
  then show ?case
    using cas holders_inv_update [OF cas(3,1), of _ Granted] holders_inv_update [OF cas(3,1), of _ Idle] by simp
next
  case (release i s)
  then show ?case using holders_inv_update [OF release(3,1), of _ Idle] by simp
next
  case (retry i s)
  then show ?case using holders_inv_update [OF retry(3,1), of _ Idle] by simp
qed

lemma reachable_holders: "limiter_step\<^sup>*\<^sup>* s s' \<Longrightarrow> holders_inv s \<Longrightarrow> holders_inv s'"
  by (induction rule: rtranclp_induct) (auto intro: limiter_step_inv)

lemma limiter_step_keeps_max: "limiter_step\<^sup>*\<^sup>* s s' \<Longrightarrow> hlMax s' = hlMax s"
  by (induction rule: rtranclp_induct) (auto elim!: limiter_step.cases)

section \<open>Properties\<close>

text \<open>
  Property C29. The limiter bounds every address: in any stretch of a run, whatever other
  addresses do and whenever idle entries are dropped, the number of connections it grants to an
  address is at most the burst plus what the rate adds in that time; and the first connection of
  an address is granted however busy the others are. This needs a burst of at most ten seconds'
  worth of the rate (as long as an idle entry is kept) and limits that fit 64-bit accounting.
\<close>
theorem ip_limiter_bounds_every_address:
  assumes "limits_ok rate burst" and "sorted (map fst (pre @ win))" and "\<forall>x \<in> set (pre @ win). t \<le> fst x" and "win \<noteq> []"
    and "allow = (\<lambda>now a. Allow now (Some a))" and "r = after_calls allow pre (NewIPRateLimiter t rate burst)"
  shows "sec * int (length (filter (\<lambda>(call, ans). snd call = a \<and> ans) (zip win (answers allow win r))))
           \<le> burst * sec + rate * (fst (last win) - fst (hd win)) \<and>
         (a \<notin> snd ` set pre \<longrightarrow> fst (allow (fst (hd win)) a r))"
proof -
  note i = new_limiter_inv [OF assms(1), of t]
  have le: "\<forall>x \<in> set pre. t \<le> fst x \<and> fst x \<le> fst (hd win)" and s: "sorted (map fst pre)"
    using assms(2-4) by (auto simp: sorted_append)
  have "fst (allow (fst (hd win)) a r)" if a: "a \<notin> snd ` set pre"
  proof -
    have "limiter_level r (fst (hd win)) a = burst * sec"
      using ip_bucket.untouched [OF i s le a] new_limiter_level [OF assms(1)] unfolding assms(5,6) by simp
    moreover obtain t' where "limiter_inv rate burst r t'" "t' \<in> insert t (fst ` set pre)"
      using ip_bucket.inv_after [OF i s] le unfolding assms(5,6) by blast
    moreover from this have "t' \<le> fst (hd win)" using le assms(3,4) by auto
    ultimately show ?thesis using assms(1) Allow_spends [of rate burst r t' "fst (hd win)" a] by (simp add: assms(5) limits_ok_def)
  qed
  then show ?thesis
    using ip_bucket.stretch_bound [OF i assms(2-4), of a] unfolding ip_bucket.granted_def assms(5,6) by blast
qed

theorem ip_limiter_bounds_every_address_witness:
  "limits_ok 50 30 \<and> fst (Allow 7 (Some (2 :: nat)) (snd (Allow 5 (Some 1) (NewIPRateLimiter 0 50 30))))"
proof -
  have l: "limits_ok 50 30" by (simp add: limits_ok_def)
  show ?thesis
    using ip_limiter_bounds_every_address [OF l, of "[(5, 1 :: nat)]" "[(7, 2)]" 0 "\<lambda>now a. Allow now (Some a)"
        "snd (Allow 5 (Some 1) (NewIPRateLimiter 0 50 30))" 2] l
    by simp
qed

text \<open>
  Fact. However the atomic operations of concurrent calls of \<^verbatim>\<open>Acquire\<close> and
  \<^verbatim>\<open>Release\<close> interleave, the counter is the number of callers that hold the limiter, and it
  never exceeds the bound.
\<close>
theorem handshake_limiter_never_exceeded:
  assumes "limiter_step\<^sup>*\<^sup>* (NewHandshakeRateLimiter m n) s" and "0 < m"
  shows "hlActive s = int (length (filter (\<lambda>t. t = Granted) (hlThreads s))) \<and> hlActive s \<le> m"
proof -
  have "holders_inv (NewHandshakeRateLimiter m n)"
    by (simp add: holders_inv_def holders_def NewHandshakeRateLimiter_def)
  from reachable_holders [OF assms(1) this] limiter_step_keeps_max [OF assms(1)] assms(2) show ?thesis
    by (simp add: holders_inv_def holders_def NewHandshakeRateLimiter_def)
qed

theorem handshake_limiter_never_exceeded_witness:
  "limiter_step\<^sup>*\<^sup>* (NewHandshakeRateLimiter 1 2) \<lparr>hlActive = 0, hlMax = 1, hlThreads = [Loaded 0, Idle]\<rparr> \<and>
   hlActive \<lparr>hlActive = 0, hlMax = 1, hlThreads = [Loaded 0, Idle]\<rparr> \<le> 1"
proof -
  have "limiter_step (NewHandshakeRateLimiter 1 2) \<lparr>hlActive = 0, hlMax = 1, hlThreads = [Loaded 0, Idle]\<rparr>"
    using limiter_step.load [of 0 "NewHandshakeRateLimiter 1 2"] by (simp add: NewHandshakeRateLimiter_def numeral_2_eq_2)
  then have r: "limiter_step\<^sup>*\<^sup>* (NewHandshakeRateLimiter 1 2) \<lparr>hlActive = 0, hlMax = 1, hlThreads = [Loaded 0, Idle]\<rparr>" by blast
  then show ?thesis using handshake_limiter_never_exceeded [OF r] by simp
qed

text \<open>Two lines that are printed are at least the interval apart.\<close>

lemma printed_lines_apart:
  assumes "fst (Ready now l)" and "fst (Ready now' (snd (snd (Ready now l))))"
  shows "rlInterval l \<le> now' - now"
  using assms by (auto simp: Ready_def split: if_splits)

end
