(* ===== verification/Revocation_Store.thy ===== *)
theory Revocation_Store
  imports Go_Strings Crypto_Core
begin

text \<open>
  The deny list of client keys of \<^verbatim>\<open>cmd/server/revocation.go\<close>. What the operating system
  and the JSON decoder answer on a reload is an argument: whether the file exists, its
  modification time, its bytes, and the decoded list of key texts.
\<close>

section \<open>Model\<close>

record revocationStore =
  rvPath :: gostring
  rvKeys :: "bytes set"
  rvModTime :: int
  rvInitialized :: bool

datatype stat = NotExist | StatError go_error | ModTime int

record file_view =
  fvStat :: stat
  fvRead :: "bytes res"
  fvDecode :: "bytes \<Rightarrow> gostring list res"

definition zeroTime :: int where "zeroTime = - 62135596800 * 1000000000"

fun addRevokedKeys :: "bytes set \<Rightarrow> gostring list \<Rightarrow> bytes set res" where
  "addRevokedKeys dst [] = Inr dst"
| "addRevokedKeys dst (v # vs) =
     (case DecodeString v of
        None \<Rightarrow> Inl (Errorf ''invalid revoked client key'')
      | Some decoded \<Rightarrow>
          if length decoded \<noteq> KeySize then Inl (Errorf ''invalid revoked client key'')
          else addRevokedKeys (insert decoded dst) vs)"

definition reload :: "file_view \<Rightarrow> bool \<Rightarrow> revocationStore \<Rightarrow> revocationStore res" where
  "reload fv force r =
     (if rvPath r = [] then Inr r
      else case fvStat fv of
             NotExist \<Rightarrow> if force then Inr r else Inl (Errorf ''revocation file is missing'')
           | StatError e \<Rightarrow> Inl e
           | ModTime t \<Rightarrow>
               if \<not> force \<and> \<not> rvModTime r < t then Inr r
               else rbind (fvRead fv) (\<lambda>data.
                    rbind (fvDecode fv data) (\<lambda>revoked.
                    rbind (addRevokedKeys {} revoked) (\<lambda>keys.
                      Inr (r\<lparr>rvKeys := keys \<union> rvKeys r, rvModTime := t div 1000000000 * 1000000000, rvInitialized := True\<rparr>)))))"

definition newRevocationStore :: "file_view \<Rightarrow> gostring list \<Rightarrow> gostring \<Rightarrow> revocationStore res" where
  "newRevocationStore fv static path =
     rbind (addRevokedKeys {} static) (\<lambda>keys.
       let r = \<lparr>rvPath = path, rvKeys = keys, rvModTime = zeroTime, rvInitialized = False\<rparr>
       in if path \<noteq> [] then reload fv True r else Inr r)"

text \<open>A store that could not be made is nil, and revokes nobody.\<close>

definition IsRevoked :: "file_view \<Rightarrow> bytes \<Rightarrow> revocationStore option \<Rightarrow> bool \<times> revocationStore option" where
  "IsRevoked fv key r =
     (case r of
        None \<Rightarrow> (False, None)
      | Some r \<Rightarrow>
          case reload fv False r of
            Inl e \<Rightarrow> (rvInitialized r, Some r)
          | Inr r' \<Rightarrow> (key \<in> rvKeys r', Some r'))"

section \<open>Loading\<close>

lemma addRevokedKeys_iff:
  "addRevokedKeys dst vs = Inr K \<longleftrightarrow>
     (\<forall>v \<in> set vs. \<exists>k. DecodeString v = Some k \<and> length k = KeySize) \<and> K = dst \<union> {k. \<exists>v \<in> set vs. DecodeString v = Some k}"
  by (induction dst vs rule: addRevokedKeys.induct) (auto split: option.splits)

lemma reload_keeps:
  assumes "reload fv force r = Inr r'"
  shows "rvPath r' = rvPath r" "rvKeys r \<subseteq> rvKeys r'" "rvInitialized r \<Longrightarrow> rvInitialized r'"
  using assms by (auto simp: reload_def rbind_Inr split: if_splits stat.splits)

text \<open>The store after a sequence of questions; their keys do not matter.\<close>

fun consult :: "file_view list \<Rightarrow> revocationStore \<Rightarrow> revocationStore" where
  "consult [] r = r"
| "consult (fv # fvs) r = consult fvs (case reload fv False r of Inl e \<Rightarrow> r | Inr r' \<Rightarrow> r')"

lemma consult_is_IsRevoked: "snd (IsRevoked fv key (Some r)) = Some (consult [fv] r)"
  by (simp add: IsRevoked_def split: sum.splits)

lemma consult_append: "consult (xs @ ys) r = consult ys (consult xs r)"
  by (induction xs r rule: consult.induct) simp_all

lemma consult_keeps:
  "rvPath (consult fvs r) = rvPath r \<and> rvKeys r \<subseteq> rvKeys (consult fvs r) \<and> (rvInitialized r \<longrightarrow> rvInitialized (consult fvs r))"
proof (induction fvs r rule: consult.induct)
  case (2 fv fvs r)
  let ?r = "case reload fv False r of Inl e \<Rightarrow> r | Inr r' \<Rightarrow> r'"
  have "rvPath ?r = rvPath r \<and> rvKeys r \<subseteq> rvKeys ?r \<and> (rvInitialized r \<longrightarrow> rvInitialized ?r)"
    using reload_keeps [of fv False r] by (cases "reload fv False r") simp_all
  then show ?case using 2 by (metis consult.simps(2) order_trans)
qed simp

text \<open>A store answers from the file: it has none, or it has read it once.\<close>

definition answers_from_file :: "revocationStore \<Rightarrow> bool" where
  "answers_from_file r \<longleftrightarrow> rvPath r = [] \<or> rvInitialized r"

lemma new_store_answers:
  assumes "newRevocationStore fv static path = Inr r" and "path = [] \<or> fvStat fv \<noteq> NotExist"
  shows "answers_from_file r"
  using assms by (auto simp: newRevocationStore_def reload_def answers_from_file_def rbind_Inr Let_def split: if_splits stat.splits)

lemma new_store_path: "newRevocationStore fv static path = Inr r \<Longrightarrow> rvPath r = path"
  by (auto simp: newRevocationStore_def rbind_Inr Let_def dest: reload_keeps(1) split: if_splits)

lemma new_store_has_static:
  assumes "newRevocationStore fv static path = Inr r"
  shows "{k. \<exists>v \<in> set static. DecodeString v = Some k} \<subseteq> rvKeys r"
  using assms reload_keeps(2) [of fv True]
  by (fastforce simp: newRevocationStore_def rbind_Inr addRevokedKeys_iff Let_def split: if_splits)

lemma known_key_revoked:
  assumes "answers_from_file r" and "key \<in> rvKeys r"
  shows "fst (IsRevoked fv key (Some r))"
proof (cases "reload fv False r")
  case (Inl e)
  then have "rvPath r \<noteq> []" by (auto simp: reload_def)
  then show ?thesis using Inl assms(1) by (simp add: IsRevoked_def answers_from_file_def)
next
  case (Inr r')
  then show ?thesis using reload_keeps(2) [OF Inr] assms(2) by (auto simp: IsRevoked_def)
qed

lemma consult_answers: "answers_from_file r \<Longrightarrow> answers_from_file (consult fvs r)"
  using consult_keeps [of fvs r] by (auto simp: answers_from_file_def)

section \<open>What the file says\<close>

definition listed :: "file_view \<Rightarrow> bytes \<Rightarrow> bool" where
  "listed fv key \<longleftrightarrow> (\<exists>data revoked v. fvRead fv = Inr data \<and> fvDecode fv data = Inr revoked \<and> v \<in> set revoked \<and> DecodeString v = Some key)"

definition well_formed :: "file_view \<Rightarrow> bool" where
  "well_formed fv \<longleftrightarrow> (\<exists>data revoked. fvRead fv = Inr data \<and> fvDecode fv data = Inr revoked \<and>
     (\<forall>v \<in> set revoked. \<exists>k. DecodeString v = Some k \<and> length k = KeySize))"

text \<open>A version of the file is newer than those seen before when all their modification times are earlier.\<close>

definition newer :: "int \<Rightarrow> file_view list \<Rightarrow> bool" where
  "newer t fvs \<longleftrightarrow> (\<forall>f \<in> set fvs. \<forall>t'. fvStat f = ModTime t' \<longrightarrow> t' < t)"

lemma whole_seconds: "(t :: int) div 1000000000 * 1000000000 \<le> t"
  by presburger

lemma reload_newer:
  assumes "rvPath r \<noteq> []" and "fvStat fv = ModTime t" and "force \<or> rvModTime r < t"
  shows "well_formed fv \<Longrightarrow> \<exists>r'. reload fv force r = Inr r' \<and> (\<forall>k. listed fv k \<longrightarrow> k \<in> rvKeys r')"
    and "\<not> well_formed fv \<Longrightarrow> \<exists>e. reload fv force r = Inl e"
proof -
  show "\<exists>r'. reload fv force r = Inr r' \<and> (\<forall>k. listed fv k \<longrightarrow> k \<in> rvKeys r')" if w: "well_formed fv"
  proof -
    obtain data revoked where d: "fvRead fv = Inr data" "fvDecode fv data = Inr revoked"
        "\<forall>v \<in> set revoked. \<exists>k. DecodeString v = Some k \<and> length k = KeySize"
      using w unfolding well_formed_def by blast
    then have "addRevokedKeys {} revoked = Inr {k. \<exists>v \<in> set revoked. DecodeString v = Some k}"
      by (simp add: addRevokedKeys_iff)
    with d(1,2) show ?thesis using assms by (auto simp: reload_def listed_def)
  qed
  show "\<exists>e. reload fv force r = Inl e" if "\<not> well_formed fv"
  proof (cases "reload fv force r")
    case (Inr r')
    then show ?thesis
      using that assms by (auto simp: reload_def rbind_Inr addRevokedKeys_iff well_formed_def split: if_splits) blast+
  qed simp
qed

lemma reload_modTime:
  assumes "reload fv force r = Inr r'" and "newer t [fv]" and "rvModTime r < t"
  shows "rvModTime r' < t"
  using assms whole_seconds
  by (auto simp: reload_def rbind_Inr newer_def split: if_splits stat.splits intro: le_less_trans)

lemma consult_modTime: "newer t fvs \<Longrightarrow> rvModTime r < t \<Longrightarrow> rvModTime (consult fvs r) < t"
proof (induction fvs r rule: consult.induct)
  case (2 fv fvs r)
  have "newer t [fv]" "newer t fvs" using 2(2) by (simp_all add: newer_def)
  then show ?case using 2 reload_modTime [of fv False r] by (cases "reload fv False r") auto
qed simp

lemma new_store_modTime:
  assumes "newRevocationStore fv0 static path = Inr r0" and "path \<noteq> []" and "fvStat fv0 \<noteq> NotExist" and "newer t [fv0]"
  shows "rvModTime r0 < t"
proof (cases "fvStat fv0")
  case (ModTime t')
  then show ?thesis
    using assms le_less_trans [OF whole_seconds, of t' t] by (auto simp: newRevocationStore_def reload_def rbind_Inr newer_def Let_def)
qed (use assms in \<open>auto simp: newRevocationStore_def reload_def rbind_Inr Let_def\<close>)

lemma new_store_has_file:
  assumes "newRevocationStore fv0 static path = Inr r0" and "path \<noteq> []" and "fvStat fv0 \<noteq> NotExist" and "listed fv0 key"
  shows "key \<in> rvKeys r0"
  using assms
  by (cases "fvStat fv0") (auto simp: newRevocationStore_def reload_def rbind_Inr addRevokedKeys_iff listed_def Let_def)

section \<open>Properties\<close>

text \<open>
  Property C30. A revocation takes effect and lasts. When the revocation file was there at
  start-up (or none is configured), then after any further questions and whatever happens to the
  file meanwhile: every key of the static configuration and every key listed in the file at start-up is refused;
  every key listed in a version of the file newer than those seen before is refused at once, and, when the entries of that version
  are all well formed, at every later question; and while the file is configured but missing, or its
  newer version cannot be read, decoded or parsed, every client is refused.
\<close>
theorem revocation_takes_effect_and_lasts:
  assumes "newRevocationStore fv0 static path = Inr r0" and "path = [] \<or> fvStat fv0 \<noteq> NotExist" and "r = consult fvs r0"
  shows "(v \<in> set static \<longrightarrow> DecodeString v = Some key \<longrightarrow> fst (IsRevoked fv key (Some r))) \<and>
    (path \<noteq> [] \<longrightarrow> listed fv0 key \<longrightarrow> fst (IsRevoked fv key (Some r))) \<and>
    (path \<noteq> [] \<longrightarrow> fvStat fv = ModTime t \<longrightarrow> newer t (fv0 # fvs) \<longrightarrow>
       (listed fv key \<or> \<not> well_formed fv \<longrightarrow> fst (IsRevoked fv key (Some r))) \<and>
       (listed fv key \<longrightarrow> well_formed fv \<longrightarrow> fst (IsRevoked fv' key (Some (consult (fv # later) r))))) \<and>
    (path \<noteq> [] \<longrightarrow> fvStat fv = NotExist \<or> (\<exists>e. fvStat fv = StatError e) \<longrightarrow> fst (IsRevoked fv key (Some r)))"
proof -
  have a: "answers_from_file r" unfolding assms(3) by (intro consult_answers new_store_answers [OF assms(1,2)])
  have p: "rvPath r = path" "rvKeys r0 \<subseteq> rvKeys r"
    using new_store_path [OF assms(1)] consult_keeps [of fvs r0] unfolding assms(3) by simp_all
  have 1: "fst (IsRevoked fv key (Some r))" if "key \<in> rvKeys r0" using that p(2) by (intro known_key_revoked [OF a]) blast
  have err: "fst (IsRevoked fv key (Some r))" if "path \<noteq> []" "reload fv False r = Inl e" for e
    using that a p(1) by (simp add: IsRevoked_def answers_from_file_def)
  have 2: "(listed fv key \<or> \<not> well_formed fv \<longrightarrow> fst (IsRevoked fv key (Some r))) \<and>
      (listed fv key \<longrightarrow> well_formed fv \<longrightarrow> fst (IsRevoked fv' key (Some (consult (fv # later) r))))"
    if q: "path \<noteq> []" "fvStat fv = ModTime t" "newer t (fv0 # fvs)"
  proof -
    have "newer t [fv0]" "newer t fvs" using q(3) by (simp_all add: newer_def)
    then have m: "False \<or> rvModTime r < t"
      using consult_modTime new_store_modTime [OF assms(1) q(1)] assms(2) q(1) unfolding assms(3) by blast
    have pr: "rvPath r \<noteq> []" using q(1) p(1) by simp
    show ?thesis
    proof (cases "well_formed fv")
      case True
      then obtain r' where r': "reload fv False r = Inr r'" "\<forall>k. listed fv k \<longrightarrow> k \<in> rvKeys r'"
        using reload_newer(1) [OF pr q(2) m] by blast
      then have "fst (IsRevoked fv' key (Some (consult (fv # later) r)))" if "listed fv key"
        using that consult_keeps [of later r'] by (intro known_key_revoked consult_answers [OF a]) auto
      with r' True show ?thesis by (simp add: IsRevoked_def)
    next
      case False
      with reload_newer(2) [OF pr q(2) m] err [OF q(1)] show ?thesis by blast
    qed
  qed
  have "fst (IsRevoked fv key (Some r))" if "path \<noteq> []" "fvStat fv = NotExist \<or> (\<exists>e. fvStat fv = StatError e)"
    using that a p(1) by (auto simp: IsRevoked_def reload_def answers_from_file_def)
  with 1 2 new_store_has_static [OF assms(1)] new_store_has_file [OF assms(1)] assms(2) show ?thesis by blast
qed

theorem revocation_takes_effect_and_lasts_witness:
  "let k = replicate 64 0x61; key = replicate 32 0xaa;
       empty = \<lparr>fvStat = ModTime 5, fvRead = Inr [], fvDecode = \<lambda>_. Inr []\<rparr>;
       new = \<lparr>fvStat = ModTime 6, fvRead = Inr [1], fvDecode = \<lambda>_. Inr [k]\<rparr>
   in (\<exists>r0. newRevocationStore empty [] [1] = Inr r0 \<and> fst (IsRevoked new key (Some (consult [empty] r0))) \<and>
         fst (IsRevoked empty key (Some (consult [new, empty] (consult [empty] r0)))))"
proof -
  let ?k = "replicate 64 0x61" and ?key = "replicate 32 0xaa"
  let ?empty = "\<lparr>fvStat = ModTime 5, fvRead = Inr [], fvDecode = \<lambda>_. Inr []\<rparr>"
    and ?new = "\<lparr>fvStat = ModTime 6, fvRead = Inr [1], fvDecode = \<lambda>_. Inr [?k]\<rparr>"
  have d: "DecodeString ?k = Some ?key" by code_simp
  have f: "listed ?new ?key" "well_formed ?new" "newer 6 [?empty, ?empty]"
    using d by (simp_all add: listed_def well_formed_def newer_def KeySize_def)
  have r: "newRevocationStore ?empty [] [1] = Inr \<lparr>rvPath = [1], rvKeys = {}, rvModTime = 0, rvInitialized = True\<rparr>"
    by (simp add: newRevocationStore_def reload_def)
  show ?thesis
    using revocation_takes_effect_and_lasts [OF r _ refl, where fvs = "[?empty]" and key = ?key and fv = ?new and t = 6
        and fv' = ?empty and later = "[?empty]"] r f by (simp del: consult.simps)
qed

text \<open>
  Fact. If the configured revocation file is missing at start-up, the deny list is off:
  as long as the file stays missing no key is refused, not even one of the static configuration.
\<close>
theorem missing_file_disables_static_list:
  assumes "newRevocationStore fv0 static path = Inr r0" and "path \<noteq> []" and "fvStat fv0 = NotExist"
    and "\<forall>fv \<in> set fvs. fvStat fv = NotExist" and "fvStat fv = NotExist"
  shows "\<not> fst (IsRevoked fv key (Some (consult fvs r0)))"
proof -
  have r0: "rvPath r0 = path" "\<not> rvInitialized r0"
    using assms(1-3) by (auto simp: newRevocationStore_def reload_def rbind_Inr Let_def)
  have "consult fvs r0 = r0" using assms(4) r0(1) assms(2) by (induction fvs) (auto simp: reload_def)
  then show ?thesis using r0 assms(2,5) by (simp add: IsRevoked_def reload_def)
qed

theorem missing_file_disables_static_list_witness:
  "let k = replicate 64 0x61; gone = \<lparr>fvStat = NotExist, fvRead = Inr [], fvDecode = \<lambda>_. Inr []\<rparr>
   in (\<exists>r0. newRevocationStore gone [k] [1] = Inr r0 \<and> replicate 32 0xaa \<in> rvKeys r0 \<and>
         \<not> fst (IsRevoked gone (replicate 32 0xaa) (Some r0)))"
proof -
  let ?k = "replicate 64 0x61" and ?gone = "\<lparr>fvStat = NotExist, fvRead = Inr [], fvDecode = \<lambda>_. Inr []\<rparr>"
  have d: "DecodeString ?k = Some (replicate 32 0xaa)" by code_simp
  have r: "newRevocationStore ?gone [?k] [1] = Inr \<lparr>rvPath = [1], rvKeys = {replicate 32 0xaa}, rvModTime = zeroTime, rvInitialized = False\<rparr>"
    using d by (simp add: newRevocationStore_def reload_def KeySize_def)
  show ?thesis using missing_file_disables_static_list [OF r, of "[]" ?gone "replicate 32 0xaa"] r by auto
qed

end
