(* ===== verification/Replay_Window.thy ===== *)
theory Replay_Window
  imports Obsidian_Prelude
begin

text \<open>
  \<^verbatim>\<open>replayWindow\<close> of \<^verbatim>\<open>obsidian/udp.go\<close>: 4096 bits in 64 machine words, indexed by
  the sequence number modulo 4096. The clearing loop counts in 64-bit arithmetic and need
  not end, so it is a partial function and \<open>None\<close> is a call that never returns.
\<close>

record replayWindow =
  maxSeq :: u64
  bitmap :: "u64 list"

definition replayWindowSize :: nat where "replayWindowSize = 4096"

lemmas window_size [simp] = replayWindowSize_def

definition window_index :: "u64 \<Rightarrow> nat" where
  "window_index i = unat (i mod of_nat replayWindowSize)"

definition clear_at :: "u64 list \<Rightarrow> nat \<Rightarrow> u64 list" where
  "clear_at bm k = bm[k div 64 := bm ! (k div 64) AND NOT (push_bit (k mod 64) 1)]"

definition set_at :: "u64 list \<Rightarrow> nat \<Rightarrow> u64 list" where
  "set_at bm k = bm[k div 64 := bm ! (k div 64) OR push_bit (k mod 64) 1]"

definition test_at :: "u64 list \<Rightarrow> nat \<Rightarrow> bool" where
  "test_at bm k \<longleftrightarrow> bm ! (k div 64) AND push_bit (k mod 64) 1 \<noteq> 0"

partial_function (option) clear_loop :: "u64 \<Rightarrow> u64 \<Rightarrow> u64 list \<Rightarrow> u64 list option" where
  "clear_loop i seq bm =
     (if i \<le> seq then clear_loop (i + 1) seq (clear_at bm (window_index i)) else Some bm)"

definition Check :: "replayWindow \<Rightarrow> u64 \<Rightarrow> (bool \<times> replayWindow) option" where
  "Check w seq =
     (if seq > maxSeq w then
        case (if seq - maxSeq w \<ge> of_nat replayWindowSize then Some (map (\<lambda>_. 0) (bitmap w))
              else clear_loop (maxSeq w + 1) seq (bitmap w)) of
          None \<Rightarrow> None
        | Some bm \<Rightarrow> Some (True, \<lparr>maxSeq = seq, bitmap = set_at bm (window_index seq)\<rparr>)
      else if maxSeq w - seq \<ge> of_nat replayWindowSize then Some (False, w)
      else if test_at (bitmap w) (window_index seq) then Some (False, w)
      else Some (True, w\<lparr>bitmap := set_at (bitmap w) (window_index seq)\<rparr>))"

definition new_window :: replayWindow where
  "new_window = \<lparr>maxSeq = 0, bitmap = replicate 64 0\<rparr>"

section \<open>The promise of an anti-replay window\<close>

text \<open>The highest number seen and the set of numbers accepted.\<close>

type_synonym replay_spec = "nat \<times> nat set"

definition spec_accepts :: "replay_spec \<Rightarrow> nat \<Rightarrow> bool" where
  "spec_accepts a q \<longleftrightarrow> fst a < q \<or> (fst a - q < replayWindowSize \<and> q \<notin> snd a)"

definition spec_check :: "replay_spec \<Rightarrow> nat \<Rightarrow> bool \<times> replay_spec" where
  "spec_check a q = (if spec_accepts a q then (True, (max (fst a) q, insert q (snd a))) else (False, a))"

section \<open>Bits\<close>

lemma bit_push_1: "j < 64 \<Longrightarrow> bit (2 ^ j :: u64) n \<longleftrightarrow> n = j"
  by (auto simp: bit_exp_iff)

lemma nonzero_bit: "x \<noteq> 0 \<longleftrightarrow> (\<exists>n. bit (x :: u64) n)"
proof -
  have "x = 0" if "\<forall>n. \<not> bit x n" using that by (intro bit_eqI) simp
  then show ?thesis by auto
qed

lemma test_at_bit: "test_at bm k \<longleftrightarrow> bit (bm ! (k div 64)) (k mod 64)"
  unfolding test_at_def nonzero_bit by (auto simp: bit_and_iff bit_push_1)

lemma same_slot: "j div 64 = k div 64 \<Longrightarrow> j mod 64 = k mod 64 \<longleftrightarrow> j = (k :: nat)"
  by (metis mult_div_mod_eq)

lemma test_set_at:
  "length bm = 64 \<Longrightarrow> k < 4096 \<Longrightarrow> test_at (set_at bm k) j \<longleftrightarrow> j = k \<or> test_at bm j"
  using same_slot [of j k]
  by (cases "j div 64 = k div 64")
     (auto simp: test_at_bit set_at_def nth_list_update bit_or_iff bit_push_1)

lemma test_clear_at:
  "length bm = 64 \<Longrightarrow> k < 4096 \<Longrightarrow> test_at (clear_at bm k) j \<longleftrightarrow> j \<noteq> k \<and> test_at bm j"
  using same_slot [of j k]
  by (cases "j div 64 = k div 64")
     (auto simp: test_at_bit clear_at_def nth_list_update bit_and_iff bit_not_iff bit_push_1)

lemma length_bits [simp]: "length (set_at bm k) = length bm" "length (clear_at bm k) = length bm"
  by (simp_all add: set_at_def clear_at_def)

lemma window_index: "window_index i = unat i mod 4096"
  by (simp add: window_index_def unat_mod)

lemma window_index_less [simp]: "window_index i < 4096"
  by (simp add: window_index)

section \<open>The clearing loop\<close>

lemma clear_loop_ends:
  assumes "unat seq < 2 ^ 64 - 1" and "length bm = 64"
  shows "\<exists>bm'. clear_loop i seq bm = Some bm' \<and> length bm' = 64 \<and>
           (\<forall>k < 4096. test_at bm' k \<longleftrightarrow> test_at bm k \<and> (\<forall>q. unat i \<le> q \<and> q \<le> unat seq \<longrightarrow> q mod 4096 \<noteq> k))"
  using assms(2)
proof (induction "unat seq + 1 - unat i" arbitrary: i bm)
  case 0
  then have "\<not> i \<le> seq" by (simp add: word_le_nat_alt)
  then show ?case using 0 by (subst clear_loop.simps) (auto simp: word_le_nat_alt)
next
  case (Suc n)
  then have le: "i \<le> seq" "unat i \<le> unat seq" by (auto simp: word_le_nat_alt)
  have i1: "unat (i + 1) = unat i + 1" using assms(1) le(2) by (intro unat_add_1) simp
  have n: "n = unat seq + 1 - unat (i + 1)" using Suc.hyps(2) i1 by linarith
  obtain bm' where b: "clear_loop (i + 1) seq (clear_at bm (window_index i)) = Some bm'" "length bm' = 64"
    "\<forall>k < 4096. test_at bm' k \<longleftrightarrow> test_at (clear_at bm (window_index i)) k \<and>
       (\<forall>q. unat (i + 1) \<le> q \<and> q \<le> unat seq \<longrightarrow> q mod 4096 \<noteq> k)"
    using Suc.hyps(1) [of "i + 1" "clear_at bm (window_index i)"] n Suc.prems by auto
  have "(\<forall>q. unat i \<le> q \<and> q \<le> unat seq \<longrightarrow> q mod 4096 \<noteq> k) \<longleftrightarrow>
        unat i mod 4096 \<noteq> k \<and> (\<forall>q. unat i + 1 \<le> q \<and> q \<le> unat seq \<longrightarrow> q mod 4096 \<noteq> k)" for k
    using le(2) by (metis Suc_eq_plus1 le_Suc_eq le_antisym not_less_eq_eq)
  with b Suc.prems le(1) i1 show ?case
    by (subst clear_loop.simps) (auto simp: test_clear_at window_index)
qed

text \<open>With the largest 64-bit number as bound the loop condition never fails.\<close>

lemma clear_loop_Some:
  assumes "clear_loop i seq bm = Some r"
  shows "seq \<noteq> - 1"
  by (rule clear_loop.raw_induct [OF _ assms]) (fastforce split: if_splits)

lemma clear_loop_diverges: "clear_loop i (- 1) bm = None"
  using clear_loop_Some by (cases "clear_loop i (- 1) bm") auto

section \<open>Refinement\<close>

text \<open>
  The bitmap represents the accepted numbers of the last 4096: the bit of a number in the
  window says whether it was accepted, and every accepted number is at most the maximum.
\<close>

definition window_rel :: "replayWindow \<Rightarrow> replay_spec \<Rightarrow> bool" where
  "window_rel w a \<longleftrightarrow> length (bitmap w) = 64 \<and> fst a = unat (maxSeq w) \<and> snd a \<subseteq> {..fst a} \<and>
     (\<forall>q \<le> fst a. fst a - q < 4096 \<longrightarrow> (test_at (bitmap w) (q mod 4096) \<longleftrightarrow> q \<in> snd a))"

lemma window_rel_new: "window_rel new_window (0, {})"
  by (simp add: window_rel_def new_window_def test_at_def)

lemma mod_window_inj: "q mod 4096 = r mod (4096::nat) \<Longrightarrow> q \<le> r \<Longrightarrow> r - q < 4096 \<Longrightarrow> q = r"
  by (metis diff_diff_cancel diff_zero mod_eq_dvd_iff_nat dvd_imp_le linorder_not_less zero_less_diff diff_is_0_eq)

lemma Check_advance:
  assumes rel: "window_rel w a" and gt: "unat seq > unat (maxSeq w)" and fin: "unat seq < 2 ^ 64 - 1"
  shows "\<exists>w'. Check w seq = Some (True, w') \<and> window_rel w' (unat seq, insert (unat seq) (snd a))"
proof -
  let ?m = "unat (maxSeq w)" and ?q = "unat seq"
  have m1: "unat (maxSeq w + 1) = ?m + 1" using gt fin by (intro unat_add_1) simp
  have d: "unat (seq - maxSeq w) = ?q - ?m" using gt by (intro unat_sub) (simp add: word_le_nat_alt)
  have R: "length (bitmap w) = 64" "fst a = ?m" "snd a \<subseteq> {..?m}"
    "\<And>q. q \<le> ?m \<Longrightarrow> ?m - q < 4096 \<Longrightarrow> test_at (bitmap w) (q mod 4096) \<longleftrightarrow> q \<in> snd a"
    using rel by (auto simp: window_rel_def)
  obtain bm where bm: "(if seq - maxSeq w \<ge> of_nat replayWindowSize then Some (map (\<lambda>_. 0) (bitmap w))
                        else clear_loop (maxSeq w + 1) seq (bitmap w)) = Some bm" "length bm = 64"
    and old: "\<forall>q < ?q. ?q - q < 4096 \<longrightarrow> (test_at bm (q mod 4096) \<longleftrightarrow> q \<in> snd a)"
  proof (cases "4096 \<le> ?q - ?m")
    case True
    then have "q \<notin> snd a" if "?q - q < 4096" "q < ?q" for q using that R(3) by fastforce
    then show thesis
      using True d R(1) by (intro that [of "map (\<lambda>_. 0) (bitmap w)"]) (auto simp: word_le_nat_alt test_at_def)
  next
    case False
    obtain bm' where b: "clear_loop (maxSeq w + 1) seq (bitmap w) = Some bm'" "length bm' = 64"
      "\<forall>k < 4096. test_at bm' k \<longleftrightarrow> test_at (bitmap w) k \<and> (\<forall>q. ?m + 1 \<le> q \<and> q \<le> ?q \<longrightarrow> q mod 4096 \<noteq> k)"
      using clear_loop_ends [OF fin R(1), of "maxSeq w + 1"] unfolding m1 by blast
    show thesis
    proof (rule that)
      show "\<forall>q < ?q. ?q - q < 4096 \<longrightarrow> (test_at bm' (q mod 4096) \<longleftrightarrow> q \<in> snd a)"
      proof (intro allI impI)
        fix q assume q: "q < ?q" "?q - q < 4096"
        have bk: "test_at bm' (q mod 4096) \<longleftrightarrow>
            test_at (bitmap w) (q mod 4096) \<and> (\<forall>r. ?m + 1 \<le> r \<and> r \<le> ?q \<longrightarrow> r mod 4096 \<noteq> q mod 4096)"
          using b(3) [rule_format, of "q mod 4096"] by simp
        show "test_at bm' (q mod 4096) \<longleftrightarrow> q \<in> snd a"
        proof (cases "q \<le> ?m")
          case True
          have "\<forall>r. ?m + 1 \<le> r \<and> r \<le> ?q \<longrightarrow> r mod 4096 \<noteq> q mod 4096"
          proof (intro allI impI notI)
            fix r assume r: "?m + 1 \<le> r \<and> r \<le> ?q" "r mod 4096 = q mod 4096"
            then have "q = r" using mod_window_inj [of q r] q True by linarith
            with r True show False by linarith
          qed
          then have "test_at bm' (q mod 4096) \<longleftrightarrow> test_at (bitmap w) (q mod 4096)" using bk by blast
          moreover have "?m - q < 4096" using q gt by linarith
          ultimately show ?thesis using R(4) [OF True] by blast
        next
          case False
          then have "\<not> test_at bm' (q mod 4096)" using bk q by (metis Suc_eq_plus1 less_imp_le not_less_eq_eq)
          moreover have "q \<notin> snd a" using R(3) False by auto
          ultimately show ?thesis by blast
        qed
      qed
    qed (use b False d in \<open>auto simp: word_le_nat_alt\<close>)
  qed
  have "window_rel \<lparr>maxSeq = seq, bitmap = set_at bm (window_index seq)\<rparr> (?q, insert ?q (snd a))"
    unfolding window_rel_def
  proof (simp add: bm(2), intro conjI allI impI)
    show "snd a \<subseteq> {..?q}" using R(3) gt by fastforce
    fix q assume q: "q \<le> ?q" "?q - q < 4096"
    show "test_at (set_at bm (window_index seq)) (q mod 4096) \<longleftrightarrow> q = ?q \<or> q \<in> snd a"
      using q old mod_window_inj [of q ?q] by (cases "q = ?q") (auto simp: test_set_at bm(2) window_index)
  qed
  moreover have "Check w seq = Some (True, \<lparr>maxSeq = seq, bitmap = set_at bm (window_index seq)\<rparr>)"
    using gt bm(1) by (simp add: Check_def word_less_nat_alt)
  ultimately show ?thesis by blast
qed

lemma Check_inside:
  assumes rel: "window_rel w a" and le: "unat seq \<le> unat (maxSeq w)"
  shows "\<exists>w'. Check w seq = Some (fst (spec_check a (unat seq)), w') \<and> window_rel w' (snd (spec_check a (unat seq)))"
proof -
  let ?m = "unat (maxSeq w)" and ?q = "unat seq"
  have d: "unat (maxSeq w - seq) = ?m - ?q" using le by (intro unat_sub) (simp add: word_le_nat_alt)
  have R: "length (bitmap w) = 64" "fst a = ?m" "snd a \<subseteq> {..?m}"
    "\<And>q. q \<le> ?m \<Longrightarrow> ?m - q < 4096 \<Longrightarrow> test_at (bitmap w) (q mod 4096) \<longleftrightarrow> q \<in> snd a"
    using rel by (auto simp: window_rel_def)
  have ngt: "\<not> seq > maxSeq w" using le by (simp add: word_less_nat_alt)
  show ?thesis
  proof (cases "spec_accepts a ?q")
    case False
    then have "Check w seq = Some (False, w)"
      using ngt d R(2) R(4) [OF le] le
      by (auto simp: Check_def spec_accepts_def word_le_nat_alt window_index)
    with False rel show ?thesis by (simp add: spec_check_def)
  next
    case True
    then have in_win: "?m - ?q < 4096" and new: "?q \<notin> snd a"
      using le R(2) by (auto simp: spec_accepts_def)
    then have c: "Check w seq = Some (True, w\<lparr>bitmap := set_at (bitmap w) (window_index seq)\<rparr>)"
      using ngt d R(4) [OF le] by (auto simp: Check_def word_le_nat_alt window_index)
    have "window_rel (w\<lparr>bitmap := set_at (bitmap w) (window_index seq)\<rparr>) (?m, insert ?q (snd a))"
      unfolding window_rel_def
    proof (simp add: R(1), intro conjI allI impI)
      show "?q \<le> ?m" "snd a \<subseteq> {..?m}" by (rule le, rule R(3))
      fix q assume q: "q \<le> ?m" "?m - q < 4096"
      have "q = ?q" if e: "q mod 4096 = ?q mod 4096"
      proof (cases "q \<le> ?q")
        case True
        then have "?q - q < 4096" using q le by linarith
        then show ?thesis by (rule mod_window_inj [OF e True])
      next
        case False
        then have "?q \<le> q" "q - ?q < 4096" using q in_win by linarith+
        then show ?thesis using mod_window_inj [OF e [symmetric]] by simp
      qed
      then have "q mod 4096 = ?q mod 4096 \<longleftrightarrow> q = ?q" by blast
      then show "test_at (set_at (bitmap w) (window_index seq)) (q mod 4096) \<longleftrightarrow> q = ?q \<or> q \<in> snd a"
        using R(1) R(4) [OF q] by (auto simp: test_set_at window_index)
    qed
    with c True le R(2) show ?thesis by (simp add: spec_check_def max_absorb1)
  qed
qed

lemma Check_refines:
  assumes "window_rel w a" and "seq \<noteq> - 1"
  shows "\<exists>w'. Check w seq = Some (fst (spec_check a (unat seq)), w') \<and> window_rel w' (snd (spec_check a (unat seq)))"
proof (cases "unat seq \<le> unat (maxSeq w)")
  case True
  then show ?thesis by (rule Check_inside [OF assms(1)])
next
  case False
  have "unat seq \<noteq> unat (- 1 :: u64)" using assms(2) by (metis word_unat_eq_iff)
  moreover have "unat (- 1 :: u64) = 2 ^ 64 - 1"
    by (simp add: unsigned_minus_1_eq_mask mask_eq_exp_minus_1)
  ultimately have "unat seq < 2 ^ 64 - 1" using unat_bound [of seq] by simp
  with False Check_advance [OF assms(1)] obtain w' where
    "Check w seq = Some (True, w')" "window_rel w' (unat seq, insert (unat seq) (snd a))" by force
  moreover have "fst a = unat (maxSeq w)" using assms(1) by (simp add: window_rel_def)
  ultimately show ?thesis using False by (auto simp: spec_check_def spec_accepts_def max_absorb2)
qed

section \<open>Sequences of datagrams\<close>

fun run_checks :: "replayWindow \<Rightarrow> u64 list \<Rightarrow> (bool list \<times> replayWindow) option" where
  "run_checks w [] = Some ([], w)"
| "run_checks w (q # qs) =
     do { (b, w') \<leftarrow> Check w q; (bs, w'') \<leftarrow> run_checks w' qs; Some (b # bs, w'') }"

fun spec_run :: "replay_spec \<Rightarrow> nat list \<Rightarrow> bool list" where
  "spec_run a [] = []"
| "spec_run a (q # qs) = fst (spec_check a q) # spec_run (snd (spec_check a q)) qs"

lemma run_checks_refines:
  "window_rel w a \<Longrightarrow> - 1 \<notin> set qs \<Longrightarrow>
   \<exists>w'. run_checks w qs = Some (spec_run a (map unat qs), w')"
proof (induction qs arbitrary: w a)
  case (Cons q qs)
  have "q \<noteq> - 1" and rest: "- 1 \<notin> set qs" using Cons.prems(2) by auto
  then obtain w1 where "Check w q = Some (fst (spec_check a (unat q)), w1)" "window_rel w1 (snd (spec_check a (unat q)))"
    using Check_refines [OF Cons.prems(1)] by blast
  moreover from this(2) obtain w2 where "run_checks w1 qs = Some (spec_run (snd (spec_check a (unat q))) (map unat qs), w2)"
    using Cons.IH [OF _ rest] by blast
  ultimately show ?case by simp
qed simp

definition accepted :: "'a list \<Rightarrow> bool list \<Rightarrow> 'a list" where
  "accepted qs bs = map fst (filter snd (zip qs bs))"

lemma spec_run_accepted:
  "distinct (accepted qs (spec_run a qs)) \<and> set (accepted qs (spec_run a qs)) \<inter> (snd a \<inter> {..fst a}) = {}"
proof (induction qs arbitrary: a)
  case (Cons q qs)
  show ?case
  proof (cases "spec_accepts a q")
    case True
    then have s: "spec_check a q = (True, (max (fst a) q, insert q (snd a)))" by (simp add: spec_check_def)
    have "q \<notin> snd a \<inter> {..fst a}" using True by (auto simp: spec_accepts_def)
    moreover have "distinct (accepted qs (spec_run (max (fst a) q, insert q (snd a)) qs))"
      "set (accepted qs (spec_run (max (fst a) q, insert q (snd a)) qs)) \<inter>
         (insert q (snd a) \<inter> {..max (fst a) q}) = {}"
      using Cons.IH [of "(max (fst a) q, insert q (snd a))"] by auto
    ultimately show ?thesis by (auto simp: s accepted_def)
  next
    case False
    then show ?thesis using Cons.IH [of a] by (simp add: spec_check_def accepted_def)
  qed
qed (simp add: accepted_def)

section \<open>Properties\<close>

text \<open>
  Property C15. The 4096-bit window implements the anti-replay specification: for every
  sequence of counters other than \<open>2\<^sup>6\<^sup>4 - 1\<close>, in any order and with any repetitions, each
  check returns, accepts a counter exactly when it is above the highest one seen or at most
  4095 below it and not yet accepted, and consequently no counter is accepted twice.
\<close>
theorem replay_window_refines_spec:
  assumes "- 1 \<notin> set qs"
  shows "\<exists>w'. run_checks new_window qs = Some (spec_run (0, {}) (map unat qs), w') \<and>
              distinct (accepted qs (spec_run (0, {}) (map unat qs)))"
proof -
  have m: "map unat (accepted qs bs) = accepted (map unat qs) bs" for bs
    by (induction qs bs rule: list_induct2') (auto simp: accepted_def)
  have "distinct (map unat (accepted qs (spec_run (0, {}) (map unat qs))))"
    unfolding m using spec_run_accepted [of "map unat qs" "(0, {})"] by blast
  then show ?thesis using run_checks_refines [OF window_rel_new assms] by (auto simp: distinct_map)
qed

theorem replay_window_refines_spec_witness:
  "\<exists>w'. run_checks new_window [5, 3, 5, 9000, 3] = Some ([True, True, False, True, False], w')"
  using replay_window_refines_spec [of "[5, 3, 5, 9000, 3]"]
  by (auto simp: spec_check_def spec_accepts_def)

text \<open>
  Property C19. The clearing loop does not end for the largest counter: once a counter within
  4095 of it has been accepted, checking \<open>2\<^sup>6\<^sup>4 - 1\<close> never returns, while holding the lock of
  the window.
\<close>
theorem replay_check_hangs_at_max:
  assumes "maxSeq w < - 1" and "(- 1 :: u64) - maxSeq w < 4096"
  shows "Check w (- 1) = None"
  using assms clear_loop_diverges by (simp add: Check_def not_le)

theorem replay_check_hangs_at_max_witness:
  "\<exists>w. Check new_window 0xFFFFFFFFFFFFFFFE = Some (True, w) \<and> Check w (- 1) = None"
proof -
  have m: "(- 1 :: u64) = 0xFFFFFFFFFFFFFFFF" by simp
  have w: "Check new_window 0xFFFFFFFFFFFFFFFE = Some (True, \<lparr>maxSeq = 0xFFFFFFFFFFFFFFFE, bitmap = set_at (map (\<lambda>_. 0) (replicate 64 0)) (window_index 0xFFFFFFFFFFFFFFFE)\<rparr>)"
    by (simp add: Check_def new_window_def)
  have "Check \<lparr>maxSeq = 0xFFFFFFFFFFFFFFFE, bitmap = set_at (map (\<lambda>_. 0) (replicate 64 0)) (window_index 0xFFFFFFFFFFFFFFFE)\<rparr> (- 1) = None"
    by (rule replay_check_hangs_at_max) (simp_all add: m)
  with w show ?thesis by blast
qed

end
