(* ===== verification/Udp_Datagram.thy ===== *)
theory Udp_Datagram
  imports Crypto_Core Bucket_Padding Replay_Window
begin

text \<open>
  \<^verbatim>\<open>obsidian/udp.go\<close>, one datagram: STUN and RTP headers, the UDP key schedule, counter
  protection, bucket framing, and the client-side channel \<^verbatim>\<open>UDPChannel\<close>. Sockets are
  replaced by the datagrams that are sent and received. The send counter is the value the
  next datagram carries.
\<close>

definition UDPTagSize :: nat where "UDPTagSize = 4"
definition UDPCounterSize :: nat where "UDPCounterSize = 8"
definition UDPHeaderSize :: nat where "UDPHeaderSize = UDPTagSize + UDPCounterSize"
definition STUNHeaderSize :: nat where "STUNHeaderSize = 20"
definition SRTPHeaderSize :: nat where "SRTPHeaderSize = 12"
definition STUNMagicCookie :: u32 where "STUNMagicCookie = 0x2112a442"

lemmas udp_sizes [simp] = UDPTagSize_def UDPCounterSize_def UDPHeaderSize_def STUNHeaderSize_def SRTPHeaderSize_def

section \<open>Camouflage headers\<close>

definition IsSTUNHeader :: "bytes \<Rightarrow> bool" where
  "IsSTUNHeader b \<longleftrightarrow> \<not> length b < STUNHeaderSize \<and>
     b ! 0 AND 0xC0 = 0 \<and> rd32 (subslice 4 8 b) = STUNMagicCookie"

definition IsSRTPHeader :: "bytes \<Rightarrow> bool" where
  "IsSRTPHeader b \<longleftrightarrow> \<not> length b < SRTPHeaderSize \<and>
     (b ! 0 = 0x80 \<or> b ! 0 AND 0xC0 = 0x80) \<and> 96 \<le> b ! 1 AND 0x7F \<and> b ! 1 AND 0x7F \<le> 127"

definition writeSTUNHeader :: "u16 \<Rightarrow> u16 \<Rightarrow> u64 \<Rightarrow> u32 \<Rightarrow> bytes" where
  "writeSTUNHeader msgLen msgType tx64 tx32 =
     be16 msgType @ be16 msgLen @ be32 STUNMagicCookie @ be64 tx64 @ be32 tx32"

definition writeSRTPHeader :: "u16 \<Rightarrow> u32 \<Rightarrow> u32 \<Rightarrow> bytes" where
  "writeSRTPHeader seq ts ssrc = [0x80, 111] @ be16 seq @ be32 ts @ be32 ssrc"

section \<open>Keys, nonces, counter protection\<close>

record UDPKeys =
  SendKey :: bytes
  RecvKey :: bytes
  HeaderKey :: bytes
  SessionTag :: bytes

definition DeriveUDPKeys :: "crypto_lib \<Rightarrow> SessionKeys \<Rightarrow> bool \<Rightarrow> UDPKeys" where
  "DeriveUDPKeys P sk isClient =
     (let combined = ClientKey sk @ ServerKey sk;
          rd = hkdf_read P combined (SessionID sk) (str ''obsidian_udp_v2'');
          clientKey = rd 0 32; serverKey = rd 32 32; headerKey = rd 64 16;
          tag = take UDPTagSize (SessionID sk)
      in if isClient then \<lparr>SendKey = clientKey, RecvKey = serverKey, HeaderKey = headerKey, SessionTag = tag\<rparr>
         else \<lparr>SendKey = serverKey, RecvKey = clientKey, HeaderKey = headerKey, SessionTag = tag\<rparr>)"

definition udpNonce :: "u64 \<Rightarrow> bytes" where
  "udpNonce ctr = replicate 4 0 @ be64 ctr"

definition protectCounter :: "crypto_lib \<Rightarrow> bytes \<Rightarrow> bytes \<Rightarrow> bytes \<Rightarrow> bytes" where
  "protectCounter P hp counterBuf sample = xor_bytes counterBuf (take 8 (aes_block P hp sample))"

text \<open>Documented behaviour of the block cipher: a block is 16 bytes.\<close>

definition aes_ok :: "crypto_lib \<Rightarrow> bool" where
  "aes_ok P \<longleftrightarrow> (\<forall>k b. length (aes_block P k b) = 16)"

section \<open>Bucket framing\<close>

record udp_draws =
  uTrailer :: nat
  uRng :: "nat \<Rightarrow> u64"
  uTx64 :: u64
  uTx32 :: u32
  uPool :: bytes

text \<open>The pooled plaintext buffers have a capacity of 2048 bytes; a payload that does not
  fit with its padding is sent as it is.\<close>

definition bucket_frame :: "udp_draws \<Rightarrow> bool \<Rightarrow> int \<Rightarrow> int \<Rightarrow> bytes \<Rightarrow> bytes" where
  "bucket_frame r use mtu trailer payload =
     (if use \<and> payload \<noteq> [] then
        let padLen = CalculateBucketPaddingWithTrailer (uTrailer r) (2 + int (length payload)) mtu trailer;
            totalPlain = 2 + int (length payload) + padLen
        in if totalPlain \<le> 2048
           then be16 (of_nat (length payload)) @ payload @ FastRandomBytes (uRng r) 0 (nat padLen)
           else payload
      else payload)"

definition bucket_unframe :: "bool \<Rightarrow> bytes \<Rightarrow> bytes" where
  "bucket_unframe use plain =
     (if use \<and> 2 \<le> length plain then
        let origLen = unat (rd16 (take 2 plain))
        in if 0 < origLen \<and> origLen \<le> length plain - 2 then subslice 2 (2 + origLen) plain else plain
      else plain)"

section \<open>Sealing and opening\<close>

definition seal_datagram ::
    "crypto_lib \<Rightarrow> udp_draws \<Rightarrow> bytes \<Rightarrow> bytes \<Rightarrow> bytes \<Rightarrow> u64 \<Rightarrow> bool \<Rightarrow> u16 \<Rightarrow> bytes \<Rightarrow> bytes" where
  "seal_datagram P r encKey hp tag ctr stun msgType plain =
     (let header = tag @ be64 ctr;
          sealed = aead_seal P encKey (udpNonce ctr) plain header;
          body = tag @ protectCounter P hp (be64 ctr) (take 16 sealed) @ sealed
      in if stun then
           let bodyLen = (of_nat (UDPHeaderSize + length sealed) :: u16)
           in take (STUNHeaderSize + unat bodyLen) (writeSTUNHeader bodyLen msgType (uTx64 r) (uTx32 r) @ body)
         else body)"

text \<open>
  The same in a scratch buffer that may be too small. \<^verbatim>\<open>Seal\<close> appends in place when the capacity suffices and
  otherwise returns a new slice, so the buffer keeps what it held behind the header; slicing the
  buffer beyond its capacity panics.
\<close>

definition seal_into ::
    "crypto_lib \<Rightarrow> udp_draws \<Rightarrow> bytes \<Rightarrow> bytes \<Rightarrow> bytes \<Rightarrow> u64 \<Rightarrow> bool \<Rightarrow> u16 \<Rightarrow> bytes \<Rightarrow> bytes \<Rightarrow> bytes res" where
  "seal_into P r encKey hp tag ctr stun msgType plain buf =
     (let at = (if stun then STUNHeaderSize else 0) + UDPHeaderSize;
          sealed = aead_seal P encKey (udpNonce ctr) plain (tag @ be64 ctr);
          behind = (if length sealed \<le> length buf - at then sealed @ drop (at + length sealed) buf else drop at buf);
          body = tag @ protectCounter P hp (be64 ctr) (take 16 behind) @ behind;
          bodyLen = (of_nat (UDPHeaderSize + length sealed) :: u16);
          n = (if stun then STUNHeaderSize + unat bodyLen else UDPHeaderSize + length sealed)
      in if length buf < at + 16 \<or> length buf < n then Inl Panic
         else Inr (take n ((if stun then writeSTUNHeader bodyLen msgType (uTx64 r) (uTx32 r) else []) @ body)))"

definition getUDPSendBuf :: "bytes \<Rightarrow> nat \<Rightarrow> bytes" where
  "getUDPSendBuf pooled n = (if n \<le> length pooled then pooled else replicate n 0)"

definition body_offset :: "bytes \<Rightarrow> nat" where
  "body_offset dgram = (if IsSTUNHeader dgram then STUNHeaderSize
                        else if IsSRTPHeader dgram then SRTPHeaderSize else 0)"

text \<open>The counter and, if it authenticates, the plaintext of a body.\<close>

definition open_body ::
    "crypto_lib \<Rightarrow> bytes \<Rightarrow> bytes \<Rightarrow> bytes \<Rightarrow> u64 \<times> bytes option" where
  "open_body P decKey hp packetData =
     (let tag = take UDPTagSize packetData;
          sample = subslice UDPHeaderSize (UDPHeaderSize + 16) packetData;
          ctrBuf = protectCounter P hp (subslice UDPTagSize UDPHeaderSize packetData) sample;
          ctr = rd64 ctrBuf
      in (ctr, aead_open P decKey (udpNonce ctr) (drop UDPHeaderSize packetData) (tag @ ctrBuf)))"

section \<open>The client channel\<close>

record UDPAddr =
  aIP :: bytes
  aPort :: int

record UDPChannel =
  destAddr :: "UDPAddr option"
  remoteAddr :: "UDPAddr option"
  encAEAD :: bytes
  decAEAD :: bytes
  prevDecAEAD :: "bytes option"
  hp :: bytes
  prevHp :: "bytes option"
  tag :: bytes
  prevTag :: bytes
  sendCtr :: u64
  replay :: replayWindow
  lastAuthRecvNano :: int
  EnableSTUN :: bool
  chUseBucketPadding :: bool
  chBucketMTU :: int
  chMaxTrailer :: int

definition NewUDPChannel :: "UDPAddr option \<Rightarrow> UDPKeys \<Rightarrow> UDPChannel" where
  "NewUDPChannel remote keys =
     \<lparr>destAddr = None, remoteAddr = remote, encAEAD = SendKey keys, decAEAD = RecvKey keys,
      prevDecAEAD = None, hp = HeaderKey keys, prevHp = None, tag = SessionTag keys,
      prevTag = replicate 4 0, sendCtr = 0, replay = new_window, lastAuthRecvNano = 0,
      EnableSTUN = True, chUseBucketPadding = False, chBucketMTU = 1360, chMaxTrailer = 0\<rparr>"

definition SwitchDestination :: "UDPChannel \<Rightarrow> UDPAddr option \<Rightarrow> UDPChannel" where
  "SwitchDestination ch addr = (case addr of None \<Rightarrow> ch | Some a \<Rightarrow> ch\<lparr>destAddr := Some a\<rparr>)"

definition SetRemotePort :: "UDPChannel \<Rightarrow> int \<Rightarrow> UDPChannel" where
  "SetRemotePort ch p =
     (case destAddr ch of
        Some cur \<Rightarrow> ch\<lparr>destAddr := Some (cur\<lparr>aPort := p\<rparr>)\<rparr>
      | None \<Rightarrow>
          (case remoteAddr ch of
             Some rem \<Rightarrow> ch\<lparr>destAddr := Some (rem\<lparr>aPort := p\<rparr>)\<rparr>
           | None \<Rightarrow> ch))"

definition channel_RatchetEpoch :: "UDPChannel \<Rightarrow> UDPKeys \<Rightarrow> UDPChannel" where
  "channel_RatchetEpoch ch keys =
     ch\<lparr>encAEAD := SendKey keys, hp := HeaderKey keys, tag := SessionTag keys,
        prevDecAEAD := Some (decAEAD ch), decAEAD := RecvKey keys, prevHp := Some (hp ch), prevTag := tag ch\<rparr>"

text \<open>
  The datagram, where it goes (\<open>None\<close>: the connected peer), and the channel after it. \<open>buf\<close> is the scratch
  buffer with its whole capacity; the callers make room for the payload, not for its padding.
\<close>

definition sendWithBuffer ::
    "crypto_lib \<Rightarrow> udp_draws \<Rightarrow> UDPChannel \<Rightarrow> bytes \<Rightarrow> bytes \<Rightarrow> (bytes \<times> UDPAddr option) res \<times> UDPChannel" where
  "sendWithBuffer P r ch payload buf =
     ((case seal_into P r (encAEAD ch) (hp ch) (tag ch) (sendCtr ch) (EnableSTUN ch) 0x0001
              (bucket_frame r (chUseBucketPadding ch) (chBucketMTU ch) (chMaxTrailer ch) payload) buf of
         Inl e \<Rightarrow> Inl e
       | Inr d \<Rightarrow> Inr (d, destAddr ch)),
      ch\<lparr>sendCtr := sendCtr ch + 1\<rparr>)"

definition send_required :: "bytes \<Rightarrow> nat" where
  "send_required payload = STUNHeaderSize + UDPHeaderSize + length payload + TagSize + 64"

definition channel_Send :: "crypto_lib \<Rightarrow> udp_draws \<Rightarrow> UDPChannel \<Rightarrow> bytes \<Rightarrow> (bytes \<times> UDPAddr option) res \<times> UDPChannel" where
  "channel_Send P r ch payload = sendWithBuffer P r ch payload (getUDPSendBuf (uPool r) (send_required payload))"

definition SendWithBuffer ::
    "crypto_lib \<Rightarrow> udp_draws \<Rightarrow> UDPChannel \<Rightarrow> bytes \<Rightarrow> bytes \<Rightarrow> (bytes \<times> UDPAddr option) res \<times> UDPChannel" where
  "SendWithBuffer P r ch payload buf =
     (if length buf < send_required payload then (Inl ErrShortBuffer, ch) else sendWithBuffer P r ch payload buf)"

text \<open>
  One datagram in the loop of \<^verbatim>\<open>Recv\<close>: \<open>Some p\<close> is returned to the caller, \<open>None\<close>
  continues the loop. The outer \<open>None\<close> is the replay check that does not return.
\<close>

definition recv_datagram ::
    "crypto_lib \<Rightarrow> int \<Rightarrow> UDPChannel \<Rightarrow> bytes \<Rightarrow> (bytes option \<times> UDPChannel) option" where
  "recv_datagram P now ch dgram =
     (let offset = body_offset dgram
      in if length dgram - offset < UDPHeaderSize + TagSize then Some (None, ch)
         else
           let packetData = drop offset dgram;
               t = take UDPTagSize packetData;
               isCurrent = ConstantTimeEqual t (tag ch);
               isPrev = (\<not> isCurrent \<and> prevDecAEAD ch \<noteq> None \<and> ConstantTimeEqual t (prevTag ch));
               dec = (if isPrev then the (prevDecAEAD ch) else decAEAD ch);
               h = (if isPrev \<and> prevHp ch \<noteq> None then the (prevHp ch) else hp ch)
           in if \<not> isCurrent \<and> \<not> isPrev then Some (None, ch)
              else case open_body P dec h packetData of
                     (ctr, None) \<Rightarrow> Some (None, ch)
                   | (ctr, Some plain) \<Rightarrow>
                       (case Check (replay ch) ctr of
                          None \<Rightarrow> None
                        | Some (False, w) \<Rightarrow> Some (None, ch\<lparr>replay := w\<rparr>)
                        | Some (True, w) \<Rightarrow>
                            let ch' = ch\<lparr>replay := w, lastAuthRecvNano := now\<rparr>;
                                out = bucket_unframe (chUseBucketPadding ch) plain
                            in Some (if out = [] then None else Some out, ch')))"

fun channel_Recv ::
    "crypto_lib \<Rightarrow> int \<Rightarrow> UDPChannel \<Rightarrow> bytes list \<Rightarrow> (bytes option \<times> UDPChannel \<times> bytes list) option" where
  "channel_Recv P now ch [] = Some (None, ch, [])"
| "channel_Recv P now ch (d # ds) =
     (case recv_datagram P now ch d of
        None \<Rightarrow> None
      | Some (Some p, ch') \<Rightarrow> Some (Some p, ch', ds)
      | Some (None, ch') \<Rightarrow> channel_Recv P now ch' ds)"

section \<open>Lemmas\<close>

lemma toy_aes_ok: "aes_ok toy_lib"
  by (simp add: aes_ok_def toy_lib_def)

lemma length_STUN [simp]: "length (writeSTUNHeader n t a b) = 20"
  by (simp add: writeSTUNHeader_def)

lemma STUN_recognised:
  assumes "t AND 0xC000 = 0"
  shows "IsSTUNHeader (writeSTUNHeader n t a b @ rest)"
proof -
  have "(ucast (drop_bit 8 t) :: byte) AND 0xC0 = ucast (drop_bit 8 (t AND 0xC000))"
    by (rule byte_bits_eqI) (simp add: bit_simps)
  then have "be16 t ! 0 AND 0xC0 = 0" using assms by (simp add: be16_def)
  then show ?thesis
    using be32.dec_at [of "be16 t @ be16 n" 4 STUNMagicCookie "be64 a @ be32 b @ rest"]
    by (simp add: IsSTUNHeader_def writeSTUNHeader_def nth_append)
qed

lemma protectCounter_invol:
  "aes_ok P \<Longrightarrow> length c = 8 \<Longrightarrow> protectCounter P h (protectCounter P h c s) s = c"
  by (simp add: protectCounter_def aes_ok_def)

lemma length_protectCounter: "aes_ok P \<Longrightarrow> length c = 8 \<Longrightarrow> length (protectCounter P h c s) = 8"
  by (simp add: protectCounter_def aes_ok_def)

lemma bucket_round_trip:
  assumes "payload \<noteq> []"
    and "2 + int (length payload) + CalculateBucketPaddingWithTrailer (uTrailer r) (2 + int (length payload)) mtu trailer \<le> 2048 \<or> \<not> use"
  shows "bucket_unframe use (bucket_frame r use mtu trailer payload) = payload"
proof (cases use)
  case True
  have n: "unat (of_nat (length payload) :: u16) = length payload"
    using assms(2) True
      CalculateBucketPadding_nonneg [of "uTrailer r" "2 + int (length payload)" mtu trailer]
    by (intro unat_of_nat_small) simp
  show ?thesis
    using assms(1,2) True n CalculateBucketPadding_nonneg
    by (simp add: bucket_frame_def bucket_unframe_def Let_def rd16_be16 subslice_def)
qed (simp add: bucket_frame_def bucket_unframe_def)

text \<open>Opening inverts sealing, for a body or behind a STUN header.\<close>

lemma open_seal_body:
  assumes "aead_ok P" and "aes_ok P" and "length tg = 4"
  shows "open_body P k h (tg @ protectCounter P h (be64 ctr) (take 16 (aead_seal P k (udpNonce ctr) p (tg @ be64 ctr))) @
           aead_seal P k (udpNonce ctr) p (tg @ be64 ctr)) = (ctr, Some p)"
proof -
  define sealed where "sealed = aead_seal P k (udpNonce ctr) p (tg @ be64 ctr)"
  define prot where "prot = protectCounter P h (be64 ctr) (take 16 sealed)"
  have l: "16 \<le> length sealed" "length prot = 8"
    using aead_okD(1) [OF assms(1)] length_protectCounter [OF assms(2)] by (simp_all add: sealed_def prot_def)
  have f: "take 4 (tg @ prot @ sealed) = tg" "subslice 4 12 (tg @ prot @ sealed) = prot"
    "subslice 12 28 (tg @ prot @ sealed) = take 16 sealed" "drop 12 (tg @ prot @ sealed) = sealed"
    using l assms(3) by (simp_all add: subslice_def)
  have "protectCounter P h prot (take 16 sealed) = be64 ctr"
    unfolding prot_def by (rule protectCounter_invol [OF assms(2)]) simp
  then show ?thesis
    unfolding sealed_def [symmetric] prot_def [symmetric] open_body_def Let_def
    using f aead_okD(2) [OF assms(1)] by (simp add: rd64_be64 sealed_def)
qed

lemma seal_datagram_stun:
  assumes "aead_ok P" and "aes_ok P" and "length tg = 4" and "length p \<le> 65000" and "mt AND 0xC000 = 0"
  shows "body_offset (seal_datagram P r k h tg ctr True mt p) = 20 \<and>
         length (seal_datagram P r k h tg ctr True mt p) = 48 + length p \<and>
         take 4 (drop 20 (seal_datagram P r k h tg ctr True mt p)) = tg \<and>
         open_body P k h (drop 20 (seal_datagram P r k h tg ctr True mt p)) = (ctr, Some p)"
proof -
  define sealed where "sealed = aead_seal P k (udpNonce ctr) p (tg @ be64 ctr)"
  define body where "body = tg @ protectCounter P h (be64 ctr) (take 16 sealed) @ sealed"
  define n where "n = (of_nat (12 + length sealed) :: u16)"
  have l: "length sealed = length p + 16" "length body = 12 + length sealed"
    using aead_okD(1) [OF assms(1)] length_protectCounter [OF assms(2)] assms(3)
    by (simp_all add: sealed_def body_def)
  have n: "unat n = length body" unfolding n_def l(2) using l(1) assms(4) by (intro unat_of_nat_small) simp
  have e: "seal_datagram P r k h tg ctr True mt p = writeSTUNHeader n mt (uTx64 r) (uTx32 r) @ body"
    unfolding seal_datagram_def Let_def using n by (simp add: sealed_def body_def n_def)
  have "open_body P k h body = (ctr, Some p)"
    unfolding body_def sealed_def by (rule open_seal_body [OF assms(1-3)])
  then show ?thesis
    unfolding e using l assms(3) STUN_recognised [OF assms(5)]
    by (simp add: body_offset_def) (simp add: body_def)
qed

text \<open>In a buffer with room for the sealed plaintext the two agree.\<close>

lemma seal_into_fits:
  assumes "aead_ok P" and "aes_ok P" and "length tg = 4" and "length p \<le> 65000"
    and "(if stun then 48 else 28) + length p \<le> length buf"
  shows "seal_into P r k h tg ctr stun mt p buf = Inr (seal_datagram P r k h tg ctr stun mt p)"
proof -
  have l: "length (aead_seal P k (udpNonce ctr) p (tg @ be64 ctr)) = length p + 16" using aead_okD(1) [OF assms(1)] by simp
  have n: "unat (of_nat (28 + length p) :: u16) = 28 + length p" using assms(4) by (intro unat_of_nat_small) simp
  show ?thesis
    using l n length_protectCounter [OF assms(2), of "be64 ctr"] assms(3,5)
    by (auto simp: seal_into_def seal_datagram_def Let_def add.commute)
qed

text \<open>The callers' buffer has that room when nothing is padded.\<close>

lemma callers_buffer_fits:
  assumes "send_required payload \<le> length buf" and "\<not> use"
  shows "48 + length (bucket_frame r use mtu trailer payload) \<le> length buf"
  using assms by (simp add: send_required_def bucket_frame_def TagSize_def)

text \<open>
  With bucket padding it need not: a payload whose plaintext is padded beyond the room of the pooled buffer
  makes the send panic.
\<close>

lemma padded_send_panics:
  assumes "aead_ok P" and "EnableSTUN ch" and "length buf < 48 + length (bucket_frame r (chUseBucketPadding ch) (chBucketMTU ch) (chMaxTrailer ch) payload)"
    and "length (bucket_frame r (chUseBucketPadding ch) (chBucketMTU ch) (chMaxTrailer ch) payload) \<le> 65000"
  shows "fst (sendWithBuffer P r ch payload buf) = Inl Panic"
proof -
  let ?p = "bucket_frame r (chUseBucketPadding ch) (chBucketMTU ch) (chMaxTrailer ch) payload"
  have l: "length (aead_seal P k (udpNonce c) ?p h) = length ?p + 16" for k c h using aead_okD(1) [OF assms(1)] by simp
  have "unat (of_nat (28 + length ?p) :: u16) = 28 + length ?p" using assms(4) by (intro unat_of_nat_small) simp
  then show ?thesis using assms(2,3) l by (simp add: sendWithBuffer_def seal_into_def Let_def add.commute)
qed

end
