(* ===== verification/Udp_Mux.thy ===== *)
theory Udp_Mux
  imports Udp_Datagram
begin

text \<open>
  \<^verbatim>\<open>obsidian/udp.go\<close>, the server side: the sharded session table, the multiplexer
  \<^verbatim>\<open>UDPMux\<close> and its sessions. A session is shared by every tag that routes to it, so
  sessions live in a store and the table holds their addresses.
\<close>

section \<open>A table of routes\<close>

text \<open>What the multiplexer relies on: a finite map from tags to sessions.\<close>

locale route_table =
  fixes lookup :: "'t \<Rightarrow> 'k \<Rightarrow> 'v option"
    and upd :: "'t \<Rightarrow> 'k \<Rightarrow> 'v \<Rightarrow> 't"
    and del :: "'t \<Rightarrow> 'k \<Rightarrow> 't"
    and wf :: "'t \<Rightarrow> bool"
    and emp :: 't
  assumes wf_emp: "wf emp"
    and wf_upd: "wf t \<Longrightarrow> wf (upd t k v)"
    and wf_del: "wf t \<Longrightarrow> wf (del t k)"
    and lookup_emp: "lookup emp k = None"
    and lookup_upd: "wf t \<Longrightarrow> lookup (upd t k v) k' = (if k' = k then Some v else lookup t k')"
    and lookup_del: "wf t \<Longrightarrow> lookup (del t k) k' = (if k' = k then None else lookup t k')"
begin

lemma routes_upd: "wf t \<Longrightarrow> {k. lookup (upd t k0 v) k \<noteq> None} = insert k0 {k. lookup t k \<noteq> None}"
  by (auto simp: lookup_upd)

lemma unrouted_del2: "wf t \<Longrightarrow> k' \<in> {a, b} \<Longrightarrow> lookup (del (del t a) b) k' = None"
  by (auto simp: lookup_del wf_del)

lemma lookup_del_Some: "wf t \<Longrightarrow> lookup (del t k) k' = Some v \<Longrightarrow> lookup t k' = Some v"
  by (simp add: lookup_del split: if_splits)

lemma lookup_upd_Some: "wf t \<Longrightarrow> lookup (upd t k v) k' = Some x \<Longrightarrow> x = v \<or> lookup t k' = Some x"
  by (auto simp: lookup_upd split: if_splits)

end

section \<open>The sharded table\<close>

definition numSessionShards :: nat where "numSessionShards = 32"

type_synonym 's SessionTable = "(bytes \<rightharpoonup> 's) list"

definition newSessionTable :: "'s SessionTable" where
  "newSessionTable = replicate numSessionShards Map.empty"

definition shardFor :: "bytes \<Rightarrow> nat" where
  "shardFor t =
     unat ((ucast (t ! 0) XOR push_bit 2 (ucast (t ! 1)) XOR push_bit 4 (ucast (t ! 2)) XOR
            push_bit 6 (ucast (t ! 3)) :: u64) mod of_nat numSessionShards)"

definition table_Get :: "'s SessionTable \<Rightarrow> bytes \<Rightarrow> 's option" where
  "table_Get st t = (st ! shardFor t) t"

definition table_Set :: "'s SessionTable \<Rightarrow> bytes \<Rightarrow> 's \<Rightarrow> 's SessionTable" where
  "table_Set st t s = st[shardFor t := (st ! shardFor t)(t \<mapsto> s)]"

definition table_Delete :: "'s SessionTable \<Rightarrow> bytes \<Rightarrow> 's SessionTable" where
  "table_Delete st t = st[shardFor t := (st ! shardFor t)(t := None)]"

definition table_wf :: "'s SessionTable \<Rightarrow> bool" where
  "table_wf st \<longleftrightarrow> length st = numSessionShards"

lemma shardFor_less: "shardFor t < 32"
proof -
  have "unat (x mod of_nat numSessionShards :: u64) = unat x mod 32" for x
    by (simp add: unat_mod numSessionShards_def)
  then show ?thesis by (simp add: shardFor_def)
qed

interpretation st: route_table table_Get table_Set table_Delete table_wf newSessionTable
  by unfold_locales
     (use shardFor_less in \<open>auto simp: table_Get_def table_Set_def table_Delete_def table_wf_def
        newSessionTable_def numSessionShards_def nth_list_update\<close>)

section \<open>Sessions\<close>

definition udpSessionQueueSize :: nat where "udpSessionQueueSize = 8192"

record UDPSession =
  sEncAEAD :: bytes
  sDecAEAD :: bytes
  sPrevDecAEAD :: "bytes option"
  sHp :: bytes
  sPrevHp :: "bytes option"
  sTag :: bytes
  sPrevTag :: bytes
  clientAddr :: "UDPAddr option"
  sSendCtr :: u64
  sReplay :: replayWindow
  sEnableSTUN :: bool
  sUseBucketPadding :: bool
  sBucketMTU :: int
  sMaxTrailer :: int
  sDataIn :: "bytes list"
  sDone :: bool

type_synonym sid = nat

record UDPMux =
  table :: "sid SessionTable"
  mruSession :: "sid option"
  store :: "sid \<rightharpoonup> UDPSession"
  nextSid :: sid

definition NewUDPMux :: UDPMux where
  "NewUDPMux = \<lparr>table = newSessionTable, mruSession = None, store = Map.empty, nextSid = 0\<rparr>"

definition new_session :: "UDPKeys \<Rightarrow> UDPSession" where
  "new_session keys =
     \<lparr>sEncAEAD = SendKey keys, sDecAEAD = RecvKey keys, sPrevDecAEAD = None, sHp = HeaderKey keys,
      sPrevHp = None, sTag = SessionTag keys, sPrevTag = replicate 4 0, clientAddr = None, sSendCtr = 0,
      sReplay = new_window, sEnableSTUN = True, sUseBucketPadding = False, sBucketMTU = 1360,
      sMaxTrailer = 0, sDataIn = [], sDone = False\<rparr>"

definition RegisterSession :: "UDPMux \<Rightarrow> UDPKeys \<Rightarrow> sid \<times> UDPMux" where
  "RegisterSession m keys =
     (let i = nextSid m; s = new_session keys
      in (i, m\<lparr>table := table_Set (table m) (sTag s) i, mruSession := Some i,
               store := (store m)(i \<mapsto> s), nextSid := i + 1\<rparr>))"

definition UnregisterSession :: "UDPMux \<Rightarrow> bytes \<Rightarrow> UDPMux" where
  "UnregisterSession m t =
     (let m1 = m\<lparr>table := table_Delete (table m) t\<rparr>
      in case mruSession m1 of
           None \<Rightarrow> m1
         | Some i \<Rightarrow> if sTag (the (store m1 i)) = t then m1\<lparr>mruSession := None\<rparr> else m1)"

definition session_RatchetEpoch :: "UDPMux \<Rightarrow> sid \<Rightarrow> UDPKeys \<Rightarrow> UDPMux" where
  "session_RatchetEpoch m i keys =
     (let s = the (store m i);
          s' = s\<lparr>sEncAEAD := SendKey keys, sHp := HeaderKey keys, sTag := SessionTag keys,
                 sPrevDecAEAD := Some (sDecAEAD s), sDecAEAD := RecvKey keys,
                 sPrevHp := Some (sHp s), sPrevTag := sTag s\<rparr>
      in m\<lparr>store := (store m)(i \<mapsto> s'), table := table_Set (table m) (sTag s') i\<rparr>)"

definition session_Close :: "UDPMux \<Rightarrow> sid \<Rightarrow> UDPMux" where
  "session_Close m i =
     (let s = the (store m i)
      in if sDone s then m
         else
           let m1 = UnregisterSession m (sTag s);
               m2 = (if sPrevTag s \<noteq> replicate 4 0 then UnregisterSession m1 (sPrevTag s) else m1)
           in m2\<lparr>store := (store m2)(i \<mapsto> s\<lparr>sDone := True\<rparr>)\<rparr>)"

text \<open>\<^verbatim>\<open>UDPSession.Send\<close>: the datagram and its destination, or an error.\<close>

definition session_Send ::
    "crypto_lib \<Rightarrow> udp_draws \<Rightarrow> UDPSession \<Rightarrow> bytes \<Rightarrow> (bytes \<times> UDPAddr) res \<times> UDPSession" where
  "session_Send P r s payload =
     (if sDone s then (Inl ErrClosedPipe, s)
      else case clientAddr s of
             None \<Rightarrow> (Inl (Errorf ''client address not yet known''), s)
           | Some addr \<Rightarrow>
               (Inr (seal_datagram P r (sEncAEAD s) (sHp s) (sTag s) (sSendCtr s) (sEnableSTUN s) 0x0101
                       (bucket_frame r (sUseBucketPadding s) (sBucketMTU s) (sMaxTrailer s) payload), addr),
                s\<lparr>sSendCtr := sSendCtr s + 1\<rparr>))"

definition session_Recv :: "bool \<Rightarrow> UDPSession \<Rightarrow> (bytes res \<times> UDPSession) option" where
  "session_Recv prefer_data s =
     (if sDone s \<and> (\<not> prefer_data \<or> sDataIn s = []) then Some (Inl ErrEOF, s)
      else case sDataIn s of [] \<Rightarrow> None | p # q \<Rightarrow> Some (Inr p, s\<lparr>sDataIn := q\<rparr>))"

text \<open>
  \<^verbatim>\<open>RecvBatch\<close>: one blocking receive, then whatever is queued. Where the queue and the
  done channel are both ready the select takes the queue if the choice for that receive says so.
\<close>

fun drain :: "(nat \<Rightarrow> bool) \<Rightarrow> UDPSession \<Rightarrow> nat \<Rightarrow> bytes list \<times> UDPSession" where
  "drain pref s 0 = ([], s)"
| "drain pref s (Suc n) =
     (case sDataIn s of
        [] \<Rightarrow> ([], s)
      | p # q \<Rightarrow>
          if sDone s \<and> \<not> pref n then ([], s)
          else let (ps, s') = drain pref (s\<lparr>sDataIn := q\<rparr>) n in (p # ps, s'))"

definition RecvBatch :: "(nat \<Rightarrow> bool) \<Rightarrow> UDPSession \<Rightarrow> nat \<Rightarrow> (bytes list res \<times> UDPSession) option" where
  "RecvBatch pref s n =
     (if n = 0 then Some (Inr [], s)
      else case session_Recv (pref n) s of
             None \<Rightarrow> None
           | Some (Inl e, s1) \<Rightarrow> Some (Inl e, s1)
           | Some (Inr p, s1) \<Rightarrow> let (ps, s2) = drain pref s1 (n - 1) in Some (Inr (p # ps), s2))"

lemma drain_prefix: "drain pref s n = (ps, s') \<Longrightarrow> sDataIn s = ps @ sDataIn s' \<and> length ps \<le> n"
  by (induction pref s n arbitrary: ps s' rule: drain.induct)
     (auto split: list.splits if_splits prod.splits)

lemma drain_open: "\<not> sDone s \<Longrightarrow> drain pref s n = (take n (sDataIn s), s\<lparr>sDataIn := drop n (sDataIn s)\<rparr>)"
  by (induction pref s n rule: drain.induct) (auto split: list.splits)

text \<open>A batch is an initial part of the queue, at least one packet and at most as many as asked.\<close>

lemma RecvBatch_in_order:
  assumes "RecvBatch pref s n = Some (Inr ps, s')" and "n \<noteq> 0"
  shows "ps \<noteq> [] \<and> length ps \<le> n \<and> sDataIn s = ps @ sDataIn s'"
  using assms drain_prefix
  by (fastforce simp: RecvBatch_def session_Recv_def split: option.splits sum.splits prod.splits if_splits list.splits)

section \<open>Dispatching a datagram\<close>

text \<open>Steps 1 and 2 of \<^verbatim>\<open>runOnConn\<close>: the session of a tag, whether the tag is that of
  the previous epoch, and the multiplexer with its most recently used session updated.\<close>

definition find_session :: "UDPMux \<Rightarrow> bytes \<Rightarrow> (sid \<times> bool) option \<times> UDPMux" where
  "find_session m t =
     (let via_mru =
        (case mruSession m of
           None \<Rightarrow> None
         | Some i \<Rightarrow>
             let s = the (store m i)
             in if sTag s = t then Some (i, False)
                else if sPrevDecAEAD s \<noteq> None \<and> sPrevTag s = t then Some (i, True)
                else None)
      in case via_mru of
           Some x \<Rightarrow> (Some x, m)
         | None \<Rightarrow>
             (case table_Get (table m) t of
                None \<Rightarrow> (None, m)
              | Some i \<Rightarrow>
                  let s = the (store m i)
                  in (Some (i, sTag s \<noteq> t \<and> sPrevTag s = t), m\<lparr>mruSession := Some i\<rparr>)))"

text \<open>The rest of the loop body for the session found: the datagram echoed, if any, and the
  session after it. The outer \<open>None\<close> is the replay check that does not return.\<close>

definition session_receive ::
    "crypto_lib \<Rightarrow> udp_draws \<Rightarrow> UDPAddr \<Rightarrow> UDPSession \<Rightarrow> bool \<Rightarrow> bytes
       \<Rightarrow> ((bytes \<times> UDPAddr) option \<times> UDPSession) option" where
  "session_receive P r addr s isPrevTag packetData =
     (let dec = (if isPrevTag \<and> sPrevDecAEAD s \<noteq> None then the (sPrevDecAEAD s) else sDecAEAD s);
          h = (if isPrevTag \<and> sPrevHp s \<noteq> None then the (sPrevHp s) else sHp s)
      in case open_body P dec h packetData of
           (ctr, None) \<Rightarrow> Some (None, s)
         | (ctr, Some plain) \<Rightarrow>
             (case Check (sReplay s) ctr of
                None \<Rightarrow> None
              | Some (False, w) \<Rightarrow> Some (None, s\<lparr>sReplay := w\<rparr>)
              | Some (True, w) \<Rightarrow>
                  let s1 = s\<lparr>sReplay := w, clientAddr := Some addr\<rparr>;
                      actual = bucket_unframe (sUseBucketPadding s) plain
                  in if actual = [] then
                       (case session_Send P r s1 [] of
                          (Inl e, s2) \<Rightarrow> Some (None, s2)
                        | (Inr d, s2) \<Rightarrow> Some (Some d, s2))
                     else if length (sDataIn s1) < udpSessionQueueSize
                     then Some (None, s1\<lparr>sDataIn := sDataIn s1 @ [actual]\<rparr>)
                     else Some (None, s1)))"

definition mux_dispatch ::
    "crypto_lib \<Rightarrow> udp_draws \<Rightarrow> UDPMux \<Rightarrow> UDPAddr \<Rightarrow> bytes \<Rightarrow> ((bytes \<times> UDPAddr) option \<times> UDPMux) option" where
  "mux_dispatch P r m addr dgram =
     (let offset = body_offset dgram
      in if length dgram - offset < UDPHeaderSize + TagSize then Some (None, m)
         else
           let packetData = drop offset dgram
           in case find_session m (take UDPTagSize packetData) of
                (None, m1) \<Rightarrow> Some (None, m1)
              | (Some (i, isPrevTag), m1) \<Rightarrow>
                  (case session_receive P r addr (the (store m1 i)) isPrevTag packetData of
                     None \<Rightarrow> None
                   | Some (echo, s') \<Rightarrow> Some (echo, m1\<lparr>store := (store m1)(i \<mapsto> s')\<rparr>)))"

section \<open>Invariant\<close>



definition mux_inv :: "UDPMux \<Rightarrow> bool" where
  "mux_inv m \<longleftrightarrow> table_wf (table m) \<and>
     (\<forall>t i. table_Get (table m) t = Some i \<longrightarrow> store m i \<noteq> None) \<and>
     (\<forall>i. mruSession m = Some i \<longrightarrow> store m i \<noteq> None) \<and>
     (\<forall>i. store m i \<noteq> None \<longrightarrow> i < nextSid m)"



lemma mux_inv_register: "mux_inv m \<Longrightarrow> mux_inv (snd (RegisterSession m keys))"
  by (auto simp: mux_inv_def RegisterSession_def Let_def st.wf_upd st.lookup_upd less_Suc_eq)


lemma store_unregister [simp]: "store (UnregisterSession m t) = store m"
  by (simp add: UnregisterSession_def Let_def split: option.splits)

lemma table_unregister [simp]: "table (UnregisterSession m t) = table_Delete (table m) t"
  by (simp add: UnregisterSession_def Let_def split: option.splits)














lemma mux_inv_new: "mux_inv NewUDPMux"
  by (simp add: mux_inv_def NewUDPMux_def st.wf_emp st.lookup_emp)

section \<open>A datagram reaches its session\<close>

text \<open>Routing is unambiguous for a tag when its table entry, if the most recently used
  session claims the tag, is that session.\<close>

definition routes_to :: "UDPMux \<Rightarrow> bytes \<Rightarrow> sid \<Rightarrow> UDPSession \<Rightarrow> bool \<Rightarrow> bool" where
  "routes_to m t i s isPrev \<longleftrightarrow>
     store m i = Some s \<and> table_Get (table m) t = Some i \<and>
     (if isPrev then sTag s \<noteq> t \<and> sPrevTag s = t \<and> sPrevDecAEAD s \<noteq> None else sTag s = t) \<and>
     (\<forall>j u. mruSession m = Some j \<longrightarrow> store m j = Some u \<longrightarrow> j = i \<or> (sTag u \<noteq> t \<and> sPrevTag u \<noteq> t)) \<and>
     (\<forall>j. mruSession m = Some j \<longrightarrow> store m j \<noteq> None)"

lemma find_session_routes:
  assumes "routes_to m t i s b"
  shows "\<exists>m1. find_session m t = (Some (i, b), m1) \<and> store m1 = store m \<and>
     table m1 = table m \<and> (mruSession m1 = Some i \<or> mruSession m1 = mruSession m)"
proof -
  have r: "store m i = Some s" "table_Get (table m) t = Some i"
    "if b then sTag s \<noteq> t \<and> sPrevTag s = t \<and> sPrevDecAEAD s \<noteq> None else sTag s = t"
    using assms by (simp_all add: routes_to_def)
  show ?thesis
  proof (cases "mruSession m")
    case None
    with r show ?thesis by (cases b) (simp_all add: find_session_def Let_def)
  next
    case (Some j)
    then obtain u where u: "store m j = Some u" "j = i \<or> (sTag u \<noteq> t \<and> sPrevTag u \<noteq> t)"
      using assms unfolding routes_to_def by blast
    show ?thesis
    proof (cases "j = i")
      case True
      with r u Some show ?thesis by (cases b) (simp_all add: find_session_def Let_def)
    next
      case False
      with r u Some show ?thesis by (cases b) (simp_all add: find_session_def Let_def)
    qed
  qed
qed

lemma routes_to_after:
  assumes "routes_to m t i s b" and "store m1 = store m" and "table m1 = table m"
    and "mruSession m1 = Some i \<or> mruSession m1 = mruSession m"
    and "sTag s' = sTag s" and "sPrevTag s' = sPrevTag s" and "sPrevDecAEAD s' = sPrevDecAEAD s"
  shows "routes_to (m1\<lparr>store := (store m1)(i \<mapsto> s')\<rparr>) t i s' b"
  using assms(4)
proof
  assume "mruSession m1 = Some i"
  with assms(1,2,3,5,6,7) show ?thesis by (simp add: routes_to_def)
next
  assume e: "mruSession m1 = mruSession m"
  from assms(1,2,3,5,6,7) show ?thesis by (simp add: routes_to_def e) blast
qed

definition dec_of :: "UDPSession \<Rightarrow> bool \<Rightarrow> bytes" where
  "dec_of s isPrev = (if isPrev \<and> sPrevDecAEAD s \<noteq> None then the (sPrevDecAEAD s) else sDecAEAD s)"

definition hp_of :: "UDPSession \<Rightarrow> bool \<Rightarrow> bytes" where
  "hp_of s isPrev = (if isPrev \<and> sPrevHp s \<noteq> None then the (sPrevHp s) else sHp s)"

lemma epoch_keys_update [simp]:
  "dec_of (s\<lparr>sReplay := w, clientAddr := ad, sDataIn := q\<rparr>) b = dec_of s b"
  "hp_of (s\<lparr>sReplay := w, clientAddr := ad, sDataIn := q\<rparr>) b = hp_of s b"
  by (auto simp: dec_of_def hp_of_def)

lemma session_receive_fresh:
  assumes "open_body P (dec_of s b) (hp_of s b) pd = (ctr, Some plain)"
    and "window_rel (sReplay s) a" and "ctr \<noteq> - 1" and "spec_accepts a (unat ctr)"
    and "bucket_unframe (sUseBucketPadding s) plain = payload" and "payload \<noteq> []"
    and "length (sDataIn s) < 8192"
  obtains w where "session_receive P r addr s b pd =
      Some (None, s\<lparr>sReplay := w, clientAddr := Some addr, sDataIn := sDataIn s @ [payload]\<rparr>)"
    and "window_rel w (max (fst a) (unat ctr), insert (unat ctr) (snd a))"
proof -
  have sc: "spec_check a (unat ctr) = (True, (max (fst a) (unat ctr), insert (unat ctr) (snd a)))"
    using assms(4) by (simp add: spec_check_def)
  obtain w where w: "Check (sReplay s) ctr = Some (True, w)"
      "window_rel w (max (fst a) (unat ctr), insert (unat ctr) (snd a))"
    using Check_refines [OF assms(2,3)] unfolding sc by auto
  have "session_receive P r addr s b pd =
      Some (None, s\<lparr>sReplay := w, clientAddr := Some addr, sDataIn := sDataIn s @ [payload]\<rparr>)"
    using assms(1,5,6,7) w(1)
    unfolding session_receive_def Let_def dec_of_def [symmetric] hp_of_def [symmetric]
    by (simp add: udpSessionQueueSize_def)
  then show thesis using w(2) by (rule that)
qed

lemma session_receive_replayed:
  assumes "open_body P (dec_of s b) (hp_of s b) pd = (ctr, Some plain)"
    and "window_rel (sReplay s) a" and "ctr \<noteq> - 1" and "unat ctr \<in> snd a"
  shows "\<exists>w. session_receive P r addr s b pd = Some (None, s\<lparr>sReplay := w\<rparr>)"
proof -
  have "snd a \<subseteq> {..fst a}" using assms(2) unfolding window_rel_def by blast
  then have sc: "spec_check a (unat ctr) = (False, a)"
    using assms(4) by (auto simp: spec_check_def spec_accepts_def)
  obtain w where "Check (sReplay s) ctr = Some (False, w)"
    using Check_refines [OF assms(2,3)] unfolding sc by auto
  with assms(1) show ?thesis
    unfolding session_receive_def Let_def dec_of_def [symmetric] hp_of_def [symmetric]
    by (intro exI [of _ w]) simp
qed

lemma mux_dispatch_routed:
  assumes "routes_to m (take 4 (drop (body_offset d) d)) i s b" and "28 \<le> length d - body_offset d"
    and "session_receive P r addr s b (drop (body_offset d) d) = Some (echo, s')"
  shows "\<exists>m1. mux_dispatch P r m addr d = Some (echo, m1\<lparr>store := (store m1)(i \<mapsto> s')\<rparr>) \<and>
           store m1 = store m \<and> table m1 = table m \<and> (mruSession m1 = Some i \<or> mruSession m1 = mruSession m)"
proof -
  obtain m1 where f: "find_session m (take 4 (drop (body_offset d) d)) = (Some (i, b), m1)" "store m1 = store m"
      "table m1 = table m" "mruSession m1 = Some i \<or> mruSession m1 = mruSession m"
    using find_session_routes [OF assms(1)] by blast
  have "store m i = Some s" using assms(1) by (simp add: routes_to_def)
  with f assms(2,3) show ?thesis
    by (intro exI [of _ m1]) (simp add: mux_dispatch_def Let_def)
qed

section \<open>Client and server channels\<close>

text \<open>The session holds, in the epoch given, the keys the channel sends with.\<close>

definition keyed :: "UDPChannel \<Rightarrow> UDPSession \<Rightarrow> bool \<Rightarrow> bool" where
  "keyed ch s isPrev \<longleftrightarrow>
     length (tag ch) = 4 \<and> EnableSTUN ch \<and> chUseBucketPadding ch = sUseBucketPadding s \<and>
     dec_of s isPrev = encAEAD ch \<and> hp_of s isPrev = hp ch"

definition bucket_fits :: "udp_draws \<Rightarrow> bool \<Rightarrow> int \<Rightarrow> int \<Rightarrow> bytes \<Rightarrow> bool" where
  "bucket_fits r use mtu trailer payload \<longleftrightarrow>
     use \<longrightarrow> 2 + int (length payload) +
       CalculateBucketPaddingWithTrailer (uTrailer r) (2 + int (length payload)) mtu trailer \<le> 2048"

lemma length_bucket_frame:
  "length payload \<le> 60000 \<Longrightarrow> length (bucket_frame r use mtu trailer payload) \<le> 65000"
  using CalculateBucketPadding_nonneg [of "uTrailer r" "2 + int (length payload)" mtu trailer]
  by (auto simp: bucket_frame_def Let_def)

lemma sent_datagram:
  assumes "aead_ok P" and "aes_ok P" and "keyed ch s b" and "length payload \<le> 60000"
    and "sendWithBuffer P r ch payload buf = (Inr (d, dst), ch')"
  shows "body_offset d = 20" and "28 \<le> length d - body_offset d" and "take 4 (drop (body_offset d) d) = tag ch"
    and "open_body P (dec_of s b) (hp_of s b) (drop (body_offset d) d) =
           (sendCtr ch, Some (bucket_frame r (chUseBucketPadding ch) (chBucketMTU ch) (chMaxTrailer ch) payload))"
proof -
  let ?p = "bucket_frame r (chUseBucketPadding ch) (chBucketMTU ch) (chMaxTrailer ch) payload"
  have k: "length (tag ch) = 4" "EnableSTUN ch" "dec_of s b = encAEAD ch" "hp_of s b = hp ch"
    using assms(3) by (simp_all add: keyed_def)
  have l: "length ?p \<le> 65000" by (rule length_bucket_frame [OF assms(4)])
  then have "48 + length ?p \<le> length buf"
    using padded_send_panics [OF assms(1) k(2), of buf r payload] assms(5) by fastforce
  then have d: "d = seal_datagram P r (encAEAD ch) (hp ch) (tag ch) (sendCtr ch) True 0x0001 ?p"
    using assms(5) k(2) seal_into_fits [OF assms(1,2) k(1) l, where stun = True and buf = buf] by (simp add: sendWithBuffer_def)
  show "body_offset d = 20" "28 \<le> length d - body_offset d" "take 4 (drop (body_offset d) d) = tag ch"
    and "open_body P (dec_of s b) (hp_of s b) (drop (body_offset d) d) = (sendCtr ch, Some ?p)"
    using seal_datagram_stun [OF assms(1,2) k(1) l, where mt = 1 and r = r]
    unfolding d k(3,4) by simp_all
qed

lemma buffer_suffices:
  assumes "aead_ok P" and "aes_ok P" and "keyed ch s b" and "length payload \<le> 60000"
    and "48 + length (bucket_frame r (chUseBucketPadding ch) (chBucketMTU ch) (chMaxTrailer ch) payload) \<le> length buf"
  obtains d ch' where "sendWithBuffer P r ch payload buf = (Inr (d, destAddr ch), ch')" and "sendCtr ch' = sendCtr ch + 1"
proof -
  have k: "length (tag ch) = 4" "EnableSTUN ch" using assms(3) by (simp_all add: keyed_def)
  from that k(2) assms(5) seal_into_fits [OF assms(1,2) k(1) length_bucket_frame [OF assms(4)], where stun = True and buf = buf]
  show thesis by (simp add: sendWithBuffer_def)
qed

lemma dispatch_sent:
  assumes "aead_ok P" and "aes_ok P" and "keyed ch s b" and "payload \<noteq> []" and "length payload \<le> 60000"
    and "bucket_fits r (chUseBucketPadding ch) (chBucketMTU ch) (chMaxTrailer ch) payload"
    and "routes_to m (tag ch) i s b"
    and "window_rel (sReplay s) a" and "sendCtr ch \<noteq> - 1" and "spec_accepts a (unat (sendCtr ch))"
    and "length (sDataIn s) < 8192" and "sendWithBuffer P r ch payload buf = (Inr (d, dst), ch')"
  obtains m' s' where "mux_dispatch P r' m addr d = Some (None, m')" "store m' i = Some s'"
    "sDataIn s' = sDataIn s @ [payload]" "clientAddr s' = Some addr" "routes_to m' (tag ch) i s' b" "keyed ch s' b"
    "window_rel (sReplay s') (max (fst a) (unat (sendCtr ch)), insert (unat (sendCtr ch)) (snd a))"
proof -
  note f = sent_datagram [OF assms(1-3,5,12)]
  have u: "bucket_unframe (sUseBucketPadding s)
      (bucket_frame r (chUseBucketPadding ch) (chBucketMTU ch) (chMaxTrailer ch) payload) = payload"
    using bucket_round_trip [OF assms(4), of r "chBucketMTU ch" "chMaxTrailer ch" "chUseBucketPadding ch"] assms(3,6)
    by (auto simp: bucket_fits_def keyed_def)
  obtain w where r: "session_receive P r' addr s b (drop (body_offset d) d) =
      Some (None, s\<lparr>sReplay := w, clientAddr := Some addr, sDataIn := sDataIn s @ [payload]\<rparr>)"
    and w: "window_rel w (max (fst a) (unat (sendCtr ch)), insert (unat (sendCtr ch)) (snd a))"
    by (rule session_receive_fresh [OF f(4) assms(8,9,10) u assms(4,11)])
  let ?s' = "s\<lparr>sReplay := w, clientAddr := Some addr, sDataIn := sDataIn s @ [payload]\<rparr>"
  obtain m1 where m1: "mux_dispatch P r' m addr d = Some (None, m1\<lparr>store := (store m1)(i \<mapsto> ?s')\<rparr>)"
      "store m1 = store m" "table m1 = table m" "mruSession m1 = Some i \<or> mruSession m1 = mruSession m"
    using mux_dispatch_routed [OF _ f(2) r] assms(7) unfolding f(3) by blast
  have "routes_to (m1\<lparr>store := (store m1)(i \<mapsto> ?s')\<rparr>) (tag ch) i ?s' b"
    by (rule routes_to_after [OF assms(7) m1(2-4)]) simp_all
  moreover have "keyed ch ?s' b" using assms(3) by (simp add: keyed_def)
  ultimately show thesis using m1(1) w by (intro that [of _ ?s']) simp_all
qed

lemma dispatch_replayed:
  assumes "aead_ok P" and "aes_ok P" and "keyed ch s b" and "length payload \<le> 60000"
    and "routes_to m (tag ch) i s b" and "window_rel (sReplay s) a" and "sendCtr ch \<noteq> - 1"
    and "unat (sendCtr ch) \<in> snd a" and "sendWithBuffer P r ch payload buf = (Inr (d, dst), ch')"
  obtains m' s' where "mux_dispatch P r' m addr d = Some (None, m')" "store m' i = Some s'"
    "sDataIn s' = sDataIn s" "clientAddr s' = clientAddr s"
proof -
  note f = sent_datagram [OF assms(1-4,9)]
  obtain w where r: "session_receive P r' addr s b (drop (body_offset d) d) = Some (None, s\<lparr>sReplay := w\<rparr>)"
    using session_receive_replayed [OF f(4) assms(6-8)] by blast
  obtain m1 where "mux_dispatch P r' m addr d = Some (None, m1\<lparr>store := (store m1)(i \<mapsto> s\<lparr>sReplay := w\<rparr>)\<rparr>)"
    using mux_dispatch_routed [OF _ f(2) r] assms(5) unfolding f(3) by blast
  then show thesis by (rule that [where s' = "s\<lparr>sReplay := w\<rparr>"]) simp_all
qed

text \<open>A client and a server that derive their UDP keys from the same session keys.\<close>

lemma fresh_pair:
  fixes P :: crypto_lib and m :: UDPMux and sk :: SessionKeys and remote :: "UDPAddr option"
  assumes "mux_inv m" and "keys_wf sk"
  defines "ks \<equiv> DeriveUDPKeys P sk False" and "ch \<equiv> NewUDPChannel remote (DeriveUDPKeys P sk True)"
  shows "routes_to (snd (RegisterSession m ks)) (tag ch) (fst (RegisterSession m ks)) (new_session ks) False"
    and "keyed ch (new_session ks) False"
proof -
  have "table_wf (table m)" using assms(1) by (simp add: mux_inv_def)
  then show "routes_to (snd (RegisterSession m ks)) (tag ch) (fst (RegisterSession m ks)) (new_session ks) False"
    by (simp add: routes_to_def RegisterSession_def Let_def ks_def ch_def NewUDPChannel_def new_session_def
        DeriveUDPKeys_def st.lookup_upd)
  have "length (SessionID sk) = 16" using assms(2) by (simp add: keys_wf_def)
  then show "keyed ch (new_session ks) False"
    by (simp add: keyed_def ks_def ch_def NewUDPChannel_def new_session_def DeriveUDPKeys_def Let_def
        dec_of_def hp_of_def)
qed

text \<open>Rekeying: the old tag keeps routing, with the keys of the old epoch.\<close>

lemma ratchet_routes:
  fixes m :: UDPMux and i :: sid and keys :: UDPKeys
  assumes inv: "mux_inv m" and r: "routes_to m t i s False" and "SessionTag keys \<noteq> t"
    and free: "\<forall>j u. mruSession m = Some j \<longrightarrow> store m j = Some u \<longrightarrow> j = i \<or>
                 (sTag u \<noteq> SessionTag keys \<and> sPrevTag u \<noteq> SessionTag keys)"
  defines "m' \<equiv> session_RatchetEpoch m i keys"
  shows "\<exists>s'. routes_to m' t i s' True \<and> routes_to m' (SessionTag keys) i s' False \<and>
              sReplay s' = sReplay s \<and> sDataIn s' = sDataIn s \<and> sUseBucketPadding s' = sUseBucketPadding s \<and>
              dec_of s' True = dec_of s False \<and> hp_of s' True = hp_of s False \<and>
              dec_of s' False = RecvKey keys \<and> hp_of s' False = HeaderKey keys"
proof -
  let ?s' = "s\<lparr>sEncAEAD := SendKey keys, sHp := HeaderKey keys, sTag := SessionTag keys,
                 sPrevDecAEAD := Some (sDecAEAD s), sDecAEAD := RecvKey keys,
                 sPrevHp := Some (sHp s), sPrevTag := sTag s\<rparr>"
  have s: "store m i = Some s" "sTag s = t" "table_wf (table m)"
    using r inv by (simp_all add: routes_to_def mux_inv_def)
  then have m': "m' = m\<lparr>store := (store m)(i \<mapsto> ?s'), table := table_Set (table m) (SessionTag keys) i\<rparr>"
    by (simp add: m'_def session_RatchetEpoch_def Let_def)
  have mru: "\<forall>j. mruSession m = Some j \<longrightarrow> j \<noteq> i \<longrightarrow> (\<exists>u. store m j = Some u \<and> sTag u \<noteq> t \<and> sPrevTag u \<noteq> t \<and>
      sTag u \<noteq> SessionTag keys \<and> sPrevTag u \<noteq> SessionTag keys)"
    using r free unfolding routes_to_def by blast
  have "routes_to m' t i ?s' True" "routes_to m' (SessionTag keys) i ?s' False"
    using s r assms(3) mru unfolding m' routes_to_def
    by (auto simp: st.lookup_upd)
  then show ?thesis by (intro exI [of _ ?s']) (auto simp: dec_of_def hp_of_def)
qed

section \<open>Properties\<close>

text \<open>
  Property C7. A datagram is delivered exactly once: what a client channel sends (behind its
  STUN header, with or without bucket padding, in the current or in the previous epoch of the
  session) is routed by its tag, decrypted and queued for the session with the payload intact,
  and the session learns the sender's address; the same datagram presented again, from any
  address, changes neither the queue nor the address. The scratch buffer has room for the sealed plaintext: the
  callers see to it for the payload itself, while padding beyond their buffer makes the send panic.
\<close>
theorem udp_delivers_exactly_once:
  assumes "aead_ok P" and "aes_ok P" and "keyed ch s b" and "payload \<noteq> []" and "length payload \<le> 60000"
    and "bucket_fits r (chUseBucketPadding ch) (chBucketMTU ch) (chMaxTrailer ch) payload"
    and "routes_to m (tag ch) i s b"
    and "window_rel (sReplay s) a" and "sendCtr ch \<noteq> - 1" and "spec_accepts a (unat (sendCtr ch))"
    and "length (sDataIn s) < 8192"
    and "48 + length (bucket_frame r (chUseBucketPadding ch) (chBucketMTU ch) (chMaxTrailer ch) payload) \<le> length buf"
  shows "\<exists>d dst ch' m1 s1 m2 s2. sendWithBuffer P r ch payload buf = (Inr (d, dst), ch') \<and>
           sendCtr ch' = sendCtr ch + 1 \<and>
           mux_dispatch P r1 m addr d = Some (None, m1) \<and> store m1 i = Some s1 \<and>
           sDataIn s1 = sDataIn s @ [payload] \<and> clientAddr s1 = Some addr \<and>
           mux_dispatch P r2 m1 addr' d = Some (None, m2) \<and> store m2 i = Some s2 \<and>
           sDataIn s2 = sDataIn s1 \<and> clientAddr s2 = Some addr"
proof -
  obtain d dst ch' where d: "sendWithBuffer P r ch payload buf = (Inr (d, dst), ch')" and c: "sendCtr ch' = sendCtr ch + 1"
    using buffer_suffices [OF assms(1-3,5,12)] by metis
  obtain m1 s1 where 1: "mux_dispatch P r1 m addr d = Some (None, m1)" "store m1 i = Some s1"
    "sDataIn s1 = sDataIn s @ [payload]" "clientAddr s1 = Some addr" and r: "routes_to m1 (tag ch) i s1 b"
    and k: "keyed ch s1 b"
    and w: "window_rel (sReplay s1) (max (fst a) (unat (sendCtr ch)), insert (unat (sendCtr ch)) (snd a))"
    by (rule dispatch_sent [OF assms(1-11) d])
  obtain m2 s2 where "mux_dispatch P r2 m1 addr' d = Some (None, m2)" "store m2 i = Some s2"
      "sDataIn s2 = sDataIn s1" "clientAddr s2 = clientAddr s1"
    by (rule dispatch_replayed [OF assms(1,2) k assms(5) r w assms(9) _ d]) simp
  with d c 1 show ?thesis by (intro exI conjI) (assumption | simp)+
qed


text \<open>
  Fact. The sharded table is a map: whatever shard a tag falls into, a lookup returns
  what was last stored under the tag and deleting a tag affects no other tag.
\<close>
theorem session_table_is_map:
  assumes "table_wf st"
  shows "table_Get (table_Set st t s) t' = (if t' = t then Some s else table_Get st t') \<and>
         table_Get (table_Delete st t) t' = (if t' = t then None else table_Get st t') \<and>
         table_Get newSessionTable t' = (None :: 'a option) \<and>
         table_wf (table_Set st t s) \<and> table_wf (table_Delete st t)"
  using assms by (simp add: st.lookup_upd st.lookup_del st.lookup_emp st.wf_upd st.wf_del)

text \<open>
  Fact. Rekeying loses nothing in flight: after \<^verbatim>\<open>RatchetEpoch\<close> on the server a
  datagram the client sealed with the old keys still reaches the session and is queued, and
  so is the first datagram of a client that has rekeyed too.
\<close>
theorem ratchet_keeps_old_epoch:
  assumes "aead_ok P" and "aes_ok P" and "mux_inv m" and "routes_to m (tag ch) i s False" and "keyed ch s False"
    and "SessionTag sk \<noteq> tag ch" and "length (SessionTag sk) = 4"
    and "SendKey ck = RecvKey sk" and "HeaderKey ck = HeaderKey sk" and "SessionTag ck = SessionTag sk"
    and "\<forall>j u. mruSession m = Some j \<longrightarrow> store m j = Some u \<longrightarrow> j = i \<or>
           (sTag u \<noteq> SessionTag sk \<and> sPrevTag u \<noteq> SessionTag sk)"
    and "\<not> chUseBucketPadding ch" and "payload \<noteq> []" and "length payload \<le> 60000"
    and "window_rel (sReplay s) a" and "sendCtr ch \<noteq> - 1" and "spec_accepts a (unat (sendCtr ch))"
    and "length (sDataIn s) < 8192" and "send_required payload \<le> length buf"
  shows "(\<exists>d dst c1 m1 s1. sendWithBuffer P r ch payload buf = (Inr (d, dst), c1) \<and>
            mux_dispatch P r1 (session_RatchetEpoch m i sk) addr d = Some (None, m1) \<and>
            store m1 i = Some s1 \<and> sDataIn s1 = sDataIn s @ [payload]) \<and>
         (\<exists>d dst c1 m1 s1. sendWithBuffer P r (channel_RatchetEpoch ch ck) payload buf = (Inr (d, dst), c1) \<and>
            mux_dispatch P r1 (session_RatchetEpoch m i sk) addr d = Some (None, m1) \<and>
            store m1 i = Some s1 \<and> sDataIn s1 = sDataIn s @ [payload])"
proof -
  obtain s' where s': "routes_to (session_RatchetEpoch m i sk) (tag ch) i s' True"
      "routes_to (session_RatchetEpoch m i sk) (SessionTag sk) i s' False"
      "sReplay s' = sReplay s" "sDataIn s' = sDataIn s" "sUseBucketPadding s' = sUseBucketPadding s"
      "dec_of s' True = dec_of s False" "hp_of s' True = hp_of s False"
      "dec_of s' False = RecvKey sk" "hp_of s' False = HeaderKey sk"
    using ratchet_routes [OF assms(3,4,6,11)] by blast
  let ?ch = "channel_RatchetEpoch ch ck"
  have k: "keyed ch s' True" "keyed ?ch s' False"
    using assms(5,7-10) s' by (simp_all add: keyed_def channel_RatchetEpoch_def)
  have c: "sendCtr ?ch = sendCtr ch" "tag ?ch = SessionTag sk" "chUseBucketPadding ?ch = chUseBucketPadding ch"
    using assms(10) by (simp_all add: channel_RatchetEpoch_def)
  have w: "window_rel (sReplay s') a" "length (sDataIn s') < 8192" using assms(15,18) s' by simp_all
  have b: "bucket_fits r (chUseBucketPadding ch) (chBucketMTU ch) (chMaxTrailer ch) payload"
    "bucket_fits r (chUseBucketPadding ?ch) (chBucketMTU ?ch) (chMaxTrailer ?ch) payload"
    using assms(12) by (simp_all add: bucket_fits_def c)
  obtain d dst c1 where d: "sendWithBuffer P r ch payload buf = (Inr (d, dst), c1)"
    using buffer_suffices [OF assms(1,2) k(1) assms(14) callers_buffer_fits [OF assms(19)]] assms(12) by metis
  obtain d' dst' c1' where d': "sendWithBuffer P r ?ch payload buf = (Inr (d', dst'), c1')"
    using buffer_suffices [OF assms(1,2) k(2) assms(14) callers_buffer_fits [OF assms(19)]] assms(12) c(3) by metis
  obtain m1 s1 where 1: "mux_dispatch P r1 (session_RatchetEpoch m i sk) addr d = Some (None, m1)" "store m1 i = Some s1"
      "sDataIn s1 = sDataIn s' @ [payload]"
    by (rule dispatch_sent [OF assms(1,2) k(1) assms(13,14) b(1) s'(1) w(1) assms(16,17) w(2) d])
  obtain m2 s2 where 2: "mux_dispatch P r1 (session_RatchetEpoch m i sk) addr d' = Some (None, m2)" "store m2 i = Some s2"
      "sDataIn s2 = sDataIn s' @ [payload]"
    by (rule dispatch_sent [OF assms(1,2) k(2) assms(13,14) b(2) _ w(1) _ _ w(2) d']) (use c s' assms in simp_all)
  show ?thesis using d d' 1 2 s'(4) by auto
qed

text \<open>
  Fact. Closing a session removes the routes of its current and of its previous tag.
  A session that has rekeyed twice leaves its oldest tag in the table for good, still leading
  to the closed session.
\<close>
theorem close_unroutes_last_two_tags:
  assumes "mux_inv m" and "store m i = Some s" and "\<not> sDone s"
  shows "table_Get (table (session_Close m i)) (sTag s) = None \<and>
         (sPrevTag s \<noteq> replicate 4 0 \<longrightarrow> table_Get (table (session_Close m i)) (sPrevTag s) = None) \<and>
         (\<forall>t. t \<noteq> sTag s \<longrightarrow> t \<noteq> sPrevTag s \<longrightarrow> table_Get (table (session_Close m i)) t = table_Get (table m) t) \<and>
         (\<exists>s'. store (session_Close m i) i = Some s' \<and> sDone s')"
proof -
  have "table_wf (table m)" using assms(1) by (simp add: mux_inv_def)
  with assms(2,3) show ?thesis
    by (auto simp: session_Close_def Let_def st.lookup_del st.wf_del)
qed

theorem close_unroutes_last_two_tags_witness:
  "table_Get (table (session_Close (snd (RegisterSession NewUDPMux
      \<lparr>SendKey = [1], RecvKey = [2], HeaderKey = [3], SessionTag = [1, 2, 3, 4]\<rparr>)) 0)) [1, 2, 3, 4] = None"
proof -
  let ?k = "\<lparr>SendKey = [1], RecvKey = [2], HeaderKey = [3], SessionTag = [1, 2, 3, 4]\<rparr>"
  have s: "store (snd (RegisterSession NewUDPMux ?k)) 0 = Some (new_session ?k)" "\<not> sDone (new_session ?k)"
    "sTag (new_session ?k) = [1, 2, 3, 4]"
    by (simp_all add: RegisterSession_def NewUDPMux_def new_session_def)
  show ?thesis
    using close_unroutes_last_two_tags [OF mux_inv_register [OF mux_inv_new] s(1,2)] unfolding s(3) by blast
qed

section \<open>Witnesses\<close>

definition ex_keys :: SessionKeys where
  "ex_keys = DeriveKeys toy_lib [1] [2] [3] [4]"

definition ex_server_keys :: UDPKeys where
  "ex_server_keys = DeriveUDPKeys toy_lib ex_keys False"

definition ex_channel :: UDPChannel where
  "ex_channel = NewUDPChannel None (DeriveUDPKeys toy_lib ex_keys True)"

definition ex_mux :: UDPMux where
  "ex_mux = snd (RegisterSession NewUDPMux ex_server_keys)"

definition ex_udp_draws :: udp_draws where
  "ex_udp_draws = \<lparr>uTrailer = 1, uRng = \<lambda>i. 2, uTx64 = 3, uTx32 = 4, uPool = replicate 2048 0\<rparr>"

definition ex_addr :: UDPAddr where
  "ex_addr = \<lparr>aIP = [10, 0, 0, 1], aPort = 5000\<rparr>"

lemma ex_routes: "routes_to ex_mux (tag ex_channel) 0 (new_session ex_server_keys) False"
    "keyed ex_channel (new_session ex_server_keys) False"
proof -
  have "fst (RegisterSession NewUDPMux ex_server_keys) = 0" by (simp add: RegisterSession_def NewUDPMux_def Let_def)
  then show "routes_to ex_mux (tag ex_channel) 0 (new_session ex_server_keys) False"
    "keyed ex_channel (new_session ex_server_keys) False"
    using fresh_pair [OF mux_inv_new, where sk = ex_keys and P = toy_lib and remote = None] DeriveKeys_wf
    by (simp_all add: ex_mux_def ex_channel_def ex_server_keys_def ex_keys_def)
qed

lemma ex_ready:
  "window_rel (sReplay (new_session ex_server_keys)) (0, {})" "sendCtr ex_channel \<noteq> - 1"
  "spec_accepts (0, {}) (unat (sendCtr ex_channel))" "length (sDataIn (new_session ex_server_keys)) < 8192"
  "\<not> chUseBucketPadding ex_channel"
  by (simp_all add: new_session_def window_rel_new ex_channel_def NewUDPChannel_def spec_accepts_def)

theorem udp_delivers_exactly_once_witness:
  "\<exists>d dst ch' m1 s1 m2 s2. sendWithBuffer toy_lib ex_udp_draws ex_channel [1, 2, 3] (replicate 2048 0) = (Inr (d, dst), ch') \<and>
     mux_dispatch toy_lib ex_udp_draws ex_mux ex_addr d = Some (None, m1) \<and> store m1 0 = Some s1 \<and>
     sDataIn s1 = [[1, 2, 3]] \<and>
     mux_dispatch toy_lib ex_udp_draws m1 ex_addr d = Some (None, m2) \<and> store m2 0 = Some s2 \<and>
     sDataIn s2 = [[1, 2, 3]]"
proof -
  have "bucket_fits ex_udp_draws (chUseBucketPadding ex_channel) (chBucketMTU ex_channel) (chMaxTrailer ex_channel) [1, 2, 3]"
    using ex_ready(5) by (simp add: bucket_fits_def)
  moreover have "48 + length (bucket_frame ex_udp_draws (chUseBucketPadding ex_channel) (chBucketMTU ex_channel) (chMaxTrailer ex_channel) [1, 2, 3]) \<le>
      length (replicate 2048 0 :: bytes)"
    by (rule callers_buffer_fits [OF _ ex_ready(5)]) (simp add: send_required_def TagSize_def)
  ultimately have "\<exists>d dst ch' m1 s1 m2 s2. sendWithBuffer toy_lib ex_udp_draws ex_channel [1, 2, 3] (replicate 2048 0) = (Inr (d, dst), ch') \<and>
     sendCtr ch' = sendCtr ex_channel + 1 \<and>
     mux_dispatch toy_lib ex_udp_draws ex_mux ex_addr d = Some (None, m1) \<and> store m1 0 = Some s1 \<and>
     sDataIn s1 = sDataIn (new_session ex_server_keys) @ [[1, 2, 3]] \<and> clientAddr s1 = Some ex_addr \<and>
     mux_dispatch toy_lib ex_udp_draws m1 ex_addr d = Some (None, m2) \<and> store m2 0 = Some s2 \<and>
     sDataIn s2 = sDataIn s1 \<and> clientAddr s2 = Some ex_addr"
    by (intro udp_delivers_exactly_once [OF toy_aead_ok toy_aes_ok ex_routes(2) _ _ _ ex_routes(1) ex_ready(1-4)]) simp_all
  then obtain d dst ch' m1 s1 m2 s2 where
    "sendWithBuffer toy_lib ex_udp_draws ex_channel [1, 2, 3] (replicate 2048 0) = (Inr (d, dst), ch')"
    "mux_dispatch toy_lib ex_udp_draws ex_mux ex_addr d = Some (None, m1)" "store m1 0 = Some s1"
    "sDataIn s1 = sDataIn (new_session ex_server_keys) @ [[1, 2, 3]]"
    "mux_dispatch toy_lib ex_udp_draws m1 ex_addr d = Some (None, m2)" "store m2 0 = Some s2"
    "sDataIn s2 = sDataIn s1" by (elim exE conjE)
  then show ?thesis
    by (intro exI [of _ d] exI [of _ dst] exI [of _ ch'] exI [of _ m1] exI [of _ s1] exI [of _ m2] exI [of _ s2])
       (simp add: new_session_def)
qed



theorem session_table_is_map_witness:
  "table_Get (table_Set newSessionTable [1, 2, 3, 4] (7 :: nat)) [1, 2, 3, 4] = Some 7"
  using session_table_is_map [OF st.wf_emp, of "[1, 2, 3, 4]" "7 :: nat" "[1, 2, 3, 4]", THEN conjunct1] by simp

theorem ratchet_keeps_old_epoch_witness:
  "\<exists>d dst c1 m1 s1. sendWithBuffer toy_lib ex_udp_draws ex_channel [9] (replicate 2048 0) = (Inr (d, dst), c1) \<and>
     mux_dispatch toy_lib ex_udp_draws (session_RatchetEpoch ex_mux 0
       \<lparr>SendKey = [1], RecvKey = [2], HeaderKey = [3], SessionTag = [1, 2, 3, 4]\<rparr>) ex_addr d = Some (None, m1) \<and>
     store m1 0 = Some s1 \<and> sDataIn s1 = [[9]]"
proof -
  let ?sk = "\<lparr>SendKey = [1], RecvKey = [2], HeaderKey = [3], SessionTag = [1, 2, 3, 4]\<rparr>"
  let ?ck = "\<lparr>SendKey = [2], RecvKey = [1], HeaderKey = [3], SessionTag = [1, 2, 3, 4]\<rparr>"
  have t: "tag ex_channel = [88, 89, 90, 91]"
    by (simp add: ex_channel_def NewUDPChannel_def DeriveUDPKeys_def ex_keys_def DeriveKeys_def split_keys_def
        hkdf_read_def subslice_def toy_lib_def Let_def upt_rec)
  have mru: "\<forall>j u. mruSession ex_mux = Some j \<longrightarrow> store ex_mux j = Some u \<longrightarrow> j = 0 \<or>
      (sTag u \<noteq> SessionTag ?sk \<and> sPrevTag u \<noteq> SessionTag ?sk)"
    by (simp add: ex_mux_def RegisterSession_def NewUDPMux_def Let_def)
  have inv: "mux_inv ex_mux" unfolding ex_mux_def by (intro mux_inv_register mux_inv_new)
  have "\<exists>d dst c1 m1 s1. sendWithBuffer toy_lib ex_udp_draws ex_channel [9] (replicate 2048 0) = (Inr (d, dst), c1) \<and>
     mux_dispatch toy_lib ex_udp_draws (session_RatchetEpoch ex_mux 0 ?sk) ex_addr d = Some (None, m1) \<and>
     store m1 0 = Some s1 \<and> sDataIn s1 = sDataIn (new_session ex_server_keys) @ [[9]]"
    by (rule ratchet_keeps_old_epoch [OF toy_aead_ok toy_aes_ok inv ex_routes, where ck = ?ck, THEN conjunct1])
       (use mru t ex_ready in \<open>simp_all add: send_required_def TagSize_def\<close>)
  then show ?thesis by (simp add: new_session_def)
qed

end
