(* ===== verification/Ip_Checksum.thy ===== *)
theory Ip_Checksum
  imports Obsidian_Prelude
begin

text \<open>
  The Internet checksum, as \<^verbatim>\<open>cmd/server/mss.go\<close> and \<^verbatim>\<open>obsidian/ipv6_reject.go\<close>
  compute it with 32-bit accumulators, against its arithmetic meaning: a message verifies
  if and only if the sum of its 16-bit words is a positive multiple of 65535.
\<close>

section \<open>Specification\<close>

text \<open>The sum of the big-endian 16-bit words, an odd last byte padded with zero.\<close>

fun words_sum :: "bytes \<Rightarrow> nat" where
  "words_sum [] = 0"
| "words_sum [x] = 256 * unat x"
| "words_sum (x # y # r) = 256 * unat x + unat y + words_sum r"

text \<open>What a receiver checks.\<close>

definition sum_verifies :: "nat \<Rightarrow> bool" where
  "sum_verifies n \<longleftrightarrow> 0 < n \<and> 65535 dvd n"

section \<open>The code of mss.go\<close>

fun onesSum_loop :: "u32 \<Rightarrow> bytes \<Rightarrow> u32" where
  "onesSum_loop acc [] = acc"
| "onesSum_loop acc [x] = acc + push_bit 8 (ucast x)"
| "onesSum_loop acc (x # y # r) = onesSum_loop (acc + ucast (rd16 [x, y])) r"

definition onesSum :: "bytes \<Rightarrow> u32" where
  "onesSum b = onesSum_loop 0 b"

lemma unat_and_ffff: "unat (s AND 0xffff :: u32) = unat s mod 65536"
proof -
  have "s AND 0xffff = take_bit 16 s" by (simp add: take_bit_eq_mask mask_eq_exp_minus_1)
  then show ?thesis by (simp add: take_bit_eq_mod unat_mod)
qed

lemma unat_shr16: "unat (drop_bit 16 s :: u32) = unat s div 65536"
  by (simp add: drop_bit_eq_div unat_div)

lemma unat_fold_step: "unat ((s AND 0xffff) + drop_bit 16 s :: u32) = unat s mod 65536 + unat s div 65536"
proof -
  have "unat s < 4294967296" using unat_bound [of s] by simp
  then have "unat s mod 65536 + unat s div 65536 < 2 ^ 32" by simp
  then show ?thesis
    by (simp add: unat_add_small unat_and_ffff unat_shr16)
qed

lemma fold_less:
  fixes n :: nat
  assumes "0 < n div b" and "1 < b"
  shows "n mod b + n div b < n"
proof -
  have "n div b < b * (n div b)" using assms by simp
  then show ?thesis using mult_div_mod_eq [of b n] by linarith
qed

function foldSum :: "u32 \<Rightarrow> u16" where
  "foldSum s = (if drop_bit 16 s \<noteq> 0 then foldSum ((s AND 0xffff) + drop_bit 16 s) else ucast s)"
  by pat_completeness auto
termination
proof (relation "measure unat", simp, goal_cases)
  case (1 s)
  then have "0 < unat s div 65536" by (metis unat_shr16 unat_gt_0)
  then show ?case using fold_less [of "unat s" 65536] by (simp add: unat_fold_step)
qed

declare foldSum.simps [simp del]

section \<open>Sums\<close>

lemma unat_ucast_byte: "unat (ucast x :: u16) = unat (x :: byte)" "unat (ucast x :: u32) = unat x"
  using unat_bound [of x] by (simp_all add: unsigned_ucast_eq take_bit_eq_mod)

lemma unat_ucast_u16: "unat (ucast w :: u32) = unat (w :: u16)"
  using unat_bound [of w] by (simp add: unsigned_ucast_eq take_bit_eq_mod)

lemma unat_shl8: "unat (push_bit 8 (ucast x) :: u16) = 256 * unat (x :: byte)"
    "unat (push_bit 8 (ucast x) :: u32) = 256 * unat x"
  using unat_bound [of x] by (simp_all add: push_bit_eq_mult unat_word_ariths unat_ucast_byte)

lemma unat_rd16: "unat (rd16 [x, y]) = 256 * unat x + unat y"
proof -
  have "push_bit 8 (ucast x) AND (ucast y :: u16) = 0"
    by (rule bit_word_eqI) (auto simp: bit_simps)
  then have "rd16 [x, y] = push_bit 8 (ucast x) + ucast y"
    unfolding rd16_def by (metis disjunctive_add_eq_or nth_Cons_0 nth_Cons_Suc One_nat_def)
  moreover have "unat (push_bit 8 (ucast x) :: u16) + unat (ucast y :: u16) < 2 ^ 16"
    using unat_bound [of x] unat_bound [of y] by (simp add: unat_shl8 unat_ucast_byte)
  ultimately show ?thesis
    by (simp add: unat_add_small unat_shl8 unat_ucast_byte)
qed

lemma words_sum_bound: "words_sum b \<le> 65535 * (length b + 1) div 2"
proof (induction b rule: words_sum.induct)
  case (2 x)
  then show ?case using unat_bound [of x] by simp
next
  case (3 x y r)
  then show ?case using unat_bound [of x] unat_bound [of y] by simp
qed simp

lemma unat_onesSum_loop:
  "unat acc + words_sum b < 2 ^ 32 \<Longrightarrow> unat (onesSum_loop acc b) = unat acc + words_sum b"
proof (induction acc b rule: onesSum_loop.induct)
  case (2 acc x)
  then show ?case by (simp add: unat_add_small unat_shl8)
next
  case (3 acc x y r)
  then show ?case by (simp add: unat_add_small unat_rd16 unat_ucast_u16)
qed simp

lemma unat_onesSum: "length b \<le> 65535 \<Longrightarrow> unat (onesSum b) = words_sum b"
  using unat_onesSum_loop [of 0 b] words_sum_bound [of b] by (simp add: onesSum_def)

lemma words_sum_append: "even (length xs) \<Longrightarrow> words_sum (xs @ ys) = words_sum xs + words_sum ys"
  by (induction xs rule: words_sum.induct) auto

lemma words_sum_zeros [simp]: "words_sum [0, 0] = 0"
  by simp

lemma words_sum_be16: "words_sum (be16 w) = unat w"
proof -
  have "unat (rd16 (be16 w)) = words_sum (be16 w)" by (simp add: be16_def unat_rd16)
  then show ?thesis by (simp add: rd16_be16)
qed

text \<open>Replacing an aligned part of a message replaces its contribution to the sum.\<close>

lemma words_sum_overwrite:
  assumes "even i" and "even (length src)" and "i + length src \<le> length b"
  shows "words_sum (overwrite i src b) + words_sum (subslice i (i + length src) b) = words_sum b + words_sum src"
proof -
  have b: "b = take i b @ subslice i (i + length src) b @ drop (i + length src) b"
    by (rule split3) (use assms in auto)
  have e: "even (length (take i b))" "even (length (subslice i (i + length src) b))" using assms by auto
  have "words_sum b = words_sum (take i b) + words_sum (subslice i (i + length src) b) + words_sum (drop (i + length src) b)"
    by (subst b) (simp only: words_sum_append e add.assoc)
  moreover have "words_sum (overwrite i src b) = words_sum (take i b) + words_sum src + words_sum (drop (i + length src) b)"
    using assms e(1) by (simp add: overwrite_def words_sum_append [OF e(1)] words_sum_append [OF assms(2)])
  ultimately show ?thesis by simp
qed

section \<open>Folding\<close>

lemma mod_fold: "(n mod 65536 + n div 65536) mod 65535 = (n :: nat) mod 65535"
proof -
  have "n mod 65535 = (65536 * (n div 65536) + n mod 65536) mod 65535" by simp
  also have "\<dots> = (65535 * (n div 65536) + (n div 65536 + n mod 65536)) mod 65535" by (simp add: algebra_simps)
  also have "\<dots> = (n div 65536 + n mod 65536) mod 65535" by (rule mod_mult_self4)
  finally show ?thesis by (simp add: add.commute)
qed

lemma foldSum_mod: "unat (foldSum s) mod 65535 = unat s mod 65535"
proof (induction s rule: foldSum.induct)
  case (1 s)
  show ?case
  proof (cases "drop_bit 16 s = 0")
    case True
    then have "unat s < 65536" using unat_shr16 [of s] by simp
    then show ?thesis using True by (simp add: foldSum.simps [of s] unsigned_ucast_eq take_bit_eq_mod)
  next
    case False
    then show ?thesis using 1 by (simp add: foldSum.simps [of s] unat_fold_step mod_fold)
  qed
qed

lemma foldSum_zero: "foldSum s = 0 \<longleftrightarrow> s = 0"
proof (induction s rule: foldSum.induct)
  case (1 s)
  show ?case
  proof (cases "drop_bit 16 s = 0")
    case True
    then have lt: "unat s < 65536" using unat_shr16 [of s] by simp
    have "foldSum s = 0 \<longleftrightarrow> unat (ucast s :: u16) = 0" using True by (simp add: foldSum.simps [of s] unat_eq_0)
    also have "\<dots> \<longleftrightarrow> unat s = 0" using lt by (simp add: unsigned_ucast_eq take_bit_eq_mod)
    finally show ?thesis by (simp add: unat_eq_0)
  next
    case False
    then have "0 < unat s div 65536" by (metis unat_shr16 unat_gt_0)
    then have "unat ((s AND 0xffff) + drop_bit 16 s) \<noteq> 0" unfolding unat_fold_step by simp
    then have "(s AND 0xffff) + drop_bit 16 s \<noteq> 0" by (metis unat_0)
    moreover have "s \<noteq> 0" using False by auto
    ultimately show ?thesis using 1 False by (simp add: foldSum.simps [of s])
  qed
qed

lemma foldSum_verifies: "foldSum s = 0xffff \<longleftrightarrow> sum_verifies (unat s)"
proof -
  have f: "foldSum s = 0xffff \<longleftrightarrow> unat (foldSum s) = 65535"
    using word_unat_eq_iff [of "foldSum s" "0xffff"] by simp
  have le: "unat (foldSum s) \<le> 65535" using unat_bound [of "foldSum s"] by simp
  show ?thesis
  proof
    assume a: "foldSum s = 0xffff"
    then have "unat s mod 65535 = 0" using foldSum_mod [of s] by simp
    moreover have "s \<noteq> 0" using a foldSum_zero [of s] by auto
    ultimately show "sum_verifies (unat s)" by (simp add: sum_verifies_def dvd_eq_mod_eq_0 unat_gt_0)
  next
    assume v: "sum_verifies (unat s)"
    then have "65535 dvd unat (foldSum s)" using foldSum_mod [of s] by (simp add: sum_verifies_def dvd_eq_mod_eq_0)
    moreover have "unat (foldSum s) \<noteq> 0" using v foldSum_zero [of s] by (auto simp: sum_verifies_def unat_eq_0)
    ultimately have "65535 \<le> unat (foldSum s)" by (simp add: dvd_imp_le)
    then show "foldSum s = 0xffff" using f le by simp
  qed
qed

lemma unat_NOT_u16: "unat (NOT w :: u16) = 65535 - unat w"
proof -
  have "NOT w = - 1 - w" by (simp add: not_eq_complement)
  moreover have "unat (- 1 :: u16) = 65535" by (simp add: unsigned_minus_1_eq_mask mask_eq_exp_minus_1)
  ultimately show ?thesis using unat_sub [of w "- 1"] by (simp add: word_n1_ge)
qed

text \<open>Writing the complement of the folded sum into a zeroed, aligned field makes the message verify.\<close>

lemma complement_verifies:
  assumes "unat s = n"
  shows "sum_verifies (n + unat (NOT (foldSum s)))"
proof -
  have le: "unat (foldSum s) \<le> 65535" using unat_bound [of "foldSum s"] by simp
  have eq: "n + unat (NOT (foldSum s)) + unat (foldSum s) = n + 65535" using le by (simp add: unat_NOT_u16)
  have "(n + unat (NOT (foldSum s)) + unat (foldSum s)) mod 65535 = unat (foldSum s) mod 65535"
    unfolding eq using foldSum_mod [of s] assms by simp
  then have "65535 dvd n + unat (NOT (foldSum s))"
    by (metis add.commute add_diff_cancel_right' dvd_minus_mod mod_add_cong mod_eq_dvd_iff_nat le_add2)
  moreover have "0 < n + unat (NOT (foldSum s))"
  proof (cases "n = 0")
    case True
    then have "foldSum s = 0" using assms by (simp add: foldSum_zero unat_eq_0)
    then have "unat (NOT (foldSum s)) = 65535" using unat_NOT_u16 [of 0] by simp
    then show ?thesis by linarith
  qed simp
  ultimately show ?thesis by (simp add: sum_verifies_def)
qed

lemma checksum_placed:
  assumes "even p" and "p + 2 \<le> length b"
    and "unat s = base + words_sum (overwrite p [0, 0] b)"
  shows "sum_verifies (base + words_sum (overwrite p (be16 (NOT (foldSum s))) (overwrite p [0, 0] b)))"
proof -
  let ?z = "overwrite p [0, 0] b"
  have l: "length ?z = length b" using assms by simp
  have "subslice p (p + 2) ?z = [0, 0]" using subslice_overwrite [of p "[0, 0]" b] assms by simp
  then have "words_sum (overwrite p (be16 (NOT (foldSum s))) ?z) = words_sum ?z + unat (NOT (foldSum s))"
    using words_sum_overwrite [of p "be16 (NOT (foldSum s))" ?z] assms by (simp add: words_sum_be16)
  then show ?thesis using complement_verifies [OF assms(3)] by (simp add: add.assoc)
qed

section \<open>Checksums of TCP segments and IPv4 headers\<close>

definition ipProtoTCP :: u32 where "ipProtoTCP = 6"

definition pseudoSum :: "bytes \<Rightarrow> bool \<Rightarrow> nat \<Rightarrow> u32" where
  "pseudoSum ip v6 segLen =
     (if v6 then onesSum (subslice 8 40 ip) else onesSum (subslice 12 20 ip)) + ipProtoTCP + of_nat segLen"

definition setTCPChecksum :: "bytes \<Rightarrow> bool \<Rightarrow> bytes \<Rightarrow> bytes" where
  "setTCPChecksum ip v6 tcp =
     (let tcp0 = overwrite 16 [0, 0] tcp;
          s = pseudoSum ip v6 (length tcp0) + onesSum tcp0
      in overwrite 16 (be16 (NOT (foldSum s))) tcp0)"

definition setIPv4Checksum :: "bytes \<Rightarrow> bytes" where
  "setIPv4Checksum h =
     (let h0 = overwrite 10 [0, 0] h in overwrite 10 (be16 (NOT (foldSum (onesSum h0)))) h0)"

text \<open>The receiver's view of a segment and of an IPv4 header.\<close>

definition pseudo_words :: "bytes \<Rightarrow> bool \<Rightarrow> nat \<Rightarrow> nat" where
  "pseudo_words ip v6 n = words_sum (if v6 then subslice 8 40 ip else subslice 12 20 ip) + 6 + n"

definition tcp_verifies :: "bytes \<Rightarrow> bool \<Rightarrow> bytes \<Rightarrow> bool" where
  "tcp_verifies ip v6 tcp \<longleftrightarrow> sum_verifies (pseudo_words ip v6 (length tcp) + words_sum tcp)"

definition ipv4_verifies :: "bytes \<Rightarrow> bool" where
  "ipv4_verifies h \<longleftrightarrow> sum_verifies (words_sum h)"

lemma pseudo_words_bound: "pseudo_words ip v6 n \<le> 1100000 + n"
  using words_sum_bound [of "subslice 8 40 ip"] words_sum_bound [of "subslice 12 20 ip"]
  by (auto simp: pseudo_words_def min_def split: if_splits)

lemma unat_pseudoSum: "n \<le> 65535 \<Longrightarrow> unat (pseudoSum ip v6 n) = pseudo_words ip v6 n"
  using pseudo_words_bound [of ip v6 n]
  by (auto simp: pseudoSum_def pseudo_words_def ipProtoTCP_def unat_onesSum unat_add_small unat_of_nat_small)

lemma unat_tcp_sum:
  assumes "length tcp \<le> 65535"
  shows "unat (pseudoSum ip v6 (length tcp) + onesSum tcp) = pseudo_words ip v6 (length tcp) + words_sum tcp"
  using assms pseudo_words_bound [of ip v6 "length tcp"] words_sum_bound [of tcp]
  by (simp add: unat_add_small unat_pseudoSum unat_onesSum)

text \<open>The receiver's check, computed as the code computes sums.\<close>

lemma tcp_verifies_iff:
  "length tcp \<le> 65535 \<Longrightarrow>
   tcp_verifies ip v6 tcp \<longleftrightarrow> foldSum (pseudoSum ip v6 (length tcp) + onesSum tcp) = 0xffff"
  by (simp add: foldSum_verifies unat_tcp_sum tcp_verifies_def)

lemma length_setTCPChecksum [simp]: "18 \<le> length tcp \<Longrightarrow> length (setTCPChecksum ip v6 tcp) = length tcp"
  by (simp add: setTCPChecksum_def Let_def)

lemma setTCPChecksum_verifies:
  assumes "18 \<le> length tcp" and "length tcp \<le> 65535"
  shows "tcp_verifies ip v6 (setTCPChecksum ip v6 tcp)"
  using checksum_placed [of 16 tcp _ "pseudo_words ip v6 (length tcp)"] assms unat_tcp_sum [of "overwrite 16 [0, 0] tcp" ip v6]
  by (simp add: tcp_verifies_def setTCPChecksum_def Let_def)

lemma setIPv4Checksum_verifies:
  assumes "12 \<le> length h" and "length h \<le> 65535"
  shows "ipv4_verifies (setIPv4Checksum h)"
  using checksum_placed [of 10 h _ 0] assms unat_onesSum [of "overwrite 10 [0, 0] h"]
  by (simp add: ipv4_verifies_def setIPv4Checksum_def Let_def)

lemma length_setIPv4Checksum [simp]: "12 \<le> length h \<Longrightarrow> length (setIPv4Checksum h) = length h"
  by (simp add: setIPv4Checksum_def Let_def)

end
