(* ===== verification/Tcp_Mss.thy ===== *)
theory Tcp_Mss
  imports Ip_Checksum
begin

text \<open>
  \<^verbatim>\<open>cmd/server/mss.go\<close>, first half: finding the TCP header and its MSS option, and the
  rewriting of the MSS of SYN packets with the incremental checksum update of RFC 1624.
  The slice \<^verbatim>\<open>tcp\<close> of the code shares memory with the packet; here it is cut out,
  updated and written back.
\<close>

definition externalMSS4 :: nat where "externalMSS4 = 1460"
definition externalMSS6 :: nat where "externalMSS6 = 1440"
definition minClientMTU :: int where "minClientMTU = 1280"
definition maxTunnelMTU :: int where "maxTunnelMTU = 1420"
definition tcpFIN :: byte where "tcpFIN = 0x01"
definition tcpSYN :: byte where "tcpSYN = 0x02"
definition tcpPSH :: byte where "tcpPSH = 0x08"

definition tunnelMTUFor :: "int \<Rightarrow> int" where
  "tunnelMTUFor configured = (if configured \<le> 0 \<or> maxTunnelMTU < configured then maxTunnelMTU else configured)"

record tcpLayout =
  lV6 :: bool
  lIpLen :: nat
  lTcpLen :: nat
  lTotal :: nat

definition locate_ip :: "bytes \<Rightarrow> (bool \<times> nat \<times> nat) option" where
  "locate_ip pkt =
     (if drop_bit 4 (pkt ! 0) = 4 then
        if length pkt < 20 then None
        else
          let ihl = unat (pkt ! 0 AND 0x0f) * 4;
              tot = unat (rd16 (subslice 2 4 pkt))
          in if ihl < 20 \<or> tot < ihl \<or> length pkt < tot \<or> pkt ! 9 \<noteq> 6 then None
             else if rd16 (subslice 6 8 pkt) AND 0x3fff \<noteq> 0 then None
             else Some (False, ihl, tot)
      else if drop_bit 4 (pkt ! 0) = 6 then
        if length pkt < 40 \<or> pkt ! 6 \<noteq> 6 then None
        else
          let tot = 40 + unat (rd16 (subslice 4 6 pkt))
          in if length pkt < tot then None else Some (True, 40, tot)
      else None)"

definition locateTCP :: "bytes \<Rightarrow> tcpLayout option" where
  "locateTCP pkt =
     (if length pkt < 1 then None
      else case locate_ip pkt of
             None \<Rightarrow> None
           | Some (v6, ipLen, tot) \<Rightarrow>
               if tot < ipLen + 20 then None
               else
                 let tcpLen = unat (drop_bit 4 (pkt ! (ipLen + 12))) * 4
                 in if tcpLen < 20 \<or> tot < ipLen + tcpLen then None
                    else Some \<lparr>lV6 = v6, lIpLen = ipLen, lTcpLen = tcpLen, lTotal = tot\<rparr>)"

text \<open>The loop of \<^verbatim>\<open>mssOptionValue\<close> at index \<open>i\<close>; \<open>None\<close> is the result \<open>-1\<close>.\<close>

function mss_scan :: "bytes \<Rightarrow> nat \<Rightarrow> nat option" where
  "mss_scan hdr i =
     (if i < length hdr then
        if hdr ! i = 0 then None
        else if hdr ! i = 1 then mss_scan hdr (i + 1)
        else if length hdr \<le> i + 1 \<or> hdr ! (i + 1) < 2 \<or> length hdr < i + unat (hdr ! (i + 1)) then None
        else if hdr ! i = 2 \<and> hdr ! (i + 1) = 4 then Some (i + 2)
        else mss_scan hdr (i + unat (hdr ! (i + 1)))
      else None)"
  by pat_completeness auto
termination
proof (relation "measure (\<lambda>(hdr, i). length hdr - i)", simp, simp, goal_cases)
  case (1 hdr i)
  then have "0 < unat (hdr ! (i + 1))" by (auto simp: unat_gt_0)
  moreover have "i < length hdr" using 1 by simp
  ultimately have "length hdr - (i + unat (hdr ! (i + 1))) < length hdr - i" by linarith
  then show ?case by simp
qed

declare mss_scan.simps [simp del]

definition mssOptionValue :: "bytes \<Rightarrow> nat option" where
  "mssOptionValue hdr = mss_scan hdr 20"

definition setMSSValue :: "bytes \<Rightarrow> nat \<Rightarrow> u16 \<Rightarrow> bytes" where
  "setMSSValue tcp idx mss =
     (let start = idx div 2 * 2; stop = (idx + 3) div 2 * 2;
          oldSum = onesSum (subslice start stop tcp);
          tcp1 = overwrite idx (be16 mss) tcp;
          newSum = onesSum (subslice start stop tcp1);
          m = foldSum oldSum; mNew = foldSum newSum;
          hc = rd16 (subslice 16 18 tcp1)
      in overwrite 16 (be16 (NOT (foldSum (ucast (NOT hc) + ucast (NOT m) + ucast mNew)))) tcp1)"

definition normalizeUplinkSYN :: "bytes \<Rightarrow> int \<times> bytes" where
  "normalizeUplinkSYN pkt =
     (case locateTCP pkt of
        None \<Rightarrow> (0, pkt)
      | Some l \<Rightarrow>
          let tcp = subslice (lIpLen l) (lTotal l) pkt
          in if tcp ! 13 AND tcpSYN = 0 then (0, pkt)
             else case mssOptionValue (take (lTcpLen l) tcp) of
                    None \<Rightarrow> (0, pkt)
                  | Some idx \<Rightarrow>
                      let mss = unat (rd16 (drop idx tcp));
                          (ext, overhead) = (if lV6 l then (externalMSS6, 60) else (externalMSS4, 40))
                      in (int mss + overhead,
                          if mss < ext then overwrite (lIpLen l) (setMSSValue tcp idx (of_nat ext)) pkt else pkt))"

definition clampDownlinkSYN :: "bytes \<Rightarrow> int \<Rightarrow> bytes" where
  "clampDownlinkSYN pkt limitMTU =
     (case locateTCP pkt of
        None \<Rightarrow> pkt
      | Some l \<Rightarrow>
          let tcp = subslice (lIpLen l) (lTotal l) pkt
          in if tcp ! 13 AND tcpSYN = 0 then pkt
             else case mssOptionValue (take (lTcpLen l) tcp) of
                    None \<Rightarrow> pkt
                  | Some idx \<Rightarrow>
                      let overhead = (if lV6 l then 60 else 40);
                          limit = limitMTU - overhead
                      in if limit \<le> 0 then pkt
                         else if limit < int (unat (rd16 (drop idx tcp)))
                         then overwrite (lIpLen l) (setMSSValue tcp idx (of_int limit)) pkt else pkt)"

section \<open>Bounds\<close>

text \<open>The layouts \<^verbatim>\<open>locateTCP\<close> returns.\<close>

lemma locate_ip_iff:
  "locate_ip pkt = Some (v, n, t) \<longleftrightarrow>
     (if v then drop_bit 4 (pkt ! 0) = 6 \<and> 40 \<le> length pkt \<and> pkt ! 6 = 6 \<and> n = 40 \<and>
        t = 40 + unat (rd16 (subslice 4 6 pkt)) \<and> t \<le> length pkt
      else drop_bit 4 (pkt ! 0) = 4 \<and> 20 \<le> length pkt \<and> n = unat (pkt ! 0 AND 0x0f) * 4 \<and>
        t = unat (rd16 (subslice 2 4 pkt)) \<and> 20 \<le> n \<and> n \<le> t \<and> t \<le> length pkt \<and> pkt ! 9 = 6 \<and>
        rd16 (subslice 6 8 pkt) AND 0x3fff = 0)"
proof -
  consider "drop_bit 4 (pkt ! 0) = 4" | "drop_bit 4 (pkt ! 0) = 6" | "drop_bit 4 (pkt ! 0) \<noteq> 4" "drop_bit 4 (pkt ! 0) \<noteq> 6" by blast
  then show ?thesis
  proof cases
    case 1
    then show ?thesis unfolding locate_ip_def Let_def 1 by (cases v) auto
  next
    case 2
    then show ?thesis unfolding locate_ip_def Let_def 2 by (cases v) auto
  next
    case 3
    then show ?thesis unfolding locate_ip_def by (simp only: 3 if_False option.distinct simp_thms split: if_splits)
  qed
qed

lemma locateTCP_iff:
  "locateTCP pkt = Some l \<longleftrightarrow>
     locate_ip pkt = Some (lV6 l, lIpLen l, lTotal l) \<and> pkt \<noteq> [] \<and> lIpLen l + 20 \<le> lTotal l \<and>
     lTcpLen l = unat (drop_bit 4 (pkt ! (lIpLen l + 12))) * 4 \<and> 20 \<le> lTcpLen l \<and> lIpLen l + lTcpLen l \<le> lTotal l"
  unfolding locateTCP_def Let_def by (cases l; cases "locate_ip pkt") (auto split: if_splits)

lemma locateTCP_bounds:
  assumes "locateTCP pkt = Some l"
  shows "20 \<le> lIpLen l" "20 \<le> lTcpLen l" "lIpLen l + lTcpLen l \<le> lTotal l" "lTotal l \<le> length pkt"
    "lTotal l - lIpLen l \<le> 65535" "even (lTcpLen l)" "\<not> lV6 l \<Longrightarrow> lTotal l \<le> 65535"
    "lV6 l \<Longrightarrow> lIpLen l = 40"
  using assms unat_bound [of "rd16 (subslice 2 4 pkt)"] unat_bound [of "rd16 (subslice 4 6 pkt)"]
  by (auto simp: locateTCP_iff locate_ip_iff split: if_splits)

lemma mss_scan_bounds: "mss_scan hdr i = Some k \<Longrightarrow> i + 2 \<le> k \<and> k + 2 \<le> length hdr"
  by (induction hdr i rule: mss_scan.induct)
     (subst (asm) (3) mss_scan.simps, auto split: if_splits)

section \<open>The incremental update\<close>

lemma dvd_int_65535: "65535 dvd int n \<longleftrightarrow> 65535 dvd n"
  using int_dvd_int_iff [of 65535 n] by simp

lemma foldSum_dvd: "65535 dvd int (unat (foldSum s)) - int (unat s)"
proof -
  have "int (unat (foldSum s) mod 65535) = int (unat s mod 65535)" by (simp only: foldSum_mod)
  then show ?thesis by (simp only: zmod_int mod_eq_dvd_iff of_nat_numeral)
qed

lemma complement_dvd: "65535 dvd int (unat (NOT (foldSum s))) + int (unat s)"
proof -
  have "65535 dvd unat s + unat (NOT (foldSum s))" using complement_verifies [of s] by (simp add: sum_verifies_def)
  then have "int 65535 dvd int (unat s + unat (NOT (foldSum s)))" by (simp only: int_dvd_int_iff)
  then show ?thesis by (simp only: of_nat_add of_nat_numeral add.commute)
qed

lemma overwrite_via:
  assumes "start \<le> idx" and "idx + length src \<le> stop" and "stop \<le> length b"
  shows "overwrite idx src b = overwrite start (subslice start stop (overwrite idx src b)) b"
  using assms by (intro nth_equalityI) (auto simp: nth_overwrite)

lemma words_sum_window:
  assumes "even start" and "even stop" and "start \<le> idx" and "idx + length src \<le> stop" and "stop \<le> length b"
  shows "words_sum (overwrite idx src b) + words_sum (subslice start stop b)
       = words_sum b + words_sum (subslice start stop (overwrite idx src b))"
proof -
  let ?w = "subslice start stop (overwrite idx src b)"
  have l: "length ?w = stop - start" using assms by simp
  then have "even (length ?w)" using assms by simp
  moreover have "start + length ?w = stop" using l assms by simp
  ultimately show ?thesis
    using words_sum_overwrite [of start ?w b] overwrite_via [OF assms(3-5)] assms by simp
qed

lemma rfc1624:
  fixes hc m m' :: u16 and old new :: u32
  defines "x \<equiv> ucast (NOT hc) + ucast (NOT (foldSum old)) + ucast (foldSum new) :: u32"
  shows "65535 dvd int (unat (NOT (foldSum x))) - int (unat hc) - int (unat old) + int (unat new)"
proof -
  have b: "unat hc \<le> 65535" "unat (foldSum old) \<le> 65535" "unat (foldSum new) \<le> 65535"
    using unat_bound [of hc] unat_bound [of "foldSum old"] unat_bound [of "foldSum new"] by simp_all
  have "unat x = (65535 - unat hc) + (65535 - unat (foldSum old)) + unat (foldSum new)"
    unfolding x_def using b by (simp add: unat_add_small unat_ucast_u16 unat_NOT_u16)
  then have x: "int (unat x) = 131070 - int (unat hc) - int (unat (foldSum old)) + int (unat (foldSum new))"
    using b by simp
  have "65535 dvd (int (unat (NOT (foldSum x))) + int (unat x)) + (int (unat (foldSum old)) - int (unat old))
      - (int (unat (foldSum new)) - int (unat new)) - 131070"
    by (intro dvd_diff dvd_add complement_dvd foldSum_dvd) simp
  then show ?thesis unfolding x by (simp add: algebra_simps)
qed

lemma length_setMSSValue [simp]: "18 \<le> length tcp \<Longrightarrow> idx + 2 \<le> length tcp \<Longrightarrow> length (setMSSValue tcp idx mss) = length tcp"
  by (simp add: setMSSValue_def Let_def)

lemma setMSSValue_verifies:
  assumes i: "20 \<le> idx" "(idx + 3) div 2 * 2 \<le> length tcp" and len: "length tcp \<le> 65535"
    and v: "tcp_verifies ip v6 tcp"
  shows "tcp_verifies ip v6 (setMSSValue tcp idx mss)"
proof -
  define start where "start = idx div 2 * 2"
  define stop where "stop = (idx + 3) div 2 * 2"
  define tcp1 where "tcp1 = overwrite idx (be16 mss) tcp"
  define hc where "hc = rd16 (subslice 16 18 tcp1)"
  define c where "c = NOT (foldSum (ucast (NOT hc) + ucast (NOT (foldSum (onesSum (subslice start stop tcp))))
      + ucast (foldSum (onesSum (subslice start stop tcp1)))))"
  have w: "even start" "even stop" "start \<le> idx" "idx + length (be16 mss) \<le> stop" "stop \<le> length tcp"
    using i unfolding start_def stop_def by simp_all
  have l1: "length tcp1 = length tcp" unfolding tcp1_def using w by simp
  have eq: "setMSSValue tcp idx mss = overwrite 16 (be16 c) tcp1"
    unfolding setMSSValue_def Let_def c_def hc_def tcp1_def start_def stop_def by simp
  have W1: "words_sum tcp1 + words_sum (subslice start stop tcp) = words_sum tcp + words_sum (subslice start stop tcp1)"
    unfolding tcp1_def by (rule words_sum_window [OF w])
  have h: "words_sum (subslice 16 18 tcp1) = unat hc"
  proof -
    have "18 \<le> length tcp1" using w i l1 by linarith
    then have "be16 hc = subslice 16 18 tcp1" unfolding hc_def by (intro be16_rd16) simp
    then show ?thesis using words_sum_be16 [of hc] by simp
  qed
  have W2: "words_sum (overwrite 16 (be16 c) tcp1) + unat hc = words_sum tcp1 + unat c"
    using words_sum_overwrite [of 16 "be16 c" tcp1] i l1 h by (simp add: words_sum_be16)
  have u: "unat (onesSum (subslice start stop tcp)) = words_sum (subslice start stop tcp)"
    "unat (onesSum (subslice start stop tcp1)) = words_sum (subslice start stop tcp1)"
    by (rule unat_onesSum, use len l1 in simp)+
  have d: "65535 dvd int (unat c) - int (unat hc) - int (words_sum (subslice start stop tcp)) + int (words_sum (subslice start stop tcp1))"
    unfolding c_def u [symmetric] by (rule rfc1624)
  let ?P = "pseudo_words ip v6 (length tcp)"
  have "65535 dvd ?P + words_sum tcp" using v by (simp add: tcp_verifies_def sum_verifies_def)
  then have "65535 dvd int (?P + words_sum tcp)" by (simp only: dvd_int_65535)
  moreover have "int (?P + words_sum (overwrite 16 (be16 c) tcp1)) = int (?P + words_sum tcp) +
      (int (unat c) - int (unat hc) - int (words_sum (subslice start stop tcp)) + int (words_sum (subslice start stop tcp1)))"
    using W1 W2 by linarith
  ultimately have "65535 dvd int (?P + words_sum (overwrite 16 (be16 c) tcp1))" using d by (simp only: dvd_add)
  then have "65535 dvd ?P + words_sum (overwrite 16 (be16 c) tcp1)" by (simp only: dvd_int_65535)
  moreover have "0 < ?P" by (simp add: pseudo_words_def)
  ultimately show ?thesis unfolding eq tcp_verifies_def sum_verifies_def using i l1 by simp
qed

section \<open>SYN packets\<close>

text \<open>The layout, the place and the value of the MSS option of a SYN packet, if it has one.\<close>

definition tcp_segment :: "tcpLayout \<Rightarrow> bytes \<Rightarrow> bytes" where
  "tcp_segment l pkt = subslice (lIpLen l) (lTotal l) pkt"

definition syn_mss :: "bytes \<Rightarrow> (tcpLayout \<times> nat \<times> nat) option" where
  "syn_mss pkt =
     do { l \<leftarrow> locateTCP pkt;
          idx \<leftarrow> mssOptionValue (take (lTcpLen l) (tcp_segment l pkt));
          if tcp_segment l pkt ! 13 AND tcpSYN = 0 then None
          else Some (l, idx, unat (rd16 (drop idx (tcp_segment l pkt)))) }"

definition segment_verifies :: "tcpLayout \<Rightarrow> bytes \<Rightarrow> bool" where
  "segment_verifies l pkt \<longleftrightarrow> tcp_verifies pkt (lV6 l) (tcp_segment l pkt)"

definition mss_overhead :: "tcpLayout \<Rightarrow> int" where
  "mss_overhead l = (if lV6 l then 60 else 40)"

definition external_mss :: "tcpLayout \<Rightarrow> nat" where
  "external_mss l = (if lV6 l then externalMSS6 else externalMSS4)"

lemma normalizeUplinkSYN_eq:
  "normalizeUplinkSYN pkt =
     (case syn_mss pkt of
        None \<Rightarrow> (0, pkt)
      | Some (l, idx, m) \<Rightarrow>
          (int m + mss_overhead l,
           if m < external_mss l
           then overwrite (lIpLen l) (setMSSValue (tcp_segment l pkt) idx (of_nat (external_mss l))) pkt else pkt))"
  by (auto simp: normalizeUplinkSYN_def syn_mss_def tcp_segment_def mss_overhead_def external_mss_def Let_def
      split: option.splits)

lemma clampDownlinkSYN_eq:
  "clampDownlinkSYN pkt limitMTU =
     (case syn_mss pkt of
        None \<Rightarrow> pkt
      | Some (l, idx, m) \<Rightarrow>
          if 0 < limitMTU - mss_overhead l \<and> limitMTU - mss_overhead l < int m
          then overwrite (lIpLen l) (setMSSValue (tcp_segment l pkt) idx (of_int (limitMTU - mss_overhead l))) pkt
          else pkt)"
  by (auto simp: clampDownlinkSYN_def syn_mss_def tcp_segment_def mss_overhead_def Let_def split: option.splits)

lemma subslice_agree:
  assumes "\<And>i. i < k \<Longrightarrow> ys ! i = xs ! i" and "length ys = length xs" and "b \<le> k"
  shows "subslice a b ys = subslice a b xs"
  using assms by (intro nth_equalityI) (auto simp: min_def split: if_splits)

lemma locateTCP_agree:
  assumes l: "locateTCP pkt = Some l" and len: "length pkt' = length pkt"
    and eq: "\<And>i. i < lIpLen l + 16 \<Longrightarrow> pkt' ! i = pkt ! i"
  shows "locateTCP pkt' = Some l"
proof -
  have b: "20 \<le> lIpLen l" by (rule locateTCP_bounds [OF l])
  have e: "pkt' ! 0 = pkt ! 0" "pkt' ! 9 = pkt ! 9" "pkt' ! 6 = pkt ! 6" "pkt' ! (lIpLen l + 12) = pkt ! (lIpLen l + 12)"
    using eq b by auto
  have ss: "subslice i j pkt' = subslice i j pkt" if "j \<le> 20" for i j
    using subslice_agree [of 20 pkt' pkt j i] eq b len that by simp
  have s: "subslice 2 4 pkt' = subslice 2 4 pkt" "subslice 6 8 pkt' = subslice 6 8 pkt" "subslice 4 6 pkt' = subslice 4 6 pkt"
    by (simp_all add: ss)
  have "locate_ip pkt' = locate_ip pkt" unfolding locate_ip_def by (simp only: e s len)
  then show ?thesis using l e len by (cases pkt'; cases pkt) (simp_all add: locateTCP_iff)
qed

lemma mss_scan_agree:
  "mss_scan hdr i = Some k \<Longrightarrow> length hdr' = length hdr \<Longrightarrow> (\<And>j. i \<le> j \<Longrightarrow> j < k \<Longrightarrow> hdr' ! j = hdr ! j) \<Longrightarrow>
   mss_scan hdr' i = Some k"
proof (induction hdr i rule: mss_scan.induct)
  case (1 hdr i)
  have k: "i + 2 \<le> k" using mss_scan_bounds [OF 1(3)] by simp
  then have e: "hdr' ! i = hdr ! i" "hdr' ! (i + 1) = hdr ! (i + 1)" using 1(5) by auto
  show ?case
  proof (cases "hdr ! i = 1")
    case True
    then show ?thesis using 1 e k
      by (subst mss_scan.simps) (subst (asm) (3) mss_scan.simps, simp split: if_splits)
  next
    case False
    then show ?thesis using 1 e k
      by (subst mss_scan.simps) (subst (asm) (3) mss_scan.simps, auto split: if_splits)
  qed
qed

text \<open>What rewriting the option does to the packet.\<close>

definition rewrite_mss :: "tcpLayout \<Rightarrow> nat \<Rightarrow> u16 \<Rightarrow> bytes \<Rightarrow> bytes" where
  "rewrite_mss l idx mss pkt = overwrite (lIpLen l) (setMSSValue (tcp_segment l pkt) idx mss) pkt"

definition same_but_mss :: "tcpLayout \<Rightarrow> nat \<Rightarrow> bytes \<Rightarrow> bytes \<Rightarrow> bool" where
  "same_but_mss l idx pkt pkt' \<longleftrightarrow> length pkt' = length pkt \<and>
     (\<forall>i < length pkt. i \<notin> {lIpLen l + 16, lIpLen l + 17, lIpLen l + idx, lIpLen l + idx + 1} \<longrightarrow> pkt' ! i = pkt ! i)"

lemma syn_mssD:
  assumes "syn_mss pkt = Some (l, idx, m)"
  shows "locateTCP pkt = Some l" "mssOptionValue (take (lTcpLen l) (tcp_segment l pkt)) = Some idx"
    "tcp_segment l pkt ! 13 AND tcpSYN \<noteq> 0" "m = unat (rd16 (drop idx (tcp_segment l pkt)))"
    "22 \<le> idx" "idx + 2 \<le> lTcpLen l" "length (tcp_segment l pkt) = lTotal l - lIpLen l"
proof -
  show l: "locateTCP pkt = Some l" and o: "mssOptionValue (take (lTcpLen l) (tcp_segment l pkt)) = Some idx"
    and "tcp_segment l pkt ! 13 AND tcpSYN \<noteq> 0" and "m = unat (rd16 (drop idx (tcp_segment l pkt)))"
    using assms by (auto simp: syn_mss_def Option.bind_eq_Some_conv split: if_splits)
  show n: "length (tcp_segment l pkt) = lTotal l - lIpLen l"
    using locateTCP_bounds [OF l] by (simp add: tcp_segment_def)
  show "22 \<le> idx" "idx + 2 \<le> lTcpLen l"
    using mss_scan_bounds [OF o [unfolded mssOptionValue_def]] n by simp_all
qed

lemma nth_setMSSValue_other:
  assumes "20 \<le> idx" and "idx + 2 \<le> length tcp" and "i < length tcp" and "i \<notin> {16, 17, idx, idx + 1}"
  shows "setMSSValue tcp idx mss ! i = tcp ! i"
  using assms by (auto simp: setMSSValue_def Let_def nth_overwrite)

lemma drop_setMSSValue:
  assumes "20 \<le> idx" and "idx + 2 \<le> length tcp"
  shows "drop idx (setMSSValue tcp idx mss) = be16 mss @ drop (idx + 2) tcp"
  using assms by (simp add: setMSSValue_def Let_def drop_overwrite) (simp add: overwrite_def)

lemma mss_window_fits: "even n \<Longrightarrow> idx + 2 \<le> n \<Longrightarrow> (idx + 3) div 2 * 2 \<le> (n :: nat)"
  by (elim evenE) simp

lemma rewritten:
  fixes mss :: u16
  assumes s: "syn_mss pkt = Some (l, idx, m)"
  defines "pkt' \<equiv> rewrite_mss l idx mss pkt"
  shows "same_but_mss l idx pkt pkt'" "tcp_segment l pkt' = setMSSValue (tcp_segment l pkt) idx mss"
    "syn_mss pkt' = Some (l, idx, unat mss)" "segment_verifies l pkt \<Longrightarrow> segment_verifies l pkt'"
proof -
  note d = syn_mssD [OF s] and b = locateTCP_bounds [OF syn_mssD(1) [OF s]]
  let ?t = "tcp_segment l pkt" let ?t' = "setMSSValue (tcp_segment l pkt) idx mss"
  have lt: "length ?t' = length ?t" using d b by simp
  have fit: "lIpLen l + length ?t' \<le> length pkt" using lt d b by simp
  have len: "length pkt' = length pkt" unfolding pkt'_def rewrite_mss_def using fit by simp
  have "lIpLen l + length ?t' = lTotal l" using lt d b by simp
  then have "subslice (lIpLen l) (lTotal l) pkt' = ?t'"
    unfolding pkt'_def rewrite_mss_def using subslice_overwrite [OF fit] by simp
  then show seg: "tcp_segment l pkt' = ?t'" by (simp only: tcp_segment_def [of l pkt'])
  have nth: "pkt' ! i = (if lIpLen l \<le> i \<and> i < lTotal l then ?t' ! (i - lIpLen l) else pkt ! i)" if "i < length pkt" for i
    unfolding pkt'_def rewrite_mss_def using nth_overwrite [OF fit that] lt d b by simp
  have tn: "?t ! (i - lIpLen l) = pkt ! i" if "lIpLen l \<le> i" "i < lTotal l" for i
    using that b by (simp add: tcp_segment_def)
  show same: "same_but_mss l idx pkt pkt'"
    unfolding same_but_mss_def
  proof (intro conjI allI impI len)
    fix i assume i: "i < length pkt" "i \<notin> {lIpLen l + 16, lIpLen l + 17, lIpLen l + idx, lIpLen l + idx + 1}"
    show "pkt' ! i = pkt ! i"
    proof (cases "lIpLen l \<le> i \<and> i < lTotal l")
      case True
      then have "?t' ! (i - lIpLen l) = ?t ! (i - lIpLen l)"
        using i d(5-7) b(3) by (intro nth_setMSSValue_other) auto
      then show ?thesis using True nth [OF i(1)] tn by simp
    qed (use nth i in auto)
  qed
  have loc: "locateTCP pkt' = Some l"
    by (rule locateTCP_agree [OF d(1) len]) (use same b(2-4) d(5) in \<open>auto simp: same_but_mss_def\<close>)
  have n: "?t' ! i = ?t ! i" if "i < idx" "i \<notin> {16, 17}" for i
    using that d(5-7) b(3) by (intro nth_setMSSValue_other) auto
  have opt: "mssOptionValue (take (lTcpLen l) ?t') = Some idx"
    unfolding mssOptionValue_def
    by (rule mss_scan_agree [OF d(2) [unfolded mssOptionValue_def]]) (use lt n d b in auto)
  have "rd16 (drop idx ?t') = mss" using drop_setMSSValue [of idx ?t mss] d b by (simp add: rd16_local rd16_be16)
  then show "syn_mss pkt' = Some (l, idx, unat mss)"
    using loc opt seg n [of 13] d by (simp add: syn_mss_def)
  have addr: "pseudo_words pkt' (lV6 l) k = pseudo_words pkt (lV6 l) k" for k
  proof -
    have "pkt' ! i = pkt ! i" if "i < lIpLen l" for i using nth that b by simp
    then show ?thesis
      using subslice_agree [of "lIpLen l" pkt' pkt 20 12] subslice_agree [of "lIpLen l" pkt' pkt 40 8] len b
      by (auto simp: pseudo_words_def)
  qed
  assume v: "segment_verifies l pkt"
  have "(idx + 3) div 2 * 2 \<le> length ?t" using mss_window_fits [OF b(6) d(6)] b(3) d(7) by linarith
  then have "tcp_verifies pkt (lV6 l) ?t'"
    using setMSSValue_verifies [of idx ?t pkt "lV6 l" mss] v d(5,7) b(5) by (simp add: segment_verifies_def)
  then show "segment_verifies l pkt'" unfolding segment_verifies_def seg tcp_verifies_def addr .
qed

lemma same_but_mss_refl: "same_but_mss l idx pkt pkt"
  by (simp add: same_but_mss_def)

lemma normalize_SYN:
  assumes s: "syn_mss pkt = Some (l, idx, m)"
  shows "\<exists>pkt'. normalizeUplinkSYN pkt = (int m + mss_overhead l, pkt') \<and>
           syn_mss pkt' = Some (l, idx, max m (external_mss l)) \<and> same_but_mss l idx pkt pkt' \<and>
           (segment_verifies l pkt \<longrightarrow> segment_verifies l pkt')"
proof (cases "m < external_mss l")
  case True
  have "unat (of_nat (external_mss l) :: u16) = external_mss l"
    by (simp add: external_mss_def externalMSS4_def externalMSS6_def)
  then show ?thesis
    using True rewritten [OF s, of "of_nat (external_mss l)"] s
    by (intro exI [of _ "rewrite_mss l idx (of_nat (external_mss l)) pkt"])
       (simp add: normalizeUplinkSYN_eq rewrite_mss_def)
next
  case False
  then show ?thesis
    using s by (intro exI [of _ pkt]) (simp add: normalizeUplinkSYN_eq same_but_mss_refl max_def)
qed

lemma clamp_SYN:
  assumes s: "syn_mss pkt = Some (l, idx, m)" and lim: "lim = limitMTU - mss_overhead l"
  shows "syn_mss (clampDownlinkSYN pkt limitMTU) = Some (l, idx, if 0 < lim then min m (nat lim) else m) \<and>
         same_but_mss l idx pkt (clampDownlinkSYN pkt limitMTU) \<and>
         (segment_verifies l pkt \<longrightarrow> segment_verifies l (clampDownlinkSYN pkt limitMTU))"
proof (cases "0 < lim \<and> lim < int m")
  case True
  have "m \<le> 65535" using syn_mssD(4) [OF s] unat_bound [of "rd16 (drop idx (tcp_segment l pkt))"] by simp
  then have "unat (of_int lim :: u16) = nat lim" using True by (simp add: unat_eq_nat_uint uint_word_of_int)
  moreover have less: "min m (nat (limitMTU - mss_overhead l)) = nat (limitMTU - mss_overhead l)"
    using True unfolding lim by linarith
  ultimately show ?thesis
    using True rewritten [OF s, of "of_int lim"] s lim
    by (simp add: clampDownlinkSYN_eq rewrite_mss_def less)
next
  case False
  then show ?thesis
    using s lim by (auto simp: clampDownlinkSYN_eq same_but_mss_refl min_def)
qed

text \<open>
  Property C22. The MSS of SYN packets is rewritten and nothing else is disturbed. A client's
  SYN leaves with the larger of its own and the external value, and the MTU its own value
  implies is reported; a SYN to the client leaves with at most what the tunnel carries. Only
  the bytes of the option and of the checksum change, the packet is parsed as before, and the
  incremental update keeps a correct TCP checksum correct, at odd offsets of the option too.
  Every other packet is left alone.
\<close>
theorem syn_mss_rewritten:
  "case syn_mss pkt of
     None \<Rightarrow> normalizeUplinkSYN pkt = (0, pkt) \<and> clampDownlinkSYN pkt limitMTU = pkt
   | Some (l, idx, m) \<Rightarrow>
       (\<exists>pkt'. normalizeUplinkSYN pkt = (int m + mss_overhead l, pkt') \<and>
          syn_mss pkt' = Some (l, idx, max m (external_mss l)) \<and> same_but_mss l idx pkt pkt' \<and>
          (segment_verifies l pkt \<longrightarrow> segment_verifies l pkt')) \<and>
       (let lim = limitMTU - mss_overhead l; pkt' = clampDownlinkSYN pkt limitMTU
        in syn_mss pkt' = Some (l, idx, if 0 < lim then min m (nat lim) else m) \<and>
           same_but_mss l idx pkt pkt' \<and> (segment_verifies l pkt \<longrightarrow> segment_verifies l pkt'))"
proof (cases "syn_mss pkt")
  case None
  then show ?thesis by (simp add: normalizeUplinkSYN_eq clampDownlinkSYN_eq)
next
  case (Some x)
  then show ?thesis
    using normalize_SYN [of pkt] clamp_SYN [of pkt _ _ _ _ limitMTU] by (cases x) (simp add: Let_def)
qed

theorem syn_mss_rewritten_witness:
  "let pkt = [0x45, 0, 0, 44, 0, 0, 0, 0, 64, 6, 0, 0, 10, 0, 0, 2, 1, 1, 1, 1,
              0xc0, 0, 1, 0xbb, 0, 0, 0, 1, 0, 0, 0, 0, 0x60, 2, 0xff, 0xff, 0, 0, 0, 0, 2, 4, 5, 0x64]
   in fst (normalizeUplinkSYN pkt) = 1420 \<and>
      (\<exists>l. syn_mss (clampDownlinkSYN pkt 1300) = Some (l, 22, 1260) \<and>
         (segment_verifies l pkt \<longrightarrow> segment_verifies l (clampDownlinkSYN pkt 1300)))"
proof -
  let ?pkt = "[0x45, 0, 0, 44, 0, 0, 0, 0, 64, 6, 0, 0, 10, 0, 0, 2, 1, 1, 1, 1,
    0xc0, 0, 1, 0xbb, 0, 0, 0, 1, 0, 0, 0, 0, 0x60, 2, 0xff, 0xff, 0, 0, 0, 0, 2, 4, 5, 0x64] :: bytes"
  let ?l = "\<lparr>lV6 = False, lIpLen = 20, lTcpLen = 24, lTotal = 44\<rparr>"
  have "syn_mss ?pkt = Some (?l, 22, 1380)" by code_simp
  then show ?thesis
    using syn_mss_rewritten [of ?pkt 1300] by (auto simp: mss_overhead_def Let_def)
qed

section \<open>Options\<close>

text \<open>The options of a TCP header: no-operation, and options with a kind, a length and data.\<close>

datatype tcp_option = Nop | Opt byte bytes

fun option_bytes :: "tcp_option \<Rightarrow> bytes" where
  "option_bytes Nop = [1]"
| "option_bytes (Opt k d) = k # of_nat (length d + 2) # d"

fun option_ok :: "tcp_option \<Rightarrow> bool" where
  "option_ok Nop = True"
| "option_ok (Opt k d) = (k \<noteq> 0 \<and> k \<noteq> 1 \<and> length d < 254)"

fun is_mss :: "tcp_option \<Rightarrow> bool" where
  "is_mss Nop = False"
| "is_mss (Opt k d) = (k = 2 \<and> length d = 2)"

fun first_mss :: "nat \<Rightarrow> tcp_option list \<Rightarrow> nat option" where
  "first_mss i [] = None"
| "first_mss i (x # xs) = (if is_mss x then Some (i + 2) else first_mss (i + length (option_bytes x)) xs)"

lemma mss_scan_options:
  assumes "\<forall>x \<in> set xs. option_ok x" and "tail = [] \<or> hd tail = 0"
  shows "mss_scan (pre @ concat (map option_bytes xs) @ tail) (length pre) = first_mss (length pre) xs"
  using assms(1)
proof (induction xs arbitrary: pre)
  case Nil
  then show ?case using assms(2) by (subst mss_scan.simps, cases tail) (auto simp: nth_append)
next
  case (Cons x xs)
  have IH: "mss_scan (pre @ option_bytes x @ concat (map option_bytes xs) @ tail) (length pre + length (option_bytes x))
      = first_mss (length pre + length (option_bytes x)) xs"
    using Cons.IH [of "pre @ option_bytes x"] Cons.prems by simp
  show ?case
  proof (cases x)
    case Nop
    then show ?thesis using IH by (subst mss_scan.simps) (simp add: nth_append)
  next
    case (Opt k d)
    then have ok: "k \<noteq> 0" "k \<noteq> 1" "length d < 254" using Cons.prems by auto
    have u: "unat (of_nat (length d + 2) :: byte) = length d + 2" using ok by (intro unat_of_nat_small) simp
    then have g: "\<not> (of_nat (length d + 2) :: byte) < 2" and f: "(of_nat (length d + 2) :: byte) = 4 \<longleftrightarrow> length d = 2"
      by (simp_all only: word_less_nat_alt word_unat_eq_iff) simp_all
    show ?thesis using IH ok u g f unfolding Opt
      by (subst mss_scan.simps) (simp add: nth_append del: of_nat_add of_nat_numeral)
  qed
qed

text \<open>
  Fact. The MSS option is found wherever it stands: in a TCP header with any
  well-formed options (no-operations, other options of any length up to 255, an end-of-list
  marker with padding) \<^verbatim>\<open>mssOptionValue\<close> returns the position of the value of the first
  MSS option, and \<open>-1\<close> if there is none.
\<close>
theorem mss_option_found:
  assumes "length fixed = 20" and "\<forall>x \<in> set xs. option_ok x" and "tail = [] \<or> hd tail = 0"
  shows "mssOptionValue (fixed @ concat (map option_bytes xs) @ tail) = first_mss 20 xs"
  using mss_scan_options [OF assms(2,3), of fixed] assms(1) by (simp add: mssOptionValue_def)

theorem mss_option_found_witness:
  "mssOptionValue (replicate 20 7 @ [1, 3, 3, 6, 2, 4, 5, 0xb4] @ [0, 9]) = Some 26"
  using mss_option_found [of "replicate 20 7" "[Nop, Opt 3 [6], Opt 2 [5, 0xb4]]" "[0, 9]"] by simp

end
