(* ===== verification/Packet_Split.thy ===== *)
theory Packet_Split
  imports Tcp_Mss
begin

text \<open>
  \<^verbatim>\<open>cmd/server/mss.go\<close>, second half: cutting a TCP packet into segments and an IPv4
  packet into fragments that fit the MTU of a client. The packets handed to \<^verbatim>\<open>emit\<close> are
  the elements of the resulting list; \<open>None\<close> is the result \<^verbatim>\<open>false\<close> without a call of
  \<^verbatim>\<open>emit\<close>.
\<close>

section \<open>TCP segments\<close>

text \<open>The body of the loop of \<^verbatim>\<open>splitTCP\<close> for the piece number \<open>i\<close> at offset \<open>off\<close>.\<close>

definition piece_header :: "bytes \<Rightarrow> tcpLayout \<Rightarrow> nat \<Rightarrow> bytes \<Rightarrow> bytes" where
  "piece_header pkt l i part =
     (let hdrLen = lIpLen l + lTcpLen l;
          buf = take hdrLen pkt @ part
      in if lV6 l then overwrite 4 (be16 (of_nat (lTcpLen l + length part))) buf
         else
           let ident = rd16 (subslice 4 6 pkt);
               buf1 = overwrite 2 (be16 (of_nat (length buf))) buf;
               buf2 = overwrite 4 (be16 (ident + of_nat i)) buf1
           in overwrite 0 (setIPv4Checksum (take (lIpLen l) buf2)) buf2)"

definition split_piece :: "bytes \<Rightarrow> tcpLayout \<Rightarrow> bytes \<Rightarrow> nat \<Rightarrow> nat \<Rightarrow> nat \<Rightarrow> bytes" where
  "split_piece pkt l payload chunk i off =
     (let stop = min (off + chunk) (length payload);
          buf = piece_header pkt l i (subslice off stop payload);
          seq = rd32 (drop (lIpLen l + 4) pkt);
          flags = pkt ! (lIpLen l + 13);
          tcp1 = overwrite 4 (be32 (seq + of_nat off)) (drop (lIpLen l) buf);
          tcp2 = overwrite 13 [if stop \<noteq> length payload then flags AND NOT (tcpFIN OR tcpPSH) else flags] tcp1
      in take (lIpLen l) buf @ setTCPChecksum buf (lV6 l) tcp2)"

function split_loop :: "(nat \<Rightarrow> nat \<Rightarrow> 'a) \<Rightarrow> nat \<Rightarrow> nat \<Rightarrow> nat \<Rightarrow> nat \<Rightarrow> 'a list" where
  "split_loop f n chunk i off =
     (if off < n \<and> 0 < chunk then f i off # split_loop f n chunk (i + 1) (off + chunk) else [])"
  by pat_completeness auto
termination by (relation "measure (\<lambda>(f, n, chunk, i, off). n - off)") auto

declare split_loop.simps [simp del]

definition splitTCP :: "bytes \<Rightarrow> int \<Rightarrow> bytes list option" where
  "splitTCP pkt maxLen =
     (case locateTCP pkt of
        None \<Rightarrow> None
      | Some l \<Rightarrow>
          let hdrLen = lIpLen l + lTcpLen l;
              chunk = maxLen - int hdrLen;
              payload = subslice hdrLen (lTotal l) pkt
          in if chunk \<le> 0 \<or> int (length payload) \<le> chunk then None
             else Some (split_loop (split_piece pkt l payload (nat chunk)) (length payload) (nat chunk) 0 0))"

section \<open>IPv4 fragments\<close>

definition fragment_piece :: "bytes \<Rightarrow> nat \<Rightarrow> bytes \<Rightarrow> nat \<Rightarrow> nat \<Rightarrow> bytes" where
  "fragment_piece pkt ihl payload per off =
     (let ff = rd16 (subslice 6 8 pkt);
          base = unat (ff AND 0x1fff) * 8;
          moreFrags = (ff AND 0x2000 \<noteq> 0);
          stop = min (off + per) (length payload);
          frag = take ihl pkt @ subslice off stop payload;
          frag1 = overwrite 2 (be16 (of_nat (length frag))) frag;
          f = of_nat ((base + off) div 8) :: u16;
          f' = (if stop \<noteq> length payload \<or> moreFrags then f OR 0x2000 else f);
          frag2 = overwrite 6 (be16 f') frag1
      in overwrite 0 (setIPv4Checksum (take ihl frag2)) frag2)"

definition fragmentIPv4 :: "bytes \<Rightarrow> int \<Rightarrow> bytes list option" where
  "fragmentIPv4 pkt maxLen =
     (if length pkt < 20 \<or> drop_bit 4 (pkt ! 0) \<noteq> 4 then None
      else
        let ihl = unat (pkt ! 0 AND 0x0f) * 4;
            tot = unat (rd16 (subslice 2 4 pkt))
        in if ihl < 20 \<or> tot < ihl \<or> length pkt < tot \<or> int tot \<le> maxLen then None
           else
             let per = (maxLen - int ihl) div 8 * 8
             in if per \<le> 0 then None
                else
                  let payload = subslice ihl tot pkt
                  in Some (split_loop (\<lambda>i. fragment_piece pkt ihl payload (nat per)) (length payload) (nat per) 0 0))"

section \<open>The loop\<close>

text \<open>The pieces tile the payload.\<close>

lemma split_loop_tiles:
  assumes "0 < chunk" and step: "\<And>off. Q off \<Longrightarrow> Q (off + chunk)" and "Q off"
    and piece: "\<And>i off. off < n \<Longrightarrow> Q off \<Longrightarrow> g (f i off) = map h [off ..< min (off + chunk) n]"
  shows "concat (map g (split_loop f n chunk i off)) = map h [off ..< n]"
  using \<open>Q off\<close>
proof (induction "n - off" arbitrary: i off rule: less_induct)
  case less
  show ?case
  proof (cases "off < n")
    case True
    then have IH: "concat (map g (split_loop f n chunk (i + 1) (off + chunk))) = map h [off + chunk ..< n]"
      using less assms(1) step by simp
    have "[off ..< n] = [off ..< min (off + chunk) n] @ [off + chunk ..< n]"
      using upt_add_eq_append [of off "min (off + chunk) n" "n - (off + chunk)"] True by (auto simp: min_def)
    then show ?thesis
      using True IH piece [OF True less.prems] assms(1) by (simp add: split_loop.simps [of f n chunk i off])
  qed (simp add: split_loop.simps [of f n chunk i off])
qed

lemma split_loop_nth:
  assumes "0 < chunk"
  shows "(k < length (split_loop f n chunk i off) \<longleftrightarrow> off + k * chunk < n) \<and>
         (off + k * chunk < n \<longrightarrow> split_loop f n chunk i off ! k = f (i + k) (off + k * chunk))"
proof (induction k arbitrary: i off)
  case 0
  then show ?case using assms by (simp add: split_loop.simps [of f n chunk i off])
next
  case (Suc k)
  then show ?case
    using assms Suc.IH [of "i + 1" "off + chunk"]
    by (simp add: split_loop.simps [of f n chunk i off] algebra_simps)
qed

lemma split_loop_set:
  assumes "0 < chunk" and "x \<in> set (split_loop f n chunk 0 0)"
  obtains i where "x = f i (i * chunk)" "i * chunk < n"
  using assms split_loop_nth [OF assms(1), of _ f n 0 0] by (auto simp: in_set_conv_nth)

text \<open>A run of bytes with the positions they stand at: sequence numbers, or offsets.\<close>

definition placed :: "'p::comm_semiring_1 \<Rightarrow> bytes \<Rightarrow> ('p \<times> byte) list" where
  "placed at xs = map (\<lambda>j. (at + of_nat j, xs ! j)) [0 ..< length xs]"

lemma subslice_to_end: "subslice n (length p) p = drop n p"
  by (simp add: subslice_def)

lemma placed_subslice:
  assumes "a \<le> b" and "b \<le> length xs"
  shows "placed (at + of_nat a) (subslice a b xs) = map (\<lambda>j. (at + of_nat j, xs ! j)) [a ..< b]"
  using assms by (intro nth_equalityI) (auto simp: placed_def add.assoc)

section \<open>Pieces of a TCP packet\<close>

lemma nth_setIPv4Checksum: "12 \<le> length h \<Longrightarrow> j < length h \<Longrightarrow> j \<notin> {10, 11} \<Longrightarrow> setIPv4Checksum h ! j = h ! j"
  by (auto simp: setIPv4Checksum_def Let_def nth_overwrite)

lemma nth_setTCPChecksum: "18 \<le> length t \<Longrightarrow> j < length t \<Longrightarrow> j \<notin> {16, 17} \<Longrightarrow> setTCPChecksum ip v t ! j = t ! j"
  by (auto simp: setTCPChecksum_def Let_def nth_overwrite)

lemma overwrite_prefix: "length src \<le> length b \<Longrightarrow> overwrite 0 src b = src @ drop (length src) b"
  by (simp add: overwrite_def)

lemma drop_overwrite_before:
  "i + length src \<le> k \<Longrightarrow> k \<le> length b \<Longrightarrow> drop k (overwrite i src b) = drop k b"
  by (simp add: overwrite_def)

lemma subslice_overwrite_after:
  "b \<le> i \<Longrightarrow> i \<le> length xs \<Longrightarrow> subslice a b (overwrite i src xs) = subslice a b xs"
  by (cases "a \<le> b") (simp_all add: subslice_def overwrite_def take_drop)

text \<open>Everything the checks on a piece read from its IP header.\<close>

lemma piece_header_facts:
  assumes l: "20 \<le> lIpLen l" "lV6 l \<longrightarrow> lIpLen l = 40" "lIpLen l + lTcpLen l \<le> length pkt"
    and buf: "buf = piece_header pkt l i part"
  shows "length buf = lIpLen l + lTcpLen l + length part"
    and "drop (lIpLen l) buf = subslice (lIpLen l) (lIpLen l + lTcpLen l) pkt @ part"
    and "j < lIpLen l \<Longrightarrow> j \<notin> {2, 3, 4, 5, 10, 11} \<Longrightarrow> buf ! j = pkt ! j"
    and "\<not> lV6 l \<Longrightarrow> subslice 2 4 buf = be16 (of_nat (length buf))"
    and "lV6 l \<Longrightarrow> subslice 4 6 buf = be16 (of_nat (lTcpLen l + length part))"
    and "\<not> lV6 l \<Longrightarrow> lIpLen l \<le> 65535 \<Longrightarrow> ipv4_verifies (take (lIpLen l) buf)"
proof -
  define b0 where "b0 = take (lIpLen l + lTcpLen l) pkt @ part"
  have b0: "length b0 = lIpLen l + lTcpLen l + length part" "\<And>j. j < lIpLen l \<Longrightarrow> b0 ! j = pkt ! j"
    "drop (lIpLen l) b0 = subslice (lIpLen l) (lIpLen l + lTcpLen l) pkt @ part"
    unfolding b0_def using l by (simp_all add: nth_append subslice_def drop_take)
  define b2 where "b2 = overwrite 4 (be16 (rd16 (subslice 4 6 pkt) + of_nat i)) (overwrite 2 (be16 (of_nat (length b0))) b0)"
  have b2: "length b2 = length b0" "drop (lIpLen l) b2 = drop (lIpLen l) b0"
    "\<And>j. j < length b0 \<Longrightarrow> j \<notin> {2, 3, 4, 5} \<Longrightarrow> b2 ! j = b0 ! j"
    "subslice 2 4 b2 = be16 (of_nat (length b0))"
    unfolding b2_def using l b0(1)
    using subslice_overwrite [of 2 "be16 (of_nat (length b0))" b0]
    by (auto simp: drop_overwrite_before nth_overwrite subslice_overwrite_after)
  let ?h = "setIPv4Checksum (take (lIpLen l) b2)"
  have h: "length ?h = lIpLen l" using l b2 b0 by simp
  have v4: "buf = ?h @ drop (lIpLen l) b2" if "\<not> lV6 l"
    using that l h b0 b2 unfolding buf piece_header_def b0_def [symmetric] b2_def [symmetric] Let_def
    by (simp add: overwrite_prefix)
  have v6: "buf = overwrite 4 (be16 (of_nat (lTcpLen l + length part))) b0" if "lV6 l"
    using that unfolding buf piece_header_def b0_def [symmetric] Let_def by simp
  show len: "length buf = lIpLen l + lTcpLen l + length part"
    using v4 v6 h b0 b2 l by (cases "lV6 l") simp_all
  show "drop (lIpLen l) buf = subslice (lIpLen l) (lIpLen l + lTcpLen l) pkt @ part"
    using v4 v6 h b0 b2 l by (cases "lV6 l") (simp_all add: drop_overwrite_before)
  show "j < lIpLen l \<Longrightarrow> j \<notin> {2, 3, 4, 5, 10, 11} \<Longrightarrow> buf ! j = pkt ! j"
    using v4 v6 h b0 b2 l by (cases "lV6 l") (auto simp: nth_append nth_setIPv4Checksum nth_overwrite)
  show "subslice 2 4 buf = be16 (of_nat (length buf))" if n: "\<not> lV6 l"
  proof -
    have "subslice 2 4 buf = subslice 2 4 b2"
      using l h b0 b2(1) unfolding v4 [OF n]
      by (intro nth_equalityI) (auto simp: nth_append nth_setIPv4Checksum)
    then show ?thesis using b2(4) b0 len by simp
  qed
  show "subslice 4 6 buf = be16 (of_nat (lTcpLen l + length part))" if "lV6 l"
    using l b0 unfolding v6 [OF that] by (simp add: overwrite_def subslice_def)
  show "ipv4_verifies (take (lIpLen l) buf)" if n: "\<not> lV6 l" and "lIpLen l \<le> 65535"
    using that h l b0 b2 v4 [OF n] setIPv4Checksum_verifies [of "take (lIpLen l) b2"] by simp
qed

text \<open>The TCP header and payload of a piece, before and after the checksum.\<close>

lemma tcp_fields:
  assumes h: "length h = n" "20 \<le> n" and t: "t = overwrite 13 [fl] (overwrite 4 (be32 sq) (h @ part))"
  shows "length (setTCPChecksum ip v t) = n + length part"
    "setTCPChecksum ip v t ! 12 = h ! 12" "setTCPChecksum ip v t ! 13 = fl"
    "rd32 (drop 4 (setTCPChecksum ip v t)) = sq"
    "drop n (setTCPChecksum ip v t) = part"
proof -
  have lt: "length t = n + length part" unfolding t using h by simp
  let ?u = "setTCPChecksum ip v t"
  show lu: "length ?u = n + length part" using lt h by simp
  have same: "?u ! j = t ! j" if "j < n + length part" "j \<notin> {16, 17}" for j
    using nth_setTCPChecksum [of t j ip v] that lt h by simp
  have tn: "t ! j = (if j = 13 then fl else if 4 \<le> j \<and> j < 8 then be32 sq ! (j - 4) else (h @ part) ! j)"
    if "j < n + length part" for j
    unfolding t using that h by (auto simp: nth_overwrite)
  show "?u ! 12 = h ! 12" "?u ! 13 = fl" using same tn h by (simp_all add: nth_append)
  have "drop 4 ?u = be32 sq @ drop 8 ?u"
    using lu same tn h by (intro nth_equalityI) (auto simp: nth_append)
  then show "rd32 (drop 4 ?u) = sq" by (simp add: rd32_local rd32_be32)
  show "drop n ?u = part"
    using lu same tn h by (intro nth_equalityI) (auto simp: nth_append)
qed

lemma pseudo_words_prefix:
  assumes "\<And>j. j < k \<Longrightarrow> ip' ! j = ip ! j" and "k \<le> length ip" and "k \<le> length ip'" and "20 \<le> k" and "v \<longrightarrow> 40 \<le> k"
  shows "pseudo_words ip' v n = pseudo_words ip v n"
proof -
  have "subslice a b ip' = subslice a b ip" if "b \<le> k" for a b
    using assms(1-3) that by (intro nth_equalityI) (auto simp: min_def split: if_splits)
  then show ?thesis using assms(4,5) by (simp add: pseudo_words_def)
qed

lemma locateTCP_I:
  assumes "p ! 0 = pkt ! 0" "p ! 6 = pkt ! 6" "p ! 7 = pkt ! 7" "p ! 9 = pkt ! 9" "p ! (lIpLen l + 12) = pkt ! (lIpLen l + 12)"
    and l: "locateTCP pkt = Some l" and len: "lIpLen l + lTcpLen l \<le> length p"
    and v4: "\<not> lV6 l \<Longrightarrow> unat (rd16 (subslice 2 4 p)) = length p"
    and v6: "lV6 l \<Longrightarrow> 40 + unat (rd16 (subslice 4 6 p)) = length p"
  shows "locateTCP p = Some (l\<lparr>lTotal := length p\<rparr>)"
proof -
  note b = locateTCP_bounds [OF l]
  have s: "subslice 6 8 p = subslice 6 8 pkt" if "8 \<le> length pkt"
    using assms(2,3) len b that by (intro nth_equalityI) (auto simp: less_Suc_eq numeral_2_eq_2)
  have "p \<noteq> []" using len b(1) by auto
  then show ?thesis
    using l assms(1-5) len v4 v6 s b(1,2) by (cases "lV6 l") (simp_all add: locateTCP_iff locate_ip_iff)
qed

text \<open>What a piece is to its receiver.\<close>

lemma split_piece_facts:
  assumes l: "locateTCP pkt = Some l" and pl: "payload = subslice (lIpLen l + lTcpLen l) (lTotal l) pkt"
    and off: "off < length payload" and stop: "stop = min (off + chunk) (length payload)"
    and p: "p = split_piece pkt l payload chunk i off"
  shows "length p = lIpLen l + lTcpLen l + (stop - off)"
    and "locateTCP p = Some (l\<lparr>lTotal := length p\<rparr>)"
    and "rd32 (drop (lIpLen l + 4) p) = rd32 (drop (lIpLen l + 4) pkt) + of_nat off"
    and "drop (lIpLen l + lTcpLen l) p = subslice off stop payload"
    and "p ! (lIpLen l + 13) = (if stop \<noteq> length payload then pkt ! (lIpLen l + 13) AND NOT (tcpFIN OR tcpPSH) else pkt ! (lIpLen l + 13))"
    and "segment_verifies (l\<lparr>lTotal := length p\<rparr>) p"
    and "\<not> lV6 l \<Longrightarrow> ipv4_verifies (take (lIpLen l) p)"
proof -
  note b = locateTCP_bounds [OF l]
  define part where "part = subslice off stop payload"
  define buf where "buf = piece_header pkt l i part"
  define h where "h = subslice (lIpLen l) (lIpLen l + lTcpLen l) pkt"
  define fl where "fl = (if stop \<noteq> length payload then pkt ! (lIpLen l + 13) AND NOT (tcpFIN OR tcpPSH) else pkt ! (lIpLen l + 13))"
  define t where "t = overwrite 13 [fl] (overwrite 4 (be32 (rd32 (drop (lIpLen l + 4) pkt) + of_nat off)) (h @ part))"
  have np: "length part = stop - off" using stop by (simp add: part_def)
  have npl: "length payload = lTotal l - (lIpLen l + lTcpLen l)" using pl b by simp
  have fit: "20 \<le> lIpLen l" "lV6 l \<longrightarrow> lIpLen l = 40" "lIpLen l + lTcpLen l \<le> length pkt" using b by simp_all
  note bf = piece_header_facts [OF fit buf_def]
  have lh: "length h = lTcpLen l" using b by (simp add: h_def)
  note tf = tcp_fields [OF lh b(2) t_def, of buf "lV6 l"]
  let ?u = "setTCPChecksum buf (lV6 l) t"
  have peq: "p = take (lIpLen l) buf @ ?u"
    unfolding p split_piece_def Let_def stop [symmetric] part_def [symmetric] buf_def [symmetric] t_def fl_def h_def bf(2) ..
  have lb: "length (take (lIpLen l) buf) = lIpLen l" using bf(1) by simp
  show len: "length p = lIpLen l + lTcpLen l + (stop - off)" using peq lb tf(1) np by simp
  have dp: "drop (lIpLen l) p = ?u" unfolding peq using lb by simp
  show "rd32 (drop (lIpLen l + 4) p) = rd32 (drop (lIpLen l + 4) pkt) + of_nat off"
    using tf(4) unfolding dp [symmetric] by (simp add: add.commute)
  show "drop (lIpLen l + lTcpLen l) p = subslice off stop payload"
    using tf(5) unfolding dp [symmetric] part_def by (simp add: add.commute)
  have nth: "p ! (lIpLen l + j) = ?u ! j" for j unfolding peq using lb by (simp add: nth_append)
  show "p ! (lIpLen l + 13) = (if stop \<noteq> length payload then pkt ! (lIpLen l + 13) AND NOT (tcpFIN OR tcpPSH) else pkt ! (lIpLen l + 13))"
    using nth tf(3) by (simp add: fl_def)
  have pre: "p ! j = buf ! j" if "j < lIpLen l" for j unfolding peq using that lb by (simp add: nth_append)
  have sub: "subslice x y p = subslice x y buf" if "y \<le> 20" for x y
    using that pre b(1) len bf(1) np by (intro nth_equalityI) (auto simp: min_def split: if_splits)
  have lp: "length p = length buf" using len bf(1) np by simp
  have "stop \<le> length payload" using stop by simp
  then have small: "length p \<le> lTotal l" using len npl b(3) by linarith
  show loc: "locateTCP p = Some (l\<lparr>lTotal := length p\<rparr>)"
  proof (rule locateTCP_I [OF _ _ _ _ _ l])
    show "p ! 0 = pkt ! 0" "p ! 6 = pkt ! 6" "p ! 7 = pkt ! 7" "p ! 9 = pkt ! 9" using pre bf(3) b(1) by simp_all
    show "p ! (lIpLen l + 12) = pkt ! (lIpLen l + 12)" using nth tf(2) b by (simp add: h_def)
    show "unat (rd16 (subslice 2 4 p)) = length p" if "\<not> lV6 l"
      using sub [of 4 2] bf(4) [OF that] small b(7) [OF that] lp by (simp add: rd16_be16 unat_of_nat_small)
    show "40 + unat (rd16 (subslice 4 6 p)) = length p" if v: "lV6 l"
    proof -
      have "lTcpLen l + length part < 2 ^ LENGTH(16)" using small b(5) b(8) [OF v] len np by simp
      then show ?thesis using sub [of 6 4] bf(5) [OF v] b(8) [OF v] len np by (simp only: rd16_be16 unat_of_nat_small)
    qed
  qed (use len in simp)
  have "tcp_verifies buf (lV6 l) ?u"
    using setTCPChecksum_verifies [of t buf "lV6 l"] b(2,5) small len np by (simp add: t_def lh)
  moreover have "pseudo_words p (lV6 l) n = pseudo_words buf (lV6 l) n" for n
    by (rule pseudo_words_prefix [of "lIpLen l"]) (use pre fit len bf(1) in auto)
  moreover have "length p - lIpLen l = length ?u" using lb by (simp add: peq)
  ultimately show "segment_verifies (l\<lparr>lTotal := length p\<rparr>) p"
    using dp by (simp add: segment_verifies_def tcp_segment_def subslice_def tcp_verifies_def)
  show "ipv4_verifies (take (lIpLen l) p)" if "\<not> lV6 l"
    using bf(6) [OF that] b(3,7) that lb unfolding peq by simp
qed

text \<open>The bytes of the stream a segment carries, with their sequence numbers.\<close>

definition stream_bytes :: "bytes \<Rightarrow> (u32 \<times> byte) list" where
  "stream_bytes p =
     (case locateTCP p of
        None \<Rightarrow> []
      | Some l \<Rightarrow> placed (rd32 (drop (lIpLen l + 4) p)) (subslice (lIpLen l + lTcpLen l) (lTotal l) p))"

lemma splitTCP_Some:
  assumes "splitTCP pkt maxLen = Some segs"
  obtains l payload chunk where "locateTCP pkt = Some l" "payload = subslice (lIpLen l + lTcpLen l) (lTotal l) pkt"
    "0 < chunk" "chunk < length payload" "int (lIpLen l + lTcpLen l + chunk) = maxLen"
    "segs = split_loop (split_piece pkt l payload chunk) (length payload) chunk 0 0"
proof -
  obtain l where l: "locateTCP pkt = Some l" using assms by (auto simp: splitTCP_def split: option.splits)
  let ?p = "subslice (lIpLen l + lTcpLen l) (lTotal l) pkt" and ?c = "nat (maxLen - int (lIpLen l + lTcpLen l))"
  have "0 < ?c" "?c < length ?p" "int (lIpLen l + lTcpLen l + ?c) = maxLen"
      "segs = split_loop (split_piece pkt l ?p ?c) (length ?p) ?c 0 0"
    using assms l by (auto simp: splitTCP_def Let_def split: if_splits)
  then show thesis using that [OF l refl] by blast
qed

text \<open>
  Property C20. Splitting a TCP packet that is too large loses and changes nothing: the
  segments carry exactly the bytes of the packet at the same sequence numbers, in order;
  each fits the limit, is located as a TCP packet with the same headers, and has correct
  TCP and IPv4 checksums; FIN and PSH are left to the last segment.
\<close>
theorem split_tcp_preserves_stream:
  assumes "splitTCP pkt maxLen = Some segs"
  shows "concat (map stream_bytes segs) = stream_bytes pkt \<and>
    (\<exists>l. locateTCP pkt = Some l \<and>
      (\<forall>k < length segs. int (length (segs ! k)) \<le> maxLen \<and>
         locateTCP (segs ! k) = Some (l\<lparr>lTotal := length (segs ! k)\<rparr>) \<and>
         segment_verifies (l\<lparr>lTotal := length (segs ! k)\<rparr>) (segs ! k) \<and>
         (\<not> lV6 l \<longrightarrow> ipv4_verifies (take (lIpLen l) (segs ! k))) \<and>
         segs ! k ! (lIpLen l + 13) =
           (if k + 1 = length segs then pkt ! (lIpLen l + 13)
            else pkt ! (lIpLen l + 13) AND NOT (tcpFIN OR tcpPSH))))"
proof -
  obtain l payload chunk where l: "locateTCP pkt = Some l" and pl: "payload = subslice (lIpLen l + lTcpLen l) (lTotal l) pkt"
    and c: "0 < chunk" "chunk < length payload" and m: "int (lIpLen l + lTcpLen l + chunk) = maxLen"
    and segs: "segs = split_loop (split_piece pkt l payload chunk) (length payload) chunk 0 0"
    by (rule splitTCP_Some [OF assms])
  let ?n = "length payload" and ?sq = "rd32 (drop (lIpLen l + 4) pkt)"
  note pf = split_piece_facts [OF l pl _ refl refl]
  have "stream_bytes (split_piece pkt l payload chunk i off) = map (\<lambda>j. (?sq + of_nat j, payload ! j)) [off ..< min (off + chunk) ?n]"
    if "off < ?n" for i off
    using pf(2-4) [OF that, where chunk = chunk and i = i] that
    by (simp add: stream_bytes_def subslice_to_end placed_subslice)
  from split_loop_tiles [where g = stream_bytes and Q = "\<lambda>_. True", OF c(1) TrueI TrueI this]
  have "concat (map stream_bytes segs) = map (\<lambda>j. (?sq + of_nat j, payload ! j)) [0 ..< ?n]" unfolding segs .
  then have bytes: "concat (map stream_bytes segs) = stream_bytes pkt"
    by (simp add: stream_bytes_def l placed_def pl [symmetric])
  have nth: "k < length segs \<longleftrightarrow> k * chunk < ?n" "k < length segs \<Longrightarrow> segs ! k = split_piece pkt l payload chunk k (k * chunk)" for k
    using split_loop_nth [OF c(1), of k "split_piece pkt l payload chunk" ?n 0 0] unfolding segs by auto
  have last: "min (k * chunk + chunk) ?n \<noteq> ?n \<longleftrightarrow> k + 1 \<noteq> length segs" if "k < length segs" for k
    using nth(1) [of "k + 1"] that by (auto simp: algebra_simps)
  show ?thesis
  proof (intro conjI exI [of _ l] allI impI l bytes)
    fix k assume k: "k < length segs"
    then have o: "k * chunk < ?n" using nth by blast
    note f = pf [OF o, where i = k and chunk = chunk, folded nth(2) [OF k]]
    show "int (length (segs ! k)) \<le> maxLen" using f(1) m by auto
    show "locateTCP (segs ! k) = Some (l\<lparr>lTotal := length (segs ! k)\<rparr>)" by (rule f(2))
    show "segment_verifies (l\<lparr>lTotal := length (segs ! k)\<rparr>) (segs ! k)" by (rule f(6))
    show "\<not> lV6 l \<Longrightarrow> ipv4_verifies (take (lIpLen l) (segs ! k))" by (rule f(7))
    show "segs ! k ! (lIpLen l + 13) = (if k + 1 = length segs then pkt ! (lIpLen l + 13)
            else pkt ! (lIpLen l + 13) AND NOT (tcpFIN OR tcpPSH))"
      using f(5) last [OF k] by simp
  qed
qed

definition example_segment :: bytes where
  "example_segment =
     [0x45, 0, 0, 46, 0, 7, 0, 0, 64, 6, 0, 0, 10, 0, 0, 1, 10, 0, 0, 2] @
     [0, 80, 0x30, 0x39, 0, 0, 0, 100, 0, 0, 0, 0, 0x50, 0x19, 1, 0, 0, 0, 0, 0] @ [1, 2, 3, 4, 5, 6]"

lemma example_segment_split: "\<exists>segs. splitTCP example_segment 44 = Some segs"
proof -
  have "rd16 [0, 46] = 46" "rd16 [0, 0] = 0" by (simp_all add: rd16_def)
  then have "locateTCP example_segment = Some \<lparr>lV6 = False, lIpLen = 20, lTcpLen = 20, lTotal = 46\<rparr>"
    by (simp add: locateTCP_iff locate_ip_iff example_segment_def subslice_def)
  then show ?thesis by (simp add: splitTCP_def Let_def) (simp add: example_segment_def)
qed

theorem split_tcp_preserves_stream_witness:
  "\<exists>segs. splitTCP example_segment 44 = Some segs \<and>
     concat (map stream_bytes segs) = stream_bytes example_segment"
  using example_segment_split split_tcp_preserves_stream [of example_segment 44] by blast

section \<open>Fragments of an IPv4 packet\<close>

lemma frag_field:
  fixes n :: nat
  assumes "n < 8192"
  defines "f \<equiv> of_nat n :: u16"
  shows "unat (f AND 0x1fff) = n" "unat ((f OR 0x2000) AND 0x1fff) = n" "f AND 0x2000 = 0" "(f OR 0x2000) AND 0x2000 \<noteq> 0"
    "f AND 0x4000 = 0" "(f OR 0x2000) AND 0x4000 = 0"
proof -
  have u: "unat f = n" using assms by (simp add: unat_of_nat_small)
  have "f AND 0x1fff = take_bit 13 f" by (simp add: take_bit_eq_mask mask_eq_exp_minus_1)
  moreover have "unat (take_bit 13 f) = n" using assms(1) by (simp add: unsigned_take_bit_eq u take_bit_eq_mod unat_mod)
  ultimately have m: "f AND 0x1fff = f" using u by (simp add: word_unat_eq_iff)
  then show a: "unat (f AND 0x1fff) = n" using u by simp
  have "f AND 0x2000 = f AND (0x1fff AND 0x2000)" "f AND 0x4000 = f AND (0x1fff AND 0x4000)"
    by (simp_all only: m and.assoc [symmetric])
  then show z: "f AND 0x2000 = 0" "f AND 0x4000 = 0" by simp_all
  show "(f OR 0x2000) AND 0x4000 = 0" "(f OR 0x2000) AND 0x2000 \<noteq> 0" "unat ((f OR 0x2000) AND 0x1fff) = n"
    using a by (simp_all add: bit.conj_disj_distrib2 z)
qed

definition header_len :: "bytes \<Rightarrow> nat" where
  "header_len p = unat (p ! 0 AND 0x0f) * 4"

definition frag_offset :: "bytes \<Rightarrow> nat" where
  "frag_offset p = unat (rd16 (subslice 6 8 p) AND 0x1fff) * 8"

definition more_fragments :: "bytes \<Rightarrow> bool" where
  "more_fragments p \<longleftrightarrow> rd16 (subslice 6 8 p) AND 0x2000 \<noteq> 0"

definition frag_data :: "bytes \<Rightarrow> bytes" where
  "frag_data p = subslice (header_len p) (unat (rd16 (subslice 2 4 p))) p"

text \<open>The bytes of the datagram a fragment carries, with their offsets.\<close>

definition frag_bytes :: "bytes \<Rightarrow> (nat \<times> byte) list" where
  "frag_bytes p = placed (frag_offset p) (frag_data p)"

lemma fragment_piece_facts:
  assumes ihl: "ihl = header_len pkt" "20 \<le> ihl" "ihl + length payload \<le> 65535" "ihl \<le> length pkt"
    and off: "off < length payload" "8 dvd off" "frag_offset pkt + length payload \<le> 65536"
    and stop: "stop = min (off + per) (length payload)" and p: "p = fragment_piece pkt ihl payload per off"
  shows "length p = ihl + (stop - off)" and "header_len p = ihl" and "frag_offset p = frag_offset pkt + off"
    and "frag_data p = subslice off stop payload"
    and "more_fragments p \<longleftrightarrow> stop \<noteq> length payload \<or> more_fragments pkt"
    and "ipv4_verifies (take ihl p)" and "rd16 (subslice 6 8 p) AND 0x4000 = 0"
    and "j < ihl \<Longrightarrow> j \<notin> {2, 3, 6, 7, 10, 11} \<Longrightarrow> p ! j = pkt ! j"
proof -
  define part where "part = subslice off stop payload"
  define q0 where "q0 = take ihl pkt @ part"
  define n where "n = (frag_offset pkt + off) div 8"
  define f where "f = (if stop \<noteq> length payload \<or> more_fragments pkt then of_nat n OR 0x2000 else of_nat n :: u16)"
  define q2 where "q2 = overwrite 6 (be16 f) (overwrite 2 (be16 (of_nat (length q0))) q0)"
  have np: "length part = stop - off" using stop by (simp add: part_def)
  have l0: "length q0 = ihl + (stop - off)" using ihl np by (simp add: q0_def)
  have q2: "length q2 = length q0" "drop ihl q2 = part"
    "\<And>j. j < ihl \<Longrightarrow> j \<notin> {2, 3, 6, 7} \<Longrightarrow> q2 ! j = pkt ! j"
    "subslice 2 4 q2 = be16 (of_nat (length q0))" "subslice 6 8 q2 = be16 f"
    using ihl l0 subslice_overwrite [of 2 "be16 (of_nat (length q0))" q0]
      subslice_overwrite [of 6 "be16 f" "overwrite 2 (be16 (of_nat (length q0))) q0"]
    unfolding q2_def by (auto simp: drop_overwrite_before nth_overwrite subslice_overwrite_after q0_def nth_append)
  let ?h = "setIPv4Checksum (take ihl q2)"
  have h: "length ?h = ihl" using ihl q2(1) l0 by simp
  have peq: "p = ?h @ part"
  proof -
    have "p = overwrite 0 ?h q2"
      unfolding p fragment_piece_def Let_def frag_offset_def [symmetric] more_fragments_def [symmetric]
        stop [symmetric] part_def [symmetric] q0_def [symmetric] n_def [symmetric] f_def [symmetric] q2_def [symmetric] ..
    then show ?thesis using h l0 q2(1,2) by (simp add: overwrite_prefix)
  qed
  show lp: "length p = ihl + (stop - off)" using peq h np by simp
  have nth: "p ! j = q2 ! j" if "j < ihl" "j \<notin> {10, 11}" for j
    unfolding peq using that h ihl q2(1) l0 by (simp add: nth_append nth_setIPv4Checksum)
  then show "j < ihl \<Longrightarrow> j \<notin> {2, 3, 6, 7, 10, 11} \<Longrightarrow> p ! j = pkt ! j" using q2(3) by simp
  have low: "p ! j = q2 ! j" if "j < 10" for j using nth that ihl(2) by simp
  have sub: "subslice x y p = subslice x y q2" if "y \<le> 10" for x y
    using that low lp l0 q2(1) by (intro nth_equalityI) (auto simp: min_def split: if_splits)
  show hl: "header_len p = ihl" using nth [of 0] q2(3) [of 0] ihl by (simp add: header_len_def)
  have nb: "n < 8192" using off by (simp add: n_def less_mult_imp_div_less)
  have f6: "rd16 (subslice 6 8 p) = f" using sub [of 8 6] q2(5) by (simp add: rd16_be16)
  have "8 dvd frag_offset pkt + off" using off(2) by (simp add: frag_offset_def)
  then have "n * 8 = frag_offset pkt + off" by (simp add: n_def)
  then show "frag_offset p = frag_offset pkt + off"
    unfolding frag_offset_def [of p] f6 f_def using frag_field [OF nb] by simp
  show "more_fragments p \<longleftrightarrow> stop \<noteq> length payload \<or> more_fragments pkt"
    unfolding more_fragments_def [of p] f6 f_def using frag_field [OF nb] by simp
  show "rd16 (subslice 6 8 p) AND 0x4000 = 0" unfolding f6 f_def using frag_field [OF nb] by simp
  have "stop \<le> length payload" using stop by simp
  then have "length q0 < 2 ^ LENGTH(16)" using l0 ihl(3) by simp
  then have "unat (rd16 (subslice 2 4 p)) = length p"
    using sub [of 4 2] q2(4) l0 lp by (simp only: rd16_be16 unat_of_nat_small)
  then have "frag_data p = drop ihl p" unfolding frag_data_def hl by (simp only: subslice_to_end)
  then show "frag_data p = subslice off stop payload" using h by (simp add: peq part_def)
  show "ipv4_verifies (take ihl p)"
    using setIPv4Checksum_verifies [of "take ihl q2"] ihl l0 q2(1) h by (simp add: peq)
qed

lemma fragmentIPv4_Some:
  assumes "fragmentIPv4 pkt maxLen = Some frags"
  obtains per where "0 < per" "8 dvd per" "int (header_len pkt + per) \<le> maxLen"
    "20 \<le> header_len pkt" "header_len pkt + length (frag_data pkt) = unat (rd16 (subslice 2 4 pkt))"
    "header_len pkt \<le> length pkt"
    "frags = split_loop (\<lambda>i. fragment_piece pkt (header_len pkt) (frag_data pkt) per) (length (frag_data pkt)) per 0 0"
proof -
  let ?per = "(maxLen - int (header_len pkt)) div 8 * 8"
  have g: "20 \<le> header_len pkt" "header_len pkt \<le> unat (rd16 (subslice 2 4 pkt))"
      "unat (rd16 (subslice 2 4 pkt)) \<le> length pkt" "0 < ?per"
      "frags = split_loop (\<lambda>i. fragment_piece pkt (header_len pkt) (frag_data pkt) (nat ?per)) (length (frag_data pkt)) (nat ?per) 0 0"
    using assms by (auto simp: fragmentIPv4_def header_len_def [symmetric] frag_data_def [symmetric] Let_def split: if_splits)
  moreover have "8 dvd nat ?per" using g(4) by (simp add: nat_mult_distrib)
  moreover have "int (header_len pkt + nat ?per) \<le> maxLen" using g(4) by simp
  ultimately show thesis by (intro that [of "nat ?per"]) (auto simp: frag_data_def)
qed

text \<open>
  Property C21. The fragments of an IPv4 packet reassemble to it: they carry exactly its bytes
  at the same offsets, in order (the packet may be a fragment itself, if its data ends within
  the 64 KiB an offset can address); each fits the limit, keeps the identification and every
  other header field, clears DF, has a correct header checksum, carries a multiple of 8 bytes
  unless it is the last, and asks for more fragments unless it is the last of the last.
\<close>
theorem fragments_reassemble:
  assumes "fragmentIPv4 pkt maxLen = Some frags"
    and "frag_offset pkt + length (frag_data pkt) \<le> 65536"
  shows "concat (map frag_bytes frags) = frag_bytes pkt \<and>
    (\<forall>k < length frags. int (length (frags ! k)) \<le> maxLen \<and> header_len (frags ! k) = header_len pkt \<and>
       ipv4_verifies (take (header_len pkt) (frags ! k)) \<and>
       (\<forall>j < header_len pkt. j \<notin> {2, 3, 6, 7, 10, 11} \<longrightarrow> frags ! k ! j = pkt ! j) \<and>
       rd16 (subslice 6 8 (frags ! k)) AND 0x4000 = 0 \<and>
       (more_fragments (frags ! k) \<longleftrightarrow> k + 1 \<noteq> length frags \<or> more_fragments pkt) \<and>
       (k + 1 \<noteq> length frags \<longrightarrow> 8 dvd length (frag_data (frags ! k))))"
proof -
  let ?pl = "frag_data pkt" and ?h = "header_len pkt"
  let ?n = "length ?pl"
  obtain per where per: "0 < per" "8 dvd per" "int (?h + per) \<le> maxLen" and h: "20 \<le> ?h" "?h + ?n = unat (rd16 (subslice 2 4 pkt))"
    "?h \<le> length pkt" and frags: "frags = split_loop (\<lambda>i. fragment_piece pkt ?h ?pl per) ?n per 0 0"
    by (rule fragmentIPv4_Some [OF assms(1)])
  have h': "?h + ?n \<le> 65535" using h(2) unat_bound [of "rd16 (subslice 2 4 pkt)"] by simp
  note pf = fragment_piece_facts [OF refl h(1) h' h(3) _ _ assms(2) refl refl, where per = per]
  have nth: "k < length frags \<longleftrightarrow> k * per < ?n" "k < length frags \<Longrightarrow> frags ! k = fragment_piece pkt ?h ?pl per (k * per)" for k
    using split_loop_nth [OF per(1), of k "\<lambda>i. fragment_piece pkt ?h ?pl per" ?n 0 0] unfolding frags by auto
  have last: "min (k * per + per) ?n \<noteq> ?n \<longleftrightarrow> k + 1 \<noteq> length frags" if "k < length frags" for k
    using nth(1) [of "k + 1"] that by (auto simp: algebra_simps)
  have "frag_bytes (fragment_piece pkt ?h ?pl per off) = map (\<lambda>j. (frag_offset pkt + of_nat j, ?pl ! j)) [off ..< min (off + per) ?n]"
    if "off < ?n" "8 dvd off" for off
    using pf(3,4) [OF that] that(1) placed_subslice [of off "min (off + per) ?n" ?pl "frag_offset pkt"] by (simp add: frag_bytes_def)
  from split_loop_tiles [where g = frag_bytes and Q = "\<lambda>off. 8 dvd off", OF per(1) _ _ this]
  have "concat (map frag_bytes frags) = map (\<lambda>j. (frag_offset pkt + of_nat j, ?pl ! j)) [0 ..< ?n]"
    unfolding frags using per(2) by simp
  then have bytes: "concat (map frag_bytes frags) = frag_bytes pkt" by (simp add: frag_bytes_def placed_def)
  show ?thesis
  proof (intro conjI allI impI bytes)
    fix k assume k: "k < length frags"
    then have o: "k * per < ?n" "8 dvd k * per" using nth(1) per(2) by auto
    note f = pf [OF o, folded nth(2) [OF k]]
    show "int (length (frags ! k)) \<le> maxLen" using f(1) per(3) by auto
    show "header_len (frags ! k) = ?h" by (rule f(2))
    show "ipv4_verifies (take ?h (frags ! k))" by (rule f(6))
    show "rd16 (subslice 6 8 (frags ! k)) AND 0x4000 = 0" by (rule f(7))
    show "more_fragments (frags ! k) \<longleftrightarrow> k + 1 \<noteq> length frags \<or> more_fragments pkt" using f(5) last [OF k] by simp
    show "frags ! k ! j = pkt ! j" if "j < ?h" "j \<notin> {2, 3, 6, 7, 10, 11}" for j using f(8) that by blast
    show "8 dvd length (frag_data (frags ! k))" if "k + 1 \<noteq> length frags"
      using f(4) last [OF k] that per(2) by (simp add: min_def split: if_splits)
  qed
qed

definition example_datagram :: bytes where
  "example_datagram =
     [0x45, 0, 0, 40, 0, 7, 0x40, 0, 64, 17, 0, 0, 10, 0, 0, 1, 10, 0, 0, 2] @ replicate 20 9"

theorem fragments_reassemble_witness:
  "\<exists>frags. fragmentIPv4 example_datagram 30 = Some frags \<and>
     concat (map frag_bytes frags) = frag_bytes example_datagram"
proof -
  have r: "rd16 [0, 40] = 40" "rd16 [0x40, 0] = 0x4000" by (simp_all add: rd16_def)
  have "\<exists>frags. fragmentIPv4 example_datagram 30 = Some frags"
    by (simp add: fragmentIPv4_def example_datagram_def subslice_def r Let_def)
  moreover have "frag_offset example_datagram + length (frag_data example_datagram) \<le> 65536"
    by (simp add: frag_offset_def frag_data_def header_len_def example_datagram_def subslice_def r)
  ultimately show ?thesis using fragments_reassemble [of example_datagram 30] by blast
qed

end
