(* ===== verification/Tun_Router.thy ===== *)
theory Tun_Router
  imports Packet_Split
begin

text \<open>
  \<^verbatim>\<open>cmd/server/tun_router.go\<close>: one TUN device shared by the sessions of all clients. The
  router learns which client address belongs to which session and queues downlink packets;
  each session has a writer with a lane for latency-sensitive packets and a bulk queue.
  Sessions are identifiers into a store, so that the maps of the router and the sessions
  share them as the pointers of the code do. Times are nanoseconds. The buffer pool only
  recycles memory and is left out.
\<close>

section \<open>Addresses of a packet\<close>

text \<open>\<^verbatim>\<open>netip.Addr\<close>: an IPv4 address of 4 bytes or an IPv6 address of 16 bytes.\<close>

datatype Addr = Addr4 bytes | Addr16 bytes

definition packetEndpoints :: "bytes \<Rightarrow> (Addr \<times> Addr) option" where
  "packetEndpoints packet =
     (if packet = [] then None
      else if drop_bit 4 (packet ! 0) = 4 then
        (if length packet < 20 then None
         else Some (Addr4 (subslice 12 16 packet), Addr4 (subslice 16 20 packet)))
      else if drop_bit 4 (packet ! 0) = 6 then
        (if length packet < 40 then None
         else Some (Addr16 (subslice 8 24 packet), Addr16 (subslice 24 40 packet)))
      else None)"

text \<open>The methods of \<^verbatim>\<open>netip.Addr\<close> the router calls; an IPv4-mapped IPv6 address is
  multicast if the IPv4 address is.\<close>

definition is4In6 :: "bytes \<Rightarrow> bool" where
  "is4In6 b \<longleftrightarrow> take 12 b = replicate 10 0 @ [0xff, 0xff]"

fun IsUnspecified :: "Addr \<Rightarrow> bool" where
  "IsUnspecified (Addr4 b) \<longleftrightarrow> b = replicate 4 0"
| "IsUnspecified (Addr16 b) \<longleftrightarrow> b = replicate 16 0"

fun IsMulticast :: "Addr \<Rightarrow> bool" where
  "IsMulticast (Addr4 b) \<longleftrightarrow> b ! 0 AND 0xf0 = 0xe0"
| "IsMulticast (Addr16 b) \<longleftrightarrow> (if is4In6 b then b ! 12 AND 0xf0 = 0xe0 else b ! 0 = 0xff)"

section \<open>Packets and sessions\<close>

definition routedSessionQueueSize :: nat where "routedSessionQueueSize = 1024"
definition routedMaxSojourn :: int where "routedMaxSojourn = 100000000"
definition routedPrioQueueSize :: nat where "routedPrioQueueSize = 256"
definition routedPrioBurst :: nat where "routedPrioBurst = 64"

record routedPacket =
  rpBuf :: bytes
  rpAt :: int

text \<open>Where the writer of a session is: in the select of \<^verbatim>\<open>writeLoop\<close>, in the loop of
  \<^verbatim>\<open>sendBulk\<close> with the packets of its batch that are still to be sent, or returned.\<close>

datatype writer = InLoop | InBatch "routedPacket list" | Returned

record routedSession =
  rsMtu :: int
  rsIps :: "Addr set"
  rsOut :: "routedPacket list"
  rsPrio :: "routedPacket list"
  rsPrioRun :: nat
  rsDone :: bool
  rsWriter :: writer

type_synonym rsid = nat

record tunRouter =
  trSessions :: "rsid set"
  trByIP :: "Addr \<rightharpoonup> rsid"
  trTunnelMTU :: int
  trNormalizeMSS :: bool
  trStore :: "rsid \<Rightarrow> routedSession"
  trNext :: rsid

definition fresh_session :: "int \<Rightarrow> routedSession" where
  "fresh_session mtu = \<lparr>rsMtu = mtu, rsIps = {}, rsOut = [], rsPrio = [], rsPrioRun = 0, rsDone = False, rsWriter = InLoop\<rparr>"

definition newTunRouter :: tunRouter where
  "newTunRouter =
     \<lparr>trSessions = {}, trByIP = Map.empty, trTunnelMTU = maxTunnelMTU, trNormalizeMSS = True,
      trStore = (\<lambda>_. fresh_session maxTunnelMTU), trNext = 0\<rparr>"

definition configureMSS :: "tunRouter \<Rightarrow> int \<Rightarrow> bool \<Rightarrow> tunRouter" where
  "configureMSS r tunnelMTU norm = r\<lparr>trTunnelMTU := tunnelMTU, trNormalizeMSS := norm\<rparr>"

definition registerSession :: "tunRouter \<Rightarrow> rsid \<times> tunRouter" where
  "registerSession r =
     (let s = trNext r
      in (s, r\<lparr>trStore := (trStore r)(s := fresh_session (trTunnelMTU r)),
               trSessions := insert s (trSessions r), trNext := s + 1\<rparr>))"

section \<open>Routing\<close>

definition singleSession :: "tunRouter \<Rightarrow> rsid option" where
  "singleSession r = (if card (trSessions r) \<noteq> 1 then None else Some (Min (trSessions r)))"

definition sessionForPacket :: "tunRouter \<Rightarrow> bytes \<Rightarrow> rsid option" where
  "sessionForPacket r packet =
     (case packetEndpoints packet of
        None \<Rightarrow> singleSession r
      | Some (src, dst) \<Rightarrow> (case trByIP r dst of Some s \<Rightarrow> Some s | None \<Rightarrow> singleSession r))"

definition learnFromClientPacket :: "tunRouter \<Rightarrow> rsid \<Rightarrow> bytes \<Rightarrow> tunRouter" where
  "learnFromClientPacket r s packet =
     (case packetEndpoints packet of
        None \<Rightarrow> r
      | Some (src, dst) \<Rightarrow>
          if IsUnspecified src \<or> IsMulticast src then r
          else if s \<notin> trSessions r then r
          else if src \<in> rsIps (trStore r s) then r
          else
            let st = (case trByIP r src of
                        Some prev \<Rightarrow>
                          if prev \<noteq> s
                          then (trStore r)(prev := (trStore r prev)\<lparr>rsIps := rsIps (trStore r prev) - {src}\<rparr>)
                          else trStore r
                      | None \<Rightarrow> trStore r);
                st' = st(s := (st s)\<lparr>rsIps := insert src (rsIps (st s))\<rparr>)
            in r\<lparr>trStore := st', trByIP := (trByIP r)(src \<mapsto> s)\<rparr>)"

text \<open>\<^verbatim>\<open>writeToTUN\<close>: the packet that is written to the device and the router after it.\<close>

definition writeToTUN :: "tunRouter \<Rightarrow> rsid \<Rightarrow> bytes \<Rightarrow> bytes \<times> tunRouter" where
  "writeToTUN r s packet =
     (let r1 = learnFromClientPacket r s packet
      in if trNormalizeMSS r1 then
           let (clientMTU, packet') = normalizeUplinkSYN packet
           in if 0 < clientMTU
              then (packet', r1\<lparr>trStore := (trStore r1)(s := (trStore r1 s)
                     \<lparr>rsMtu := min (max clientMTU minClientMTU) (trTunnelMTU r1)\<rparr>)\<rparr>)
              else (packet', r1)
         else (packet, r1))"

text \<open>
  \<^verbatim>\<open>Close\<close> closes the done channel first and takes the session out of the maps afterwards, under the lock of the
  router; between the two the session is still routed to. Only the first call does anything.
\<close>

definition close_done :: "tunRouter \<Rightarrow> rsid \<Rightarrow> tunRouter" where
  "close_done r s = r\<lparr>trStore := (trStore r)(s := (trStore r s)\<lparr>rsDone := True\<rparr>)\<rparr>"

definition close_unroute :: "tunRouter \<Rightarrow> rsid \<Rightarrow> tunRouter" where
  "close_unroute r s =
     r\<lparr>trSessions := trSessions r - {s},
       trByIP := (\<lambda>ip. if ip \<in> rsIps (trStore r s) \<and> trByIP r ip = Some s then None else trByIP r ip)\<rparr>"

definition session_close :: "tunRouter \<Rightarrow> rsid \<Rightarrow> tunRouter" where
  "session_close r s = (if rsDone (trStore r s) then r else close_unroute (close_done r s) s)"

section \<open>Queues\<close>

definition isLatencySensitive :: "bytes \<Rightarrow> bool" where
  "isLatencySensitive pkt =
     (case (if 20 \<le> length pkt \<and> drop_bit 4 (pkt ! 0) = 4
            then Some (unat (pkt ! 0 AND 0x0f) * 4, unat (rd16 (subslice 2 4 pkt)), pkt ! 9)
            else if 40 \<le> length pkt \<and> drop_bit 4 (pkt ! 0) = 6
            then Some (40, 40 + unat (rd16 (subslice 4 6 pkt)), pkt ! 6)
            else None) of
        None \<Rightarrow> False
      | Some (ipHdr, ipLen, proto) \<Rightarrow>
          if ipHdr < 20 \<or> ipLen < ipHdr \<or> length pkt < ipLen then False
          else if proto = 1 \<or> proto = 58 then True
          else if proto = 17 then length pkt \<le> 600
          else if proto = 6 then
            let l4 = subslice ipHdr ipLen pkt
            in if length l4 < 20 then False
               else let tcpHdr = unat (drop_bit 4 (l4 ! 12)) * 4
                    in if tcpHdr < 20 \<or> length l4 < tcpHdr then False else length l4 - tcpHdr = 0
          else False)"

text \<open>\<^verbatim>\<open>enqueue\<close> at time \<open>now\<close>. With a closed session and room in the queue the select may
  take either case; \<open>pick\<close> says which.\<close>

definition enqueue :: "int \<Rightarrow> bool \<Rightarrow> bytes \<Rightarrow> routedSession \<Rightarrow> bool \<times> routedSession" where
  "enqueue now pick packet s =
     (let p = \<lparr>rpBuf = packet, rpAt = now\<rparr>
      in if isLatencySensitive packet \<and> length (rsPrio s) < routedPrioQueueSize
         then (True, s\<lparr>rsPrio := rsPrio s @ [p]\<rparr>)
         else if length (rsOut s) < routedSessionQueueSize \<and> (rsDone s \<longrightarrow> pick)
         then (True, s\<lparr>rsOut := rsOut s @ [p]\<rparr>)
         else (False, s))"

text \<open>Several packets in turn; \<open>cs k\<close> is the clock and the choice of the enqueue number \<open>k\<close>.\<close>

fun enqueue_all :: "(nat \<Rightarrow> int \<times> bool) \<Rightarrow> nat \<Rightarrow> bytes list \<Rightarrow> routedSession \<Rightarrow> routedSession" where
  "enqueue_all cs k [] s = s"
| "enqueue_all cs k (p # ps) s = enqueue_all cs (k + 1) ps (snd (enqueue (fst (cs k)) (snd (cs k)) p s))"

definition sendOversized :: "(nat \<Rightarrow> int \<times> bool) \<Rightarrow> bytes \<Rightarrow> int \<Rightarrow> routedSession \<Rightarrow> routedSession" where
  "sendOversized cs packet limit s =
     (case splitTCP packet limit of
        Some segs \<Rightarrow> enqueue_all cs 0 segs s
      | None \<Rightarrow>
          (case fragmentIPv4 packet limit of
             Some frags \<Rightarrow> enqueue_all cs 0 frags s
           | None \<Rightarrow> s))"

text \<open>One packet read from the device by \<^verbatim>\<open>run\<close>.\<close>

definition run_packet :: "(nat \<Rightarrow> int \<times> bool) \<Rightarrow> bytes \<Rightarrow> tunRouter \<Rightarrow> tunRouter" where
  "run_packet cs packet r =
     (case sessionForPacket r packet of
        None \<Rightarrow> r
      | Some i \<Rightarrow>
          let s = trStore r i;
              limit = rsMtu s;
              packet' = (if trNormalizeMSS r then clampDownlinkSYN packet limit else packet);
              s' = (if trNormalizeMSS r \<and> limit < int (length packet)
                    then sendOversized cs packet' limit s
                    else enqueue_all cs 0 [packet'] s)
          in r\<lparr>trStore := (trStore r)(i := s')\<rparr>)"

section \<open>The writer of a session\<close>

text \<open>\<^verbatim>\<open>sendOne\<close>: the packet handed to the transport, none if it is stale.\<close>

definition sendOne :: "int \<Rightarrow> routedPacket \<Rightarrow> bytes option" where
  "sendOne now p = (if routedMaxSojourn < now - rpAt p then None else Some (rpBuf p))"

definition takeQueued :: "routedPacket list \<Rightarrow> nat \<Rightarrow> routedPacket list \<times> routedPacket list" where
  "takeQueued q n = (take n q, drop n q)"

text \<open>The start of \<^verbatim>\<open>sendBulk\<close>: the packet taken and up to 31 queued behind it.\<close>

definition start_batch :: "routedSession \<Rightarrow> routedSession" where
  "start_batch s =
     (case rsOut s of
        [] \<Rightarrow> s
      | p # q \<Rightarrow> let (more, rest) = takeQueued q 31 in s\<lparr>rsOut := rest, rsWriter := InBatch (p # more)\<rparr>)"

definition drain_queues :: "routedSession \<Rightarrow> routedSession" where
  "drain_queues s = s\<lparr>rsPrio := [], rsOut := []\<rparr>"

text \<open>What a step of the writer does: which lane it served, if any, and what was sent.\<close>

datatype served = ServedPrio "bytes option" | ServedBulk "bytes option" | ServedNone

datatype ready = TakePrio | TakeOut | TakeDone

definition loop_step :: "int \<Rightarrow> ready \<Rightarrow> routedSession \<Rightarrow> (served \<times> routedSession) option" where
  "loop_step now c s =
     (if routedPrioBurst \<le> rsPrioRun s \<and> rsOut s \<noteq> [] then Some (ServedNone, start_batch s)
      else case c of
             TakePrio \<Rightarrow>
               (case rsPrio s of
                  [] \<Rightarrow> None
                | p # q \<Rightarrow> Some (ServedPrio (sendOne now p), s\<lparr>rsPrio := q, rsPrioRun := rsPrioRun s + 1\<rparr>))
           | TakeOut \<Rightarrow> if rsOut s = [] then None else Some (ServedNone, start_batch s)
           | TakeDone \<Rightarrow> if rsDone s then Some (ServedNone, (drain_queues s)\<lparr>rsWriter := Returned\<rparr>) else None)"

text \<open>One receive of \<^verbatim>\<open>sendPrioWaiting\<close>, or the send of the next packet of the batch.\<close>

definition batch_step :: "int \<Rightarrow> routedPacket list \<Rightarrow> routedSession \<Rightarrow> served \<times> routedSession" where
  "batch_step now batch s =
     (case (rsPrio s, batch) of
        (_, []) \<Rightarrow> (ServedNone, s\<lparr>rsWriter := InLoop\<rparr>)
      | (w # q, p # ps) \<Rightarrow>
          if rsPrioRun s < routedPrioBurst
          then (ServedPrio (sendOne now w), s\<lparr>rsPrio := q, rsPrioRun := rsPrioRun s + 1\<rparr>)
          else (ServedBulk (sendOne now p), s\<lparr>rsPrioRun := 0, rsWriter := InBatch ps\<rparr>)
      | ([], p # ps) \<Rightarrow> (ServedBulk (sendOne now p), s\<lparr>rsPrioRun := 0, rsWriter := InBatch ps\<rparr>))"

definition writer_step :: "int \<Rightarrow> ready \<Rightarrow> routedSession \<Rightarrow> (served \<times> routedSession) option" where
  "writer_step now c s =
     (case rsWriter s of
        InLoop \<Rightarrow> loop_step now c s
      | InBatch batch \<Rightarrow> Some (batch_step now batch s)
      | Returned \<Rightarrow> None)"

section \<open>Ownership of addresses\<close>

definition queues_ok :: "routedSession \<Rightarrow> bool" where
  "queues_ok s \<longleftrightarrow> length (rsPrio s) \<le> routedPrioQueueSize \<and> length (rsOut s) \<le> routedSessionQueueSize \<and>
     (case rsWriter s of InBatch b \<Rightarrow> length b \<le> 32 | _ \<Rightarrow> True)"

definition router_inv :: "tunRouter \<Rightarrow> bool" where
  "router_inv r \<longleftrightarrow>
     (\<forall>ip s. trByIP r ip = Some s \<longleftrightarrow> s \<in> trSessions r \<and> ip \<in> rsIps (trStore r s)) \<and>
     finite (trSessions r) \<and>
     (\<forall>s \<in> trSessions r. s < trNext r) \<and> (\<forall>s < trNext r. s \<in> trSessions r \<or> rsDone (trStore r s)) \<and>
     (\<forall>s. queues_ok (trStore r s))"

text \<open>
  The steps of the server: sessions come and go, clients send, the device delivers, and the writers of the
  sessions run, in any order. A packet may also reach a session some time after it was looked up
  (\<open>enqueued\<close>), and the two halves of \<^verbatim>\<open>Close\<close> are steps of their own.
\<close>

inductive router_step :: "tunRouter \<Rightarrow> tunRouter \<Rightarrow> bool" where
  configure: "router_step r (configureMSS r mtu norm)"
| register: "router_step r (snd (registerSession r))"
| uplink: "router_step r (snd (writeToTUN r s packet))"
| downlink: "router_step r (run_packet cs packet r)"
| enqueued: "router_step r (r\<lparr>trStore := (trStore r)(s := snd (enqueue now pick packet (trStore r s)))\<rparr>)"
| closing: "\<not> rsDone (trStore r s) \<Longrightarrow> router_step r (close_done r s)"
| closed: "rsDone (trStore r s) \<Longrightarrow> router_step r (close_unroute r s)"
| writer: "writer_step now c (trStore r s) = Some (x, s') \<Longrightarrow> router_step r (r\<lparr>trStore := (trStore r)(s := s')\<rparr>)"

lemma enqueue_keeps:
  "enqueue now pick p s = (b, s') \<Longrightarrow> queues_ok s \<Longrightarrow>
   queues_ok s' \<and> rsIps s' = rsIps s \<and> rsDone s' = rsDone s \<and> rsMtu s' = rsMtu s \<and> rsWriter s' = rsWriter s \<and> rsPrioRun s' = rsPrioRun s"
  by (auto simp: enqueue_def queues_ok_def Let_def split: if_splits)

lemma enqueue_all_keeps:
  "queues_ok s \<Longrightarrow> queues_ok (enqueue_all cs k ps s) \<and> rsIps (enqueue_all cs k ps s) = rsIps s \<and>
     rsDone (enqueue_all cs k ps s) = rsDone s"
proof (induction ps arbitrary: k s)
  case (Cons p ps)
  obtain b s' where e: "enqueue (fst (cs k)) (snd (cs k)) p s = (b, s')" by fastforce
  show ?case using Cons.IH [of s' "k + 1"] enqueue_keeps [OF e Cons.prems] e by simp
qed simp

lemma sendOversized_keeps:
  "queues_ok s \<Longrightarrow> queues_ok (sendOversized cs p m s) \<and> rsIps (sendOversized cs p m s) = rsIps s \<and>
     rsDone (sendOversized cs p m s) = rsDone s"
  by (auto simp: sendOversized_def enqueue_all_keeps split: option.splits)

lemma writer_step_keeps:
  "writer_step now c s = Some (x, s') \<Longrightarrow> queues_ok s \<Longrightarrow> queues_ok s' \<and> rsIps s' = rsIps s \<and> rsDone s' = rsDone s"
  by (auto simp: writer_step_def loop_step_def batch_step_def start_batch_def takeQueued_def drain_queues_def queues_ok_def
      split: writer.splits if_splits list.splits ready.splits)

lemma inv_store_update:
  assumes "router_inv r" and "queues_ok s'" and "rsIps s' = rsIps (trStore r i)" and "rsDone s' = rsDone (trStore r i)"
  shows "router_inv (r\<lparr>trStore := (trStore r)(i := s')\<rparr>)"
  using assms by (auto simp: router_inv_def)

lemma inv_learn:
  assumes "router_inv r"
  shows "router_inv (learnFromClientPacket r s packet)"
proof (cases "packetEndpoints packet")
  case (Some e)
  obtain src dst where e: "packetEndpoints packet = Some (src, dst)" using Some by (cases e) auto
  have q: "queues_ok (x\<lparr>rsIps := A\<rparr>) \<longleftrightarrow> queues_ok x" for x A by (simp add: queues_ok_def)
  show ?thesis
    using assms e unfolding router_inv_def learnFromClientPacket_def
    by (auto simp: Let_def q split: option.splits) (metis option.distinct(1) option.inject)+
qed (use assms in \<open>simp add: learnFromClientPacket_def\<close>)

lemma learn_store: "queues_ok (trStore r i) \<Longrightarrow> queues_ok (trStore (learnFromClientPacket r s packet) i)"
  by (auto simp: learnFromClientPacket_def Let_def queues_ok_def split: option.splits)

lemma inv_uplink:
  assumes "router_inv r"
  shows "router_inv (snd (writeToTUN r s packet))"
proof -
  let ?r = "learnFromClientPacket r s packet"
  have i: "router_inv ?r" by (rule inv_learn [OF assms])
  have "queues_ok ((trStore ?r s)\<lparr>rsMtu := m\<rparr>)" for m using i by (auto simp: router_inv_def queues_ok_def)
  then show ?thesis
    using i inv_store_update [OF i, of _ s] by (auto simp: writeToTUN_def Let_def split: prod.splits if_splits)
qed

lemma inv_downlink:
  assumes "router_inv r"
  shows "router_inv (run_packet cs packet r)"
proof (cases "sessionForPacket r packet")
  case (Some i)
  have q: "queues_ok (trStore r i)" using assms by (simp add: router_inv_def)
  show ?thesis
    using Some inv_store_update [OF assms, of _ i] enqueue_all_keeps [OF q] sendOversized_keeps [OF q]
    by (simp add: run_packet_def Let_def del: enqueue_all.simps)
qed (use assms in \<open>simp add: run_packet_def\<close>)

lemma inv_closing: "router_inv r \<Longrightarrow> router_inv (close_done r s)"
  unfolding router_inv_def close_done_def by (auto simp: queues_ok_def)

lemma inv_closed: "router_inv r \<Longrightarrow> rsDone (trStore r s) \<Longrightarrow> router_inv (close_unroute r s)"
  unfolding router_inv_def close_unroute_def by auto (metis option.inject)+

lemma inv_enqueued:
  assumes "router_inv r"
  shows "router_inv (r\<lparr>trStore := (trStore r)(s := snd (enqueue now pick packet (trStore r s)))\<rparr>)"
proof -
  obtain b s' where e: "enqueue now pick packet (trStore r s) = (b, s')" by fastforce
  have "queues_ok (trStore r s)" using assms by (simp add: router_inv_def)
  then show ?thesis using enqueue_keeps [OF e] inv_store_update [OF assms, of s' s] e by simp
qed

lemma inv_register:
  assumes "router_inv r"
  shows "router_inv (snd (registerSession r))"
proof -
  have n: "trNext r \<notin> trSessions r" using assms by (auto simp: router_inv_def)
  have "queues_ok (fresh_session m)" for m by (simp add: queues_ok_def fresh_session_def)
  then show ?thesis
    using assms n unfolding router_inv_def registerSession_def
    by (auto simp: Let_def fresh_session_def less_Suc_eq)
qed

lemma inv_step: "router_step r r' \<Longrightarrow> router_inv r \<Longrightarrow> router_inv r'"
proof (induction rule: router_step.induct)
  case (configure r mtu norm)
  then show ?case by (simp add: configureMSS_def router_inv_def)
next
  case (writer now c r s x s')
  then have "queues_ok (trStore r s)" by (simp add: router_inv_def)
  then show ?case using writer writer_step_keeps by (blast intro: inv_store_update)
qed (simp_all add: inv_register inv_uplink inv_downlink inv_enqueued inv_closing inv_closed)

lemma inv_new: "router_inv newTunRouter"
  by (simp add: router_inv_def newTunRouter_def queues_ok_def fresh_session_def)

lemma inv_reachable: "router_step\<^sup>*\<^sup>* newTunRouter r \<Longrightarrow> router_inv r"
  by (induction rule: rtranclp_induct) (auto intro: inv_new inv_step)

lemma single_session: "singleSession r = Some s \<Longrightarrow> trSessions r = {s}"
proof -
  assume a: "singleSession r = Some s"
  then have c: "card (trSessions r) = 1" and m: "s = Min (trSessions r)"
    by (simp_all add: singleSession_def split: if_splits)
  from c obtain x where "trSessions r = {x}" by (rule card_1_singletonE)
  then show ?thesis using m by simp
qed

lemma closed_not_routed:
  assumes "router_inv r" and "\<not> rsDone (trStore r s)"
  shows "sessionForPacket (session_close r s) packet \<noteq> Some s"
proof -
  let ?r = "session_close r s"
  have c: "?r = close_unroute (close_done r s) s" using assms(2) by (simp add: session_close_def)
  then have "trByIP ?r ip \<noteq> Some s" for ip
    using assms(1) by (auto simp: close_unroute_def close_done_def router_inv_def)
  moreover have "singleSession ?r \<noteq> Some s"
    using single_session [of ?r s] c by (auto simp: close_unroute_def close_done_def)
  ultimately show ?thesis by (auto simp: sessionForPacket_def split: option.splits)
qed

text \<open>
  Property C23. However sessions, clients, the device, the writers and the two halves of a \<^verbatim>\<open>Close\<close> interleave, a client
  address belongs to at most one session, that session is registered and knows the address as its own, a
  session that is no longer registered is closed, and the queues stay within their bounds. A packet from the device goes
  to the registered owner of its destination, or, if nobody owns it, to the only session there is. While a \<^verbatim>\<open>Close\<close> has
  only announced itself its session is still routed to; when it has returned, no packet goes to the session any more.
\<close>
theorem downlink_goes_to_owner:
  assumes "router_step\<^sup>*\<^sup>* newTunRouter r"
  shows "(\<forall>ip s. trByIP r ip = Some s \<longleftrightarrow> s \<in> trSessions r \<and> ip \<in> rsIps (trStore r s)) \<and>
         (\<forall>s < trNext r. s \<in> trSessions r \<or> rsDone (trStore r s)) \<and>
         (\<forall>s. queues_ok (trStore r s)) \<and>
         (\<forall>packet s. sessionForPacket r packet = Some s \<longrightarrow>
            s \<in> trSessions r \<and>
            (case packetEndpoints packet of
               None \<Rightarrow> trSessions r = {s}
             | Some (src, dst) \<Rightarrow>
                 dst \<in> rsIps (trStore r s) \<or> (\<forall>t \<in> trSessions r. dst \<notin> rsIps (trStore r t)) \<and> trSessions r = {s})) \<and>
         (\<forall>packet s. \<not> rsDone (trStore r s) \<longrightarrow> sessionForPacket (session_close r s) packet \<noteq> Some s)"
proof -
  have i: "router_inv r" by (rule inv_reachable [OF assms])
  have own: "trByIP r ip = Some s \<longleftrightarrow> s \<in> trSessions r \<and> ip \<in> rsIps (trStore r s)" for ip s
    using i by (simp add: router_inv_def)
  have "s \<in> trSessions r \<and>
     (case packetEndpoints packet of
        None \<Rightarrow> trSessions r = {s}
      | Some (src, dst) \<Rightarrow>
          dst \<in> rsIps (trStore r s) \<or> (\<forall>t \<in> trSessions r. dst \<notin> rsIps (trStore r t)) \<and> trSessions r = {s})"
    if sp: "sessionForPacket r packet = Some s" for packet s
  proof (cases "singleSession r = Some s \<and> (case packetEndpoints packet of None \<Rightarrow> True | Some (src, dst) \<Rightarrow> trByIP r dst = None)")
    case True
    then have "trSessions r = {s}" using single_session by blast
    then show ?thesis using True own by (auto split: option.splits)
  next
    case False
    then obtain src dst where "packetEndpoints packet = Some (src, dst)" "trByIP r dst = Some s"
      using sp by (auto simp: sessionForPacket_def split: option.splits)
    then show ?thesis using own by auto
  qed
  then show ?thesis using i closed_not_routed [OF i] by (simp add: router_inv_def)
qed

definition example_uplink :: bytes where
  "example_uplink = [0x45, 0, 0, 20, 0, 0, 0, 0, 64, 17, 0, 0, 10, 0, 0, 1, 10, 0, 0, 2]"

definition example_router :: tunRouter where
  "example_router = snd (writeToTUN (snd (registerSession newTunRouter)) 0 example_uplink)"

lemma example_router_reachable: "router_step\<^sup>*\<^sup>* newTunRouter example_router"
  unfolding example_router_def
  by (rule rtranclp.rtrancl_into_rtrancl [where r = router_step, OF rtranclp.rtrancl_into_rtrancl [where r = router_step,
        OF rtranclp.rtrancl_refl router_step.register] router_step.uplink])

theorem downlink_goes_to_owner_witness:
  "trByIP example_router (Addr4 [10, 0, 0, 1]) = Some 0 \<and> Addr4 [10, 0, 0, 1] \<in> rsIps (trStore example_router 0)"
proof -
  have e: "packetEndpoints example_uplink = Some (Addr4 [10, 0, 0, 1], Addr4 [10, 0, 0, 2])"
    by (simp add: packetEndpoints_def example_uplink_def subslice_def)
  have "([10, 0, 0, 1] :: bytes) \<noteq> replicate 4 0" using replicate_Suc [of 3 "0 :: byte"] by simp
  then have ok: "\<not> IsUnspecified (Addr4 [10, 0, 0, 1])" "\<not> IsMulticast (Addr4 [10, 0, 0, 1])" by simp_all
  have "trByIP example_router (Addr4 [10, 0, 0, 1]) = Some 0"
    by (simp add: example_router_def writeToTUN_def learnFromClientPacket_def e registerSession_def newTunRouter_def
        fresh_session_def Let_def ok del: IsUnspecified.simps IsMulticast.simps split: prod.splits)
  then show ?thesis using downlink_goes_to_owner [OF example_router_reachable] by blast
qed

section \<open>Fairness of the writer\<close>

text \<open>What happens to one session while its writer runs: packets arrive, the writer steps,
  the session is closed.\<close>

datatype session_event = Arrive int bool bytes | Write int ready | Shut

fun on_event :: "session_event \<Rightarrow> routedSession \<Rightarrow> (served \<times> routedSession) option" where
  "on_event (Arrive now pick p) s = Some (ServedNone, snd (enqueue now pick p s))"
| "on_event (Write now c) s = writer_step now c s"
| "on_event Shut s = Some (ServedNone, s\<lparr>rsDone := True\<rparr>)"

text \<open>A run that serves no packet of the bulk queue and after which the writer is still there.\<close>

fun no_bulk_run :: "session_event list \<Rightarrow> routedSession \<Rightarrow> bool" where
  "no_bulk_run [] s \<longleftrightarrow> rsWriter s \<noteq> Returned"
| "no_bulk_run (e # es) s \<longleftrightarrow>
     (case on_event e s of
        None \<Rightarrow> False
      | Some (ServedBulk x, s') \<Rightarrow> False
      | Some (_, s') \<Rightarrow> rsWriter s' \<noteq> Returned \<and> no_bulk_run es s')"

fun is_write :: "session_event \<Rightarrow> bool" where
  "is_write (Write now c) = True"
| "is_write _ = False"

text \<open>A bulk packet waits in the queue or in the batch.\<close>

definition bulk_waits :: "routedSession \<Rightarrow> bool" where
  "bulk_waits s \<longleftrightarrow> (case rsWriter s of InLoop \<Rightarrow> rsOut s \<noteq> [] | InBatch b \<Rightarrow> b \<noteq> [] | Returned \<Rightarrow> False)"

definition patience :: "routedSession \<Rightarrow> nat" where
  "patience s = (routedPrioBurst - rsPrioRun s) + (case rsWriter s of InLoop \<Rightarrow> 1 | _ \<Rightarrow> 0)"

lemma write_uses_patience:
  assumes "writer_step now c s = Some (x, s')" and "bulk_waits s" and "rsWriter s' \<noteq> Returned"
    and "\<forall>y. x \<noteq> ServedBulk y"
  shows "bulk_waits s' \<and> patience s' < patience s"
  using assms
  by (auto simp: writer_step_def loop_step_def batch_step_def start_batch_def takeQueued_def bulk_waits_def patience_def
      routedPrioBurst_def split: writer.splits if_splits list.splits ready.splits)

lemma enqueue_writer [simp]:
  "rsWriter (snd (enqueue now pick p s)) = rsWriter s" "rsPrioRun (snd (enqueue now pick p s)) = rsPrioRun s"
  "rsOut s \<noteq> [] \<Longrightarrow> rsOut (snd (enqueue now pick p s)) \<noteq> []"
  by (simp_all add: enqueue_def Let_def)

lemma other_keeps_patience:
  assumes "on_event e s = Some (x, s')" and "\<not> is_write e" and "bulk_waits s"
  shows "bulk_waits s' \<and> patience s' = patience s"
  using assms
  by (cases e) (auto simp: bulk_waits_def patience_def split: writer.splits)

lemma no_bulk_run_bound:
  "no_bulk_run es s \<Longrightarrow> bulk_waits s \<Longrightarrow> length (filter is_write es) \<le> patience s"
proof (induction es arbitrary: s)
  case (Cons e es)
  obtain x s' where st: "on_event e s = Some (x, s')" and r: "rsWriter s' \<noteq> Returned" "no_bulk_run es s'"
    and nb: "\<forall>y. x \<noteq> ServedBulk y"
    using Cons.prems(1) by (auto split: option.splits prod.splits served.splits)
  show ?case
  proof (cases "is_write e")
    case True
    then obtain now c where e: "e = Write now c" by (cases e) auto
    have "bulk_waits s' \<and> patience s' < patience s"
      using write_uses_patience [OF _ Cons.prems(2) r(1) nb] st e by simp
    then show ?thesis using Cons.IH [OF r(2)] True by simp
  next
    case False
    then show ?thesis using Cons.IH [OF r(2)] other_keeps_patience [OF st False Cons.prems(2)] by simp
  qed
qed simp

text \<open>
  Property C24. Bulk traffic is not starved: while a bulk packet waits, however many
  latency-sensitive packets keep arriving and whichever ready case each select takes, at most
  65 steps of the writer pass (64 packets of the other lane and the start of the batch) before
  a bulk packet is served or the writer returns because the session is closed.
\<close>
theorem bulk_is_not_starved:
  assumes "bulk_waits s" and "no_bulk_run es s"
  shows "length (filter is_write es) \<le> 65"
  using no_bulk_run_bound [OF assms(2,1)] by (auto simp: patience_def routedPrioBurst_def split: writer.splits)

theorem bulk_is_not_starved_witness:
  "length (filter is_write [Write 1 TakeOut, Arrive 2 True example_uplink]) \<le> 65"
proof -
  let ?p = "\<lparr>rpBuf = [1], rpAt = 0\<rparr>"
  let ?s = "(fresh_session 1420)\<lparr>rsOut := [?p]\<rparr>"
  have "no_bulk_run [Write 1 TakeOut, Arrive 2 True example_uplink] ?s"
    by (simp add: writer_step_def loop_step_def start_batch_def takeQueued_def enqueue_def fresh_session_def
        routedPrioBurst_def Let_def)
  moreover have "bulk_waits ?s" by (simp add: bulk_waits_def fresh_session_def)
  ultimately show ?thesis using bulk_is_not_starved by blast
qed

end
