(* ===== verification/Ipv6_Reject.thy ===== *)
theory Ipv6_Reject
  imports Tun_Router
begin

text \<open>
  \<^verbatim>\<open>obsidian/ipv6_reject.go\<close>: the local answer to an IPv6 packet the tunnel does not carry
  (a TCP reset, or ICMPv6 destination unreachable), and \<^verbatim>\<open>cmd/server/v6_sink.go\<close>, which
  sends it back to the client. The reply is built in a caller's buffer; here it is the
  result. The token bucket that limits the replies counts in float64 and is left out: its
  decision is an argument of the sink.
\<close>

definition ipv6HeaderLen :: nat where "ipv6HeaderLen = 40"
definition ipv6MinMTU :: nat where "ipv6MinMTU = 1280"
definition icmpv6QuoteMax :: nat where "icmpv6QuoteMax = ipv6MinMTU - ipv6HeaderLen - 8"
definition IPv6RejectBufSize :: nat where "IPv6RejectBufSize = ipv6MinMTU"

lemmas reject_sizes = ipv6HeaderLen_def ipv6MinMTU_def icmpv6QuoteMax_def IPv6RejectBufSize_def

definition writeIPv6Header :: "bytes \<Rightarrow> bytes \<Rightarrow> nat \<Rightarrow> byte \<Rightarrow> bytes" where
  "writeIPv6Header src dst payloadLen nextHeader =
     [0x60, 0, 0, 0] @ be16 (of_nat payloadLen) @ [nextHeader, 64] @ src @ dst"

fun onesSum6 :: "bytes \<Rightarrow> u32 \<Rightarrow> u32" where
  "onesSum6 [] acc = acc"
| "onesSum6 [x] acc = acc + push_bit 8 (ucast x)"
| "onesSum6 (x # y # r) acc = onesSum6 r (acc + (push_bit 8 (ucast x) OR ucast y))"

definition ipv6Checksum :: "bytes \<Rightarrow> bytes \<Rightarrow> byte \<Rightarrow> bytes \<Rightarrow> u16" where
  "ipv6Checksum src dst nextHeader seg =
     (let s1 = onesSum6 src 0;
          s2 = onesSum6 dst s1;
          l = of_nat (length seg) :: u32;
          s3 = s2 + drop_bit 16 l;
          s4 = s3 + (l AND 0xffff);
          s5 = s4 + ucast nextHeader;
          s6 = onesSum6 seg s5
      in NOT (foldSum s6))"

text \<open>Sequence number, acknowledgement and flags of the reset for a segment with header length \<open>doff\<close>.\<close>

definition reset_fields :: "bytes \<Rightarrow> nat \<Rightarrow> nat \<Rightarrow> u32 \<times> u32 \<times> byte" where
  "reset_fields pkt off doff =
     (let flags = pkt ! (off + 13);
          segSeq = rd32 (drop (off + 4) pkt);
          segAck = rd32 (drop (off + 8) pkt);
          stop = min (ipv6HeaderLen + unat (rd16 (subslice 4 6 pkt))) (length pkt);
          segLen0 = (if off + doff < stop then of_nat (stop - off - doff) else 0 :: u32);
          segLen1 = (if flags AND 0x02 \<noteq> 0 then segLen0 + 1 else segLen0);
          segLen = (if flags AND 0x01 \<noteq> 0 then segLen1 + 1 else segLen1)
      in if flags AND 0x10 \<noteq> 0 then (segAck, 0, 0x04) else (0, segSeq + segLen, 0x04 OR 0x10))"

definition buildTCPReset :: "bytes \<Rightarrow> nat \<Rightarrow> bytes \<Rightarrow> bytes \<Rightarrow> bytes option" where
  "buildTCPReset pkt off src dst =
     (if length pkt < off + 20 then None
      else
        let doff = unat (drop_bit 4 (pkt ! (off + 12))) * 4
        in if doff < 20 \<or> length pkt < off + doff then None
           else if pkt ! (off + 13) AND 0x04 \<noteq> 0 then None
           else
             let (rseq, rack, rflags) = reset_fields pkt off doff;
                 hdr = writeIPv6Header dst src 20 6;
                 tcp = subslice (off + 2) (off + 4) pkt @ subslice off (off + 2) pkt @ be32 rseq @ be32 rack @
                       [0x50, rflags, 0, 0, 0, 0, 0, 0];
                 cs = ipv6Checksum (subslice 8 24 hdr) (subslice 24 40 hdr) 6 tcp
             in Some (hdr @ overwrite 16 (be16 cs) tcp))"

definition buildICMPv6Unreach :: "bytes \<Rightarrow> bytes \<Rightarrow> bytes \<Rightarrow> bytes" where
  "buildICMPv6Unreach pkt src dst =
     (let quote = min (length pkt) icmpv6QuoteMax;
          icmpLen = 8 + quote;
          hdr = writeIPv6Header dst src icmpLen 58;
          icmp = [1, 1, 0, 0, 0, 0, 0, 0] @ take quote pkt;
          cs = ipv6Checksum (subslice 8 24 hdr) (subslice 24 40 hdr) 58 icmp
      in hdr @ overwrite 2 (be16 cs) icmp)"

text \<open>The extension header chain: the upper-layer protocol and its offset.\<close>

function upper_layer :: "bytes \<Rightarrow> byte \<Rightarrow> nat \<Rightarrow> (byte \<times> nat) option" where
  "upper_layer pkt nh off =
     (if nh = 0 \<or> nh = 43 \<or> nh = 60 then
        if length pkt < off + 2 then None
        else
          let nh' = pkt ! off; off' = off + (unat (pkt ! (off + 1)) + 1) * 8
          in if length pkt < off' then None else upper_layer pkt nh' off'
      else Some (nh, off))"
  by pat_completeness auto
termination by (relation "measure (\<lambda>(pkt, nh, off). length pkt - off)") auto

declare upper_layer.simps [simp del]

definition isAllZero :: "bytes \<Rightarrow> bool" where
  "isAllZero b \<longleftrightarrow> (\<forall>v \<in> set b. v = 0)"

definition BuildIPv6Reject :: "bytes \<Rightarrow> nat \<Rightarrow> bytes option" where
  "BuildIPv6Reject pkt outLen =
     (if length pkt < ipv6HeaderLen \<or> drop_bit 4 (pkt ! 0) \<noteq> 6 \<or> outLen < IPv6RejectBufSize then None
      else
        let src = subslice 8 24 pkt; dst = subslice 24 40 pkt
        in if dst ! 0 = 0xff \<or> src ! 0 = 0xff \<or> isAllZero src then None
           else case upper_layer pkt (pkt ! 6) ipv6HeaderLen of
                  None \<Rightarrow> None
                | Some (nh, off) \<Rightarrow>
                    if nh = 6 then buildTCPReset pkt off src dst
                    else if nh = 58 \<and> off < length pkt \<and> pkt ! off < 128 then None
                    else Some (buildICMPv6Unreach pkt src dst))"

section \<open>The client sink\<close>

text \<open>\<^verbatim>\<open>clientSink.Write\<close> with IPv6 disabled: the packet written to the device, if any, and the
  router after it; \<open>allow\<close> is the answer of the limiter.\<close>

definition sink_Write :: "int \<Rightarrow> bool \<Rightarrow> bool \<Rightarrow> tunRouter \<Rightarrow> rsid \<Rightarrow> bytes \<Rightarrow> bytes option \<times> tunRouter" where
  "sink_Write now pick allow r s p =
     (if p = [] \<or> drop_bit 4 (p ! 0) \<noteq> 6
      then (let (w, r') = writeToTUN r s p in (Some w, r'))
      else case BuildIPv6Reject p IPv6RejectBufSize of
             Some out \<Rightarrow>
               if allow
               then (None, r\<lparr>trStore := (trStore r)(s := snd (enqueue now pick out (trStore r s)))\<rparr>)
               else (None, r)
           | None \<Rightarrow> (None, r))"

section \<open>Checksums\<close>

lemma onesSum6_eq: "onesSum6 b acc = onesSum_loop acc b"
proof (induction b acc rule: onesSum6.induct)
  case (3 x y r acc)
  have "push_bit 8 (ucast x) AND (ucast y :: u32) = 0" by (rule bit_word_eqI) (auto simp: bit_simps)
  then have "push_bit 8 (ucast x) OR ucast y = (push_bit 8 (ucast x) + ucast y :: u32)"
    by (metis disjunctive_add_eq_or)
  moreover have "unat (push_bit 8 (ucast x) + ucast y :: u32) = unat (ucast (rd16 [x, y]) :: u32)"
    using unat_bound [of x] unat_bound [of y]
    by (simp add: unat_add_small unat_shl8 unat_ucast_byte unat_ucast_u16 unat_rd16)
  ultimately have "push_bit 8 (ucast x) OR ucast y = (ucast (rd16 [x, y]) :: u32)"
    by (simp add: word_unat_eq_iff)
  then show ?case using 3 by simp
qed simp_all

text \<open>What the receiver of an IPv6 packet without extension headers checks.\<close>

definition upper_verifies :: "bytes \<Rightarrow> bool" where
  "upper_verifies p \<longleftrightarrow>
     sum_verifies (words_sum (subslice 8 40 p) + (length p - 40) + unat (p ! 6) + words_sum (drop 40 p))"

lemma ipv6Checksum_sum:
  assumes "length src = 16" and "length dst = 16" and "length seg \<le> 2000"
  obtains s where "ipv6Checksum src dst nh seg = NOT (foldSum s)"
    "unat s = words_sum src + words_sum dst + length seg + unat nh + words_sum seg"
proof -
  define s5 where "s5 = onesSum6 dst (onesSum6 src 0) + drop_bit 16 (of_nat (length seg) :: u32) + (of_nat (length seg) AND 0xffff) + ucast nh"
  have b: "words_sum src \<le> 600000" "words_sum dst \<le> 600000" "words_sum seg \<le> 70000000"
    using words_sum_bound [of src] words_sum_bound [of dst] words_sum_bound [of seg] assms by simp_all
  have l: "unat (of_nat (length seg) :: u32) = length seg" using assms by (simp add: unat_of_nat_small)
  have "unat s5 = words_sum src + words_sum dst + length seg + unat nh"
    unfolding s5_def onesSum6_eq using b unat_bound [of nh] assms
    by (simp add: unat_add_small unat_onesSum_loop unat_and_ffff unat_shr16 l unat_ucast_byte del: drop_bit_numeral_bit1)
  then have "unat (onesSum6 seg s5) = words_sum src + words_sum dst + length seg + unat nh + words_sum seg"
    unfolding onesSum6_eq using b unat_bound [of nh] assms by (simp add: unat_onesSum_loop)
  moreover have "ipv6Checksum src dst nh seg = NOT (foldSum (onesSum6 seg s5))"
    unfolding ipv6Checksum_def Let_def s5_def ..
  ultimately show thesis using that by blast
qed

section \<open>Replies\<close>

lemma header6:
  assumes "length src = 16" and "length dst = 16"
  shows "length (writeIPv6Header src dst n nh) = 40" "writeIPv6Header src dst n nh ! 0 = 0x60"
    "writeIPv6Header src dst n nh ! 6 = nh" "subslice 4 6 (writeIPv6Header src dst n nh) = be16 (of_nat n)"
    "subslice 8 24 (writeIPv6Header src dst n nh) = src" "subslice 24 40 (writeIPv6Header src dst n nh) = dst"
    "subslice 8 40 (writeIPv6Header src dst n nh) = src @ dst"
  using assms by (simp_all add: writeIPv6Header_def be16_def subslice_def)

text \<open>A reply, built from its header and its segment with a zeroed checksum field.\<close>

definition reply :: "bytes \<Rightarrow> bytes \<Rightarrow> byte \<Rightarrow> nat \<Rightarrow> bytes \<Rightarrow> bytes" where
  "reply src dst nh at seg =
     writeIPv6Header src dst (length seg) nh @ overwrite at (be16 (ipv6Checksum src dst nh seg)) seg"

definition well_formed_reply :: "bytes \<Rightarrow> bytes \<Rightarrow> bool" where
  "well_formed_reply pkt out \<longleftrightarrow>
     48 \<le> length out \<and> length out \<le> 1280 \<and> drop_bit 4 (out ! 0) = 6 \<and>
     unat (rd16 (subslice 4 6 out)) = length out - 40 \<and>
     subslice 8 24 out = subslice 24 40 pkt \<and> subslice 24 40 out = subslice 8 24 pkt \<and> upper_verifies out"

lemma reply_facts:
  assumes l: "length src = 16" "length dst = 16" and seg: "8 \<le> length seg" "length seg \<le> 1240"
    and at: "even at" "at + 2 \<le> length seg" "subslice at (at + 2) seg = [0, 0]"
  shows "length (reply src dst nh at seg) = 40 + length seg" "drop 40 (reply src dst nh at seg) = overwrite at (be16 (ipv6Checksum src dst nh seg)) seg"
    "reply src dst nh at seg ! 0 = 0x60" "reply src dst nh at seg ! 6 = nh"
    "unat (rd16 (subslice 4 6 (reply src dst nh at seg))) = length seg"
    "subslice 8 24 (reply src dst nh at seg) = src" "subslice 24 40 (reply src dst nh at seg) = dst"
    "upper_verifies (reply src dst nh at seg)"
proof -
  let ?r = "reply src dst nh at seg"
  note h = header6 [OF l, of "length seg" nh]
  show len: "length ?r = 40 + length seg" and dr: "drop 40 ?r = overwrite at (be16 (ipv6Checksum src dst nh seg)) seg"
    and "?r ! 0 = 0x60" and nh: "?r ! 6 = nh"
    and "unat (rd16 (subslice 4 6 ?r)) = length seg" and "subslice 8 24 ?r = src" and "subslice 24 40 ?r = dst"
    using h at seg by (simp_all add: reply_def nth_append subslice_append_left rd16_be16 unat_of_nat_small)
  have ad: "words_sum (subslice 8 40 ?r) = words_sum src + words_sum dst"
    using h l by (simp add: reply_def subslice_append_left words_sum_append)
  have "length seg \<le> 2000" using seg by simp
  then obtain s where s: "ipv6Checksum src dst nh seg = NOT (foldSum s)"
    "unat s = words_sum src + words_sum dst + length seg + unat nh + words_sum seg"
    by (rule ipv6Checksum_sum [OF l])
  have "words_sum (overwrite at (be16 (NOT (foldSum s))) seg) = words_sum seg + unat (NOT (foldSum s))"
    using words_sum_overwrite [of at "be16 (NOT (foldSum s))" seg] at by (simp add: words_sum_be16)
  then show "upper_verifies ?r"
    using complement_verifies [OF s(2)] unfolding upper_verifies_def dr ad nh len s(1) by (simp add: add.assoc)
qed

lemma reset_flag: "reset_fields pkt off doff = (rseq, rack, rflags) \<Longrightarrow> rflags AND 0x04 \<noteq> 0"
  by (auto simp: reset_fields_def Let_def split: if_splits)

lemma reset_is_reply:
  assumes r: "buildTCPReset pkt off src dst = Some out" and l: "length src = 16" "length dst = 16"
  obtains tcp where "out = reply dst src 6 16 tcp" "length tcp = 20" "subslice 16 18 tcp = [0, 0]"
    "tcp ! 12 = 0x50" "tcp ! 13 AND 0x04 \<noteq> 0"
proof -
  let ?d = "unat (drop_bit 4 (pkt ! (off + 12))) * 4"
  obtain rseq rack rflags where f: "reset_fields pkt off ?d = (rseq, rack, rflags)" by (rule prod_cases3)
  let ?t = "subslice (off + 2) (off + 4) pkt @ subslice off (off + 2) pkt @ be32 rseq @ be32 rack @ [0x50, rflags, 0, 0, 0, 0, 0, 0]"
  from r have "off + 20 \<le> length pkt" by (simp add: buildTCPReset_def split: if_splits)
  then have p: "length (subslice (off + 2) (off + 4) pkt) = 2" "length (subslice off (off + 2) pkt) = 2" by simp_all
  have "out = reply dst src 6 16 ?t"
    using r header6 [OF l(2,1)] p f by (simp add: buildTCPReset_def reply_def Let_def split: if_splits)
  then show thesis by (rule that) (use p reset_flag [OF f] in \<open>simp_all add: nth_append subslice_def\<close>)
qed

lemma unreach_is_reply:
  assumes "length src = 16" "length dst = 16"
  shows "buildICMPv6Unreach pkt src dst =
    reply dst src 58 2 ([1, 1, 0, 0, 0, 0, 0, 0] @ take (min (length pkt) icmpv6QuoteMax) pkt)"
proof -
  let ?q = "min (length pkt) icmpv6QuoteMax"
  have "length ([1, 1, 0, 0, 0, 0, 0, 0] @ take ?q pkt) = 8 + ?q" by simp
  then show ?thesis
    unfolding buildICMPv6Unreach_def reply_def Let_def header6(5,6) [OF assms(2,1)] by (simp only:)
qed

lemma reply_is_not_answered:
  assumes r: "out = reply src dst nh at seg" and l: "length src = 16" "length dst = 16" and seg: "8 \<le> length seg" "length seg \<le> 1240"
    and at: "even at" "at + 2 \<le> length seg" "subslice at (at + 2) seg = [0, 0]"
    and no: "nh = 6 \<and> length seg = 20 \<and> at = 16 \<and> seg ! 12 = 0x50 \<and> seg ! 13 AND 0x04 \<noteq> 0 \<or> nh = 58 \<and> at = 2 \<and> seg ! 0 < 128"
  shows "BuildIPv6Reject out n = None"
proof -
  note f = reply_facts [OF l seg at, of nh, folded r]
  have nth: "out ! (40 + j) = overwrite at (be16 (ipv6Checksum src dst nh seg)) seg ! j" for j
    using f(1,2) by (metis nth_drop le_add1)
  have ul: "upper_layer out (out ! 6) 40 = Some (nh, 40)" using f(4) no by (subst upper_layer.simps) auto
  show ?thesis
  proof (cases "nh = 6")
    case True
    then have n: "length seg = 20" "at = 16" "seg ! 12 = 0x50" "seg ! 13 AND 0x04 \<noteq> 0" using no by auto
    have "out ! 53 AND 0x04 \<noteq> 0" using nth [of 13] n by (simp add: nth_overwrite)
    then have "buildTCPReset out 40 src' dst' = None" for src' dst' by (simp add: buildTCPReset_def Let_def)
    then show ?thesis using ul True by (simp add: BuildIPv6Reject_def reject_sizes Let_def)
  next
    case False
    then have n: "nh = 58" "at = 2" "seg ! 0 < 128" using no by auto
    have "out ! 40 < 128"
      using nth [of 0] nth_overwrite [of 2 "be16 (ipv6Checksum src dst 58 seg)" seg 0] n seg by (cases seg) auto
    moreover have "40 < length out" using f(1) seg by linarith
    ultimately show ?thesis using ul n by (simp add: BuildIPv6Reject_def reject_sizes Let_def)
  qed
qed

lemma reject_cases:
  assumes "BuildIPv6Reject pkt n = Some out"
  shows "(\<exists>off. buildTCPReset pkt off (subslice 8 24 pkt) (subslice 24 40 pkt) = Some out) \<or>
         out = buildICMPv6Unreach pkt (subslice 8 24 pkt) (subslice 24 40 pkt)"
proof -
  obtain x where u: "upper_layer pkt (pkt ! 6) ipv6HeaderLen = Some x"
    using assms by (cases "upper_layer pkt (pkt ! 6) ipv6HeaderLen") (simp_all add: BuildIPv6Reject_def Let_def split: if_splits)
  obtain nh off where "x = (nh, off)" by (cases x)
  then show ?thesis using assms u by (cases "nh = 6") (auto simp: BuildIPv6Reject_def Let_def split: if_splits)
qed

text \<open>
  Property C25. Whatever IPv6 packet comes in, the reply (if there is one) is a well-formed
  IPv6 packet of at most 1280 bytes from the destination of the packet back to its sender,
  with the right payload length and a correct checksum over the pseudo-header; the packet
  was not sent to or from a multicast address, and the reply is never answered in its turn,
  so two ends cannot keep each other busy.
\<close>
theorem reject_reply_well_formed:
  assumes "BuildIPv6Reject pkt n = Some out"
  shows "well_formed_reply pkt out \<and> pkt ! 24 \<noteq> 0xff \<and> pkt ! 8 \<noteq> 0xff \<and> (\<forall>m. BuildIPv6Reject out m = None)"
proof -
  let ?s = "subslice 8 24 pkt" and ?d = "subslice 24 40 pkt"
  have len: "40 \<le> length pkt" and mc: "?d ! 0 \<noteq> 0xff" "?s ! 0 \<noteq> 0xff"
    using assms by (auto simp: BuildIPv6Reject_def reject_sizes Let_def split: if_splits)
  have l: "length ?s = 16" "length ?d = 16" using len by simp_all
  obtain nh at seg where out: "out = reply ?d ?s nh at seg" and seg: "8 \<le> length seg" "length seg \<le> 1240"
    and at: "even at" "at + 2 \<le> length seg" "subslice at (at + 2) seg = [0, 0]"
    and no: "nh = 6 \<and> length seg = 20 \<and> at = 16 \<and> seg ! 12 = 0x50 \<and> seg ! 13 AND 0x04 \<noteq> 0 \<or> nh = 58 \<and> at = 2 \<and> seg ! 0 < 128"
  proof -
    consider off where "buildTCPReset pkt off ?s ?d = Some out" | "out = buildICMPv6Unreach pkt ?s ?d"
      using reject_cases [OF assms] by blast
    then show thesis
    proof cases
      case 1
      then obtain tcp where "out = reply ?d ?s 6 16 tcp" "length tcp = 20" "subslice 16 18 tcp = [0, 0]"
        "tcp ! 12 = 0x50" "tcp ! 13 AND 0x04 \<noteq> 0" by (rule reset_is_reply [OF _ l])
      then show thesis by (intro that [of 6 16 tcp]) simp_all
    next
      case 2
      then show thesis
        by (intro that [OF 2 [unfolded unreach_is_reply [OF l]]]) (auto simp: reject_sizes subslice_def)
    qed
  qed
  note f = reply_facts [OF l(2,1) seg at, of nh, folded out]
  have "BuildIPv6Reject out m = None" for m by (rule reply_is_not_answered [OF out l(2,1) seg at no])
  moreover have "well_formed_reply pkt out" using f seg by (simp add: well_formed_reply_def)
  ultimately show ?thesis using mc len by (simp add: nth_append)
qed

text \<open>A SYN from 2001:db8::1 to 2001:db8::2.\<close>

definition example_syn6 :: bytes where
  "example_syn6 =
     [0x60, 0, 0, 0, 0, 20, 6, 64] @ [0x20, 1, 0xd, 0xb8, 0, 0, 0, 0, 0, 0, 0, 0, 0, 0, 0, 1] @
     [0x20, 1, 0xd, 0xb8, 0, 0, 0, 0, 0, 0, 0, 0, 0, 0, 0, 2] @
     [0x30, 0x39, 0, 80, 0, 0, 0, 7, 0, 0, 0, 0, 0x50, 2, 1, 0, 0, 0, 0, 0]"

theorem reject_reply_well_formed_witness:
  "\<exists>out. BuildIPv6Reject example_syn6 1280 = Some out \<and> well_formed_reply example_syn6 out"
proof -
  have "upper_layer example_syn6 (example_syn6 ! 6) 40 = Some (6, 40)"
    by (subst upper_layer.simps) (simp add: example_syn6_def)
  then have "\<exists>out. BuildIPv6Reject example_syn6 1280 = Some out"
    by (simp add: BuildIPv6Reject_def reject_sizes Let_def buildTCPReset_def isAllZero_def split: prod.splits)
       (simp add: example_syn6_def subslice_def)
  then show ?thesis using reject_reply_well_formed by blast
qed

end
