(* ===== verification/Server_Session.thy ===== *)
theory Server_Session
  imports Client_Transport Hybrid_Handshake Rate_Limits Revocation_Store Udp_Mux Ipv6_Reject
begin

text \<open>
  The life of a connection on the server, \<^verbatim>\<open>handleClient\<close> of \<^verbatim>\<open>cmd/server/main.go\<close>: the
  limiters, the preface and the client hello, the replay cache, the handshake, the deny list, and
  then the relay between the client and the TUN device. What the rest of the system contributes to one
  connection (clock, random bytes, the revocation file, the success of the write) is a record.
  Log lines are not modelled.
\<close>

section \<open>Admission\<close>

text \<open>
  A whole call of \<^verbatim>\<open>Acquire\<close> or \<^verbatim>\<open>Release\<close>; the interleavings of their atomic steps are
  the subject of \<^const>\<open>limiter_step\<close>.
\<close>

definition Acquire :: "handshake_limiter \<Rightarrow> bool \<times> handshake_limiter" where
  "Acquire l = (if hlMax l \<le> hlActive l then (False, l) else (True, l\<lparr>hlActive := hlActive l + 1\<rparr>))"

definition Release :: "handshake_limiter \<Rightarrow> handshake_limiter" where
  "Release l = l\<lparr>hlActive := hlActive l - 1\<rparr>"

record server_config =
  scNoTLS :: bool
  scReality :: bool
  scPriv :: bytes
  scPub :: bytes
  scAllowed :: "bytes list option"
  scObf :: ObfuscationConfig

record 'ip server =
  svLimiter :: "'ip IPRateLimiter"
  svSlots :: handshake_limiter
  svReplay :: replayCache
  svRevoked :: "revocationStore option"

record world =
  wNow :: int
  wEph :: bytes
  wDraws :: hello_draws
  wFile :: file_view
  wRnd :: "nat \<Rightarrow> byte"
  wOff :: nat
  wWritten :: bool

text \<open>An address that cannot be parsed is not limited.\<close>

definition enter :: "int \<Rightarrow> 'ip option \<Rightarrow> 'ip server \<Rightarrow> bool \<times> 'ip server" where
  "enter now addr sv =
     (let (ok, lim) = (case addr of None \<Rightarrow> (True, svLimiter sv) | Some ip \<Rightarrow> Allow now (Some ip) (svLimiter sv));
          sv = sv\<lparr>svLimiter := lim\<rparr>
      in if \<not> ok then (False, sv)
         else case Acquire (svSlots sv) of (ok, slots) \<Rightarrow> (ok, sv\<lparr>svSlots := slots\<rparr>))"

definition leave :: "'ip server \<Rightarrow> 'ip server" where
  "leave sv = sv\<lparr>svSlots := Release (svSlots sv)\<rparr>"

text \<open>The hello and the stream behind it.\<close>

definition read_client_hello :: "crypto_lib \<Rightarrow> server_config \<Rightarrow> bytes \<Rightarrow> (bytes \<times> bytes) res" where
  "read_client_hello P cfg inp =
     rbind (if scNoTLS cfg then RecvHTTP2Preface inp else Inr inp) (\<lambda>inp.
     rbind (if \<not> scNoTLS cfg \<and> \<not> scReality cfg then RecvHTTP2Preface inp else Inr inp) (\<lambda>inp.
       ReadHelloFrame P inp (scPub cfg) 4096 8192))"

text \<open>From the client hello to the answer: what is written, the framer and the handshake.\<close>

definition establish ::
    "crypto_lib \<Rightarrow> server_config \<Rightarrow> world \<Rightarrow> bytes \<Rightarrow> 'ip server \<Rightarrow> (bytes \<times> StreamFramer \<times> ServerHandshake) res \<times> 'ip server" where
  "establish P cfg w helloData sv =
     (case Seen P (wNow w) helloData (svReplay sv) of
        (True, c) \<Rightarrow> (Inl (Errorf ''client hello replay''), sv\<lparr>svReplay := c\<rparr>)
      | (False, c) \<Rightarrow>
          let sv = sv\<lparr>svReplay := c\<rparr>
          in case NewServerHandshakeWithConfig P (wEph w) (scPriv cfg) (scPub cfg) (scAllowed cfg) (scObf cfg) of
               Inl e \<Rightarrow> (Inl e, sv)
             | Inr hs \<Rightarrow>
                 case ProcessClientHello P (wDraws w) (of_int (wNow w div second)) hs helloData of
                   (Inl e, hs) \<Rightarrow> (Inl e, sv)
                 | (Inr (serverHello, fr), hs) \<Rightarrow>
                     case IsRevoked (wFile w) (clientStaticPub hs) (svRevoked sv) of
                       (revoked, rv) \<Rightarrow>
                         let sv = sv\<lparr>svRevoked := rv\<rparr>
                         in if revoked then (Inl (Errorf ''revoked client rejected''), sv)
                            else case BuildHelloFrame P (wRnd w) (wOff w) (scPub cfg) serverHello of
                                   Inl e \<Rightarrow> (Inl e, sv)
                                 | Inr serverHelloFrame \<Rightarrow>
                                     (if wWritten w then Inr (serverHelloFrame, fr, hs) else Inl (Errorf ''write''), sv))"

text \<open>The handler up to the tunnel; a connection that is turned away gives back its slot.\<close>

definition handleClient ::
    "crypto_lib \<Rightarrow> server_config \<Rightarrow> world \<Rightarrow> 'ip option \<Rightarrow> bytes \<Rightarrow> 'ip server
       \<Rightarrow> ((bytes \<times> StreamFramer \<times> ServerHandshake) \<times> bytes) res \<times> 'ip server" where
  "handleClient P cfg w addr inp sv =
     (case enter (wNow w) addr sv of
        (False, sv) \<Rightarrow> (Inl (Errorf ''rate limit exceeded''), sv)
      | (True, sv) \<Rightarrow>
          case read_client_hello P cfg inp of
            Inl e \<Rightarrow> (Inl e, leave sv)
          | Inr (helloData, rest) \<Rightarrow>
              case establish P cfg w helloData sv of
                (Inl e, sv) \<Rightarrow> (Inl e, leave sv)
              | (Inr r, sv) \<Rightarrow> (Inr (r, rest), sv))"

text \<open>
  Many connections at once. Between two operations that may block, a connection runs to the end of
  its step; the steps of different connections interleave in any order while the clock advances. A
  connection is waiting for its hello, or has a session; \<open>hoLog\<close> records when which hello was let in.
\<close>

record 'ip host =
  hoServer :: "'ip server"
  hoClock :: int
  hoWaiting :: nat
  hoSessions :: "(StreamFramer \<times> ServerHandshake) list"
  hoLog :: "(int \<times> bytes \<times> bytes) list"

inductive host_step :: "crypto_lib \<Rightarrow> server_config \<Rightarrow> 'ip host \<Rightarrow> 'ip host \<Rightarrow> bool" for P cfg where
  arrive: "hoClock h \<le> now \<Longrightarrow> enter now addr (hoServer h) = (ok, sv) \<Longrightarrow>
    host_step P cfg h (h\<lparr>hoServer := sv, hoClock := now, hoWaiting := hoWaiting h + (if ok then 1 else 0)\<rparr>)"
| broken: "0 < hoWaiting h \<Longrightarrow> read_client_hello P cfg inp = Inl e \<Longrightarrow>
    host_step P cfg h (h\<lparr>hoServer := leave (hoServer h), hoWaiting := hoWaiting h - 1\<rparr>)"
| refuse: "0 < hoWaiting h \<Longrightarrow> hoClock h \<le> wNow w \<Longrightarrow> read_client_hello P cfg inp = Inr (hello, rest) \<Longrightarrow>
    establish P cfg w hello (hoServer h) = (Inl e, sv) \<Longrightarrow>
    host_step P cfg h (h\<lparr>hoServer := leave sv, hoClock := wNow w, hoWaiting := hoWaiting h - 1\<rparr>)"
| accept: "0 < hoWaiting h \<Longrightarrow> hoClock h \<le> wNow w \<Longrightarrow> read_client_hello P cfg inp = Inr (hello, rest) \<Longrightarrow>
    establish P cfg w hello (hoServer h) = (Inr (answer, f, hs), sv) \<Longrightarrow>
    host_step P cfg h (h\<lparr>hoServer := sv, hoClock := wNow w, hoWaiting := hoWaiting h - 1,
      hoSessions := (f, hs) # hoSessions h, hoLog := (wNow w, hello, clientStaticPub hs) # hoLog h\<rparr>)"
| finish: "hoSessions h = xs @ s # ys \<Longrightarrow>
    host_step P cfg h (h\<lparr>hoServer := leave (hoServer h), hoSessions := xs @ ys\<rparr>)"

text \<open>The server at start: \<^verbatim>\<open>replayCache\<close> keeps a hello for two minutes.\<close>

definition start_host :: "'ip IPRateLimiter \<Rightarrow> int \<Rightarrow> revocationStore option \<Rightarrow> int \<Rightarrow> 'ip host" where
  "start_host lim maxHS rv now =
     \<lparr>hoServer = \<lparr>svLimiter = lim, svSlots = NewHandshakeRateLimiter maxHS 0,
        svReplay = newHandshakeReplayCache (120 * second), svRevoked = rv\<rparr>,
      hoClock = now, hoWaiting = 0, hoSessions = [], hoLog = []\<rparr>"

section \<open>Lemmas\<close>

text \<open>An uninterrupted \<^verbatim>\<open>Acquire\<close> is one of the interleavings of its atomic steps.\<close>

lemma Acquire_interleaves:
  assumes "Acquire l = (ok, l')" and "i < length (hlThreads l)" and "hlThreads l ! i = Idle"
  shows "limiter_step\<^sup>*\<^sup>* l (l'\<lparr>hlThreads := (hlThreads l)[i := if ok then Granted else Refused]\<rparr>)"
proof (cases "hlMax l \<le> hlActive l")
  case True
  then show ?thesis using limiter_step.load [OF assms(2,3)] assms(1) by (auto simp: Acquire_def)
next
  case False
  let ?m = "l\<lparr>hlThreads := (hlThreads l)[i := Loaded (hlActive l)]\<rparr>"
  have "limiter_step l ?m" using limiter_step.load [OF assms(2,3)] False by simp
  moreover have "limiter_step ?m (l'\<lparr>hlThreads := (hlThreads l)[i := Granted]\<rparr>)"
    using limiter_step.cas [of i ?m "hlActive l"] assms False by (auto simp: Acquire_def)
  ultimately show ?thesis using assms(1) False by (auto simp: Acquire_def)
qed

text \<open>What the steps do to the slots, the clock-dependent cache and the rest.\<close>

lemma enter_slots:
  assumes "enter now addr sv = (ok, sv')"
  shows "svReplay sv' = svReplay sv" "svRevoked sv' = svRevoked sv" "hlMax (svSlots sv') = hlMax (svSlots sv)"
    and "hlActive (svSlots sv') = hlActive (svSlots sv) + (if ok then 1 else 0)"
    and "ok \<Longrightarrow> hlActive (svSlots sv) < hlMax (svSlots sv)"
  using assms by (auto simp: enter_def Let_def Acquire_def split: prod.splits if_splits)

lemma leave_simps [simp]:
  "svReplay (leave sv) = svReplay sv" "hlActive (svSlots (leave sv)) = hlActive (svSlots sv) - 1"
  "hlMax (svSlots (leave sv)) = hlMax (svSlots sv)"
  by (simp_all add: leave_def Release_def)

lemma establish_keeps:
  assumes "establish P cfg w hello sv = (r, sv')"
  shows "svSlots sv' = svSlots sv" and "svReplay sv' = snd (Seen P (wNow w) hello (svReplay sv))"
  using assms by (auto simp: establish_def Let_def split: prod.splits sum.splits bool.splits if_splits)

text \<open>What an accepted hello has shown.\<close>

definition same_statics :: "server_config \<Rightarrow> ServerHandshake \<Rightarrow> bool" where
  "same_statics cfg hs \<longleftrightarrow>
     staticPriv hs = scPriv cfg \<and> staticPub hs = scPub cfg \<and> allowedClients hs = map_option set (scAllowed cfg)"

lemma new_handshake_statics:
  "NewServerHandshakeWithConfig P eph (scPriv cfg) (scPub cfg) (scAllowed cfg) obf = Inr hs \<Longrightarrow> same_statics cfg hs"
  by (auto simp: NewServerHandshakeWithConfig_def same_statics_def rbind_Inr)

lemma establish_Inr:
  assumes "establish P cfg w hello sv = (Inr (answer, f, hs'), sv')"
  obtains hs rv serverHello where "\<not> fst (Seen P (wNow w) hello (svReplay sv))"
    and "same_statics cfg hs" and "ProcessClientHello P (wDraws w) (of_int (wNow w div second)) hs hello = (Inr (serverHello, f), hs')"
    and "IsRevoked (wFile w) (clientStaticPub hs') (svRevoked sv) = (False, rv)"
    and "BuildHelloFrame P (wRnd w) (wOff w) (scPub cfg) serverHello = Inr answer"
  using assms that new_handshake_statics [of P _ cfg]
  by (fastforce simp: establish_def Let_def split: prod.splits sum.splits bool.splits if_splits)

text \<open>
  Two readings of the clock that both accept the same time stamp are at most a minute apart, in
  spite of the one far-away value that the check lets through.
\<close>

lemma abs64_small:
  assumes "sint (abs64 x) \<le> 30"
  shows "\<bar>sint x\<bar> \<le> 30 \<or> sint x = - (2 ^ 63)"
proof -
  have b: "- (2 ^ 63) \<le> sint x" "sint x < 2 ^ 63" using sint_ge [of x] sint_lt [of x] by simp_all
  have "sint (- x) = - sint x" if "sint x \<noteq> - (2 ^ 63)"
  proof -
    have "- x = of_int (- sint x)" by simp
    then show ?thesis using sint_of_int_fits [of "- sint x"] that b by simp
  qed
  then show ?thesis using assms by (auto simp: abs64_def split: if_splits)
qed

lemma gap_arith:
  fixes a b x y k :: int
  assumes "0 \<le> a" "a \<le> b" "b < 2 ^ 62" and k: "y - x - (b - a) = 2 ^ 64 * k"
    and x: "\<bar>x\<bar> \<le> 30 \<or> x = - (2 ^ 63)" and y: "\<bar>y\<bar> \<le> 30 \<or> y = - (2 ^ 63)"
  shows "b - a \<le> 60"
proof -
  have n: "b < 4611686018427387904" "y - x - (b - a) = 18446744073709551616 * k" using assms(3,4) by simp_all
  have b: "- 9223372036854775808 \<le> x" "x \<le> 30" "- 9223372036854775808 \<le> y" "y \<le> 30" using x y by auto
  have "k = 0" using n b assms(1,2) by linarith
  then have d: "y - x = b - a" using n by simp
  from x show ?thesis
  proof
    assume "\<bar>x\<bar> \<le> 30" then show ?thesis using d b by linarith
  next
    assume "x = - (2 ^ 63)" then show ?thesis using d y n(1) assms(1) by auto
  qed
qed

lemma window_gap:
  assumes "0 \<le> a" and "a \<le> b" and "b < 2 ^ 62"
    and "sint (abs64 (of_int a - ts)) \<le> 30" and "sint (abs64 (of_int b - ts)) \<le> 30"
  shows "b - a \<le> 60"
proof -
  let ?x = "sint (of_int a - ts)" and ?y = "sint (of_int b - ts)"
  have "(of_int (?y - ?x) :: u64) = of_int (b - a)" by simp
  then have "(?y - ?x) mod 2 ^ 64 = (b - a) mod 2 ^ 64" by (simp only: word_of_int_eq_iff take_bit_eq_mod) simp
  then obtain k where "?y - ?x - (b - a) = 2 ^ 64 * k" by (auto simp: mod_eq_dvd_iff)
  then show ?thesis by (rule gap_arith [OF assms(1-3) _ abs64_small [OF assms(4)] abs64_small [OF assms(5)]])
qed

section \<open>Reachable hosts\<close>

text \<open>What the server has verified about a hello that it let in at a time, for a client key.\<close>

definition authenticated :: "crypto_lib \<Rightarrow> server_config \<Rightarrow> int \<Rightarrow> bytes \<Rightarrow> bytes \<Rightarrow> bool" where
  "authenticated P cfg now hello key \<longleftrightarrow>
     (\<exists>hs e k t z1 tk identity z. same_statics cfg hs \<and> open_identity P hs hello = Inr (e, k, t, z1, tk, identity) \<and>
        key = subslice 16 48 identity \<and> sint (abs64 (of_int (now div second) - rd64 (subslice 48 56 identity))) \<le> 30 \<and>
        (case scAllowed cfg of None \<Rightarrow> True | Some A \<Rightarrow> key \<in> set A) \<and> DHSafe P (scPriv cfg) key = Inr z \<and>
        subslice 56 88 identity = client_proof P z (DynamicMagic tk) e k t (subslice 48 56 identity))"

lemma establish_authenticated:
  assumes "establish P cfg w hello sv = (Inr (answer, f, hs'), sv')"
  shows "authenticated P cfg (wNow w) hello (clientStaticPub hs')"
proof -
  obtain hs serverHello where h: "same_statics cfg hs"
      "ProcessClientHello P (wDraws w) (of_int (wNow w div second)) hs hello = (Inr (serverHello, f), hs')"
    by (rule establish_Inr [OF assms])
  obtain e k t z1 tk identity x where o: "open_identity P hs hello = Inr (e, k, t, z1, tk, identity)"
      "check_client P (wDraws w) (of_int (wNow w div second)) hs e k t tk identity = Inr x" "clientStaticPub hs' = subslice 16 48 identity"
    by (rule ProcessClientHello_Inr [OF h(2)])
  show ?thesis
    using h(1) o check_client_Inr [OF o(2)] unfolding authenticated_def admitted_def same_statics_def
    by (auto split: option.splits)
qed

lemma open_identity_statics:
  "same_statics cfg hs \<Longrightarrow> same_statics cfg hs' \<Longrightarrow> open_identity P hs hello = open_identity P hs' hello"
  by (simp add: open_identity_def same_statics_def)

lemma authenticated_gap:
  assumes "authenticated P cfg a hello key" and "authenticated P cfg b hello key'" and "0 \<le> a" and "a \<le> b" and "b < 2 ^ 63"
  shows "b < a + 61 * second"
proof -
  obtain hs e k t z1 tk identity where a: "same_statics cfg hs" "open_identity P hs hello = Inr (e, k, t, z1, tk, identity)"
      "sint (abs64 (of_int (a div second) - rd64 (subslice 48 56 identity))) \<le> 30"
    using assms(1) unfolding authenticated_def by blast
  obtain hs' e' k' t' z1' tk' identity' where b: "same_statics cfg hs'" "open_identity P hs' hello = Inr (e', k', t', z1', tk', identity')"
      "sint (abs64 (of_int (b div second) - rd64 (subslice 48 56 identity'))) \<le> 30"
    using assms(2) unfolding authenticated_def by blast
  have "identity' = identity" using a(2) b(2) open_identity_statics [OF a(1) b(1)] by simp
  then have "b div second - a div second \<le> 60"
    using assms(3-5) a(3) b(3) by (intro window_gap [of _ _ "rd64 (subslice 48 56 identity)"]) (auto simp: zdiv_mono1)
  then show ?thesis by linarith
qed

definition host_inv :: "crypto_lib \<Rightarrow> server_config \<Rightarrow> int \<Rightarrow> 'ip host \<Rightarrow> bool" where
  "host_inv P cfg maxHS h \<longleftrightarrow>
     cache_wf (svReplay (hoServer h)) \<and> rcTtl (svReplay (hoServer h)) = 120 * second \<and>
     hlMax (svSlots (hoServer h)) = maxHS \<and>
     hlActive (svSlots (hoServer h)) = int (hoWaiting h) + int (length (hoSessions h)) \<and>
     hlActive (svSlots (hoServer h)) \<le> max 0 maxHS \<and>
     (\<forall>(t, hello, key) \<in> set (hoLog h). 0 \<le> t \<and> t \<le> hoClock h \<and> authenticated P cfg t hello key \<and>
        (\<forall>u. hoClock h \<le> u \<and> u < t + 120 * second \<longrightarrow> cache_lookup u (replay_key P hello) (svReplay (hoServer h)))) \<and>
     distinct (map (\<lambda>(t, hello, key). hello) (hoLog h))"

lemma start_host_inv: "host_inv P cfg maxHS (start_host lim maxHS rv now)"
  by (simp add: host_inv_def start_host_def NewHandshakeRateLimiter_def newHandshakeReplayCache_def cache_wf_def)

text \<open>The log as the cache sees it stays good when the cache is asked.\<close>

lemma log_kept:
  assumes "\<forall>(t, hello, key) \<in> set log. 0 \<le> t \<and> t \<le> c \<and> authenticated P cfg t hello key \<and>
        (\<forall>u. c \<le> u \<and> u < t + 120 * second \<longrightarrow> cache_lookup u (replay_key P hello) ca)"
    and "cache_wf ca" and "c \<le> now"
  shows "\<forall>(t, hello, key) \<in> set log. 0 \<le> t \<and> t \<le> now \<and> authenticated P cfg t hello key \<and>
        (\<forall>u. now \<le> u \<and> u < t + 120 * second \<longrightarrow> cache_lookup u (replay_key P hello) (snd (Seen P now data ca)))"
proof -
  have "cache_lookup u (replay_key P hello) (snd (Seen P now data ca))"
    if "cache_lookup u (replay_key P hello) ca" "now \<le> u" for u hello
    using hello_cache.lives [where P = P and k = data and k' = hello, OF assms(2) _ that(2)] that(1) by simp
  then show ?thesis using assms(1,3) by fastforce
qed

text \<open>A hello that is let in is new, and from then on remembered.\<close>

lemma accept_log:
  assumes log: "\<forall>(t, hello, key) \<in> set log. 0 \<le> t \<and> t \<le> c \<and> authenticated P cfg t hello key \<and>
        (\<forall>u. c \<le> u \<and> u < t + 120 * second \<longrightarrow> cache_lookup u (replay_key P hello) ca)"
    and c: "cache_wf ca" "rcTtl ca = 120 * second" "c \<le> now" "now < 2 ^ 63"
    and new: "\<not> fst (Seen P now hello ca)" "authenticated P cfg now hello key"
  shows "hello \<notin> (\<lambda>(t, hello, key). hello) ` set log"
    and "now \<le> u \<Longrightarrow> u < now + 120 * second \<Longrightarrow> cache_lookup u (replay_key P hello) (snd (Seen P now hello ca))"
proof -
  have n: "\<not> cache_lookup now (replay_key P hello) ca" using new(1) by (auto simp: Seen_def split: if_splits)
  show "hello \<notin> (\<lambda>(t, hello, key). hello) ` set log"
  proof
    assume "hello \<in> (\<lambda>(t, hello, key). hello) ` set log"
    then obtain t key' where "(t, hello, key') \<in> set log" by auto
    then have t: "0 \<le> t" "t \<le> c" "authenticated P cfg t hello key'" "c \<le> now \<and> now < t + 120 * second \<longrightarrow> cache_lookup now (replay_key P hello) ca"
      using log by auto
    then show False using n c(3,4) authenticated_gap [OF t(3) new(2) t(1)] by linarith
  qed
  show "cache_lookup u (replay_key P hello) (snd (Seen P now hello ca))" if "now \<le> u" "u < now + 120 * second"
    using hello_cache.lives [where P = P and k = hello and k' = hello, OF c(1) _ that(1)] n c(2) that(2) by simp
qed

lemma host_inv_step:
  assumes "host_step P cfg h h'" and "host_inv P cfg maxHS h" and "0 \<le> hoClock h" and "hoClock h' < 2 ^ 63"
  shows "host_inv P cfg maxHS h'"
  using assms
proof (induction rule: host_step.induct)
  case (arrive h now addr ok sv)
  show ?case using arrive enter_slots [OF arrive(2)] by (fastforce simp: host_inv_def)
next
  case (broken h inp e)
  then show ?case by (simp add: host_inv_def of_nat_diff)
next
  case (refuse h w inp hello rest e sv)
  note k = establish_keeps [OF refuse(4)]
  have i: "host_inv P cfg maxHS h" by (rule refuse(5))
  then have wf: "cache_wf (svReplay (hoServer h))" by (simp add: host_inv_def)
  show ?case
    using i k refuse(1) log_kept [OF _ wf refuse(2), of "hoLog h" P cfg hello] hello_cache.inv_check [OF wf, of P "wNow w" hello]
      hello_cache.ttl_check [of P "wNow w" hello]
    by (simp add: host_inv_def of_nat_diff)
next
  case (accept h w inp hello rest answer f hs sv)
  note k = establish_keeps [OF accept(4)]
  have i: "host_inv P cfg maxHS h" by (rule accept(5))
  then have wf: "cache_wf (svReplay (hoServer h))" by (simp add: host_inv_def)
  have un: "\<not> fst (Seen P (wNow w) hello (svReplay (hoServer h)))" by (rule establish_Inr [OF accept(4)])
  show ?case
    using i k un accept(1) log_kept [OF _ wf accept(2), of "hoLog h" P cfg hello] hello_cache.inv_check [OF wf, of P "wNow w" hello]
      hello_cache.ttl_check [of P "wNow w" hello] accept_log [OF _ wf _ accept(2), of "hoLog h" P cfg hello "clientStaticPub hs"]
      establish_authenticated [OF accept(4)] order_trans [OF accept(6,2)] accept(7)
    by (simp add: host_inv_def of_nat_diff)
next
  case (finish h xs s ys)
  then show ?case by (simp add: host_inv_def)
qed

lemma host_step_clock: "host_step P cfg h h' \<Longrightarrow> hoClock h \<le> hoClock h'"
  by (induction rule: host_step.induct) simp_all

lemma reachable_inv:
  assumes "(host_step P cfg)\<^sup>*\<^sup>* (start_host lim maxHS rv t0) h" and "0 \<le> t0" and "hoClock h < 2 ^ 63"
  shows "host_inv P cfg maxHS h \<and> 0 \<le> hoClock h"
  using assms(1,3)
proof (induction rule: rtranclp_induct)
  case base
  then show ?case using assms(2) start_host_inv [of P cfg maxHS lim rv t0] by (simp add: start_host_def)
next
  case (step h h')
  have c: "hoClock h \<le> hoClock h'" by (rule host_step_clock [OF step(2)])
  then have "host_inv P cfg maxHS h" "0 \<le> hoClock h" using step by auto
  then show ?case using host_inv_step [OF step(2)] step(4) c by simp
qed

section \<open>Genuine clients\<close>

lemma hello_frame_scanned:
  assumes "sha_ok P" and "BuildHelloFrame P rnd off pub payload = Inr frame" and "no_false_hello P pub junk (frame @ tail)" and "length junk \<le> 4068"
  shows "ReadHelloFrame P (junk @ frame @ tail) pub 4096 8192 = Inr (payload, tail)"
  by (rule hello_frame_behind [OF assms(1,2)]) (use assms in \<open>auto simp: BuildHelloFrame_def split: if_splits\<close>)

lemma hello_frame_read_back:
  "sha_ok P \<Longrightarrow> BuildHelloFrame P rnd off pub payload = Inr frame \<Longrightarrow> ReadHelloFrame P (frame @ tail) pub 4096 8192 = Inr (payload, tail)"
  using hello_frame_scanned [where junk = "[]"] by (simp add: no_false_hello_def)

lemma hello_frame_read:
  assumes "sha_ok P" and "length payload \<le> 8192"
  obtains frame where "BuildHelloFrame P rnd off pub payload = Inr frame" and "\<And>tail. ReadHelloFrame P (frame @ tail) pub 4096 8192 = Inr (payload, tail)"
proof -
  obtain n where "RandomBytes rnd off 16 = Inr n" using RandomBytes_defined [of 16 rnd off] by auto
  then have b: "BuildHelloFrame P rnd off pub payload = Inr (hello_frame P pub n payload)" using assms(2) by (simp add: BuildHelloFrame_def)
  show thesis by (rule that [OF b hello_frame_read_back [OF assms(1) b]])
qed

lemma establish_frame:
  "establish P cfg w hello sv = (Inr (frame, fS, hs), sv') \<Longrightarrow> \<exists>answer. BuildHelloFrame P (wRnd w) (wOff w) (scPub cfg) answer = Inr frame"
  by (auto simp: establish_def Let_def split: prod.splits bool.splits sum.splits if_splits)

text \<open>A client the server admits gets its session, and both ends hold the same keys.\<close>

lemma genuine_established:
  assumes "prims_ok P" and "NewServerHandshakeWithConfig P (wEph w) (scPriv cfg) (scPub cfg) (scAllowed cfg) (scObf cfg) = Inr s"
    and "peers P c s z1 z2 z3" and "sint (abs64 (of_int (wNow w div second) - now)) \<le> 30" and "admitted s (Public (staticKeypair c))"
    and "Headers (cObfCfg c) = Headers (scObf cfg)" and "max (S1Min (cObfCfg c)) (S1Max (cObfCfg c)) \<le> 6000"
    and "max (S2Min (scObf cfg)) (S2Max (scObf cfg)) \<le> 6000"
    and "\<not> fst (IsRevoked (wFile w) (Public (staticKeypair c)) (svRevoked sv))" and "wWritten w"
  obtains hello answer frame fS fC s' c' keys sv' where "BuildHello P d now c = Inr hello" and "length hello \<le> 8192"
    and "\<not> cache_lookup (wNow w) (replay_key P hello) (svReplay sv) \<Longrightarrow> establish P cfg w hello sv = (Inr (frame, fS, s'), sv')"
    and "\<And>tail. ReadHelloFrame P (frame @ tail) (scPub cfg) 4096 8192 = Inr (answer, tail)"
    and "ProcessServerHello P c answer = (Inr fC, c')" and "clientStaticPub s' = Public (staticKeypair c)"
    and "cSessionKeys c' = Some keys" and "sSessionKeys s' = Some keys" and "keys_wf keys" and "in_sync fC fS" and "in_sync fS fC"
proof -
  have so: "sObfCfg s = scObf cfg" using assms(2) by (auto simp: NewServerHandshakeWithConfig_def rbind_Inr)
  have sha: "sha_ok P" using assms(1) by (simp add: prims_ok_def)
  obtain hello answer fS fC s' c' keys where a: "BuildHello P d now c = Inr hello"
      "ProcessClientHello P (wDraws w) (of_int (wNow w div second)) s hello = (Inr (answer, fS), s')"
      "ProcessServerHello P c answer = (Inr fC, c')" "cSessionKeys c' = Some keys" "sSessionKeys s' = Some keys" "keys_wf keys"
      "clientStaticPub s' = Public (staticKeypair c)" "in_sync fC fS" "in_sync fS fC"
      "int (length hello) \<le> 1612 + max (S1Min (cObfCfg c)) (S1Max (cObfCfg c))"
      "int (length answer) \<le> 1460 + max (S2Min (sObfCfg s)) (S2Max (sObfCfg s))"
    using agreement [OF assms(1,3-5), of d "wDraws w"] assms(6) so by auto
  have "length answer \<le> 8192" and lh: "length hello \<le> 8192" using a(10) a(11) [unfolded so] assms(7,8) by linarith+
  then obtain frame where f: "BuildHelloFrame P (wRnd w) (wOff w) (scPub cfg) answer = Inr frame"
      "\<And>tail. ReadHelloFrame P (frame @ tail) (scPub cfg) 4096 8192 = Inr (answer, tail)"
    using hello_frame_read [OF sha] by metis
  obtain rv where rv: "IsRevoked (wFile w) (clientStaticPub s') (svRevoked sv) = (False, rv)"
    using assms(9) a(7) by (cases "IsRevoked (wFile w) (clientStaticPub s') (svRevoked sv)") auto
  let ?sv = "sv\<lparr>svReplay := cache_enter 4096 (wNow w) (replay_key P hello) (svReplay sv), svRevoked := rv\<rparr>"
  have "establish P cfg w hello sv = (Inr (frame, fS, s'), ?sv)"
    if "\<not> cache_lookup (wNow w) (replay_key P hello) (svReplay sv)"
    using that assms(2,10) a(2) rv f(1) by (simp add: establish_def Seen_def Let_def)
  from that [OF a(1) lh this f(2) a(3,7,4-6,8,9)] show thesis .
qed

section \<open>Padding of hellos\<close>

text \<open>
  The bytes in front of the first key are padding, and nothing authenticates them: two hellos that differ
  in them alone have the same fields.
\<close>

lemma sl_behind: "length pre = n \<Longrightarrow> sl (n + i) (n + j) (pre @ core) = sl i j core"
  by (auto simp: sl_def gslice_def subslice_def)

definition core_fields :: "bytes \<Rightarrow> (bytes \<times> bytes \<times> bytes \<times> bytes) res" where
  "core_fields core =
     (if length core < 1250 then Inl (Errorf ''client hello truncated at pre-pad'')
      else rbind (sl 0 32 core) (\<lambda>e. rbind (sl 32 1216 core) (\<lambda>k. rbind (sl 1216 1248 core) (\<lambda>t.
           rbind (sl 1248 1250 core) (\<lambda>lenb.
             let encLen = unat (rd16 lenb)
             in if length core < 1250 + encLen then Inl (Errorf ''client hello truncated at enc_identity'')
                else rbind (sl 1250 (1250 + encLen) core) (\<lambda>enc. Inr (e, k, t, enc)))))))"

lemma parse_padded:
  assumes "length pad \<le> 255"
  shows "parse_client_hello ([of_nat (length pad)] @ pad @ core) = core_fields core"
proof -
  let ?pre = "of_nat (length pad) # pad"
  have n: "unat (of_nat (length pad) :: byte) = length pad" using assms by (simp add: unat_of_nat_small)
  note b = sl_behind [of ?pre "Suc (length pad)", simplified]
  have t: "sl (1251 + length pad) (1251 + (length pad + m)) (?pre @ core) = sl 1250 (1250 + m) core" for m
    using b [of 1250 "1250 + m" core] by (simp add: ac_simps)
  show ?thesis
    using b [of 0 32 core] b [of 32 1216 core] b [of 1216 1248 core] b [of 1248 1250 core] t n
    by (auto simp: parse_client_hello_def core_fields_def Let_def cong: if_cong)
qed

lemma repadded_identity:
  "length pad \<le> 255 \<Longrightarrow> length pad' \<le> 255 \<Longrightarrow>
   ProcessClientHello P d now s ([of_nat (length pad')] @ pad' @ core) = ProcessClientHello P d now s ([of_nat (length pad)] @ pad @ core)"
  using parse_padded [of pad core] parse_padded [of pad' core] by (simp add: ProcessClientHello_def open_identity_def)

lemma IsRevoked_again: "IsRevoked fv key r = (False, r') \<Longrightarrow> \<not> fst (IsRevoked fv key r')"
  by (auto simp: IsRevoked_def reload_def rbind_Inr split: option.splits sum.splits if_splits stat.splits)

section \<open>Properties\<close>

text \<open>
  Property C8. Whatever the order in which the steps of concurrent connections interleave, a
  client hello never gives two sessions: the two minutes for which the server remembers a
  hello outlast every moment at which its time stamp is accepted again. Each session belongs to an
  authenticated client with an admitted key, and the connections that wait or have a session
  never outnumber the slots.
\<close>
theorem server_admits_each_hello_once:
  assumes "(host_step P cfg)\<^sup>*\<^sup>* (start_host lim maxHS rv t0) h" and "0 \<le> t0" and "hoClock h < 2 ^ 63"
  shows "distinct (map (\<lambda>(t, hello, key). hello) (hoLog h)) \<and>
    (\<forall>(t, hello, key) \<in> set (hoLog h). authenticated P cfg t hello key) \<and>
    int (hoWaiting h + length (hoSessions h)) \<le> max 0 maxHS"
  using reachable_inv [OF assms] by (auto simp: host_inv_def)

text \<open>A server and a client of the example, from the first packet to the session.\<close>

definition example_world :: world where
  "example_world =
     \<lparr>wNow = 100 * second, wEph = replicate 32 4, wDraws = example_hello_draws,
      wFile = \<lparr>fvStat = NotExist, fvRead = Inl ErrEOF, fvDecode = \<lambda>_. Inl ErrEOF\<rparr>, wRnd = \<lambda>i. 5, wOff = 0, wWritten = True\<rparr>"

definition example_config :: server_config where
  "example_config =
     \<lparr>scNoTLS = False, scReality = True, scPriv = Private (example_kp 3), scPub = Public (example_kp 3),
      scAllowed = Some [Public (example_kp 2)], scObf = DefaultObfuscationConfig\<rparr>"

lemma example_new_handshake:
  obtains s where "NewServerHandshakeWithConfig toy_lib (wEph example_world) (scPriv example_config) (scPub example_config)
      (scAllowed example_config) (scObf example_config) = Inr s"
    and "\<exists>z1 z2 z3. peers toy_lib example_client s z1 z2 z3" and "admitted s (Public (staticKeypair example_client))"
proof -
  obtain eph where g: "GenerateKeypair toy_lib (replicate 32 4) = Inr eph" "Private eph = clamp (replicate 32 4)"
    by (simp add: GenerateKeypair_def toy_lib_def Let_def)
  define z where "z = the (x25519 toy_lib (Private eph) (Public (example_kp 1)))"
  have "z ! 1 = 5" by (simp add: z_def g(2) clamp_def example_kp_def toy_lib_def Basepoint_def)
  then have "z \<noteq> replicate 32 0" by auto
  moreover have "x25519 toy_lib (Private eph) (Public (example_kp 1)) = Some z" unfolding z_def by (simp add: toy_lib_def)
  ultimately have z: "DHSafe toy_lib (Private eph) (Public (example_kp 1)) = Inr z" by (simp add: DHSafe_def DH_def ConstantTimeEqual_def)
  let ?s = "example_server\<lparr>clientStaticPub := replicate KeySize 0, ephKeypair := eph\<rparr>"
  obtain z1 z2 z3 where "peers toy_lib example_client example_server z1 z2 z3" using example_peers by blast
  then have "peers toy_lib example_client ?s z1 z2 z"
    using z GenerateKeypair_ok [OF g(1)] by (simp add: peers_def example_client_def)
  moreover have "admitted ?s (Public (staticKeypair example_client))" using example_admitted(1) by (simp add: admitted_def)
  ultimately show thesis
    using that [of ?s] g by (auto simp: NewServerHandshakeWithConfig_def example_world_def example_config_def example_server_def)
qed

lemma example_reached:
  obtains h t hello where "(host_step toy_lib example_config)\<^sup>*\<^sup>* (start_host (NewIPRateLimiter 0 20 5 :: nat IPRateLimiter) 64 None 0) h"
    and "hoLog h = [(t, hello, Public (example_kp 2))]" and "length (hoSessions h) = 1" and "hoClock h < 2 ^ 63"
proof -
  let ?h0 = "start_host (NewIPRateLimiter 0 20 5 :: nat IPRateLimiter) 64 None 0" and ?w = example_world and ?c = example_config
  let ?sv = "(hoServer ?h0)\<lparr>svSlots := \<lparr>hlActive = 1, hlMax = 64, hlThreads = []\<rparr>\<rparr>"
  let ?h1 = "?h0\<lparr>hoServer := ?sv, hoClock := 0, hoWaiting := hoWaiting ?h0 + (if True then 1 else 0)\<rparr>"
  have 1: "host_step toy_lib ?c ?h0 ?h1"
    by (rule host_step.arrive [where addr = None])
      (simp_all add: start_host_def enter_def Acquire_def NewHandshakeRateLimiter_def)
  obtain s where s: "NewServerHandshakeWithConfig toy_lib (wEph ?w) (scPriv ?c) (scPub ?c) (scAllowed ?c) (scObf ?c) = Inr s"
      "\<exists>z1 z2 z3. peers toy_lib example_client s z1 z2 z3" "admitted s (Public (staticKeypair example_client))"
    by (rule example_new_handshake)
  obtain z1 z2 z3 where p: "peers toy_lib example_client s z1 z2 z3" using s(2) by blast
  obtain hello frame fS s' sv' where e: "length hello \<le> 8192"
      "\<not> cache_lookup (wNow ?w) (replay_key toy_lib hello) (svReplay ?sv) \<Longrightarrow> establish toy_lib ?c ?w hello ?sv = (Inr (frame, fS, s'), sv')"
      "clientStaticPub s' = Public (staticKeypair example_client)"
    by (rule genuine_established [OF toy_prims_ok s(1) p, of 90 ?sv example_hello_draws])
      (use s(3) in \<open>simp_all add: example_world_def abs64_def example_client_def example_config_def DefaultObfuscationConfig_def start_host_def IsRevoked_def\<close>)
  obtain cf where cf: "\<And>tail. ReadHelloFrame toy_lib (cf @ tail) (scPub ?c) 4096 8192 = Inr (hello, tail)"
    using hello_frame_read [OF toy_sha_ok e(1), of "\<lambda>_. 1" 0 "scPub ?c"] by metis
  have "read_client_hello toy_lib ?c (cf @ []) = Inr (hello, [])" using cf [of "[]"] by (simp add: read_client_hello_def example_config_def)
  moreover have "establish toy_lib ?c ?w hello (hoServer ?h1) = (Inr (frame, fS, s'), sv')" using e(2) by (simp add: start_host_def)
  ultimately have 2: "host_step toy_lib ?c ?h1 (?h1\<lparr>hoServer := sv', hoClock := wNow ?w, hoWaiting := hoWaiting ?h1 - 1,
      hoSessions := (fS, s') # hoSessions ?h1, hoLog := (wNow ?w, hello, clientStaticPub s') # hoLog ?h1\<rparr>)"
    by (intro host_step.accept) (simp_all add: example_world_def)
  let ?h2 = "?h1\<lparr>hoServer := sv', hoClock := wNow ?w, hoWaiting := hoWaiting ?h1 - 1,
      hoSessions := (fS, s') # hoSessions ?h1, hoLog := (wNow ?w, hello, clientStaticPub s') # hoLog ?h1\<rparr>"
  have "(host_step toy_lib ?c)\<^sup>*\<^sup>* ?h0 ?h2" by (rule converse_rtranclp_into_rtranclp [where r = "host_step toy_lib ?c", OF 1 r_into_rtranclp [where r = "host_step toy_lib ?c", OF 2]])
  moreover have "hoLog ?h2 = [(wNow ?w, hello, Public (example_kp 2))]" "length (hoSessions ?h2) = 1"
    using e(3) by (simp_all add: start_host_def example_client_def)
  moreover have "hoClock ?h2 < 2 ^ 63" by (simp add: example_world_def)
  ultimately show thesis by (rule that)
qed

theorem server_admits_each_hello_once_witness:
  "\<exists>h t hello. (host_step toy_lib example_config)\<^sup>*\<^sup>* (start_host (NewIPRateLimiter 0 20 5 :: nat IPRateLimiter) 64 None 0) h \<and>
     hoLog h = [(t, hello, Public (example_kp 2))] \<and> length (hoSessions h) = 1 \<and>
     authenticated toy_lib example_config t hello (Public (example_kp 2)) \<and> int (hoWaiting h + length (hoSessions h)) \<le> 64"
proof -
  obtain h t hello where r: "(host_step toy_lib example_config)\<^sup>*\<^sup>* (start_host (NewIPRateLimiter 0 20 5 :: nat IPRateLimiter) 64 None 0) h"
      "hoLog h = [(t, hello, Public (example_kp 2))]" "length (hoSessions h) = 1" "hoClock h < 2 ^ 63"
    by (rule example_reached)
  have "authenticated toy_lib example_config t hello (Public (example_kp 2)) \<and> int (hoWaiting h + length (hoSessions h)) \<le> 64"
    using server_admits_each_hello_once [OF r(1) order_refl r(4)] r(2) by simp
  then show ?thesis using r by blast
qed

text \<open>
  Fact. The cache keys a hello with its padding, which the handshake ignores: while the hello
  is fresh, a copy with another padding is not recognised and is let in again, for the same client.
\<close>
theorem repadded_hello_admitted_again:
  assumes "length pad \<le> 255" and "length pad' \<le> 255"
    and "hello = [of_nat (length pad)] @ pad @ core" and "hello' = [of_nat (length pad')] @ pad' @ core"
    and "establish P cfg w hello sv = (Inr (answer, f, hs), sv')" and "cache_wf (svReplay sv)"
    and "replay_key P hello' \<noteq> replay_key P hello" and "\<not> cache_lookup (wNow w) (replay_key P hello') (svReplay sv)"
  shows "\<exists>sv''. establish P cfg w hello' sv' = (Inr (answer, f, hs), sv'')"
proof -
  let ?c = "cache_enter 4096 (wNow w) (replay_key P hello) (svReplay sv)"
  have u: "\<not> cache_lookup (wNow w) (replay_key P hello) (svReplay sv)"
    by (rule establish_Inr [OF assms(5)]) (auto simp: Seen_def split: if_splits)
  then have "\<not> cache_lookup (wNow w) (replay_key P hello') ?c"
    using cache_enter_lives [OF assms(6) u order_refl] assms(7,8) by simp
  moreover have "svReplay sv' = ?c" using establish_keeps(2) [OF assms(5)] u by (simp add: Seen_def)
  moreover have "ProcessClientHello P d now s hello' = ProcessClientHello P d now s hello" for d now s
    unfolding assms(3,4) by (rule repadded_identity [OF assms(1,2)])
  ultimately show ?thesis
    using assms(5) u IsRevoked_again
    by (fastforce simp: establish_def Seen_def Let_def split: prod.splits sum.splits if_splits)
qed

end
