(* ===== verification/Client_Uri.thy ===== *)
theory Client_Uri
  imports Go_Strings
begin

text \<open>
  The client configuration and its textual forms (\<^verbatim>\<open>obsidian/uri.go\<close>): links of the form
  \<^verbatim>\<open>obsidian://key@host:port?...#label\<close> and the older compact keys. Packages of Go that read
  and write text (URLs, base32, zlib, JSON, floating-point numbers) are the fields of \<open>go_lib\<close>;
  a parsed URL is a record of its parts, its query a map from names to values. Floating-point
  numbers are of an arbitrary type \<open>'f\<close>.
\<close>

section \<open>Numbers as text\<close>

definition digit :: "rune \<Rightarrow> nat option" where
  "digit c = (if 48 \<le> c \<and> c \<le> 57 then Some (c - 48) else None)"

fun digits_value :: "nat \<Rightarrow> gostring \<Rightarrow> nat option" where
  "digits_value acc [] = Some acc"
| "digits_value acc (c # cs) = (case digit c of None \<Rightarrow> None | Some d \<Rightarrow> digits_value (10 * acc + d) cs)"

definition unsigned_value :: "gostring \<Rightarrow> nat option" where
  "unsigned_value s = (if s = [] then None else digits_value 0 s)"

text \<open>\<^verbatim>\<open>strconv.Atoi\<close>; \<open>None\<close> is a syntax or range error.\<close>

definition Atoi :: "gostring \<Rightarrow> int option" where
  "Atoi s =
     (let neg = HasPrefix s (lit ''-'');
          body = (if neg \<or> HasPrefix s (lit ''+'') then tl s else s)
      in case unsigned_value body of
           None \<Rightarrow> None
         | Some n \<Rightarrow>
             if neg then (if int n \<le> 2 ^ 63 then Some (- int n) else None)
             else (if int n < 2 ^ 63 then Some (int n) else None))"

definition ParseUint32 :: "gostring \<Rightarrow> nat option" where
  "ParseUint32 s = (case unsigned_value s of None \<Rightarrow> None | Some n \<Rightarrow> if n < 2 ^ 32 then Some n else None)"

function FormatUint :: "nat \<Rightarrow> gostring" where
  "FormatUint n = (if n < 10 then [48 + n] else FormatUint (n div 10) @ [48 + n mod 10])"
  by pat_completeness auto
termination by (relation "measure id") auto

declare FormatUint.simps [simp del]

definition Itoa :: "int \<Rightarrow> gostring" where
  "Itoa i = (if i < 0 then lit ''-'' @ FormatUint (nat (- i)) else FormatUint (nat i))"

lemma digits_value_append:
  "digits_value acc (xs @ ys) = (case digits_value acc xs of None \<Rightarrow> None | Some v \<Rightarrow> digits_value v ys)"
  by (induction acc xs rule: digits_value.induct) (auto split: option.splits)

lemma digit_char [simp]: "d < 10 \<Longrightarrow> digit (48 + d) = Some d"
  by (simp add: digit_def)

lemma FormatUint_value: "digits_value 0 (FormatUint n) = Some n"
proof (induction n rule: FormatUint.induct)
  case (1 n)
  show ?case
  proof (cases "n < 10")
    case True
    then show ?thesis by (subst FormatUint.simps) simp
  next
    case False
    then have "digits_value 0 (FormatUint (n div 10)) = Some (n div 10)" using 1 by simp
    moreover have "10 * (n div 10) + n mod 10 = n" by presburger
    ultimately show ?thesis using False by (subst FormatUint.simps) (simp add: digits_value_append del: add_mult_distrib2)
  qed
qed

lemma FormatUint_first: "\<exists>d r. FormatUint n = (48 + d) # r \<and> d < 10"
proof (induction n rule: FormatUint.induct)
  case (1 n)
  then show ?case by (subst FormatUint.simps) (cases "n < 10", auto)
qed

lemma Atoi_Itoa: "0 \<le> i \<Longrightarrow> i < 2 ^ 63 \<Longrightarrow> Atoi (Itoa i) = Some i"
proof -
  assume i: "0 \<le> i" "i < 2 ^ 63"
  obtain d r where f: "FormatUint (nat i) = (48 + d) # r" "d < 10" using FormatUint_first by blast
  have "unsigned_value ((48 + d) # r) = Some (nat i)" using FormatUint_value [of "nat i"] f(1) by (simp add: unsigned_value_def)
  then show ?thesis using i f by (simp add: Atoi_def Itoa_def HasPrefix_def lit_def)
qed

lemma ParseUint32_FormatUint: "n < 2 ^ 32 \<Longrightarrow> ParseUint32 (FormatUint n) = Some n"
  using FormatUint_first [of n] FormatUint_value [of n] by (auto simp: ParseUint32_def unsigned_value_def)

section \<open>The configuration\<close>

record 'f ClientConfig =
  ccProtocolVersion :: int
  ccServerHost :: gostring
  ccServerPort :: gostring
  ccServerPublicKey :: gostring
  ccClientPrivateKey :: gostring
  ccNoTLS :: bool
  ccRealityEnabled :: bool
  ccRealityAuthKey :: gostring
  ccRealitySNI :: gostring
  ccFingerprint :: gostring
  ccSNI :: gostring
  ccSNIPool :: "gostring list"
  ccVerifyTLS :: bool
  ccTunInterface :: gostring
  ccTunAddress :: gostring
  ccDNS :: gostring
  ccMTU :: int
  ccNoiseMinSec :: 'f
  ccNoiseMaxSec :: 'f
  ccKeepaliveSec :: 'f
  ccJitter :: gostring
  ccProfile :: gostring
  ccJunkCount :: int
  ccJunkMin :: int
  ccJunkMax :: int
  ccSignatures :: "gostring list"
  ccHeaderRanges :: "u32 list"
  ccRouteIPs :: "gostring list"
  ccSplitTunnelMode :: gostring
  ccSplitSites :: "gostring list"
  ccSplitApps :: "gostring list"
  ccSplitProcesses :: "gostring list"
  ccUDPPort :: gostring
  ccEnableUDPData :: bool
  ccPortPool :: "int list"
  ccPortHopIntervalSec :: int
  ccMaxTrailer :: int
  ccUseBucketPadding :: bool
  ccBucketMTU :: int
  ccEnableIPv6 :: bool
  ccKeyserverURL :: gostring
  ccToken :: gostring
  ccExpires :: gostring
  ccMaxDevices :: u32
  ccLabel :: gostring

text \<open>What is used of other packages.\<close>

record url =
  uScheme :: gostring
  uUser :: "gostring option"
  uHostname :: gostring
  uPort :: gostring
  uQuery :: "gostring \<rightharpoonup> gostring list"
  uFragment :: gostring

datatype 'f json = JString gostring | JNumber 'f | JBool bool | JOther

record 'f go_lib =
  urlParse :: "gostring \<Rightarrow> url res"
  urlString :: "url \<Rightarrow> gostring"
  QueryUnescape :: "gostring \<Rightarrow> gostring option"
  uniLower :: "rune \<Rightarrow> rune"
  uniUpper :: "rune \<Rightarrow> rune"
  ParseFloat :: "gostring \<Rightarrow> 'f option"
  fOfInt :: "int \<Rightarrow> 'f"
  fToInt :: "'f \<Rightarrow> int"
  fPositive :: "'f \<Rightarrow> bool"
  base32Decode :: "gostring \<Rightarrow> bytes res"
  zlibInflate :: "bytes \<Rightarrow> bytes res"
  jsonObject :: "bytes \<Rightarrow> (gostring \<rightharpoonup> 'f json) res"
  Sprint :: "'f json \<Rightarrow> gostring"

definition DefaultClientConfig :: "'f go_lib \<Rightarrow> 'f ClientConfig" where
  "DefaultClientConfig N =
     \<lparr>ccProtocolVersion = 2, ccServerHost = [], ccServerPort = [], ccServerPublicKey = [], ccClientPrivateKey = [],
      ccNoTLS = False, ccRealityEnabled = False, ccRealityAuthKey = [], ccRealitySNI = [], ccFingerprint = [],
      ccSNI = [], ccSNIPool = [], ccVerifyTLS = False, ccTunInterface = [], ccTunAddress = lit ''10.8.0.2/24'',
      ccDNS = lit ''1.1.1.1'', ccMTU = 1420, ccNoiseMinSec = fOfInt N 10, ccNoiseMaxSec = fOfInt N 40,
      ccKeepaliveSec = fOfInt N 20, ccJitter = lit ''off'', ccProfile = lit ''fast-secure'',
      ccJunkCount = 7, ccJunkMin = 50, ccJunkMax = 1000,
      ccSignatures =
        [lit ''<b 0xc00000000108><rc 8><b 0x08><rc 8><b 0x0044b000000001><r 1170>'',
         lit ''<r 2><b 0x010000010000000000010377777706676f6f676c6503636f6d00000100010000291000000000000000>''],
      ccHeaderRanges = [0, 0, 0, 0], ccRouteIPs = [], ccSplitTunnelMode = [], ccSplitSites = [], ccSplitApps = [],
      ccSplitProcesses = [], ccUDPPort = [], ccEnableUDPData = True, ccPortPool = [], ccPortHopIntervalSec = 0,
      ccMaxTrailer = 0, ccUseBucketPadding = False, ccBucketMTU = 0, ccEnableIPv6 = False,
      ccKeyserverURL = [], ccToken = [], ccExpires = [], ccMaxDevices = 0, ccLabel = []\<rparr>"

definition parseBool :: "'f go_lib \<Rightarrow> gostring \<Rightarrow> bool \<Rightarrow> bool" where
  "parseBool N s defaultVal =
     (let s = ToLower (uniLower N) (TrimSpace s)
      in if s = lit ''1'' \<or> s = lit ''true'' \<or> s = lit ''yes'' \<or> s = lit ''on'' then True
         else if s = lit ''0'' \<or> s = lit ''false'' \<or> s = lit ''no'' \<or> s = lit ''off'' then False
         else defaultVal)"

section \<open>Reading a link\<close>

definition Get :: "(gostring \<rightharpoonup> gostring list) \<Rightarrow> string \<Rightarrow> gostring" where
  "Get q k = (case q (lit k) of Some (v # vs) \<Rightarrow> v | _ \<Rightarrow> [])"

text \<open>The first non-empty value of several names.\<close>

fun first_of :: "(gostring \<rightharpoonup> gostring list) \<Rightarrow> string list \<Rightarrow> gostring" where
  "first_of q [] = []"
| "first_of q (k # ks) = (if Get q k \<noteq> [] then Get q k else first_of q ks)"

definition normalize_uri :: "'f go_lib \<Rightarrow> gostring \<Rightarrow> gostring" where
  "normalize_uri N raw =
     (if HasPrefix (ToLower (uniLower N) raw) (lit ''vpn://obsidian/'') then lit ''obsidian://'' @ drop 15 raw
      else if HasPrefix (ToLower (uniLower N) raw) (lit ''vpn://'') then lit ''obsidian://'' @ drop 6 raw
      else raw)"

text \<open>The assignments to the configuration, grouped; a condition that fails leaves the field.\<close>

definition parse_endpoint :: "'f go_lib \<Rightarrow> url \<Rightarrow> 'f ClientConfig \<Rightarrow> 'f ClientConfig" where
  "parse_endpoint N u cfg =
     (let user = (case uUser u of None \<Rightarrow> [] | Some user \<Rightarrow> user);
          pk = first_of (uQuery u) [''pk'', ''pbk'', ''server_public_key'']
      in cfg\<lparr>ccServerHost := uHostname u,
             ccServerPort := if uPort u \<noteq> [] then uPort u else lit ''8443'',
             ccServerPublicKey :=
               if pk \<noteq> [] then ToLower (uniLower N) pk
               else if user \<noteq> [] then ToLower (uniLower N) user else ccServerPublicKey cfg,
             ccLabel :=
               if uFragment u \<noteq> []
               then (case QueryUnescape N (uFragment u) of Some frag \<Rightarrow> frag | None \<Rightarrow> uFragment u)
               else ccLabel cfg\<rparr>)"

definition parse_switches :: "'f go_lib \<Rightarrow> (gostring \<rightharpoonup> gostring list) \<Rightarrow> 'f ClientConfig \<Rightarrow> 'f ClientConfig" where
  "parse_switches N q cfg =
     (let udp = first_of q [''udp_port'', ''udp'']; eu = first_of q [''udp_data'', ''eu''];
          v6 = first_of q [''ipv6'', ''v6'']; nt = first_of q [''no_tls'', ''nt'']
      in cfg\<lparr>ccUDPPort := if udp \<noteq> [] then udp else ccServerPort cfg,
             ccEnableUDPData := if eu \<noteq> [] then parseBool N eu True else ccEnableUDPData cfg,
             ccEnableIPv6 := if v6 \<noteq> [] then parseBool N v6 False else ccEnableIPv6 cfg,
             ccNoTLS := if nt \<noteq> [] then parseBool N nt False else ccNoTLS cfg\<rparr>)"

definition parse_reality :: "'f go_lib \<Rightarrow> (gostring \<rightharpoonup> gostring list) \<Rightarrow> 'f ClientConfig \<Rightarrow> 'f ClientConfig" where
  "parse_reality N q cfg =
     (if ToLower (uniLower N) (Get q ''security'') = lit ''reality'' \<or> parseBool N (Get q ''reality'') False \<or>
         parseBool N (Get q ''re'') False \<or> Get q ''sni'' \<noteq> [] \<or> Get q ''auth_key'' \<noteq> []
      then
        let sni = first_of q [''sni'', ''rs'', ''reality_sni''];
            sni = (if sni = [] then lit ''www.microsoft.com'' else sni);
            authKey = first_of q [''auth_key'', ''rk'', ''sid'', ''reality_auth_key''];
            fp = first_of q [''fp'', ''fingerprint''];
            fp = (if fp = [] then lit ''chrome'' else fp)
        in cfg\<lparr>ccRealityEnabled := True, ccRealitySNI := sni, ccSNI := sni, ccRealityAuthKey := authKey, ccFingerprint := fp\<rparr>
      else cfg)"

definition parse_tuning :: "'f go_lib \<Rightarrow> (gostring \<rightharpoonup> gostring list) \<Rightarrow> 'f ClientConfig \<Rightarrow> 'f ClientConfig" where
  "parse_tuning N q cfg =
     (let text = (\<lambda>k old. if Get q k \<noteq> [] then Get q k else old);
          int = (\<lambda>k old. case Atoi (Get q k) of Some v \<Rightarrow> v | None \<Rightarrow> old);
          num = (\<lambda>k old. if Get q k \<noteq> [] then (case ParseFloat N (Get q k) of Some v \<Rightarrow> v | None \<Rightarrow> old) else old);
          dns = first_of q [''dns'', ''d'']; tun = first_of q [''tun'', ''tun_address'']
      in cfg\<lparr>ccProfile := text ''profile'' (ccProfile cfg), ccJitter := text ''jitter'' (ccJitter cfg),
             ccMTU := (case Atoi (Get q ''mtu'') of
                         Some v \<Rightarrow> if 0 < v then (if 1420 < v then 1420 else v) else ccMTU cfg
                       | None \<Rightarrow> ccMTU cfg),
             ccDNS := if dns \<noteq> [] then dns else ccDNS cfg, ccTunAddress := if tun \<noteq> [] then tun else ccTunAddress cfg,
             ccJunkCount := int ''junk'' (ccJunkCount cfg), ccJunkMin := int ''junk_min'' (ccJunkMin cfg),
             ccJunkMax := int ''junk_max'' (ccJunkMax cfg), ccNoiseMinSec := num ''noise_min'' (ccNoiseMinSec cfg),
             ccNoiseMaxSec := num ''noise_max'' (ccNoiseMaxSec cfg), ccKeepaliveSec := num ''keepalive'' (ccKeepaliveSec cfg),
             ccSignatures := (case q (lit ''sig'') of Some (s # sigs) \<Rightarrow> s # sigs | _ \<Rightarrow> ccSignatures cfg)\<rparr>)"

definition parse_metadata :: "'f go_lib \<Rightarrow> (gostring \<rightharpoonup> gostring list) \<Rightarrow> 'f ClientConfig \<Rightarrow> 'f ClientConfig" where
  "parse_metadata N q cfg =
     (let text = (\<lambda>ks old. if first_of q ks \<noteq> [] then first_of q ks else old)
      in cfg\<lparr>ccKeyserverURL := text [''keyserver'', ''ks''] (ccKeyserverURL cfg),
             ccToken := text [''token'', ''t''] (ccToken cfg), ccExpires := text [''expires'', ''e''] (ccExpires cfg),
             ccMaxDevices := (case ParseUint32 (first_of q [''max_devices'', ''m'']) of
                                Some v \<Rightarrow> of_nat v
                              | None \<Rightarrow> ccMaxDevices cfg),
             ccClientPrivateKey :=
               if Get q ''client_key'' \<noteq> [] then ToLower (uniLower N) (Get q ''client_key'') else ccClientPrivateKey cfg\<rparr>)"

definition ParseURI :: "'f go_lib \<Rightarrow> gostring \<Rightarrow> 'f ClientConfig res" where
  "ParseURI N rawURI =
     (let rawURI = TrimSpace rawURI
      in if rawURI = [] then Inl (Errorf ''empty URI'')
         else case urlParse N (normalize_uri N rawURI) of
                Inl e \<Rightarrow> Inl (Errorf ''invalid URI format'')
              | Inr u \<Rightarrow>
                  let scheme = ToLower (uniLower N) (uScheme u)
                  in if scheme \<noteq> lit ''obsidian'' \<and> scheme \<noteq> lit ''vpn'' then Inl (Errorf ''unsupported URI scheme'')
                     else if uHostname u = [] then Inl (Errorf ''URI is missing host'')
                     else
                       let cfg = parse_endpoint N u (DefaultClientConfig N)
                       in if ccServerPublicKey cfg = [] then Inl (Errorf ''missing server_public_key in URI'')
                          else Inr (parse_metadata N (uQuery u) (parse_tuning N (uQuery u)
                                 (parse_reality N (uQuery u) (parse_switches N (uQuery u) cfg)))))"

section \<open>Writing a link\<close>

text \<open>A conditional \<^verbatim>\<open>q.Set(k, v)\<close>.\<close>

definition set_if :: "bool \<Rightarrow> string \<Rightarrow> gostring \<Rightarrow> (gostring \<rightharpoonup> gostring list) \<Rightarrow> (gostring \<rightharpoonup> gostring list)" where
  "set_if c k v q = (if c then q(lit k \<mapsto> [v]) else q)"

definition encode_query :: "'f ClientConfig \<Rightarrow> gostring \<Rightarrow> (gostring \<rightharpoonup> gostring list)" where
  "encode_query cfg port =
     (let udpPort = (if ccUDPPort cfg = [] then port else ccUDPPort cfg);
          q = set_if (udpPort \<noteq> port) ''udp_port'' udpPort Map.empty;
          q = set_if (\<not> ccEnableUDPData cfg) ''udp_data'' (lit ''0'') q;
          q = set_if (ccEnableIPv6 cfg) ''ipv6'' (lit ''1'') q;
          q = set_if (ccNoTLS cfg) ''no_tls'' (lit ''1'') q;
          re = ccRealityEnabled cfg;
          q = set_if re ''security'' (lit ''reality'') q;
          q = set_if (re \<and> ccRealitySNI cfg \<noteq> []) ''sni'' (ccRealitySNI cfg) q;
          q = set_if (re \<and> ccRealityAuthKey cfg \<noteq> []) ''auth_key'' (ccRealityAuthKey cfg) q;
          q = set_if (re \<and> ccFingerprint cfg \<noteq> [] \<and> ccFingerprint cfg \<noteq> lit ''chrome'') ''fp'' (ccFingerprint cfg) q;
          q = set_if (ccProfile cfg \<noteq> [] \<and> ccProfile cfg \<noteq> lit ''fast-secure'') ''profile'' (ccProfile cfg) q;
          q = set_if (ccMTU cfg \<noteq> 0 \<and> ccMTU cfg \<noteq> 1420) ''mtu'' (Itoa (ccMTU cfg)) q;
          q = set_if (ccDNS cfg \<noteq> [] \<and> ccDNS cfg \<noteq> lit ''1.1.1.1'' \<and> ccDNS cfg \<noteq> lit ''10.8.0.1'') ''dns'' (ccDNS cfg) q;
          q = set_if (ccKeyserverURL cfg \<noteq> []) ''keyserver'' (ccKeyserverURL cfg) q;
          q = set_if (ccToken cfg \<noteq> []) ''token'' (ccToken cfg) q;
          q = set_if (ccExpires cfg \<noteq> []) ''expires'' (ccExpires cfg) q;
          q = set_if (0 < ccMaxDevices cfg) ''max_devices'' (FormatUint (unat (ccMaxDevices cfg))) q
      in set_if (ccClientPrivateKey cfg \<noteq> []) ''client_key'' (ccClientPrivateKey cfg) q)"

definition uri_of :: "'f ClientConfig \<Rightarrow> gostring \<Rightarrow> url" where
  "uri_of cfg label =
     (let host = TrimSuffix (TrimPrefix (ccServerHost cfg) (lit ''['')) (lit '']'');
          port = (if ccServerPort cfg = [] then lit ''8443'' else ccServerPort cfg);
          displayLabel = (if label = [] then ccLabel cfg else label)
      in \<lparr>uScheme = lit ''obsidian'', uUser = Some (ccServerPublicKey cfg), uHostname = host, uPort = port,
          uQuery = encode_query cfg port, uFragment = displayLabel\<rparr>)"

definition EncodeURI :: "'f go_lib \<Rightarrow> 'f ClientConfig \<Rightarrow> gostring \<Rightarrow> gostring" where
  "EncodeURI N cfg label = urlString N (uri_of cfg label)"

section \<open>Compact keys\<close>

definition pad_base32 :: "gostring \<Rightarrow> gostring" where
  "pad_base32 clean = clean @ replicate ((8 - length clean mod 8) mod 8) 61"

definition clean_key :: "'f go_lib \<Rightarrow> gostring \<Rightarrow> gostring" where
  "clean_key N s =
     pad_base32 (filter (\<lambda>c. c \<noteq> 45)
       (TrimPrefix (map (\<lambda>c. if 97 \<le> c \<and> c \<le> 122 then c - 32 else if c < 128 then c else uniUpper N c)
          (filter (\<lambda>c. c \<noteq> 32) s)) (lit ''OBSDN-'')))"

text \<open>The type assertions on the values of the JSON object.\<close>

fun as_string :: "'f json option \<Rightarrow> gostring option" where
  "as_string (Some (JString s)) = Some s"
| "as_string _ = None"

fun as_number :: "'f json option \<Rightarrow> 'f option" where
  "as_number (Some (JNumber x)) = Some x"
| "as_number _ = None"

fun as_bool :: "'f json option \<Rightarrow> bool option" where
  "as_bool (Some (JBool b)) = Some b"
| "as_bool _ = None"

definition compact_settings :: "'f go_lib \<Rightarrow> (gostring \<rightharpoonup> 'f json) \<Rightarrow> 'f ClientConfig \<Rightarrow> 'f ClientConfig" where
  "compact_settings N c cfg =
     (let flag = (\<lambda>k old. case as_bool (c (lit k)) of Some b \<Rightarrow> b | None \<Rightarrow> old);
          num = (\<lambda>k old. case as_number (c (lit k)) of Some x \<Rightarrow> x | None \<Rightarrow> old)
      in cfg\<lparr>ccEnableUDPData := flag ''eu'' (ccEnableUDPData cfg), ccEnableIPv6 := flag ''v6'' (ccEnableIPv6 cfg),
             ccNoTLS := flag ''nt'' (ccNoTLS cfg),
             ccDNS := (case as_string (c (lit ''d'')) of Some d \<Rightarrow> if d \<noteq> [] then d else ccDNS cfg | None \<Rightarrow> ccDNS cfg),
             ccMTU := (case as_number (c (lit ''mtu'')) of
                         Some x \<Rightarrow> if fPositive N x then fToInt N x else ccMTU cfg
                       | None \<Rightarrow> ccMTU cfg),
             ccJunkCount := (case as_number (c (lit ''j'')) of Some x \<Rightarrow> fToInt N x | None \<Rightarrow> ccJunkCount cfg),
             ccNoiseMinSec := num ''ns'' (ccNoiseMinSec cfg), ccNoiseMaxSec := num ''nx'' (ccNoiseMaxSec cfg),
             ccKeepaliveSec := num ''ka'' (ccKeepaliveSec cfg)\<rparr>)"

definition compact_reality :: "(gostring \<rightharpoonup> 'f json) \<Rightarrow> 'f ClientConfig \<Rightarrow> 'f ClientConfig" where
  "compact_reality c cfg =
     (let re = (as_bool (c (lit ''re'')) = Some True);
          text = (\<lambda>k. case as_string (c (lit k)) of Some s \<Rightarrow> s | None \<Rightarrow> []);
          rk = text ''rk'';
          rs = text ''rs''
      in if re \<or> rk \<noteq> [] \<or> rs \<noteq> []
         then let rs = (if rs = [] then lit ''www.microsoft.com'' else rs)
              in cfg\<lparr>ccRealityEnabled := True, ccRealityAuthKey := rk, ccRealitySNI := rs, ccSNI := rs, ccFingerprint := lit ''chrome''\<rparr>
         else cfg)"

definition compact_metadata :: "'f go_lib \<Rightarrow> (gostring \<rightharpoonup> 'f json) \<Rightarrow> 'f ClientConfig \<Rightarrow> 'f ClientConfig" where
  "compact_metadata N c cfg =
     (let text = (\<lambda>k old. case as_string (c (lit k)) of Some s \<Rightarrow> s | None \<Rightarrow> old)
      in cfg\<lparr>ccKeyserverURL := text ''ks'' (ccKeyserverURL cfg), ccToken := text ''t'' (ccToken cfg),
             ccExpires := text ''e'' (ccExpires cfg),
             ccMaxDevices := (case as_number (c (lit ''m'')) of Some x \<Rightarrow> of_int (fToInt N x) | None \<Rightarrow> ccMaxDevices cfg),
             ccClientPrivateKey :=
               (case as_string (c (lit ''c'')) of
                  None \<Rightarrow> ccClientPrivateKey cfg
                | Some s \<Rightarrow>
                    let s = ToLower (uniLower N) (TrimSpace s)
                    in case DecodeString s of
                         Some b \<Rightarrow> if length b = 32 then s else ccClientPrivateKey cfg
                       | None \<Rightarrow> ccClientPrivateKey cfg)\<rparr>)"

definition DecodeKey :: "'f go_lib \<Rightarrow> gostring \<Rightarrow> 'f ClientConfig res" where
  "DecodeKey N keyStr =
     (let s = TrimSpace keyStr; lower = ToLower (uniLower N) s
      in if s = [] then Inl (Errorf ''empty key or URI'')
         else if HasPrefix lower (lit ''obsidian://'') \<or> HasPrefix lower (lit ''vpn://'') then ParseURI N s
         else
           case base32Decode N (clean_key N s) of
             Inl e \<Rightarrow> Inl (Errorf ''invalid base32 in OBSDN key'')
           | Inr compressed \<Rightarrow>
               (case zlibInflate N compressed of
                  Inl e \<Rightarrow> Inl e
                | Inr text \<Rightarrow>
                    (case jsonObject N text of
                       Inl e \<Rightarrow> Inl (Errorf ''failed to parse JSON inside key'')
                     | Inr c \<Rightarrow>
                         if \<exists>k \<in> {''h'', ''p'', ''u'', ''k''}. c (lit k) = None
                         then Inl (Errorf ''OBSDN key is missing required field'')
                         else
                           let text = (\<lambda>k. Sprint N (the (c (lit k))));
                               cfg = (DefaultClientConfig N)\<lparr>ccServerHost := text ''h'', ccServerPort := text ''p'',
                                        ccServerPublicKey := text ''k'', ccUDPPort := text ''u''\<rparr>
                           in Inr (compact_metadata N c (compact_reality c (compact_settings N c cfg))))))"

section \<open>Round trip\<close>

lemma Get_set_if:
  "Get (set_if c k v q) k' = (if k = k' \<and> c then v else Get q k')"
  by (simp add: Get_def set_if_def)

lemma Get_empty [simp]: "Get Map.empty k = []" by (simp add: Get_def)

lemma set_if_other: "k \<noteq> k' \<Longrightarrow> set_if c k v q (lit k') = q (lit k')"
  by (simp add: set_if_def)

lemma parseBool_written [simp]:
  "parseBool N (lit ''1'') b" "\<not> parseBool N (lit ''0'') b" "parseBool N [] b = b"
  by (simp_all add: parseBool_def TrimSpace_def lit_def IsSpace_def ToLower_def)

lemma lower_words [simp]:
  "ToLower f [] = []" "ToLower f (lit ''reality'') = lit ''reality''" "ToLower f (lit ''obsidian'') = lit ''obsidian''"
  by (simp_all add: ToLower_def lit_def)

text \<open>What is relied on of \<^verbatim>\<open>net/url\<close>: a URL is read back as it was written.\<close>

definition url_read_back :: "'f go_lib \<Rightarrow> url \<Rightarrow> bool" where
  "url_read_back N u \<longleftrightarrow>
     urlParse N (urlString N u) = Inr u \<and> HasPrefix (urlString N u) (uScheme u @ lit ''://'') \<and>
     TrimSpace (urlString N u) = urlString N u"

text \<open>The configurations a link can carry, and what arrives: the rest of the defaults.\<close>

definition canonical :: "'f go_lib \<Rightarrow> 'f ClientConfig \<Rightarrow> bool" where
  "canonical N cfg \<longleftrightarrow>
     TrimSuffix (TrimPrefix (ccServerHost cfg) (lit ''['')) (lit '']'') = ccServerHost cfg \<and> ccServerHost cfg \<noteq> [] \<and>
     ccServerPort cfg \<noteq> [] \<and> ccUDPPort cfg \<noteq> [] \<and> ccServerPublicKey cfg \<noteq> [] \<and>
     ToLower (uniLower N) (ccServerPublicKey cfg) = ccServerPublicKey cfg \<and>
     ToLower (uniLower N) (ccClientPrivateKey cfg) = ccClientPrivateKey cfg \<and>
     0 < ccMTU cfg \<and> ccMTU cfg \<le> 1420 \<and> ccDNS cfg \<noteq> [] \<and> ccDNS cfg \<noteq> lit ''10.8.0.1'' \<and> ccProfile cfg \<noteq> [] \<and>
     (ccRealityEnabled cfg \<longrightarrow> ccRealitySNI cfg \<noteq> [] \<and> ccFingerprint cfg \<noteq> [])"

definition transmitted :: "'f go_lib \<Rightarrow> 'f ClientConfig \<Rightarrow> gostring \<Rightarrow> 'f ClientConfig" where
  "transmitted N cfg label =
     (let re = ccRealityEnabled cfg; only = (\<lambda>x. if re then x else [])
      in (DefaultClientConfig N)
        \<lparr>ccServerHost := ccServerHost cfg, ccServerPort := ccServerPort cfg, ccServerPublicKey := ccServerPublicKey cfg,
         ccLabel := label, ccUDPPort := ccUDPPort cfg, ccEnableUDPData := ccEnableUDPData cfg, ccEnableIPv6 := ccEnableIPv6 cfg,
         ccNoTLS := ccNoTLS cfg, ccRealityEnabled := re, ccRealitySNI := only (ccRealitySNI cfg), ccSNI := only (ccRealitySNI cfg),
         ccRealityAuthKey := only (ccRealityAuthKey cfg), ccFingerprint := only (ccFingerprint cfg), ccProfile := ccProfile cfg,
         ccMTU := ccMTU cfg, ccDNS := ccDNS cfg, ccKeyserverURL := ccKeyserverURL cfg, ccToken := ccToken cfg,
         ccExpires := ccExpires cfg, ccMaxDevices := ccMaxDevices cfg, ccClientPrivateKey := ccClientPrivateKey cfg\<rparr>)"

text \<open>
  The fragment of a parsed URL is decoded already; the parser unescapes it once more as a query value, where a plus
  is a space, and keeps it when that fails.
\<close>

definition read_label :: "'f go_lib \<Rightarrow> gostring \<Rightarrow> gostring" where
  "read_label N l = (if l = [] then [] else case QueryUnescape N l of Some frag \<Rightarrow> frag | None \<Rightarrow> l)"

lemma normalize_own: "HasPrefix s (lit ''obsidian://'') \<Longrightarrow> normalize_uri N s = s"
proof -
  assume "HasPrefix s (lit ''obsidian://'')"
  then obtain t where "s = lit ''obsidian://'' @ t" by (metis HasPrefix_def append_take_drop_id)
  then show ?thesis by (simp add: normalize_uri_def HasPrefix_def ToLower_def lit_def)
qed

text \<open>Reading the query that was written, name by name.\<close>

lemma written_names:
  fixes cfg :: "'f ClientConfig"
  defines "q \<equiv> encode_query cfg (ccServerPort cfg)"
  assumes "canonical N cfg"
  shows "first_of q [''udp_port'', ''udp''] = (if ccUDPPort cfg \<noteq> ccServerPort cfg then ccUDPPort cfg else [])"
    and "first_of q [''udp_data'', ''eu''] = (if ccEnableUDPData cfg then [] else lit ''0'')"
    and "first_of q [''ipv6'', ''v6''] = (if ccEnableIPv6 cfg then lit ''1'' else [])"
    and "first_of q [''no_tls'', ''nt''] = (if ccNoTLS cfg then lit ''1'' else [])"
    and "Get q ''security'' = (if ccRealityEnabled cfg then lit ''reality'' else [])"
    and "Get q ''sni'' = (if ccRealityEnabled cfg then ccRealitySNI cfg else [])"
    and "Get q ''auth_key'' = (if ccRealityEnabled cfg then ccRealityAuthKey cfg else [])"
    and "Get q ''fp'' = (if ccRealityEnabled cfg \<and> ccFingerprint cfg \<noteq> lit ''chrome'' then ccFingerprint cfg else [])"
    and "Get q ''profile'' = (if ccProfile cfg \<noteq> lit ''fast-secure'' then ccProfile cfg else [])"
    and "Get q ''mtu'' = (if ccMTU cfg \<noteq> 1420 then Itoa (ccMTU cfg) else [])"
    and "first_of q [''dns'', ''d''] = (if ccDNS cfg \<noteq> lit ''1.1.1.1'' then ccDNS cfg else [])"
    and "first_of q [''keyserver'', ''ks''] = ccKeyserverURL cfg"
    and "first_of q [''token'', ''t''] = ccToken cfg"
    and "first_of q [''expires'', ''e''] = ccExpires cfg"
    and "first_of q [''max_devices'', ''m''] = (if 0 < ccMaxDevices cfg then FormatUint (unat (ccMaxDevices cfg)) else [])"
    and "Get q ''client_key'' = ccClientPrivateKey cfg"
  using assms(2) unfolding q_def
  by (simp_all add: encode_query_def Let_def Get_set_if canonical_def)

lemma unwritten_names:
  fixes cfg :: "'f ClientConfig"
  defines "q \<equiv> encode_query cfg (ccServerPort cfg)"
  assumes "k \<in> set [''pk'', ''pbk'', ''server_public_key'', ''reality'', ''re'', ''rs'', ''reality_sni'', ''rk'', ''sid'', ''reality_auth_key'',
    ''fingerprint'', ''jitter'', ''tun'', ''tun_address'', ''junk'', ''junk_min'', ''junk_max'', ''noise_min'', ''noise_max'', ''keepalive'', ''sig'']"
  shows "q (lit k) = None"
  using assms(2) unfolding q_def by (auto simp: encode_query_def Let_def set_if_other)

lemma unwritten_Get:
  fixes cfg :: "'f ClientConfig"
  shows "k \<in> set [''pk'', ''pbk'', ''server_public_key'', ''reality'', ''re'', ''rs'', ''reality_sni'', ''rk'', ''sid'', ''reality_auth_key'',
    ''fingerprint'', ''jitter'', ''tun'', ''tun_address'', ''junk'', ''junk_min'', ''junk_max'', ''noise_min'', ''noise_max'', ''keepalive'', ''sig''] \<Longrightarrow>
    Get (encode_query cfg (ccServerPort cfg)) k = []"
  using unwritten_names [of k cfg] by (simp add: Get_def)

text \<open>What each group of assignments makes of the query.\<close>

lemma endpoint_read:
  assumes "canonical N cfg" and "u = uri_of cfg label" and "lbl = read_label N (if label = [] then ccLabel cfg else label)"
  shows "parse_endpoint N u (DefaultClientConfig N) =
    (DefaultClientConfig N)\<lparr>ccServerHost := ccServerHost cfg, ccServerPort := ccServerPort cfg, ccServerPublicKey := ccServerPublicKey cfg, ccLabel := lbl\<rparr>"
    and "uQuery u = encode_query cfg (ccServerPort cfg)" and "uHostname u \<noteq> []" and "uScheme u = lit ''obsidian''"
proof -
  have u: "uHostname u = ccServerHost cfg" "uPort u = ccServerPort cfg" "uUser u = Some (ccServerPublicKey cfg)" "read_label N (uFragment u) = lbl"
      "uQuery u = encode_query cfg (ccServerPort cfg)" "uScheme u = lit ''obsidian''"
    using assms(1) by (simp_all add: assms(2,3) uri_of_def Let_def canonical_def)
  have d: "ccLabel (DefaultClientConfig N) = []" by (simp add: DefaultClientConfig_def)
  have "first_of (uQuery u) [''pk'', ''pbk'', ''server_public_key''] = []" using u(5) by (simp add: unwritten_Get)
  then show "parse_endpoint N u (DefaultClientConfig N) =
    (DefaultClientConfig N)\<lparr>ccServerHost := ccServerHost cfg, ccServerPort := ccServerPort cfg, ccServerPublicKey := ccServerPublicKey cfg, ccLabel := lbl\<rparr>"
    using assms(1) d u(1-3) u(4) [symmetric] by (auto simp: parse_endpoint_def Let_def canonical_def read_label_def)
  show "uQuery u = encode_query cfg (ccServerPort cfg)" "uHostname u \<noteq> []" "uScheme u = lit ''obsidian''"
    using u assms(1) by (simp_all add: canonical_def)
qed

lemma switches_read:
  assumes "canonical N cfg" and "ccServerPort c = ccServerPort cfg" and "ccEnableUDPData c" and "\<not> ccEnableIPv6 c" and "\<not> ccNoTLS c"
  shows "parse_switches N (encode_query cfg (ccServerPort cfg)) c =
    c\<lparr>ccUDPPort := ccUDPPort cfg, ccEnableUDPData := ccEnableUDPData cfg, ccEnableIPv6 := ccEnableIPv6 cfg, ccNoTLS := ccNoTLS cfg\<rparr>"
proof -
  have "ccUDPPort cfg \<noteq> []" using assms(1) by (simp add: canonical_def)
  then show ?thesis unfolding parse_switches_def Let_def written_names(1-4) [OF assms(1)] using assms(2-5) by simp
qed

lemma reality_read:
  fixes c :: "'f ClientConfig"
  assumes "canonical N cfg" and "only = (\<lambda>x. if ccRealityEnabled cfg then x else [])" and "\<not> ccRealityEnabled c"
    and "ccRealitySNI c = []" and "ccSNI c = []" and "ccRealityAuthKey c = []" and "ccFingerprint c = []"
  shows "parse_reality N (encode_query cfg (ccServerPort cfg)) c =
    c\<lparr>ccRealityEnabled := ccRealityEnabled cfg, ccRealitySNI := only (ccRealitySNI cfg), ccSNI := only (ccRealitySNI cfg),
      ccRealityAuthKey := only (ccRealityAuthKey cfg), ccFingerprint := only (ccFingerprint cfg)\<rparr>"
proof (cases "ccRealityEnabled cfg")
  case True
  then have "ccRealitySNI cfg \<noteq> []" "ccFingerprint cfg \<noteq> []" using assms(1) by (simp_all add: canonical_def)
  then show ?thesis using True assms(2) by (auto simp: parse_reality_def Let_def written_names [OF assms(1)] unwritten_Get)
next
  case False
  have "c = c\<lparr>ccRealityEnabled := False, ccRealitySNI := [], ccSNI := [], ccRealityAuthKey := [], ccFingerprint := []\<rparr>"
    using assms(3-7) by (cases c) simp
  then show ?thesis using False assms(2) by (simp add: parse_reality_def written_names [OF assms(1)] unwritten_Get)
qed

lemma tuning_read:
  assumes "canonical N cfg" and "ccProfile c = lit ''fast-secure''" and "ccMTU c = 1420" and "ccDNS c = lit ''1.1.1.1''"
  shows "parse_tuning N (encode_query cfg (ccServerPort cfg)) c = c\<lparr>ccProfile := ccProfile cfg, ccMTU := ccMTU cfg, ccDNS := ccDNS cfg\<rparr>"
proof -
  have ne: "ccProfile cfg \<noteq> []" "ccDNS cfg \<noteq> []" "0 < ccMTU cfg" "ccMTU cfg \<le> 1420" using assms(1) by (simp_all add: canonical_def)
  have a: "Atoi [] = None" by (simp add: Atoi_def unsigned_value_def HasPrefix_def lit_def)
  have m: "Atoi (Itoa (ccMTU cfg)) = Some (ccMTU cfg)" using ne by (intro Atoi_Itoa) auto
  have q: "encode_query cfg (ccServerPort cfg) (lit ''sig'') = None" by (rule unwritten_names) simp
  show ?thesis
    unfolding parse_tuning_def Let_def first_of.simps(2) [of _ "''tun''"] written_names(9-11) [OF assms(1)] q
    using ne a m assms(2-4) by (simp add: unwritten_Get)
qed

lemma if_not_empty: "(if x \<noteq> [] then x else []) = x" by simp

lemma metadata_read:
  assumes "canonical N cfg" and "ccKeyserverURL c = []" and "ccToken c = []" and "ccExpires c = []" and "ccMaxDevices c = 0"
    and "ccClientPrivateKey c = []"
  shows "parse_metadata N (encode_query cfg (ccServerPort cfg)) c =
    c\<lparr>ccKeyserverURL := ccKeyserverURL cfg, ccToken := ccToken cfg, ccExpires := ccExpires cfg, ccMaxDevices := ccMaxDevices cfg,
      ccClientPrivateKey := ccClientPrivateKey cfg\<rparr>"
proof -
  have k: "ToLower (uniLower N) (ccClientPrivateKey cfg) = ccClientPrivateKey cfg" using assms(1) by (simp add: canonical_def)
  have "unat (ccMaxDevices cfg) < 2 ^ 32" using unsigned_less [of "ccMaxDevices cfg"] by simp
  then have d: "(case ParseUint32 (if 0 < ccMaxDevices cfg then FormatUint (unat (ccMaxDevices cfg)) else []) of Some v \<Rightarrow> of_nat v | None \<Rightarrow> 0) = ccMaxDevices cfg"
    by (cases "ccMaxDevices cfg = 0") (auto simp: ParseUint32_FormatUint word_neq_0_conv, simp add: ParseUint32_def unsigned_value_def)
  show ?thesis
    unfolding parse_metadata_def Let_def written_names(12-16) [OF assms(1)] assms(2-6) k d if_not_empty by (rule refl)
qed

section \<open>Property\<close>

text \<open>
  Property C32. A link carries the settings it is made for: for every configuration in canonical
  form, reading the link written for it succeeds and gives the defaults with the host, the ports, the keys,
  the switches, the disguise, the profile, the MTU, the DNS server and the subscription data of that
  configuration, whatever their values. The label comes back unescaped once more than it was escaped: unchanged when it
  has no plus sign and no percent sign, otherwise as \<^verbatim>\<open>url.QueryUnescape\<close> reads it.
\<close>
theorem uri_round_trip:
  assumes "canonical N cfg" and "url_read_back N (uri_of cfg label)"
  shows "ParseURI N (EncodeURI N cfg label) = Inr (transmitted N cfg (read_label N (if label = [] then ccLabel cfg else label)))"
proof -
  define lbl where "lbl = read_label N (if label = [] then ccLabel cfg else label)"
  let ?u = "uri_of cfg label" and ?d = "DefaultClientConfig N"
  note e = endpoint_read [OF assms(1) refl lbl_def]
  let ?c = "?d\<lparr>ccServerHost := ccServerHost cfg, ccServerPort := ccServerPort cfg, ccServerPublicKey := ccServerPublicKey cfg, ccLabel := lbl\<rparr>"
  have b: "urlParse N (urlString N ?u) = Inr ?u" "HasPrefix (urlString N ?u) (lit ''obsidian://'')" "TrimSpace (urlString N ?u) = urlString N ?u"
    using assms(2) e(4) by (simp_all add: url_read_back_def lit_def)
  have ne: "urlString N ?u \<noteq> []" using b(2) by (auto simp: HasPrefix_def lit_def)
  have pk: "ccServerPublicKey cfg \<noteq> []" using assms(1) by (simp add: canonical_def)
  have "ParseURI N (EncodeURI N cfg label) =
      Inr (parse_metadata N (uQuery ?u) (parse_tuning N (uQuery ?u) (parse_reality N (uQuery ?u) (parse_switches N (uQuery ?u) ?c))))"
    using b ne e(1,3,4) pk normalize_own [OF b(2), of N] by (simp add: ParseURI_def EncodeURI_def Let_def)
  also have "\<dots> = Inr (transmitted N cfg lbl)"
    unfolding e(2) using assms(1)
    by (simp add: switches_read reality_read [OF assms(1) refl] tuning_read metadata_read transmitted_def Let_def DefaultClientConfig_def)
  finally show ?thesis unfolding lbl_def .
qed

definition example_go :: "int go_lib" where
  "example_go =
     \<lparr>urlParse = \<lambda>_. Inl ErrEOF, urlString = \<lambda>_. lit ''obsidian://ab@vpn.example:443'', QueryUnescape = Some, uniLower = id, uniUpper = id,
      ParseFloat = \<lambda>_. None, fOfInt = id, fToInt = id, fPositive = \<lambda>x. 0 < x, base32Decode = \<lambda>_. Inl ErrEOF,
      zlibInflate = Inr, jsonObject = \<lambda>_. Inl ErrEOF, Sprint = \<lambda>_. []\<rparr>"

definition example_client_config :: "int ClientConfig" where
  "example_client_config =
     (DefaultClientConfig example_go)\<lparr>ccServerHost := lit ''vpn.example'', ccServerPort := lit ''443'', ccUDPPort := lit ''444'',
        ccServerPublicKey := lit ''ab'', ccRealityEnabled := True, ccRealitySNI := lit ''a.b'', ccFingerprint := lit ''firefox'',
        ccMTU := 1300, ccMaxDevices := 3, ccLabel := lit ''home''\<rparr>"

theorem uri_round_trip_witness:
  "let N = example_go\<lparr>urlParse := \<lambda>_. Inr (uri_of example_client_config [])\<rparr>
   in ParseURI N (EncodeURI N example_client_config []) = Inr (transmitted N example_client_config (lit ''home''))"
proof -
  let ?N = "example_go\<lparr>urlParse := \<lambda>_. Inr (uri_of example_client_config [])\<rparr>"
  have c: "canonical ?N example_client_config"
    by (simp add: canonical_def example_client_config_def example_go_def DefaultClientConfig_def TrimSuffix_def TrimPrefix_def HasPrefix_def lit_def ToLower_def)
  have "url_read_back ?N (uri_of example_client_config [])"
    by (simp add: url_read_back_def example_go_def uri_of_def Let_def HasPrefix_def TrimSpace_def lit_def IsSpace_def)
  moreover have "ccLabel example_client_config = lit ''home''" by (simp add: example_client_config_def)
  ultimately show ?thesis using uri_round_trip [OF c, of "[]"] by (simp add: example_go_def read_label_def lit_def)
qed

end
