(* ===== verification/Session_Config.thy ===== *)
theory Session_Config
  imports Server_Session Client_Uri
begin

text \<open>
  How configuration files become the parameters of a server (\<^verbatim>\<open>main\<close> of
  \<^verbatim>\<open>cmd/server/main.go\<close>) and of a client (\<^verbatim>\<open>MakeTunnelConfig\<close>,
  \<^verbatim>\<open>MakeObfConfig\<close> and the choice of the transport in \<^verbatim>\<open>obsidian/client/engine.go\<close>).
  A configuration that makes the program exit is an error. The conversion of a
  floating-point number of seconds to a duration is an argument.
\<close>

section \<open>Text as bytes\<close>

definition utf8_rune :: "rune \<Rightarrow> bytes" where
  "utf8_rune c =
     (if c < 0x80 then [of_nat c]
      else if c < 0x800 then [of_nat (0xC0 + c div 64), of_nat (0x80 + c mod 64)]
      else if c < 0x10000 then [of_nat (0xE0 + c div 4096), of_nat (0x80 + c div 64 mod 64), of_nat (0x80 + c mod 64)]
      else [of_nat (0xF0 + c div 262144), of_nat (0x80 + c div 4096 mod 64), of_nat (0x80 + c div 64 mod 64), of_nat (0x80 + c mod 64)])"

definition utf8 :: "gostring \<Rightarrow> bytes" where
  "utf8 s = concat (map utf8_rune s)"

section \<open>The server\<close>

record 'f Config =
  cfProtocolVersion :: int
  cfHost :: gostring
  cfPort :: gostring
  cfNoTLS :: bool
  cfCertFile :: gostring
  cfKeyFile :: gostring
  cfServerPrivateKey :: gostring
  cfServerPublicKey :: gostring
  cfAllowedClients :: "gostring list option"
  cfRevokedClients :: "gostring list"
  cfRevocationFile :: gostring
  cfTunInterface :: gostring
  cfTunAddress :: gostring
  cfOutInterface :: gostring
  cfMTU :: int
  cfDNSUpstream :: gostring
  cfDNSListen :: gostring
  cfDisableDNSProxy :: bool
  cfNoiseMinSec :: 'f
  cfNoiseMaxSec :: 'f
  cfKeepaliveSec :: 'f
  cfJitter :: gostring
  cfProfile :: gostring
  cfMaxHandshakes :: int
  cfHandshakeRatePerIP :: int
  cfHandshakeBurstPerIP :: int
  cfRealityTarget :: gostring
  cfRealityServerNames :: "gostring list"
  cfRealityAuthKey :: gostring
  cfRealityBackend :: gostring
  cfRealityBackendSNI :: gostring
  cfJunkCount :: int
  cfJunkMin :: int
  cfJunkMax :: int
  cfSignatures :: "gostring list"
  cfUDPPort :: gostring
  cfEnableUDPData :: bool
  cfPortPool :: "int list"
  cfEnableCookieChallenge :: bool
  cfCookieSecret :: gostring
  cfUDPSocketBufferMB :: int
  cfMaxTrailer :: int
  cfUseBucketPadding :: bool
  cfBucketMTU :: int
  cfEnableIPv6 :: bool
  cfDisableMSSNormalize :: bool
  cfEgressIP :: gostring
  cfEgressIP6 :: gostring

definition udpSocketBufferBytes :: "'f Config \<Rightarrow> int" where
  "udpSocketBufferBytes cfg =
     (let mb = cfUDPSocketBufferMB cfg;
          mb = (if mb \<le> 0 then 16 else mb);
          mb = (if mb < 4 then 4 else mb);
          mb = (if 64 < mb then 64 else mb)
      in mb * 1024 * 1024)"

definition jitter_named :: "gostring \<Rightarrow> JitterProfile option" where
  "jitter_named s =
     (if s = lit ''off'' then Some JitterOff else if s = lit ''light'' then Some JitterLight
      else if s = lit ''medium'' then Some JitterMedium else if s = lit ''heavy'' then Some JitterHeavy else None)"

definition makeTunnelConfig :: "'f go_lib \<Rightarrow> ('f \<Rightarrow> int) \<Rightarrow> 'f Config \<Rightarrow> TunnelConfig \<Rightarrow> TunnelConfig" where
  "makeTunnelConfig N dur cfg tc =
     tc\<lparr>NoiseMinInterval := if fPositive N (cfNoiseMinSec cfg) then dur (cfNoiseMinSec cfg) else NoiseMinInterval tc,
        NoiseMaxInterval := if fPositive N (cfNoiseMaxSec cfg) then dur (cfNoiseMaxSec cfg) else NoiseMaxInterval tc,
        KeepaliveInterval := if fPositive N (cfKeepaliveSec cfg) then dur (cfKeepaliveSec cfg) else KeepaliveInterval tc,
        tcUseBucketPadding := cfUseBucketPadding cfg \<or> tcUseBucketPadding tc,
        tcBucketMTU := if 0 < cfBucketMTU cfg then cfBucketMTU cfg else tcBucketMTU tc,
        tcMaxTrailer := if 0 < cfMaxTrailer cfg then cfMaxTrailer cfg else tcMaxTrailer tc,
        tcJitter := case jitter_named (cfJitter cfg) of
                      Some j \<Rightarrow> j
                    | None \<Rightarrow> if cfJitter cfg = [] then tcJitter tc else JitterOff\<rparr>"

fun parse_signatures :: "gostring list \<Rightarrow> cpsToken list option list res" where
  "parse_signatures [] = Inr []"
| "parse_signatures (s # ss) =
     rbind (ParseCPS s) (\<lambda>sig. rbind (parse_signatures ss) (\<lambda>sigs. Inr (Some sig # sigs)))"

definition makeObfConfig :: "'f Config \<Rightarrow> ObfuscationConfig \<Rightarrow> ObfuscationConfig res" where
  "makeObfConfig cfg oc =
     (let oc = oc\<lparr>JunkCount := if 0 < cfJunkCount cfg then cfJunkCount cfg else JunkCount oc,
                  JunkMin := if 0 < cfJunkMin cfg then cfJunkMin cfg else JunkMin oc,
                  JunkMax := if 0 < cfJunkMax cfg then cfJunkMax cfg else JunkMax oc,
                  ocMaxTrailer := if 0 < cfMaxTrailer cfg then cfMaxTrailer cfg else ocMaxTrailer oc\<rparr>
      in if cfSignatures cfg = [] then Inr oc
         else rbind (parse_signatures (cfSignatures cfg)) (\<lambda>sigs. Inr (oc\<lparr>Signatures := sigs\<rparr>)))"

fun parse_keys :: "gostring list \<Rightarrow> bytes list res" where
  "parse_keys [] = Inr []"
| "parse_keys (ks # kss) =
     (case DecodeString ks of
        None \<Rightarrow> Inl (Errorf ''invalid allowed_client key'')
      | Some b \<Rightarrow>
          if length b \<noteq> KeySize then Inl (Errorf ''invalid allowed_client key'')
          else rbind (parse_keys kss) (\<lambda>bs. Inr (b # bs)))"

text \<open>A slice to which nothing was appended is nil.\<close>

definition allowed_clients :: "'f Config \<Rightarrow> bytes list option res" where
  "allowed_clients cfg =
     (case cfAllowedClients cfg of
        None \<Rightarrow> Inr None
      | Some ks \<Rightarrow> rbind (parse_keys ks) (\<lambda>bs. Inr (if bs = [] then None else Some bs)))"

definition cookie_secret :: "bytes \<Rightarrow> 'f Config \<Rightarrow> bytes" where
  "cookie_secret rnd cfg =
     (let s = (case DecodeString (cfCookieSecret cfg) of
                 Some b \<Rightarrow> if cfCookieSecret cfg \<noteq> [] \<and> length b = 32 then b else replicate 32 0
               | None \<Rightarrow> replicate 32 0)
      in if s = replicate 32 0 then rnd else s)"

record server_setup =
  suPriv :: bytes
  suPub :: bytes
  suAllowed :: "bytes list option"
  suRevoked :: "revocationStore option"
  suCookie :: bytes
  suMaxHS :: int
  suRate :: int
  suBurst :: int
  suTunnel :: TunnelConfig
  suObf :: ObfuscationConfig

definition decode_key :: "string \<Rightarrow> gostring \<Rightarrow> bytes res" where
  "decode_key msg s =
     (case DecodeString s of
        None \<Rightarrow> Inl (Errorf msg)
      | Some b \<Rightarrow> if length b \<noteq> KeySize then Inl (Errorf msg) else Inr b)"

definition or_default :: "int \<Rightarrow> int \<Rightarrow> int" where
  "or_default d x = (if x \<le> 0 then d else x)"

text \<open>From the decoded file to the parameters; the error of the revocation store is dropped.\<close>

definition load_server :: "'f go_lib \<Rightarrow> ('f \<Rightarrow> int) \<Rightarrow> file_view \<Rightarrow> bytes \<Rightarrow> 'f Config \<Rightarrow> server_setup res" where
  "load_server N dur fv rnd cfg =
     (if cfProtocolVersion cfg \<noteq> 0 \<and> cfProtocolVersion cfg \<noteq> 2 then Inl (Errorf ''unsupported protocol_version'')
      else
        rbind (decode_key ''invalid server_private_key'' (cfServerPrivateKey cfg)) (\<lambda>priv.
        rbind (decode_key ''invalid server_public_key'' (cfServerPublicKey cfg)) (\<lambda>pub.
        rbind (allowed_clients cfg) (\<lambda>allowed.
          let revocations = (case newRevocationStore fv (cfRevokedClients cfg) (cfRevocationFile cfg) of Inl e \<Rightarrow> None | Inr r \<Rightarrow> Some r);
              (tc, oc) = ApplyProfile (cfProfile cfg) DefaultTunnelConfig DefaultObfuscationConfig
          in rbind (makeObfConfig cfg oc) (\<lambda>oc.
               Inr \<lparr>suPriv = priv, suPub = pub, suAllowed = allowed, suRevoked = revocations,
                    suCookie = cookie_secret rnd cfg,
                    suMaxHS = or_default 64 (cfMaxHandshakes cfg),
                    suRate = or_default 50 (cfHandshakeRatePerIP cfg),
                    suBurst = or_default 30 (cfHandshakeBurstPerIP cfg),
                    suTunnel = makeTunnelConfig N dur cfg tc, suObf = oc\<rparr>)))))"

definition reality_key :: "gostring \<Rightarrow> bytes \<Rightarrow> bytes" where
  "reality_key text pub =
     (if text \<noteq> [] then
        case DecodeString text of
          Some b \<Rightarrow> if b \<noteq> [] then b else utf8 text
        | None \<Rightarrow> utf8 text
      else pub)"

definition reality_target :: "'f Config \<Rightarrow> gostring" where
  "reality_target cfg = (if cfRealityTarget cfg = [] then cfRealityBackend cfg else cfRealityTarget cfg)"

definition reality_names :: "'f Config \<Rightarrow> gostring list" where
  "reality_names cfg =
     (if cfRealityServerNames cfg \<noteq> [] then cfRealityServerNames cfg
      else if cfRealityBackendSNI cfg \<noteq> [] then [cfRealityBackendSNI cfg] else [])"

definition demux_config :: "'f Config \<Rightarrow> server_setup \<Rightarrow> RealityDemuxConfig" where
  "demux_config cfg su =
     \<lparr>FallbackTarget = utf8 (reality_target cfg), ServerNames = map utf8 (reality_names cfg),
      AuthKey = reality_key (cfRealityAuthKey cfg) (suPub su),
      HandshakeTimeout = 5 * second, DialTimeout = 10 * second, ReplayTTL = 0\<rparr>"

text \<open>What the handler of a connection is given, and the limiters and caches it shares.\<close>

definition handler_config :: "'f Config \<Rightarrow> server_setup \<Rightarrow> server_config" where
  "handler_config cfg su =
     \<lparr>scNoTLS = cfNoTLS cfg, scReality = reality_target cfg \<noteq> [], scPriv = suPriv su, scPub = suPub su,
      scAllowed = suAllowed su, scObf = suObf su\<rparr>"

definition boot :: "int \<Rightarrow> server_setup \<Rightarrow> 'ip host" where
  "boot now su = start_host (NewIPRateLimiter now (suRate su) (suBurst su)) (suMaxHS su) (suRevoked su) now"

section \<open>The client\<close>

definition MakeTunnelConfig :: "'f go_lib \<Rightarrow> ('f \<Rightarrow> int) \<Rightarrow> 'f ClientConfig \<Rightarrow> TunnelConfig \<Rightarrow> TunnelConfig" where
  "MakeTunnelConfig N dur cfg tc =
     tc\<lparr>NoiseMinInterval := if fPositive N (ccNoiseMinSec cfg) then dur (ccNoiseMinSec cfg) else NoiseMinInterval tc,
        NoiseMaxInterval := if fPositive N (ccNoiseMaxSec cfg) then dur (ccNoiseMaxSec cfg) else NoiseMaxInterval tc,
        KeepaliveInterval := if fPositive N (ccKeepaliveSec cfg) then dur (ccKeepaliveSec cfg) else KeepaliveInterval tc,
        tcUseBucketPadding := ccUseBucketPadding cfg \<or> tcUseBucketPadding tc,
        tcBucketMTU := if 0 < ccBucketMTU cfg then ccBucketMTU cfg else tcBucketMTU tc,
        tcMaxTrailer := if 0 < ccMaxTrailer cfg then ccMaxTrailer cfg else tcMaxTrailer tc,
        tcJitter := case jitter_named (ccJitter cfg) of Some j \<Rightarrow> j | None \<Rightarrow> JitterOff\<rparr>"

fun parsed_signatures :: "gostring list \<Rightarrow> cpsToken list option list" where
  "parsed_signatures [] = []"
| "parsed_signatures (s # ss) = (case ParseCPS s of Inl e \<Rightarrow> parsed_signatures ss | Inr sig \<Rightarrow> Some sig # parsed_signatures ss)"

definition MakeObfConfig :: "'f ClientConfig \<Rightarrow> ObfuscationConfig \<Rightarrow> ObfuscationConfig" where
  "MakeObfConfig cfg oc =
     oc\<lparr>JunkCount := if 0 < ccJunkCount cfg then ccJunkCount cfg else JunkCount oc,
        JunkMin := if 0 < ccJunkMin cfg then ccJunkMin cfg else JunkMin oc,
        JunkMax := if 0 < ccJunkMax cfg then ccJunkMax cfg else JunkMax oc,
        ocMaxTrailer := if 0 < ccMaxTrailer cfg then ccMaxTrailer cfg else ocMaxTrailer oc,
        Signatures := if ccSignatures cfg \<noteq> [] then parsed_signatures (ccSignatures cfg) else Signatures oc\<rparr>"

datatype ClientHelloID = HelloFirefox_Auto | HelloSafari_Auto | HelloEdge_Auto | HelloRandomizedALPN | HelloChrome_Auto

definition parseFingerprint :: "'f go_lib \<Rightarrow> gostring \<Rightarrow> ClientHelloID" where
  "parseFingerprint N name =
     (let s = ToLower (uniLower N) (TrimSpace name)
      in if s = lit ''firefox'' \<or> s = lit ''firefox_auto'' then HelloFirefox_Auto
         else if s = lit ''safari'' \<or> s = lit ''safari_auto'' then HelloSafari_Auto
         else if s = lit ''edge'' \<or> s = lit ''edge_auto'' then HelloEdge_Auto
         else if s = lit ''randomized'' \<or> s = lit ''random'' then HelloRandomizedALPN
         else HelloChrome_Auto)"

definition client_reality :: "'f ClientConfig \<Rightarrow> bool" where
  "client_reality cfg \<longleftrightarrow> ccRealityEnabled cfg \<or> ccRealityAuthKey cfg \<noteq> [] \<or> ccRealitySNI cfg \<noteq> []"

definition transport_config :: "'f ClientConfig \<Rightarrow> bytes \<Rightarrow> ClientTransportConfig" where
  "transport_config cfg serverPub =
     (let tc = \<lparr>ctServerHost = utf8 (ccServerHost cfg), ctServerPort = utf8 (ccServerPort cfg), ctSNI = utf8 (ccSNI cfg),
                ctSNIPool = map utf8 (ccSNIPool cfg), ctVerifyCert = ccVerifyTLS cfg, ctServerPubPin = [],
                ctRealityEnabled = False, ctRealityAuthKey = []\<rparr>
      in if client_reality cfg
         then tc\<lparr>ctSNI := utf8 (if ccRealitySNI cfg = [] then ccSNI cfg else ccRealitySNI cfg),
                 ctRealityEnabled := True, ctRealityAuthKey := reality_key (ccRealityAuthKey cfg) serverPub\<rparr>
         else tc)"

section \<open>Lemmas\<close>

lemma decode_key_length: "decode_key msg s = Inr k \<Longrightarrow> length k = 32"
  by (auto simp: decode_key_def KeySize_def split: option.splits if_splits)

lemma parse_keys_lengths: "parse_keys kss = Inr ks \<Longrightarrow> length ks = length kss \<and> (\<forall>k \<in> set ks. length k = 32)"
  by (induction kss arbitrary: ks rule: parse_keys.induct) (auto simp: KeySize_def rbind_Inr split: option.splits if_splits)

lemma allowed_clients_nonempty: "allowed_clients cfg = Inr (Some ks) \<Longrightarrow> ks \<noteq> [] \<and> (\<forall>k \<in> set ks. length k = 32)"
  using parse_keys_lengths by (auto simp: allowed_clients_def rbind_Inr split: option.splits if_splits)

lemma cookie_secret_length: "length rnd = 32 \<Longrightarrow> length (cookie_secret rnd cfg) = 32"
  by (auto simp: cookie_secret_def Let_def split: option.splits)

lemma load_server_Inr:
  assumes "load_server N dur fv rnd cfg = Inr su"
  shows "length (suPriv su) = 32" "length (suPub su) = 32" "allowed_clients cfg = Inr (suAllowed su)"
    "suCookie su = cookie_secret rnd cfg" "0 < suMaxHS su" "0 < suRate su" "0 < suBurst su"
    "\<exists>tc oc. ApplyProfile (cfProfile cfg) DefaultTunnelConfig DefaultObfuscationConfig = (tc, oc) \<and>
       makeObfConfig cfg oc = Inr (suObf su) \<and> suTunnel su = makeTunnelConfig N dur cfg tc"
proof -
  obtain tc oc where p: "ApplyProfile (cfProfile cfg) DefaultTunnelConfig DefaultObfuscationConfig = (tc, oc)" by fastforce
  let ?rv = "case newRevocationStore fv (cfRevokedClients cfg) (cfRevocationFile cfg) of Inl e \<Rightarrow> None | Inr r \<Rightarrow> Some r"
  from assms obtain priv pub allowed oc' where o: "decode_key ''invalid server_private_key'' (cfServerPrivateKey cfg) = Inr priv"
      "decode_key ''invalid server_public_key'' (cfServerPublicKey cfg) = Inr pub" "allowed_clients cfg = Inr allowed" "makeObfConfig cfg oc = Inr oc'"
    and su: "su = \<lparr>suPriv = priv, suPub = pub, suAllowed = allowed, suRevoked = ?rv, suCookie = cookie_secret rnd cfg,
      suMaxHS = or_default 64 (cfMaxHandshakes cfg), suRate = or_default 50 (cfHandshakeRatePerIP cfg),
      suBurst = or_default 30 (cfHandshakeBurstPerIP cfg), suTunnel = makeTunnelConfig N dur cfg tc, suObf = oc'\<rparr>"
    unfolding load_server_def p by (auto simp: rbind_Inr Let_def split: if_split_asm)
  show "length (suPriv su) = 32" "length (suPub su) = 32" using decode_key_length o(1,2) su by simp_all
  show "allowed_clients cfg = Inr (suAllowed su)" "suCookie su = cookie_secret rnd cfg" "0 < suMaxHS su" "0 < suRate su" "0 < suBurst su"
    using o by (simp_all add: su or_default_def)
  show "\<exists>tc oc. ApplyProfile (cfProfile cfg) DefaultTunnelConfig DefaultObfuscationConfig = (tc, oc) \<and>
       makeObfConfig cfg oc = Inr (suObf su) \<and> suTunnel su = makeTunnelConfig N dur cfg tc"
    using p o su by simp
qed

lemma parse_signatures_some: "parse_signatures ss = Inr sigs \<Longrightarrow> None \<notin> set sigs \<and> length sigs = length ss"
  by (induction ss arbitrary: sigs) (auto simp: rbind_Inr)

text \<open>The header ranges and paddings of a configuration are those of its profile.\<close>

lemma makeObfConfig_keeps:
  "makeObfConfig cfg oc = Inr oc' \<Longrightarrow>
   Headers oc' = Headers oc \<and> S1Min oc' = S1Min oc \<and> S1Max oc' = S1Max oc \<and> S2Min oc' = S2Min oc \<and> S2Max oc' = S2Max oc \<and> PrePadMax oc' = PrePadMax oc"
  by (auto simp: makeObfConfig_def rbind_Inr Let_def split: if_splits)

lemma MakeObfConfig_keeps:
  "Headers (MakeObfConfig cfg oc) = Headers oc" "S1Min (MakeObfConfig cfg oc) = S1Min oc" "S1Max (MakeObfConfig cfg oc) = S1Max oc"
  "S2Min (MakeObfConfig cfg oc) = S2Min oc" "S2Max (MakeObfConfig cfg oc) = S2Max oc" "PrePadMax (MakeObfConfig cfg oc) = PrePadMax oc"
  by (simp_all add: MakeObfConfig_def)

lemma profile_paddings:
  assumes "ApplyProfile profile DefaultTunnelConfig DefaultObfuscationConfig = (tc, oc)"
  shows "Headers oc = DefaultHeaderConfig" "max (S1Min oc) (S1Max oc) \<le> 384" "max (S2Min oc) (S2Max oc) \<le> 384"
  using assms by (auto simp: ApplyProfile_def DefaultObfuscationConfig_def split: if_splits)

lemma profile_signatures:
  "ApplyProfile profile DefaultTunnelConfig DefaultObfuscationConfig = (tc, oc) \<Longrightarrow> Signatures oc = []"
  by (auto simp: ApplyProfile_def DefaultObfuscationConfig_def split: if_splits)

lemma made_signatures:
  assumes "makeObfConfig cfg oc = Inr oc'"
  shows "None \<in> set (Signatures oc') \<Longrightarrow> None \<in> set (Signatures oc)"
  using assms parse_signatures_some by (auto simp: makeObfConfig_def rbind_Inr Let_def split: if_splits)

section \<open>Properties\<close>

text \<open>
  Property C34. A server that starts has well-formed parameters, whatever its configuration file
  says: keys of 32 bytes, a cookie secret of 32 bytes, an allow list that is absent or has keys of 32 bytes, positive
  limits, parsed signatures, header ranges that are ordered and do not overlap, paddings with which every hello fits its frame, and
  socket buffers between 4 and 64 MiB.
\<close>
theorem server_setup_well_formed:
  assumes "load_server N dur fv rnd cfg = Inr su" and "length rnd = 32"
  shows "length (suPriv su) = 32 \<and> length (suPub su) = 32 \<and> length (suCookie su) = 32 \<and>
    (\<forall>ks. suAllowed su = Some ks \<longrightarrow> ks \<noteq> [] \<and> (\<forall>k \<in> set ks. length k = 32)) \<and>
    0 < suMaxHS su \<and> 0 < suRate su \<and> 0 < suBurst su \<and>
    None \<notin> set (Signatures (suObf su)) \<and> headers_ok (Headers (suObf su)) \<and>
    max (S1Min (suObf su)) (S1Max (suObf su)) \<le> 6000 \<and> max (S2Min (suObf su)) (S2Max (suObf su)) \<le> 6000 \<and>
    4 * 1024 * 1024 \<le> udpSocketBufferBytes cfg \<and> udpSocketBufferBytes cfg \<le> 64 * 1024 * 1024"
proof -
  note l = load_server_Inr [OF assms(1)]
  obtain tc oc where p: "ApplyProfile (cfProfile cfg) DefaultTunnelConfig DefaultObfuscationConfig = (tc, oc)" "makeObfConfig cfg oc = Inr (suObf su)"
    using l(8) by blast
  have "None \<notin> set (Signatures (suObf su))" using profile_signatures [OF p(1)] made_signatures [OF p(2)] by auto
  moreover have "4 * 1024 * 1024 \<le> udpSocketBufferBytes cfg \<and> udpSocketBufferBytes cfg \<le> 64 * 1024 * 1024"
    by (simp add: udpSocketBufferBytes_def Let_def)
  ultimately show ?thesis
    using l(1-7) allowed_clients_nonempty [of cfg] cookie_secret_length [OF assms(2), of cfg] makeObfConfig_keeps [OF p(2)]
      profile_paddings [OF p(1)] DefaultHeaderConfig_ok by auto
qed

definition example_file :: "int Config" where
  "example_file =
     \<lparr>cfProtocolVersion = 0, cfHost = [], cfPort = [], cfNoTLS = False, cfCertFile = [], cfKeyFile = [],
      cfServerPrivateKey = EncodeToString (replicate 32 1), cfServerPublicKey = EncodeToString (replicate 32 2),
      cfAllowedClients = Some [EncodeToString (replicate 32 3)], cfRevokedClients = [], cfRevocationFile = [], cfTunInterface = [],
      cfTunAddress = [], cfOutInterface = [], cfMTU = 0, cfDNSUpstream = [], cfDNSListen = [], cfDisableDNSProxy = False,
      cfNoiseMinSec = 0, cfNoiseMaxSec = 0, cfKeepaliveSec = 0, cfJitter = [], cfProfile = [], cfMaxHandshakes = 0,
      cfHandshakeRatePerIP = 0, cfHandshakeBurstPerIP = 0, cfRealityTarget = [], cfRealityServerNames = [], cfRealityAuthKey = [],
      cfRealityBackend = [], cfRealityBackendSNI = [], cfJunkCount = 0, cfJunkMin = 0, cfJunkMax = 0, cfSignatures = [],
      cfUDPPort = [], cfEnableUDPData = False, cfPortPool = [], cfEnableCookieChallenge = False, cfCookieSecret = [],
      cfUDPSocketBufferMB = 0, cfMaxTrailer = 0, cfUseBucketPadding = False, cfBucketMTU = 0, cfEnableIPv6 = False,
      cfDisableMSSNormalize = False, cfEgressIP = [], cfEgressIP6 = []\<rparr>"

definition example_view :: file_view where
  "example_view = \<lparr>fvStat = NotExist, fvRead = Inl ErrEOF, fvDecode = \<lambda>_. Inl ErrEOF\<rparr>"

definition example_setup :: server_setup where
  "example_setup =
     (case ApplyProfile [] DefaultTunnelConfig DefaultObfuscationConfig of (tc, oc) \<Rightarrow>
        \<lparr>suPriv = replicate 32 1, suPub = replicate 32 2, suAllowed = Some [replicate 32 3],
         suRevoked = Some \<lparr>rvPath = [], rvKeys = {}, rvModTime = zeroTime, rvInitialized = False\<rparr>,
         suCookie = replicate 32 9, suMaxHS = 64, suRate = 50, suBurst = 30, suTunnel = tc, suObf = oc\<rparr>)"

lemma example_loads: "load_server example_go id example_view (replicate 32 9) example_file = Inr example_setup"
proof -
  obtain tc oc where p: "ApplyProfile [] DefaultTunnelConfig DefaultObfuscationConfig = (tc, oc)" by fastforce
  have "newRevocationStore example_view [] [] = Inr \<lparr>rvPath = [], rvKeys = {}, rvModTime = zeroTime, rvInitialized = False\<rparr>"
    by (simp add: newRevocationStore_def)
  moreover have "makeObfConfig example_file oc = Inr oc" "makeTunnelConfig example_go id example_file tc = tc"
    by (simp_all add: makeObfConfig_def makeTunnelConfig_def example_file_def example_go_def jitter_named_def)
  moreover have "cookie_secret (replicate 32 9) example_file = replicate 32 9" by (simp add: cookie_secret_def example_file_def)
  moreover have "allowed_clients example_file = Inr (Some [replicate 32 3])"
    by (simp add: allowed_clients_def example_file_def KeySize_def)
  ultimately show ?thesis
    by (simp add: load_server_def p example_setup_def decode_key_def KeySize_def or_default_def example_file_def)
qed

theorem server_setup_well_formed_witness:
  "load_server example_go id example_view (replicate 32 9) example_file = Inr example_setup \<and>
   length (suPub example_setup) = 32 \<and> 0 < suMaxHS example_setup \<and> headers_ok (Headers (suObf example_setup))"
  using server_setup_well_formed [OF example_loads] example_loads by simp

text \<open>
  Fact. An allow list that is present but empty is dropped while the file is read, so a server that is
  configured to admit no client admits every client.
\<close>
theorem empty_allow_list_admits_everyone:
  assumes "load_server N dur fv rnd cfg = Inr su" and "cfAllowedClients cfg = Some []"
    and "NewServerHandshakeWithConfig P eph (suPriv su) (suPub su) (suAllowed su) (suObf su) = Inr s"
  shows "admitted s key"
  using load_server_Inr(3) [OF assms(1)] assms(2,3)
  by (auto simp: allowed_clients_def admitted_def NewServerHandshakeWithConfig_def rbind_Inr)

text \<open>
  Fact. A configuration without a jitter setting takes the jitter of its profile on the server and none on the
  client.
\<close>
theorem empty_jitter_differs:
  assumes "cfJitter cfg = []" and "ccJitter cc = []"
  shows "tcJitter (makeTunnelConfig N dur cfg tc) = tcJitter tc \<and> tcJitter (MakeTunnelConfig N dur cc tc) = JitterOff"
  using assms by (simp add: makeTunnelConfig_def MakeTunnelConfig_def jitter_named_def)

end
