(* ===== verification/Server_Relay.thy ===== *)
theory Server_Relay
  imports Session_Config
begin

text \<open>
  The relay between an established client and the TUN device, the end of \<^verbatim>\<open>handleClient\<close> in
  \<^verbatim>\<open>cmd/server/main.go\<close>: which client packets are forwarded, the loops from the stream tunnel
  and from the UDP session to the device, the choice between UDP and the stream for the way back, and what
  is registered for a session and taken back at its end. The loops run until they would block.
\<close>

section \<open>Packets that are not forwarded\<close>

definition dotted :: "bytes \<Rightarrow> gostring" where
  "dotted b = FormatUint (unat (b ! 0)) @ lit ''.'' @ FormatUint (unat (b ! 1)) @ lit ''.'' @ FormatUint (unat (b ! 2)) @ lit ''.'' @
     FormatUint (unat (b ! 3))"

definition looksLikeIPv4MulticastNameQuery :: "bytes \<Rightarrow> bool" where
  "looksLikeIPv4MulticastNameQuery packet =
     (if length packet < 20 \<or> drop_bit 4 (packet ! 0) \<noteq> 4 then False
      else
        let ihl = unat (packet ! 0 AND 0x0f) * 4
        in if ihl < 20 \<or> length packet < ihl + 8 \<or> packet ! 9 \<noteq> 17 then False
           else
             let dst = drop (ihl + 2) packet
             in if length dst < 2 then False
                else
                  let dport = unat (rd16 (take 2 dst))
                  in if dport \<noteq> 137 \<and> dport \<noteq> 5353 \<and> dport \<noteq> 5355 then False
                     else case packetEndpoints packet of
                            Some (_, Addr4 d) \<Rightarrow> HasPrefix (dotted d) (lit ''224.'') \<or> dotted d = lit ''239.255.255.250''
                          | _ \<Rightarrow> False)"

definition shouldDropClientPacket :: "bytes \<Rightarrow> bool" where
  "shouldDropClientPacket packet =
     (if packet = [] then True
      else if drop_bit 4 (packet ! 0) = 4 then looksLikeIPv4MulticastNameQuery packet
      else if drop_bit 4 (packet ! 0) = 6 then
        (if length packet < 40 then True else if packet ! 24 = 0xff then True else False)
      else True)"

section \<open>From the client to the device\<close>

text \<open>
  Each write comes with the clock, the choice of the queue and the answer of the limiter of rejects. The
  result is the packet offered to the device, if any; a packet the device refuses is dropped.
\<close>

type_synonym circumstances = "int \<times> bool \<times> bool"

definition client_write :: "bool \<Rightarrow> circumstances \<Rightarrow> rsid \<Rightarrow> bytes \<Rightarrow> tunRouter \<Rightarrow> bytes option \<times> tunRouter" where
  "client_write six c s p r =
     (case c of (now, pick, allow) \<Rightarrow>
        if six then (case writeToTUN r s p of (w, r) \<Rightarrow> (Some w, r)) else sink_Write now pick allow r s p)"

definition forward_packet :: "bool \<Rightarrow> circumstances \<Rightarrow> rsid \<Rightarrow> bytes \<Rightarrow> tunRouter \<Rightarrow> bytes option \<times> tunRouter" where
  "forward_packet six c s data r = (if shouldDropClientPacket data then (None, r) else client_write six c s data r)"

definition cons_opt :: "'a option \<Rightarrow> 'a list \<Rightarrow> 'a list" where
  "cons_opt x xs = (case x of None \<Rightarrow> xs | Some y \<Rightarrow> y # xs)"

text \<open>\<open>lastRecv\<close> is absent when the session has no UDP path.\<close>

function tunnelToTUN ::
    "bool \<Rightarrow> (nat \<Rightarrow> bool) \<Rightarrow> (nat \<Rightarrow> circumstances) \<Rightarrow> rsid \<Rightarrow> nat \<Rightarrow> Tunnel \<Rightarrow> int option \<Rightarrow> tunRouter
       \<Rightarrow> bytes list \<times> Tunnel \<times> int option \<times> tunRouter" where
  "tunnelToTUN six pref env s i t lastRecv r =
     (case RecvDataInto None (if pref i then PickData else PickDone) 2048 t of
        None \<Rightarrow> ([], t, lastRecv, r)
      | Some (Inl e, t') \<Rightarrow> ([], t', lastRecv, r)
      | Some (Inr data, t') \<Rightarrow>
          (case forward_packet six (env i) s data r of
             (w, r') \<Rightarrow>
               (case tunnelToTUN six pref env s (Suc i) t' (map_option (\<lambda>_. fst (env i)) lastRecv) r' of
                  (ws, res) \<Rightarrow> (cons_opt w ws, res))))"
  by pat_completeness auto
termination
  by (relation "measure (\<lambda>(six, pref, env, s, i, t, l, r). length (dataIn t))")
     (auto simp: RecvDataInto_def select_packet_def split: if_splits list.splits option.splits)

declare tunnelToTUN.simps [simp del]

fun relay_batch :: "bool \<Rightarrow> (nat \<Rightarrow> circumstances) \<Rightarrow> rsid \<Rightarrow> nat \<Rightarrow> bytes list \<Rightarrow> tunRouter \<Rightarrow> bytes list \<times> tunRouter" where
  "relay_batch six env s i [] r = ([], r)"
| "relay_batch six env s i (data # batch) r =
     (if data = [] then relay_batch six env s (Suc i) batch r
      else case forward_packet six (env i) s data r of
             (w, r') \<Rightarrow> (case relay_batch six env s (Suc i) batch r' of (ws, r'') \<Rightarrow> (cons_opt w ws, r'')))"

text \<open>The loop over the batches; \<open>clk\<close> is the clock after each.\<close>

fun udpClientToTUN ::
    "bool \<Rightarrow> (nat \<Rightarrow> bool) \<Rightarrow> (nat \<Rightarrow> nat \<Rightarrow> circumstances) \<Rightarrow> (nat \<Rightarrow> int) \<Rightarrow> rsid \<Rightarrow> nat \<Rightarrow> UDPSession \<Rightarrow> int \<Rightarrow> tunRouter
       \<Rightarrow> bytes list \<times> UDPSession \<times> int \<times> tunRouter" where
  "udpClientToTUN six pref env clk s 0 sess lastRecv r = ([], sess, lastRecv, r)"
| "udpClientToTUN six pref env clk s (Suc n) sess lastRecv r =
     (case RecvBatch pref sess 32 of
        None \<Rightarrow> ([], sess, lastRecv, r)
      | Some (Inl e, sess') \<Rightarrow> ([], sess', lastRecv, r)
      | Some (Inr batch, sess') \<Rightarrow>
          (case relay_batch six (env n) s 0 batch r of
             (ws, r') \<Rightarrow>
               (case udpClientToTUN six pref env clk s n sess' (clk n) r' of (ws', res) \<Rightarrow> (ws @ ws', res))))"

section \<open>From the device to the client\<close>

text \<open>How a packet left, and the session and the tunnel after it; \<open>wrote\<close> is the answer of the UDP socket.\<close>

datatype departure = ByUDP "bytes \<times> UDPAddr" | ByTunnel bytes "unit res" | NotSent go_error

definition prefer_tcp :: "int \<Rightarrow> int \<Rightarrow> int \<Rightarrow> bool" where
  "prefer_tcp now lastT lastU \<longleftrightarrow> lastT > lastU \<and> lastT > 0 \<and> now - lastU > 2 * second"

text \<open>What a send on the tunnel meets: its random draws, the answers of the connection and the clock.\<close>

record send_env =
  seDraws :: draws
  seWrite :: "nat \<Rightarrow> bytes \<Rightarrow> int \<times> go_error option"
  seNow :: "int \<times> int \<times> int"

definition send_data :: "crypto_lib \<Rightarrow> send_env \<Rightarrow> Tunnel \<Rightarrow> bytes \<Rightarrow> bytes \<times> unit res \<times> Tunnel" where
  "send_data P e t payload = (case seNow e of (n0, n1, n2) \<Rightarrow> SendData P (seDraws e) (seWrite e) n0 n1 n2 t payload)"

definition send_downlink ::
    "crypto_lib \<Rightarrow> udp_draws \<Rightarrow> go_error option \<Rightarrow> send_env \<Rightarrow> int \<Rightarrow> int \<Rightarrow> int \<Rightarrow> bytes \<Rightarrow> UDPSession \<times> Tunnel
       \<Rightarrow> departure \<times> UDPSession \<times> Tunnel" where
  "send_downlink P ud wrote e now lastT lastU packet st =
     (case st of (sess, t) \<Rightarrow>
        let by_tunnel = (\<lambda>sess. case send_data P e t packet of (bs, res, t') \<Rightarrow> (ByTunnel bs res, sess, t'))
        in if prefer_tcp now lastT lastU then by_tunnel sess
           else case session_Send P ud sess packet of
                  (Inl err, sess') \<Rightarrow>
                    if err = Errorf ''client address not yet known'' then by_tunnel sess' else (NotSent err, sess', t)
                | (Inr d, sess') \<Rightarrow> (case wrote of None \<Rightarrow> (ByUDP d, sess', t) | Some err \<Rightarrow> (NotSent err, sess', t)))"

section \<open>Echo mode\<close>

lemma dataIn_send_data: "send_data P e t payload = (bs, res, t') \<Longrightarrow> dataIn t' = dataIn t"
  by (auto simp: send_data_def SendData_def writePacket_def applyBurstJitter_def Let_def split: prod.splits if_splits sum.splits)

lemma RecvDataInto_shrinks: "RecvDataInto ctx pick n t = Some (Inr data, t') \<Longrightarrow> length (dataIn t') < length (dataIn t)"
  by (auto simp: RecvDataInto_def select_packet_def split: if_splits list.splits option.splits)

function echoLoop :: "crypto_lib \<Rightarrow> (nat \<Rightarrow> bool) \<Rightarrow> (nat \<Rightarrow> send_env) \<Rightarrow> nat \<Rightarrow> Tunnel \<Rightarrow> bytes \<times> Tunnel" where
  "echoLoop P pref env i t =
     (case RecvDataInto None (if pref i then PickData else PickDone) 2048 t of
        None \<Rightarrow> ([], t)
      | Some (Inl e, t') \<Rightarrow> ([], t')
      | Some (Inr data, t') \<Rightarrow>
          (case send_data P (env i) t' data of
             (bs, Inl e, t'') \<Rightarrow> (bs, t'')
           | (bs, Inr _, t'') \<Rightarrow> (case echoLoop P pref env (Suc i) t'' of (bs', t3) \<Rightarrow> (bs @ bs', t3))))"
  by pat_completeness auto
termination
  by (relation "measure (\<lambda>(P, pref, env, i, t). length (dataIn t))") (auto dest!: dataIn_send_data [OF sym] dest: RecvDataInto_shrinks)

declare echoLoop.simps [simp del]

section \<open>Opening and closing\<close>

text \<open>
  What a session uses after its handshake: echo mode without a TUN device, otherwise a routed session,
  with a UDP session when the data channel is enabled.
\<close>

datatype relay = Echo | UdpRelay sid rsid | TcpRelay rsid

definition open_udp :: "crypto_lib \<Rightarrow> TunnelConfig \<Rightarrow> SessionKeys \<Rightarrow> UDPMux \<Rightarrow> sid \<times> UDPMux" where
  "open_udp P tc keys m =
     (case RegisterSession m (DeriveUDPKeys P keys False) of
        (i, m) \<Rightarrow>
          let sess = the (store m i);
              sess = sess\<lparr>sUseBucketPadding := tcUseBucketPadding tc,
                          sBucketMTU := if 0 < tcBucketMTU tc then tcBucketMTU tc else sBucketMTU sess,
                          sMaxTrailer := tcMaxTrailer tc\<rparr>
          in (i, m\<lparr>store := (store m)(i \<mapsto> sess)\<rparr>))"

definition open_relay ::
    "crypto_lib \<Rightarrow> 'f Config \<Rightarrow> TunnelConfig \<Rightarrow> SessionKeys \<Rightarrow> UDPMux option \<Rightarrow> tunRouter option \<Rightarrow> relay \<times> UDPMux option \<times> tunRouter option" where
  "open_relay P cfg tc keys mux router =
     (case router of
        None \<Rightarrow> (Echo, mux, None)
      | Some r \<Rightarrow>
          (case (cfUDPPort cfg \<noteq> [] \<and> cfEnableUDPData cfg, mux) of
             (True, Some m) \<Rightarrow>
               (case open_udp P tc keys m of
                  (i, m) \<Rightarrow> (case registerSession r of (s, r) \<Rightarrow> (UdpRelay i s, Some m, Some r)))
           | _ \<Rightarrow> (case registerSession r of (s, r) \<Rightarrow> (TcpRelay s, mux, Some r))))"

text \<open>The deferred calls, in reverse order.\<close>

definition close_relay :: "relay \<Rightarrow> UDPMux option \<times> tunRouter option \<Rightarrow> UDPMux option \<times> tunRouter option" where
  "close_relay rl mr =
     (case mr of (mux, router) \<Rightarrow>
        case rl of
          Echo \<Rightarrow> (mux, router)
        | TcpRelay s \<Rightarrow> (mux, map_option (\<lambda>r. session_close r s) router)
        | UdpRelay i s \<Rightarrow> (map_option (\<lambda>m. session_Close m i) mux, map_option (\<lambda>r. session_close r s) router))"

section \<open>Lemmas\<close>

lemma digits_no_dot: "46 \<notin> set (FormatUint n)"
proof (induction n rule: FormatUint.induct)
  case (1 n)
  then show ?case by (subst FormatUint.simps) auto
qed

lemma FormatUint_inject: "FormatUint a = FormatUint b \<longleftrightarrow> a = b"
  by (metis FormatUint_value option.inject)

lemma takeWhile_dot: "takeWhile (\<lambda>c. c \<noteq> 46) (FormatUint a @ 46 # rest) = FormatUint a"
proof -
  have "takeWhile (\<lambda>c. c \<noteq> 46) (FormatUint a @ 46 # rest) = FormatUint a @ takeWhile (\<lambda>c. c \<noteq> 46) (46 # rest)"
    by (rule takeWhile_append2) (use digits_no_dot [of a] in blast)
  then show ?thesis by simp
qed

lemma format_224: "FormatUint 224 = lit ''224''"
  by (simp add: FormatUint.simps lit_def)

text \<open>The text of an IPv4 address begins with \<^verbatim>\<open>224.\<close> exactly if its first byte is 224.\<close>

lemma multicast_text: "HasPrefix (dotted d) (lit ''224.'') \<longleftrightarrow> d ! 0 = 224"
proof
  let ?rest = "FormatUint (unat (d ! 1)) @ lit ''.'' @ FormatUint (unat (d ! 2)) @ lit ''.'' @ FormatUint (unat (d ! 3))"
  have d: "dotted d = FormatUint (unat (d ! 0)) @ 46 # ?rest" by (simp add: dotted_def lit_def)
  assume "HasPrefix (dotted d) (lit ''224.'')"
  then obtain tl where "dotted d = lit ''224.'' @ tl" by (metis HasPrefix_def append_take_drop_id)
  then have "takeWhile (\<lambda>c. c \<noteq> 46) (dotted d) = FormatUint 224" by (simp add: format_224 lit_def)
  then have "unat (d ! 0) = 224" using takeWhile_dot [of "unat (d ! 0)" ?rest] d FormatUint_inject by simp
  then show "d ! 0 = 224" by (simp add: word_unat_eq_iff)
next
  assume "d ! 0 = 224"
  then show "HasPrefix (dotted d) (lit ''224.'')" by (simp add: dotted_def format_224 HasPrefix_def lit_def)
qed

text \<open>The packets that reach the device, and what the device gets of them.\<close>

definition forwardable :: "bool \<Rightarrow> bytes \<Rightarrow> bool" where
  "forwardable six p \<longleftrightarrow> \<not> shouldDropClientPacket p \<and> (six \<or> drop_bit 4 (p ! 0) \<noteq> 6)"

definition as_written :: "bool \<Rightarrow> bytes \<Rightarrow> bytes" where
  "as_written norm p = (if norm then snd (normalizeUplinkSYN p) else p)"

lemma learn_keeps_norm [simp]: "trNormalizeMSS (learnFromClientPacket r s p) = trNormalizeMSS r"
  by (auto simp: learnFromClientPacket_def Let_def split: option.splits prod.splits)

lemma writeToTUN_written:
  "writeToTUN r s p = (w, r') \<Longrightarrow> w = as_written (trNormalizeMSS r) p \<and> trNormalizeMSS r' = trNormalizeMSS r"
  by (auto simp: writeToTUN_def as_written_def Let_def split: if_splits prod.splits)

lemma forward_packet_written:
  assumes "forward_packet six c s p r = (w, r')"
  shows "w = (if forwardable six p then Some (as_written (trNormalizeMSS r) p) else None)" and "trNormalizeMSS r' = trNormalizeMSS r"
proof -
  have "shouldDropClientPacket []" by (simp add: shouldDropClientPacket_def)
  then show "w = (if forwardable six p then Some (as_written (trNormalizeMSS r) p) else None)" and "trNormalizeMSS r' = trNormalizeMSS r"
    using assms writeToTUN_written [of r s p]
    by (auto simp: forward_packet_def client_write_def sink_Write_def forwardable_def split: if_splits prod.splits option.splits)
qed

definition device_packets :: "bool \<Rightarrow> bool \<Rightarrow> bytes list \<Rightarrow> bytes list" where
  "device_packets six norm ps = map (as_written norm) (filter (forwardable six) ps)"

lemma device_packets_simps [simp]:
  "device_packets six norm [] = []"
  "device_packets six norm (p # ps) = (if forwardable six p then [as_written norm p] else []) @ device_packets six norm ps"
  "device_packets six norm (ps @ qs) = device_packets six norm ps @ device_packets six norm qs"
  by (simp_all add: device_packets_def)

lemma tunnelToTUN_device:
  assumes "\<not> cancelled t" and "\<forall>p \<in> set (dataIn t). length p \<le> 2048"
  shows "fst (tunnelToTUN six pref env s i t l r) = device_packets six (trNormalizeMSS r) (dataIn t) \<and>
    dataIn (fst (snd (tunnelToTUN six pref env s i t l r))) = []"
  using assms
proof (induction "dataIn t" arbitrary: i t l r)
  case Nil
  then show ?case by (subst tunnelToTUN.simps, subst (2) tunnelToTUN.simps) (simp add: RecvDataInto_def select_packet_def)
next
  case (Cons p q)
  obtain w r' where f: "forward_packet six (env i) s p r = (w, r')" by fastforce
  let ?t = "t\<lparr>dataIn := q\<rparr>" and ?l = "map_option (\<lambda>_. fst (env i)) l"
  obtain ws t' res where rec: "tunnelToTUN six pref env s (Suc i) ?t ?l r' = (ws, t', res)" using prod_cases3 by blast
  have "tunnelToTUN six pref env s i t l r = (cons_opt w ws, t', res)"
    using Cons.prems Cons.hyps(2) [symmetric] f rec by (subst tunnelToTUN.simps) (simp add: RecvDataInto_def select_packet_def)
  moreover have "ws = device_packets six (trNormalizeMSS r') q \<and> dataIn t' = []"
    using Cons.hyps(1) [of ?t "Suc i" ?l r'] Cons.prems Cons.hyps(2) [symmetric] rec by simp
  ultimately show ?case
    using forward_packet_written [OF f] Cons.hyps(2) [symmetric] by (simp add: cons_opt_def)
qed

lemma relay_batch_device:
  "fst (relay_batch six env s i batch r) = device_packets six (trNormalizeMSS r) batch \<and>
   trNormalizeMSS (snd (relay_batch six env s i batch r)) = trNormalizeMSS r"
proof (induction six env s i batch r rule: relay_batch.induct)
  case (2 six env s i p batch r)
  show ?case
  proof (cases "p = []")
    case True
    then show ?thesis using 2 by (simp add: forwardable_def shouldDropClientPacket_def)
  next
    case False
    obtain w r' where f: "forward_packet six (env i) s p r = (w, r')" by fastforce
    obtain ws r'' where g: "relay_batch six env s (Suc i) batch r' = (ws, r'')" by fastforce
    show ?thesis using 2(2) [OF False f [symmetric]] False f g forward_packet_written [OF f] by (simp add: cons_opt_def)
  qed
qed simp

lemma RecvBatch_open:
  "\<not> sDone s \<Longrightarrow> sDataIn s \<noteq> [] \<Longrightarrow> RecvBatch pref s 32 = Some (Inr (take 32 (sDataIn s)), s\<lparr>sDataIn := drop 32 (sDataIn s)\<rparr>)"
  by (cases "sDataIn s") (simp_all add: RecvBatch_def session_Recv_def drain_open)

text \<open>One batch after another, an open UDP session gives the device its queue in order.\<close>

lemma udpClientToTUN_device:
  assumes "\<not> sDone sess"
  shows "fst (udpClientToTUN six pref env clk s n sess l r) = device_packets six (trNormalizeMSS r) (take (32 * n) (sDataIn sess))"
  using assms
proof (induction n arbitrary: sess l r)
  case (Suc n)
  show ?case
  proof (cases "sDataIn sess = []")
    case True
    then show ?thesis using Suc.prems by (simp add: RecvBatch_def session_Recv_def)
  next
    case False
    let ?q = "sDataIn sess"
    have b: "RecvBatch pref sess 32 = Some (Inr (take 32 ?q), sess\<lparr>sDataIn := drop 32 ?q\<rparr>)"
      using False Suc.prems RecvBatch_open by simp
    obtain ws r' where f: "relay_batch six (env n) s 0 (take 32 ?q) r = (ws, r')" by fastforce
    obtain ws' res where g: "udpClientToTUN six pref env clk s n (sess\<lparr>sDataIn := drop 32 ?q\<rparr>) (clk n) r' = (ws', res)" by (rule prod.exhaust)
    have "ws' = device_packets six (trNormalizeMSS r') (take (32 * n) (drop 32 ?q))"
      using Suc.IH [of "sess\<lparr>sDataIn := drop 32 ?q\<rparr>" "clk n" r'] Suc.prems g by simp
    moreover have "take (32 * Suc n) ?q = take 32 ?q @ take (32 * n) (drop 32 ?q)" by (simp add: take_add)
    ultimately show ?thesis using b f g relay_batch_device [of six "env n" s 0 "take 32 ?q" r] by simp
  qed
qed simp

text \<open>Which way a packet to the client takes.\<close>

lemma downlink_choice:
  assumes "send_downlink P ud None e now lastT lastU packet (sess, t) = (d, sess', t')"
  shows "(\<exists>x. d = ByUDP x) \<longleftrightarrow> \<not> prefer_tcp now lastT lastU \<and> \<not> sDone sess \<and> clientAddr sess \<noteq> None"
    and "(\<exists>bs res. d = ByTunnel bs res) \<longleftrightarrow> prefer_tcp now lastT lastU \<or> \<not> sDone sess \<and> clientAddr sess = None"
  using assms
  by (auto simp: send_downlink_def session_Send_def Let_def split: if_splits option.splits prod.splits)

lemma data_until_close_bound:
  "\<forall>p \<in> set ps. length (pPayload p) \<le> n \<Longrightarrow> \<forall>x \<in> set (data_until_close ps). length x \<le> n"
  by (induction ps rule: data_until_close.induct) auto

section \<open>Properties\<close>

text \<open>
  Fact. Of the packets a client sends on its stream, the relay offers the TUN device of
  the server exactly those that may be forwarded, in order, each one whole and unchanged except for the MSS
  of a SYN. Dropped are only packets that are neither IPv4 nor IPv6, IPv6 multicast, name queries to IPv4
  multicast, and IPv6 where the server has none, which are answered.
\<close>
theorem client_packets_reach_device:
  assumes "aead_ok P" and "framer_ok tx" and "in_sync tx (framer t)" and "\<forall>(d, p) \<in> set ps. sendable p \<and> length (pPayload p) \<le> 2048"
    and "\<And>j. maxDuration t \<le> 0 \<or> clk j - createdAt t < maxDuration t" and "frames P tx ps = (Inr bs, tx')"
    and "maxPackets t = 0 \<or> unat (packetCount t) + length bs + 1 < unat (maxPackets t)"
    and "recvLoop P clk 0 t bs = (came, t')"
  shows "fst (tunnelToTUN six pref env s 0 (t'\<lparr>dataIn := came, cancelled := False\<rparr>) l r) =
    map (as_written (trNormalizeMSS r)) (filter (forwardable six) (data_until_close (map snd ps)))"
proof -
  have "\<forall>(d, p) \<in> set ps. sendable p" using assms(4) by auto
  from stream_data_frames [OF assms(1-3) this] have "stream_data P (framer t) bs = data_until_close (map snd ps)" using assms(6) by auto
  then have a: "came = data_until_close (map snd ps)" using recvLoop_complete [where clk = clk, OF assms(5,7), where P = P and i = 0] assms(8) by simp
  have "\<forall>p \<in> set (map snd ps). length (pPayload p) \<le> 2048" using assms(4) by auto
  then have "\<forall>p \<in> set came. length p \<le> 2048" unfolding a by (rule data_until_close_bound)
  then show ?thesis using tunnelToTUN_device [of "t'\<lparr>dataIn := came, cancelled := False\<rparr>" six pref env s 0 l r] a by (simp add: device_packets_def)
qed

theorem client_packets_reach_device_witness:
  "\<exists>bs tx' came t'. frames toy_lib example_framer
       [(example_draws, \<lparr>pType = PacketData, pPayload = [0x45, 7]\<rparr>), (example_draws, \<lparr>pType = PacketData, pPayload = [0x10]\<rparr>)] = (Inr bs, tx') \<and>
     recvLoop toy_lib (\<lambda>j. 0) 0 (example_tunnel\<lparr>maxPackets := 0\<rparr>) bs = (came, t') \<and>
     fst (tunnelToTUN False (\<lambda>i. True) (\<lambda>i. (0, False, True)) 0 0 (t'\<lparr>dataIn := came, cancelled := False\<rparr>) None (configureMSS newTunRouter 1420 False)) = [[0x45, 7]]"
proof -
  let ?t = "example_tunnel\<lparr>maxPackets := 0\<rparr>"
  let ?ps = "[(example_draws, \<lparr>pType = PacketData, pPayload = [0x45, 7]\<rparr>), (example_draws, \<lparr>pType = PacketData, pPayload = [0x10]\<rparr>)]"
  have y: "in_sync example_framer (framer ?t)" using example_ok(2) by simp
  have s: "\<forall>(d, p) \<in> set ?ps. sendable p \<and> length (pPayload p) \<le> 2048" by (simp add: sendable_def)
  then have "\<forall>(d, p) \<in> set ?ps. sendable p" by auto
  then obtain bs tx' where f: "frames toy_lib example_framer ?ps = (Inr bs, tx')"
    using stream_data_frames [OF toy_aead_ok example_ok(1) y, of ?ps] by blast
  obtain came t' where l: "recvLoop toy_lib (\<lambda>j. 0) 0 ?t bs = (came, t')" by (rule prod.exhaust)
  have "maxDuration ?t \<le> 0 \<or> 0 - createdAt ?t < maxDuration ?t" by (simp add: example_limits duration_defs)
  from client_packets_reach_device [OF toy_aead_ok example_ok(1) y s this f _ l, where r = "configureMSS newTunRouter 1420 False" and six = False]
  show ?thesis using f l
    by (auto simp: forwardable_def shouldDropClientPacket_def looksLikeIPv4MulticastNameQuery_def as_written_def configureMSS_def)
qed

end
