(* ===== verification/Client_Relay.thy ===== *)
theory Client_Relay
  imports Server_Relay
begin

text \<open>
  The data path of the client in \<^verbatim>\<open>obsidian/client/engine.go\<close>: the loops between the
  TUN device and the tunnel or the UDP channel, the health monitor of the UDP path and the hopping of
  ports. What the device, the sockets and the limiter answer, and whether the session was stopped, comes from outside.
  A loop that runs out of input is blocked.
\<close>

section \<open>Packets and errors\<close>

definition isIPv6Packet :: "bytes \<Rightarrow> bool" where
  "isIPv6Packet packet \<longleftrightarrow> packet \<noteq> [] \<and> drop_bit 4 (packet ! 0) = 6"

text \<open>What an error of the network says: whether it is a timeout, its text in lower case, and whether it is \<^verbatim>\<open>ENOBUFS\<close>.\<close>

record net_error =
  neTimeout :: bool
  neText :: gostring
  neNoBufs :: bool

definition isTemporaryNetworkError :: "net_error option \<Rightarrow> bool" where
  "isTemporaryNetworkError err =
     (case err of
        None \<Rightarrow> False
      | Some e \<Rightarrow>
          if neTimeout e then True
          else str_Contains (neText e) (lit ''would block'') \<or>
               str_Contains (neText e) (lit ''resource temporarily unavailable'') \<or>
               str_Contains (neText e) (lit ''operation was canceled'') \<or>
               str_Contains (neText e) (lit ''no buffer space available'') \<or>
               str_Contains (neText e) (lit ''buffer space'') \<or>
               str_Contains (neText e) (lit ''message too long'') \<or>
               str_Contains (neText e) (lit ''short write'') \<or>
               str_Contains (neText e) (lit ''interrupted system call'') \<or> neNoBufs e)"

definition short_buffer :: net_error where
  "short_buffer = \<lparr>neTimeout = False, neText = lit ''short buffer'', neNoBufs = False\<rparr>"

record traffic =
  bytesSent :: u64
  bytesReceived :: u64
  pktsSent :: u64
  pktsReceived :: u64

definition count_sent :: "bytes \<Rightarrow> traffic \<Rightarrow> traffic" where
  "count_sent p tr = tr\<lparr>pktsSent := pktsSent tr + 1, bytesSent := bytesSent tr + of_nat (length p)\<rparr>"

definition count_received :: "bytes \<Rightarrow> traffic \<Rightarrow> traffic" where
  "count_received p tr = tr\<lparr>pktsReceived := pktsReceived tr + 1, bytesReceived := bytesReceived tr + of_nat (length p)\<rparr>"

text \<open>The answer to an IPv6 packet that cannot be carried; \<open>allow\<close> is the limiter.\<close>

definition rejectIPv6 :: "bool \<Rightarrow> bytes \<Rightarrow> bytes option" where
  "rejectIPv6 allow packet =
     (case BuildIPv6Reject packet IPv6RejectBufSize of
        None \<Rightarrow> None
      | Some out \<Rightarrow> if \<not> allow then None else Some out)"

section \<open>Over the tunnel alone\<close>

datatype loop_end = Blocked | Ended "go_error option"

record read_env =
  reStopped :: bool
  reAllow :: bool
  reSend :: send_env

text \<open>The bytes written to the connection, the replies written to the device, and how the loop ended.\<close>

fun copyTunToTunnel ::
    "crypto_lib \<Rightarrow> bool \<Rightarrow> (nat \<Rightarrow> read_env) \<Rightarrow> nat \<Rightarrow> bytes res list \<Rightarrow> traffic \<Rightarrow> Tunnel
       \<Rightarrow> bytes \<times> bytes list \<times> loop_end \<times> traffic \<times> Tunnel" where
  "copyTunToTunnel P six env i [] tr t = ([], [], if reStopped (env i) then Ended None else Blocked, tr, t)"
| "copyTunToTunnel P six env i (rd # rds) tr t =
     (if reStopped (env i) then ([], [], Ended None, tr, t)
      else case rd of
             Inl e \<Rightarrow> ([], [], Ended (Some e), tr, t)
           | Inr p \<Rightarrow>
               let tr = count_sent p tr
               in if \<not> six \<and> isIPv6Packet p
                  then (case copyTunToTunnel P six env (Suc i) rds tr t of
                          (bs, replies, res) \<Rightarrow> (bs, cons_opt (rejectIPv6 (reAllow (env i)) p) replies, res))
                  else case send_data P (reSend (env i)) t p of
                         (bs, Inl e, t') \<Rightarrow> (bs, [], Ended (Some e), tr, t')
                       | (bs, Inr _, t') \<Rightarrow>
                           (case copyTunToTunnel P six env (Suc i) rds tr t' of (bs', res) \<Rightarrow> (bs @ bs', res)))"

text \<open>\<open>env i\<close> says whether the session was stopped and whether the device takes the packet.\<close>

function copyTunnelToTun ::
    "(nat \<Rightarrow> bool) \<Rightarrow> (nat \<Rightarrow> bool \<times> unit res) \<Rightarrow> nat \<Rightarrow> traffic \<Rightarrow> Tunnel \<Rightarrow> bytes list \<times> loop_end \<times> traffic \<times> Tunnel" where
  "copyTunnelToTun pref env i tr t =
     (if fst (env i) then ([], Ended None, tr, t)
      else case RecvDataInto None (if pref i then PickData else PickDone) 2048 t of
             None \<Rightarrow> ([], Blocked, tr, t)
           | Some (Inl e, t') \<Rightarrow> ([], Ended (Some e), tr, t')
           | Some (Inr p, t') \<Rightarrow>
               (case snd (env i) of
                  Inl e \<Rightarrow> ([], Ended (Some e), count_received p tr, t')
                | Inr _ \<Rightarrow>
                    (case copyTunnelToTun pref env (Suc i) (count_received p tr) t' of (ws, res) \<Rightarrow> (p # ws, res))))"
  by pat_completeness auto
termination
  by (relation "measure (\<lambda>(pref, env, i, tr, t). length (dataIn t))") (auto dest: RecvDataInto_shrinks)

declare copyTunnelToTun.simps [simp del]

section \<open>Over UDP\<close>

text \<open>What the copy loop and the monitor share.\<close>

record data_path =
  dpChannel :: UDPChannel
  dpTunnel :: Tunnel
  dpActive :: bool
  dpProto :: string
  dpPending :: int
  dpFails :: int
  dpTraffic :: traffic

record data_env =
  deAllow :: bool
  deDraws :: udp_draws
  deScratch :: "nat \<Rightarrow> byte"
  deWrote :: "net_error option"
  deSend :: send_env
  deTemporary :: bool
  deNow :: int

text \<open>What one packet from the device causes: a datagram, bytes on the tunnel, a reply, or the end of the loop.\<close>

record data_out =
  doDatagram :: "(bytes \<times> UDPAddr option) option"
  doStream :: bytes
  doReply :: "bytes option"
  doEnd :: "go_error option"

definition no_out :: data_out where
  "no_out = \<lparr>doDatagram = None, doStream = [], doReply = None, doEnd = None\<rparr>"

definition udp_send_failed :: "crypto_lib \<Rightarrow> data_env \<Rightarrow> bytes \<Rightarrow> data_path \<Rightarrow> data_out \<times> data_path" where
  "udp_send_failed P e p dp =
     (let fails = dpFails dp + 1;
          dp = dp\<lparr>dpFails := fails\<rparr>;
          dp = (if 15 \<le> fails then dp\<lparr>dpActive := False, dpProto := ''TCP''\<rparr> else dp)
      in case send_data P (deSend e) (dpTunnel dp) p of
           (bs, _, t) \<Rightarrow> (no_out\<lparr>doStream := bs\<rparr>, dp\<lparr>dpTunnel := t\<rparr>))"

definition copyTunToData :: "crypto_lib \<Rightarrow> bool \<Rightarrow> data_env \<Rightarrow> bytes \<Rightarrow> data_path \<Rightarrow> data_out \<times> data_path" where
  "copyTunToData P six e p dp =
     (let dp = dp\<lparr>dpTraffic := count_sent p (dpTraffic dp)\<rparr>
      in if \<not> six \<and> isIPv6Packet p then (no_out\<lparr>doReply := rejectIPv6 (deAllow e) p\<rparr>, dp)
         else if dpActive dp then
           (case SendWithBuffer P (deDraws e) (dpChannel dp) p (map (deScratch e) [0..<2048]) of
              (Inl Panic, ch) \<Rightarrow> (no_out\<lparr>doEnd := Some Panic\<rparr>, dp\<lparr>dpChannel := ch\<rparr>)
            | (Inl _, ch) \<Rightarrow>
                if isTemporaryNetworkError (Some short_buffer) then (no_out, dp\<lparr>dpChannel := ch\<rparr>)
                else udp_send_failed P e p (dp\<lparr>dpChannel := ch\<rparr>)
            | (Inr d, ch) \<Rightarrow>
                (case deWrote e of
                   Some err \<Rightarrow>
                     if isTemporaryNetworkError (Some err) then (no_out, dp\<lparr>dpChannel := ch\<rparr>)
                     else udp_send_failed P e p (dp\<lparr>dpChannel := ch\<rparr>)
                 | None \<Rightarrow>
                     (no_out\<lparr>doDatagram := Some d\<rparr>,
                      dp\<lparr>dpChannel := ch, dpFails := 0, dpPending := if dpPending dp = 0 then deNow e else dpPending dp\<rparr>)))
         else
           case send_data P (deSend e) (dpTunnel dp) p of
             (bs, Inr _, t) \<Rightarrow> (no_out\<lparr>doStream := bs\<rparr>, dp\<lparr>dpTunnel := t\<rparr>)
           | (bs, Inl _, t) \<Rightarrow>
               (no_out\<lparr>doStream := bs, doEnd := if \<not> deTemporary e \<and> cancelled t then Some ErrEOF else None\<rparr>, dp\<lparr>dpTunnel := t\<rparr>))"

text \<open>The receiving loop, over what the channel and the device answer.\<close>

fun copyUDPToTun :: "(nat \<Rightarrow> bool) \<Rightarrow> nat \<Rightarrow> ((net_error + bytes) \<times> net_error option) list \<Rightarrow> traffic \<Rightarrow> bytes list \<times> bool \<times> traffic" where
  "copyUDPToTun stopped i [] tr = ([], \<not> stopped i, tr)"
| "copyUDPToTun stopped i ((rcv, wr) # xs) tr =
     (if stopped i then ([], False, tr)
      else case rcv of
             Inl err \<Rightarrow> if isTemporaryNetworkError (Some err) then copyUDPToTun stopped (Suc i) xs tr else ([], False, tr)
           | Inr p \<Rightarrow>
               let tr = count_received p tr
               in case wr of
                    None \<Rightarrow> (case copyUDPToTun stopped (Suc i) xs tr of (ws, res) \<Rightarrow> (p # ws, res))
                  | Some err \<Rightarrow> if isTemporaryNetworkError (Some err) then copyUDPToTun stopped (Suc i) xs tr else ([], False, tr))"

section \<open>Health of the UDP path\<close>

definition UDPProbeAfter :: int where "UDPProbeAfter = 2500 * Millisecond"
definition UDPDeadAfter :: int where "UDPDeadAfter = 8 * Second"

datatype UDPHealthAction = UDPHealthNone | UDPHealthProbe | UDPHealthFailover | UDPHealthReconnect

definition DecideUDPHealth :: "int \<Rightarrow> bool \<Rightarrow> bool \<Rightarrow> UDPHealthAction" where
  "DecideUDPHealth silent everReceived active =
     (if \<not> active then UDPHealthNone
      else if UDPDeadAfter \<le> silent then (if everReceived then UDPHealthReconnect else UDPHealthFailover)
      else if UDPProbeAfter \<le> silent then UDPHealthProbe
      else UDPHealthNone)"

text \<open>
  What the monitor shares with the copy loop, and its own count of ticks. A tick sees the clock and the
  time of the last authenticated datagram; it may send an empty datagram, and it may end the connection.
\<close>

record health =
  hActive :: bool
  hPending :: int
  hProto :: string
  hTicks :: u64

record verdict =
  vProbe :: bool
  vReconnect :: bool

definition monitor_tick :: "int \<Rightarrow> int \<times> int \<Rightarrow> health \<Rightarrow> verdict \<times> health" where
  "monitor_tick udpStart at h =
     (case at of (now, authRecv) \<Rightarrow>
        let h = h\<lparr>hTicks := hTicks h + 1\<rparr>;
            active = hActive h;
            h = (if hPending h \<noteq> 0 \<and> hPending h \<le> authRecv then h\<lparr>hPending := 0\<rparr> else h);
            silent = (if active \<and> hPending h \<noteq> 0 then now - hPending h else 0);
            everReceived = (udpStart < authRecv)
        in case DecideUDPHealth silent everReceived active of
             UDPHealthProbe \<Rightarrow> (\<lparr>vProbe = True, vReconnect = False\<rparr>, h)
           | UDPHealthFailover \<Rightarrow> (\<lparr>vProbe = False, vReconnect = False\<rparr>, h\<lparr>hActive := False, hProto := ''TCP'', hPending := 0\<rparr>)
           | UDPHealthReconnect \<Rightarrow> (\<lparr>vProbe = False, vReconnect = True\<rparr>, h)
           | UDPHealthNone \<Rightarrow>
               if \<not> active then
                 (\<lparr>vProbe = True, vReconnect = False\<rparr>,
                  if now - authRecv < 3 * Second then h\<lparr>hActive := True, hPending := 0, hProto := ''UDP''\<rparr> else h)
               else (\<lparr>vProbe = hTicks h mod 8 = 0, vReconnect = False\<rparr>, h))"

text \<open>The ticks of the monitor until it ends the connection.\<close>

fun monitor :: "int \<Rightarrow> (int \<times> int) list \<Rightarrow> health \<Rightarrow> verdict list \<times> health" where
  "monitor udpStart [] h = ([], h)"
| "monitor udpStart (at # ats) h =
     (case monitor_tick udpStart at h of
        (v, h') \<Rightarrow>
          if vReconnect v then ([v], h')
          else (case monitor udpStart ats h' of (vs, h'') \<Rightarrow> (v # vs, h'')))"

section \<open>Port hopping\<close>

fun warmup :: "crypto_lib \<Rightarrow> (nat \<Rightarrow> udp_draws) \<Rightarrow> (nat \<Rightarrow> bool) \<Rightarrow> nat \<Rightarrow> UDPChannel \<Rightarrow> (bytes \<times> UDPAddr option) list \<times> UDPChannel" where
  "warmup P rs ok 0 ch = ([], ch)"
| "warmup P rs ok (Suc n) ch =
     (case channel_Send P (rs n) ch [] of
        (Inl e, ch') \<Rightarrow> ([], ch')
      | (Inr d, ch') \<Rightarrow> if \<not> ok n then ([], ch') else (case warmup P rs ok n ch' of (ds, ch'') \<Rightarrow> (d # ds, ch'')))"

definition warmupUDPAddress :: "crypto_lib \<Rightarrow> (nat \<Rightarrow> udp_draws) \<Rightarrow> (nat \<Rightarrow> bool) \<Rightarrow> UDPChannel \<Rightarrow> (bytes \<times> UDPAddr option) list \<times> UDPChannel" where
  "warmupUDPAddress P rs ok ch = warmup P rs ok 5 ch"

definition hop_interval :: "int \<Rightarrow> int" where
  "hop_interval hopSec = (if hopSec \<le> 0 then 300 else hopSec) * Second"

definition hop_tick ::
    "crypto_lib \<Rightarrow> (nat \<Rightarrow> udp_draws) \<Rightarrow> (nat \<Rightarrow> bool) \<Rightarrow> bytes \<Rightarrow> int list \<Rightarrow> u64 \<times> UDPChannel
       \<Rightarrow> (bytes \<times> UDPAddr option) list \<times> u64 \<times> UDPChannel" where
  "hop_tick P rs ok sessionID pool st =
     (case st of (epoch, ch) \<Rightarrow>
        case DeriveHoppingPort P sessionID epoch pool of
          Inl e \<Rightarrow> ([], epoch, ch)
        | Inr p \<Rightarrow> (case warmupUDPAddress P rs ok (SetRemotePort ch p) of (ds, ch') \<Rightarrow> (ds, epoch + 1, ch')))"

section \<open>Lemmas\<close>

text \<open>A packet that was sent is a frame, and the framer moves on behind it.\<close>

lemma send_data_frame:
  assumes "send_data P e t p = (bs, Inr u, t')" and "length p \<le> 65535"
  shows "Frame P (seDraws e) (framer t) PacketData p = (Inr bs, framer t')"
proof -
  obtain n0 n1 n2 where n: "seNow e = (n0, n1, n2)" using prod_cases3 by blast
  have b: "framer (snd (applyBurstJitter n0 t)) = framer t" by (simp add: applyBurstJitter_def)
  obtain fr f' where F: "FrameWithBuffer P (seDraws e) (framer t) (4 + packetHeaderSize + length p + 256 + TagSize) PacketData p = (fr, f')"
    by fastforce
  then have fr: "Frame P (seDraws e) (framer t) PacketData p = (fr, f')" using FrameWithBuffer_eq_Frame [of p] by simp
  show ?thesis
    using assms(1) n b F fr writeFrameLocked_sent
    by (fastforce simp: send_data_def SendData_def writePacket_def Let_def split: if_splits sum.splits prod.splits)
qed

definition carried :: "bool \<Rightarrow> bytes list \<Rightarrow> bytes list" where
  "carried six ps = filter (\<lambda>p. six \<or> \<not> isIPv6Packet p) ps"

lemma carried_simps [simp]:
  "carried six [] = []" "carried six (p # ps) = (if \<not> six \<and> isIPv6Packet p then [] else [p]) @ carried six ps"
  by (simp_all add: carried_def)

text \<open>A loop that is only waiting has sent the frames of all packets that are carried.\<close>

lemma copyTunToTunnel_frames:
  assumes "copyTunToTunnel P six env i (map Inr ps) tr t = (bs, replies, Blocked, tr', t')" and "\<forall>p \<in> set ps. length p \<le> 65535"
  shows "\<exists>ds. map snd ds = map (\<lambda>p. \<lparr>pType = PacketData, pPayload = p\<rparr>) (carried six ps) \<and> frames P (framer t) ds = (Inr bs, framer t')"
  using assms
proof (induction ps arbitrary: i tr t bs replies)
  case Nil
  then show ?case by simp
next
  case (Cons p ps)
  have st: "\<not> reStopped (env i)" using Cons.prems(1) by (auto split: if_splits)
  show ?case
  proof (cases "\<not> six \<and> isIPv6Packet p")
    case True
    then obtain replies' where "copyTunToTunnel P six env (Suc i) (map Inr ps) (count_sent p tr) t = (bs, replies', Blocked, tr', t')"
      using Cons.prems(1) st by (auto split: prod.splits)
    from Cons.IH [OF this] Cons.prems(2) True show ?thesis by simp
  next
    case False
    obtain b1 r1 t1 where s: "send_data P (reSend (env i)) t p = (b1, r1, t1)" using prod_cases3 by blast
    have t: "(\<not> six \<and> isIPv6Packet p) = False" using False by simp
    note e = Cons.prems(1) [unfolded list.map copyTunToTunnel.simps Let_def sum.case if_not_P [OF st] t if_False s prod.case]
    then obtain u where r: "r1 = Inr u" by (cases r1) auto
    obtain b2 res where c: "copyTunToTunnel P six env (Suc i) (map Inr ps) (count_sent p tr) t1 = (b2, res)" by (rule prod.exhaust)
    then have b: "bs = b1 @ b2" "res = (replies, Blocked, tr', t')" using e r by simp_all
    obtain ds where ds: "map snd ds = map (\<lambda>p. \<lparr>pType = PacketData, pPayload = p\<rparr>) (carried six ps)" "frames P (framer t1) ds = (Inr b2, framer t')"
      using Cons.IH [OF c [unfolded b(2)]] Cons.prems(2) by auto
    have "Frame P (seDraws (reSend (env i))) (framer t) PacketData p = (Inr b1, framer t1)"
      using send_data_frame [OF s [unfolded r]] Cons.prems(2) by simp
    then show ?thesis
      using ds b(1) False by (intro exI [of _ "(seDraws (reSend (env i)), \<lparr>pType = PacketData, pPayload = p\<rparr>) # ds"]) auto
  qed
qed

lemma data_packets_until_close:
  "data_until_close (map (\<lambda>p. \<lparr>pType = PacketData, pPayload = p\<rparr>) ps) = ps"
  by (induction ps) simp_all

text \<open>A path that answers, or has not been silent for long, is kept.\<close>

lemma monitor_keeps:
  assumes "hActive h" and "hPending h = 0 \<or> hPending h = p" and "\<forall>(t, a) \<in> set ats. p \<le> a \<or> t - p < UDPDeadAfter"
    and "monitor udpStart ats h = (vs, h')"
  shows "hActive h' \<and> hProto h' = hProto h \<and> length vs = length ats \<and> (\<forall>v \<in> set vs. \<not> vReconnect v) \<and>
    ((\<forall>(t, a) \<in> set ats. a < p) \<and> hPending h = p \<longrightarrow> hPending h' = p)"
  using assms
proof (induction ats arbitrary: h vs h')
  case Nil
  then show ?case by simp
next
  case (Cons ta ats)
  obtain t a where ta: "ta = (t, a)" by fastforce
  obtain v h1 where m: "monitor_tick udpStart (t, a) h = (v, h1)" by fastforce
  have d: "0 < UDPDeadAfter" by (simp add: UDPDeadAfter_def duration_defs)
  have k: "hActive h1" "hProto h1 = hProto h" "hPending h1 = 0 \<or> hPending h1 = p" "\<not> vReconnect v" "a < p \<and> hPending h = p \<longrightarrow> hPending h1 = p"
    using m Cons.prems(1-3) d ta
    by (auto simp: monitor_tick_def DecideUDPHealth_def Let_def split: if_splits)
  obtain vs1 where r: "monitor udpStart ats h1 = (vs1, h')" "vs = v # vs1" using Cons.prems(4) m k(4) ta by (auto split: prod.splits)
  show ?case using Cons.IH [OF k(1,3) _ r(1)] Cons.prems(3) k r(2) ta by auto
qed

lemma monitor_append:
  assumes "monitor udpStart xs h = (vs, h')" and "\<forall>v \<in> set vs. \<not> vReconnect v" and "length vs = length xs"
  shows "monitor udpStart (xs @ ys) h = (case monitor udpStart ys h' of (ws, h'') \<Rightarrow> (vs @ ws, h''))"
  using assms
proof (induction xs arbitrary: h vs)
  case Nil
  then show ?case by (simp split: prod.splits)
next
  case (Cons x xs)
  obtain v h1 where m: "monitor_tick udpStart x h = (v, h1)" by fastforce
  obtain vs1 where r: "monitor udpStart xs h1 = (vs1, h')" "vs = v # vs1"
    using Cons.prems m by (cases "monitor udpStart xs h1") (auto split: if_splits)
  show ?case using Cons.IH [OF r(1)] Cons.prems(2,3) m r by (auto split: prod.splits)
qed

section \<open>Properties\<close>

text \<open>
  Property C4. Packets cross the VPN: what the client reads from its TUN device and sends over the tunnel
  is offered to the TUN device of the server, in order, each packet once and whole. Left out are only the
  IPv6 packets of a client without IPv6, which it answers itself, and what the server does not
  forward; the MSS of a SYN may be adapted. The session of the server has not reached its limits.
\<close>
theorem packets_cross_vpn:
  assumes "aead_ok P" and "framer_ok (framer tc)" and "in_sync (framer tc) (framer ts)" and "\<forall>p \<in> set ps. length p \<le> 2048"
    and "copyTunToTunnel P six env i (map Inr ps) tr tc = (bs, replies, Blocked, tr', tc')"
    and "\<And>j. maxDuration ts \<le> 0 \<or> clk j - createdAt ts < maxDuration ts"
    and "maxPackets ts = 0 \<or> unat (packetCount ts) + length bs + 1 < unat (maxPackets ts)"
    and "recvLoop P clk 0 ts bs = (came, ts')"
  shows "fst (tunnelToTUN serverSix pref senv s 0 (ts'\<lparr>dataIn := came, cancelled := False\<rparr>) l r) =
    map (as_written (trNormalizeMSS r)) (filter (forwardable serverSix) (filter (\<lambda>p. six \<or> \<not> isIPv6Packet p) ps))"
proof -
  have "\<forall>p \<in> set ps. length p \<le> 65535" using assms(4) by auto
  then obtain ds where ds: "map snd ds = map (\<lambda>p. \<lparr>pType = PacketData, pPayload = p\<rparr>) (carried six ps)" "frames P (framer tc) ds = (Inr bs, framer tc')"
    using copyTunToTunnel_frames [OF assms(5)] by blast
  have "\<forall>x \<in> set (map snd ds). sendable x \<and> length (pPayload x) \<le> 2048"
    unfolding ds(1) using assms(4) by (auto simp: sendable_def carried_def)
  then have "\<forall>(d, x) \<in> set ds. sendable x \<and> length (pPayload x) \<le> 2048" by auto
  from client_packets_reach_device [where clk = clk, OF assms(1-3) this assms(6) ds(2) assms(7,8)]
  show ?thesis by (simp add: ds(1) data_packets_until_close carried_def)
qed

definition example_read_env :: read_env where
  "example_read_env = \<lparr>reStopped = False, reAllow = True,
     reSend = \<lparr>seDraws = example_draws, seWrite = \<lambda>i fr. (int (length fr), None), seNow = (0, 0, 0)\<rparr>\<rparr>"

lemma example_send:
  assumes "framer t = example_framer" and "packetCount t = 0" and "length p \<le> 65535"
  shows "\<exists>bs t'. send_data toy_lib (reSend example_read_env) t p = (bs, Inr (), t')"
proof -
  let ?t = "snd (applyBurstJitter 0 t)"
  have j: "framer ?t = example_framer" "packetCount ?t = 0" using assms(1,2) by (simp_all add: applyBurstJitter_def)
  obtain frame f' where F: "Frame toy_lib example_draws example_framer PacketData p = (Inr frame, f')"
    by (rule Frame_succeeds [OF toy_aead_ok example_ok(1), where pt = PacketData and payload = p and r = example_draws]) (use assms(3) in simp_all)
  have B: "FrameWithBuffer toy_lib example_draws example_framer (4 + packetHeaderSize + length p + 256 + TagSize) PacketData p = (Inr frame, f')"
    using F FrameWithBuffer_eq_Frame [of p] by simp
  have W: "writeFrameLocked (\<lambda>i fr. (int (length fr), None)) 0 frame = (frame, Inr ())"
    by (subst writeFrameLocked.simps) (cases frame, simp_all add: writeFrameLocked.simps)
  show ?thesis using j B W by (simp add: send_data_def example_read_env_def SendData_def writePacket_def Let_def sessionExpired_def)
qed

theorem packets_cross_vpn_witness:
  "\<exists>bs replies tr tc' came ts'.
     copyTunToTunnel toy_lib False (\<lambda>i. example_read_env) 0 [Inr [0x60], Inr [0x45, 7]]
       \<lparr>bytesSent = 0, bytesReceived = 0, pktsSent = 0, pktsReceived = 0\<rparr> (example_tunnel\<lparr>framer := example_framer\<rparr>) = (bs, replies, Blocked, tr, tc') \<and>
     recvLoop toy_lib (\<lambda>j. 0) 0 (example_tunnel\<lparr>maxPackets := 0\<rparr>) bs = (came, ts') \<and>
     fst (tunnelToTUN False (\<lambda>i. True) (\<lambda>i. (0, False, True)) 0 0 (ts'\<lparr>dataIn := came, cancelled := False\<rparr>) None (configureMSS newTunRouter 1420 False)) = [[0x45, 7]]"
proof -
  let ?tc = "example_tunnel\<lparr>framer := example_framer\<rparr>" and ?ts = "example_tunnel\<lparr>maxPackets := 0\<rparr>" and ?ps = "[[0x60], [0x45, 7]] :: bytes list"
  let ?tr = "\<lparr>bytesSent = 0, bytesReceived = 0, pktsSent = 0, pktsReceived = 0\<rparr>"
  have y: "framer_ok (framer ?tc)" "in_sync (framer ?tc) (framer ?ts)" using example_ok by simp_all
  have "packetCount ?tc = 0" by (simp add: example_tunnel_def NewTunnel_def)
  then obtain b t1 where "send_data toy_lib (reSend example_read_env) ?tc [0x45, 7] = (b, Inr (), t1)" using example_send [of ?tc "[0x45, 7]"] by auto
  then obtain bs replies tr tc' where c: "copyTunToTunnel toy_lib False (\<lambda>i. example_read_env) 0 (map Inr ?ps) ?tr ?tc = (bs, replies, Blocked, tr, tc')"
    by (auto simp: isIPv6Packet_def example_read_env_def split: prod.splits)
  obtain came ts' where l: "recvLoop toy_lib (\<lambda>j. 0) 0 ?ts bs = (came, ts')" by (rule prod.exhaust)
  have "maxDuration ?ts \<le> 0 \<or> 0 - createdAt ?ts < maxDuration ?ts" by (simp add: example_limits duration_defs)
  from packets_cross_vpn [OF toy_aead_ok y _ c this _ l, where r = "configureMSS newTunRouter 1420 False" and serverSix = False]
  show ?thesis using c l
    by (auto simp: isIPv6Packet_def forwardable_def shouldDropClientPacket_def looksLikeIPv4MulticastNameQuery_def as_written_def configureMSS_def)
qed

text \<open>
  Fact. The health monitor gives up the UDP path exactly when it is dead: while every tick sees
  an answer to the pending packet or less than 8 seconds of silence, UDP stays in use and the connection stays up;
  at the first tick after 8 seconds without an answer the monitor ends the connection for a new one if the path ever worked,
  and otherwise falls back to the tunnel.
\<close>
theorem dead_udp_path_detected:
  assumes "hActive h" and "hPending h = p" and "p \<noteq> 0" and "\<forall>(t, a) \<in> set ats. p \<le> a \<or> t - p < UDPDeadAfter"
  shows "(let (vs, h') = monitor udpStart ats h in hActive h' \<and> hProto h' = hProto h \<and> (\<forall>v \<in> set vs. \<not> vReconnect v)) \<and>
    ((\<forall>(t, a) \<in> set ats. a < p) \<and> authRecv < p \<and> UDPDeadAfter \<le> now - p \<longrightarrow>
       (let (vs, h') = monitor udpStart (ats @ [(now, authRecv)]) h
        in if udpStart < authRecv then vReconnect (last vs) else \<not> hActive h' \<and> hProto h' = ''TCP'' \<and> hPending h' = 0))"
proof -
  obtain vs h' where m: "monitor udpStart ats h = (vs, h')" by fastforce
  note k = monitor_keeps [OF assms(1) disjI2 [OF assms(2)] assms(4) m]
  have a: "monitor udpStart (ats @ [(now, authRecv)]) h = (case monitor udpStart [(now, authRecv)] h' of (ws, h'') \<Rightarrow> (vs @ ws, h''))"
    using monitor_append [OF m] k by blast
  show ?thesis
    using k m a assms(2,3) by (auto simp: monitor_tick_def DecideUDPHealth_def Let_def)
qed

theorem dead_udp_path_detected_witness:
  "let h = \<lparr>hActive = True, hPending = 5, hProto = ''UDP'', hTicks = 0\<rparr>
   in vReconnect (last (fst (monitor 1 [(2 * Second, 4), (4 * Second, 4), (9 * Second, 4)] h)))"
  using dead_udp_path_detected [of "\<lparr>hActive = True, hPending = 5, hProto = ''UDP'', hTicks = 0\<rparr>" 5 "[(2 * Second, 4), (4 * Second, 4)]" 1 4 "9 * Second"]
  by (simp add: UDPDeadAfter_def duration_defs split_beta Let_def del: monitor.simps)

end
