(* ===== verification/Client_Session.thy ===== *)
theory Client_Session
  imports Client_Relay
begin

text \<open>
  The session of the client, \<^verbatim>\<open>obsidian/client/engine.go\<close>: its construction, a connection from the
  dial to the session keys, and the loop that connects again, with what the user of the session may do at any time.
  The dial, the clock, random bytes and the answers of the connection come from outside; the status
  and statistics callbacks are not modelled.
\<close>

section \<open>Construction\<close>

record 'f Session =
  csCfg :: "'f ClientConfig"
  csServerPub :: bytes
  csStatic :: Keypair
  csObf :: ObfuscationConfig
  csTunnel :: TunnelConfig
  csAutoReconnect :: bool
  csDebug :: bool
  csStatus :: string

text \<open>The options that change what the session does.\<close>

definition WithDebug :: "bool \<Rightarrow> 'f Session \<Rightarrow> 'f Session" where
  "WithDebug debug s = s\<lparr>csDebug := debug\<rparr>"

definition WithAutoReconnect :: "bool \<Rightarrow> 'f Session \<Rightarrow> 'f Session" where
  "WithAutoReconnect reconnect s = s\<lparr>csAutoReconnect := reconnect\<rparr>"

text \<open>The static key of the client: a fresh one is written back to the configuration.\<close>

definition client_static :: "crypto_lib \<Rightarrow> bytes \<Rightarrow> 'f ClientConfig \<Rightarrow> (Keypair \<times> 'f ClientConfig) res" where
  "client_static P rnd cfg =
     (if ccClientPrivateKey cfg = [] then
        case GenerateKeypair P rnd of
          Inl e \<Rightarrow> Inl (Errorf ''generate ephemeral keypair'')
        | Inr kp \<Rightarrow> Inr (kp, cfg\<lparr>ccClientPrivateKey := EncodeToString (Private kp)\<rparr>)
      else
        rbind (decode_key ''invalid client_private_key'' (ccClientPrivateKey cfg)) (\<lambda>priv.
          case KeypairFromPrivate P priv of
            Inl e \<Rightarrow> Inl (Errorf ''invalid client_private_key'')
          | Inr kp \<Rightarrow> Inr (kp, cfg)))"

definition NewSession ::
    "'f go_lib \<Rightarrow> ('f \<Rightarrow> int) \<Rightarrow> crypto_lib \<Rightarrow> bytes \<Rightarrow> 'f ClientConfig option \<Rightarrow> ('f Session \<Rightarrow> 'f Session) list \<Rightarrow> 'f Session res" where
  "NewSession N dur P rnd cfg opts =
     (case cfg of
        None \<Rightarrow> Inl (Errorf ''client config is nil'')
      | Some cfg \<Rightarrow>
          rbind (decode_key ''invalid server_public_key (must be 64-char hex)'' (ccServerPublicKey cfg)) (\<lambda>serverPub.
          rbind (client_static P rnd cfg) (\<lambda>(clientStatic, cfg).
            let (tc, oc) = ApplyProfile (ccProfile cfg) DefaultTunnelConfig DefaultObfuscationConfig
            in Inr (fold (\<lambda>opt s. opt s) opts
                 \<lparr>csCfg = cfg, csServerPub = serverPub, csStatic = clientStatic, csObf = MakeObfConfig cfg oc,
                  csTunnel = MakeTunnelConfig N dur cfg tc, csAutoReconnect = True, csDebug = False, csStatus = ''disconnected''\<rparr>))))"

definition NewSessionFromURI ::
    "'f go_lib \<Rightarrow> ('f \<Rightarrow> int) \<Rightarrow> crypto_lib \<Rightarrow> bytes \<Rightarrow> gostring \<Rightarrow> ('f Session \<Rightarrow> 'f Session) list \<Rightarrow> 'f Session res" where
  "NewSessionFromURI N dur P rnd uri opts =
     (case DecodeKey N uri of
        Inl e \<Rightarrow> Inl (Errorf ''decode URI/key'')
      | Inr cfg \<Rightarrow> NewSession N dur P rnd (Some cfg) opts)"

section \<open>A connection\<close>

record client_world =
  cwDial :: dial_world
  cwTLS :: "bytes \<Rightarrow> bool \<Rightarrow> (bytes list \<Rightarrow> unit res) \<Rightarrow> unit res"
  cwEph :: bytes
  cwKem :: bytes
  cwSalt :: bytes
  cwSigs :: "nat \<Rightarrow> byte"
  cwJunk :: "nat \<Rightarrow> byte"
  cwHello :: hello_draws
  cwFrame :: "nat \<Rightarrow> byte"
  cwUnix :: int
  cwWrites :: "unit res \<times> unit res \<times> unit res"

definition dial ::
    "crypto_lib \<Rightarrow> 'f go_lib \<Rightarrow> (ClientHelloID \<Rightarrow> bytes \<Rightarrow> bytes \<Rightarrow> bytes res) \<Rightarrow> (bytes \<Rightarrow> bool) \<Rightarrow> client_world \<Rightarrow> 'f Session \<Rightarrow> bytes
       \<Rightarrow> bytes \<times> bytes res" where
  "dial P N U isIP w s inp =
     (let cfg = csCfg s;
          transportCfg = transport_config cfg (csServerPub s);
          utls = U (parseFingerprint N (ccFingerprint cfg))
      in if client_reality cfg then DialObsidianREALITY P utls isIP (cwDial w) transportCfg inp
         else if ccNoTLS cfg then DialTCPTimeoutWithConfig (cwDial w) inp
         else DialObsidian P utls (cwTLS w) isIP (cwDial w) transportCfg inp)"

text \<open>What the client writes after the dial: signatures, junk and the framed hello. An empty train is not written.\<close>

definition unless_empty :: "unit res \<Rightarrow> bytes \<Rightarrow> bytes res" where
  "unless_empty wr bs = (if bs = [] then Inr [] else rbind wr (\<lambda>_. Inr bs))"

definition client_flight :: "crypto_lib \<Rightarrow> client_world \<Rightarrow> 'f Session \<Rightarrow> ClientHandshake \<Rightarrow> bytes res" where
  "client_flight P w s hs =
     (case cwWrites w of (w1, w2, w3) \<Rightarrow>
        rbind (if ccNoTLS (csCfg s) then rbind (BuildSignatureTrain (cwSigs w) 0 (of_int (cwUnix w)) (Signatures (cObfCfg hs))) (unless_empty w1)
               else Inr []) (\<lambda>sigs.
        rbind (if \<not> client_reality (csCfg s) then rbind (BuildJunkTrain (cwJunk w) 0 (cObfCfg hs)) (\<lambda>(junk, n). unless_empty w2 junk)
               else Inr []) (\<lambda>junk.
        rbind (BuildHello P (cwHello w) (of_int (cwUnix w)) hs) (\<lambda>hello.
        rbind (BuildHelloFrame P (cwFrame w) 0 (csServerPub s) hello) (\<lambda>helloFrame.
        rbind w3 (\<lambda>_. Inr (sigs @ junk @ helloFrame)))))))"

text \<open>
  A connection up to its keys: what was written, and the framer, the handshake and the rest of the stream.
  What a failed flight had already written is not recorded.
\<close>

definition connect ::
    "crypto_lib \<Rightarrow> 'f go_lib \<Rightarrow> (ClientHelloID \<Rightarrow> bytes \<Rightarrow> bytes \<Rightarrow> bytes res) \<Rightarrow> (bytes \<Rightarrow> bool) \<Rightarrow> client_world \<Rightarrow> 'f Session \<Rightarrow> bytes
       \<Rightarrow> bytes \<times> (StreamFramer \<times> ClientHandshake \<times> bytes) res" where
  "connect P N U isIP w s inp =
     (case dial P N U isIP w s inp of
        (pre, Inl e) \<Rightarrow> (pre, Inl (Errorf ''dial''))
      | (pre, Inr inp) \<Rightarrow>
          case NewClientHandshakeWithStaticKey P (cwEph w) (cwKem w) (cwSalt w) (csServerPub s) (Some (csStatic s)) (csObf s) of
            Inl e \<Rightarrow> (pre, Inl (Errorf ''handshake init''))
          | Inr hs \<Rightarrow>
              case client_flight P w s hs of
                Inl e \<Rightarrow> (pre, Inl e)
              | Inr flight \<Rightarrow>
                  (pre @ flight,
                   case ReadHelloFrame P inp (csServerPub s) 4096 8192 of
                     Inl e \<Rightarrow> Inl (Errorf ''read server hello'')
                   | Inr (srvHello, rest) \<Rightarrow>
                       case ProcessServerHello P hs srvHello of
                         (Inl e, hs) \<Rightarrow> Inl (Errorf ''process server hello'')
                       | (Inr f, hs) \<Rightarrow> Inr (f, hs, rest)))"

text \<open>The data channel of a connection, if one is configured.\<close>

definition client_channel :: "crypto_lib \<Rightarrow> UDPAddr option \<Rightarrow> 'f Session \<Rightarrow> SessionKeys \<Rightarrow> UDPChannel option" where
  "client_channel P remote s keys =
     (if ccUDPPort (csCfg s) \<noteq> [] \<and> ccEnableUDPData (csCfg s) then
        let ch = NewUDPChannel remote (DeriveUDPKeys P keys True); tc = csTunnel s
        in Some (ch\<lparr>chUseBucketPadding := tcUseBucketPadding tc,
                    chBucketMTU := if 0 < tcBucketMTU tc then tcBucketMTU tc else chBucketMTU ch,
                    chMaxTrailer := tcMaxTrailer tc\<rparr>)
      else None)"

section \<open>The life of a session\<close>

text \<open>
  The loop of \<^verbatim>\<open>Start\<close>. \<open>Trying\<close> is a connection that is being made, \<open>Live\<close> one whose
  watcher runs (\<open>egWatching\<close>). A watcher that is told to stop may still take a signal first; \<open>egLate\<close> counts
  those that have not gone yet. \<open>Over\<close> carries the result of \<^verbatim>\<open>runConnection\<close>, \<open>Waiting\<close> the delay before the next
  attempt and \<open>Returned\<close> the result of \<^verbatim>\<open>Start\<close>.
\<close>

datatype conn_error = UDPStalled | OtherError go_error

datatype phase = LoopTop | Trying | Greeting | Live | Over "conn_error option" | Waiting int | Returned "conn_error option"

record engine =
  egPhase :: phase
  egAttempt :: nat
  egStatus :: string
  egStopped :: bool
  egSignal :: bool
  egNetChanged :: bool
  egWatching :: bool
  egLate :: nat
  egAuto :: bool

definition after_connection :: "conn_error option \<Rightarrow> engine \<Rightarrow> engine" where
  "after_connection err e =
     (if err \<noteq> None \<and> egStopped e then e\<lparr>egPhase := Returned None, egStatus := ''disconnected''\<rparr>
      else if \<not> egAuto e then e\<lparr>egPhase := Returned err, egStatus := ''disconnected''\<rparr>
      else
        let delay = (if egNetChanged e then 0 else if err = Some UDPStalled then 0 else 3 * Second)
        in e\<lparr>egNetChanged := False, egStatus := ''reconnecting'', egPhase := Waiting delay\<rparr>)"

definition next_attempt :: "engine \<Rightarrow> engine" where
  "next_attempt e =
     (if egStopped e then e\<lparr>egPhase := Returned None, egStatus := ''disconnected''\<rparr>
      else e\<lparr>egStatus := if egAttempt e = 1 then ''connecting'' else ''reconnecting'', egSignal := False, egPhase := Trying\<rparr>)"

definition end_connection :: "conn_error option \<Rightarrow> engine \<Rightarrow> engine" where
  "end_connection err e =
     e\<lparr>egPhase := Over err, egWatching := False, egLate := egLate e + (if egWatching e then 1 else 0)\<rparr>"

text \<open>
  Who makes a step: the session itself, the network (the outcome of a dial, of the handshake, of a connection) or the
  timer of the delay. The dial and the handshake do not look at the stop channel; they are cut short by their deadlines.
\<close>

datatype actor = Self | Net | Timer

inductive engine_step :: "actor \<Rightarrow> engine \<Rightarrow> engine \<Rightarrow> bool" where
  attempt: "egPhase e = LoopTop \<Longrightarrow> engine_step Self e (next_attempt e)"
| dial_failed: "egPhase e = Trying \<Longrightarrow> engine_step Net e (e\<lparr>egPhase := Over (Some (OtherError err))\<rparr>)"
| dialled: "egPhase e = Trying \<Longrightarrow> engine_step Net e (e\<lparr>egPhase := Greeting, egWatching := True\<rparr>)"
| greet_failed: "egPhase e = Greeting \<Longrightarrow> engine_step Net e (end_connection (Some (OtherError err)) e)"
| greeted: "egPhase e = Greeting \<Longrightarrow> engine_step Net e (e\<lparr>egPhase := Live, egStatus := ''connected''\<rparr>)"
| watcher: "egWatching e \<Longrightarrow> egSignal e \<Longrightarrow> engine_step Self e (e\<lparr>egSignal := False, egNetChanged := True, egWatching := False\<rparr>)"
| watcher_stopped: "egWatching e \<Longrightarrow> egStopped e \<Longrightarrow> engine_step Self e (e\<lparr>egWatching := False\<rparr>)"
| late_watcher: "0 < egLate e \<Longrightarrow> egSignal e \<Longrightarrow> engine_step Self e (e\<lparr>egSignal := False, egNetChanged := True, egLate := egLate e - 1\<rparr>)"
| watcher_gone: "0 < egLate e \<Longrightarrow> engine_step Self e (e\<lparr>egLate := egLate e - 1\<rparr>)"
| ended: "egPhase e = Live \<Longrightarrow> engine_step Net e (end_connection (Some err) e)"
| stopped_live: "egPhase e = Live \<Longrightarrow> egStopped e \<Longrightarrow> engine_step Self e (end_connection None e)"
| judged: "egPhase e = Over err \<Longrightarrow> engine_step Self e (after_connection err e)"
| stopped_wait: "egPhase e = Waiting d \<Longrightarrow> egStopped e \<Longrightarrow> engine_step Self e (e\<lparr>egPhase := Returned None, egStatus := ''disconnected''\<rparr>)"
| waited: "egPhase e = Waiting d \<Longrightarrow> engine_step Timer e (e\<lparr>egAttempt := egAttempt e + 1, egPhase := LoopTop\<rparr>)"

text \<open>What the user of the session may do at any time.\<close>

definition Stop_session :: "engine \<Rightarrow> engine" where
  "Stop_session e = e\<lparr>egStopped := True\<rparr>"

definition NetworkChanged :: "engine \<Rightarrow> engine" where
  "NetworkChanged e = e\<lparr>egSignal := True\<rparr>"

inductive session_step :: "engine \<Rightarrow> engine \<Rightarrow> bool" where
  own: "engine_step a e e' \<Longrightarrow> session_step e e'"
| stop: "session_step e (Stop_session e)"
| network: "session_step e (NetworkChanged e)"

definition fresh_engine :: "bool \<Rightarrow> engine" where
  "fresh_engine auto =
     \<lparr>egPhase = LoopTop, egAttempt = 1, egStatus = ''disconnected'', egStopped = False, egSignal = False, egNetChanged = False,
      egWatching = False, egLate = 0, egAuto = auto\<rparr>"

inductive_cases engine_stepE: "engine_step a e e'"

section \<open>Lemmas\<close>

lemmas engine_defs = next_attempt_def after_connection_def end_connection_def Stop_session_def NetworkChanged_def fresh_engine_def

text \<open>How far a stopped session is from its end.\<close>

fun rank :: "phase \<Rightarrow> nat" where
  "rank Trying = 6"
| "rank Greeting = 5"
| "rank Live = 4"
| "rank (Over err) = 3"
| "rank (Waiting d) = 2"
| "rank LoopTop = 1"
| "rank (Returned err) = 0"

definition engine_inv :: "engine \<Rightarrow> bool" where
  "engine_inv e \<longleftrightarrow>
     1 \<le> egAttempt e \<and> (\<not> egAuto e \<longrightarrow> egAttempt e = 1 \<and> (\<forall>d. egPhase e \<noteq> Waiting d)) \<and>
     (egStatus e = ''connected'' \<longrightarrow> egPhase e = Live \<or> (\<exists>err. egPhase e = Over err)) \<and>
     (\<forall>r. egPhase e = Returned r \<longrightarrow> egStatus e = ''disconnected'' \<and> (egAuto e \<longrightarrow> r = None)) \<and>
     (\<forall>d. egPhase e = Waiting d \<longrightarrow> egStatus e = ''reconnecting'' \<and> (d = 0 \<or> d = 3 * Second))"

lemma engine_step_inv: "engine_step a e e' \<Longrightarrow> engine_inv e \<Longrightarrow> engine_inv e'"
  by (erule engine_stepE) (auto simp: engine_inv_def engine_defs Let_def split: if_splits)

lemma session_step_inv: "session_step e e' \<Longrightarrow> engine_inv e \<Longrightarrow> engine_inv e'"
  by (erule session_step.cases) (auto simp: engine_step_inv, auto simp: engine_inv_def engine_defs)

lemma reachable_engine_inv: "session_step\<^sup>*\<^sup>* (fresh_engine auto) e \<Longrightarrow> engine_inv e"
  by (induction rule: rtranclp_induct) (auto simp: session_step_inv, auto simp: engine_inv_def engine_defs)

lemma stopped_step:
  "session_step e e' \<Longrightarrow> egStopped e \<Longrightarrow> egStopped e' \<and> (egPhase e' = egPhase e \<or> rank (egPhase e') < rank (egPhase e))"
  by (erule session_step.cases) (auto simp: engine_defs Let_def elim!: engine_stepE split: if_splits)

text \<open>A stopped session that is not dialling or greeting goes to its end by steps of its own.\<close>

lemma stopped_progress:
  assumes "egStopped e" and "egPhase e \<notin> {Trying, Greeting}" and "\<forall>r. egPhase e \<noteq> Returned r"
  shows "\<exists>e'. engine_step Self e e' \<and> rank (egPhase e') < rank (egPhase e) \<and> egPhase e' \<notin> {Trying, Greeting}"
proof (cases "egPhase e")
  case LoopTop
  then show ?thesis using assms attempt [of e] by (intro exI [of _ "next_attempt e"]) (simp add: next_attempt_def)
next
  case Live
  then show ?thesis using stopped_live [of e] assms by (intro exI [of _ "end_connection None e"]) (simp add: end_connection_def)
next
  case (Over err)
  then show ?thesis using judged [of e err] by (intro exI [of _ "after_connection err e"]) (simp add: after_connection_def Let_def)
next
  case (Waiting d)
  then show ?thesis
    using stopped_wait [of e d] assms by (intro exI [of _ "e\<lparr>egPhase := Returned None, egStatus := ''disconnected''\<rparr>"]) simp
qed (use assms in auto)

lemma stopped_ends:
  assumes "egStopped e" and "egPhase e \<notin> {Trying, Greeting}" and "engine_inv e"
  shows "\<exists>e' r. (engine_step Self)\<^sup>*\<^sup>* e e' \<and> egPhase e' = Returned r \<and> engine_inv e'"
  using assms
proof (induction "rank (egPhase e)" arbitrary: e rule: less_induct)
  case less
  show ?case
  proof (cases "\<exists>r. egPhase e = Returned r")
    case True
    with less.prems(3) show ?thesis by blast
  next
    case False
    then obtain e1 where 1: "engine_step Self e e1" "rank (egPhase e1) < rank (egPhase e)" "egPhase e1 \<notin> {Trying, Greeting}"
      using stopped_progress [OF less.prems(1,2)] by blast
    have "egStopped e1" using stopped_step [OF session_step.own [OF 1(1)] less.prems(1)] by blast
    then show ?thesis
      using less.hyps [OF 1(2) _ 1(3)] engine_step_inv [OF 1(1) less.prems(3)] 1(1) by (meson converse_rtranclp_into_rtranclp)
  qed
qed

lemma network_step_progress:
  "engine_step Net e e' \<Longrightarrow> rank (egPhase e') < rank (egPhase e)"
  by (erule engine_stepE) (auto simp: engine_defs)

lemma stopped_run:
  assumes "session_step\<^sup>*\<^sup>* e e'" and "egStopped e"
  shows "egStopped e' \<and> rank (egPhase e') \<le> rank (egPhase e)"
  using assms
proof (induction rule: rtranclp_induct)
  case (step y z)
  then show ?case using stopped_step [of y z] by fastforce
qed simp

lemma rank_Trying: "rank ph = 6 \<longleftrightarrow> ph = Trying" "rank ph \<le> 6"
  by (induction ph) simp_all

text \<open>A key is never empty, whatever the text.\<close>

lemma reality_key_nonempty: "pub \<noteq> [] \<Longrightarrow> reality_key k pub \<noteq> []"
  by (cases k) (auto simp: reality_key_def utf8_def utf8_rune_def split: option.splits)

lemma NewSession_Inr:
  assumes "NewSession N dur P rnd (Some cc) [] = Inr s"
  obtains cc' oc tc where "client_static P rnd cc = Inr (csStatic s, cc')" and "csCfg s = cc'" and "csObf s = MakeObfConfig cc' oc"
    and "ApplyProfile (ccProfile cc') DefaultTunnelConfig DefaultObfuscationConfig = (tc, oc)"
    and "decode_key ''invalid server_public_key (must be 64-char hex)'' (ccServerPublicKey cc) = Inr (csServerPub s)"
proof -
  from assms obtain pub kp cc' where a: "decode_key ''invalid server_public_key (must be 64-char hex)'' (ccServerPublicKey cc) = Inr pub"
      "client_static P rnd cc = Inr (kp, cc')"
    by (auto simp: NewSession_def rbind_Inr)
  obtain tc oc where p: "ApplyProfile (ccProfile cc') DefaultTunnelConfig DefaultObfuscationConfig = (tc, oc)" by fastforce
  show thesis using that [of cc' oc tc] assms a p by (auto simp: NewSession_def)
qed

lemma client_static_keeps:
  assumes "client_static P rnd cc = Inr (kp, cc')"
  shows "cc' = cc\<lparr>ccClientPrivateKey := ccClientPrivateKey cc'\<rparr>"
proof (cases "ccClientPrivateKey cc = []")
  case True
  then show ?thesis using assms by (auto simp: client_static_def split: sum.split_asm)
next
  case False
  then obtain priv where "(case KeypairFromPrivate P priv of Inl e \<Rightarrow> Inl (Errorf ''invalid client_private_key'') | Inr kp \<Rightarrow> Inr (kp, cc)) = Inr (kp, cc')"
    using assms by (auto simp: client_static_def rbind_Inr)
  then show ?thesis by (cases "KeypairFromPrivate P priv") auto
qed

lemma connect_reality:
  assumes "client_reality (csCfg s)" and "\<not> ccNoTLS (csCfg s)" and "dial P N U isIP w s inp = (pre, Inr inp')"
    and "NewClientHandshakeWithStaticKey P (cwEph w) (cwKem w) (cwSalt w) (csServerPub s) (Some (csStatic s)) (csObf s) = Inr c"
    and "cwWrites w = (Inr (), Inr (), Inr ())" and "BuildHello P (cwHello w) (of_int (cwUnix w)) c = Inr hello"
    and "BuildHelloFrame P (cwFrame w) 0 (csServerPub s) hello = Inr frame"
    and "ReadHelloFrame P inp' (csServerPub s) 4096 8192 = Inr (answer, rest)" and "ProcessServerHello P c answer = (Inr f, c')"
  shows "connect P N U isIP w s inp = (pre @ frame, Inr (f, c', rest))"
  using assms by (simp add: connect_def client_flight_def)

lemma handleClient_reality:
  assumes "scReality cfg" and "\<not> scNoTLS cfg" and "enter (wNow w) addr sv = (True, sv1)"
    and "ReadHelloFrame P inp (scPub cfg) 4096 8192 = Inr (hello, rest)" and "establish P cfg w hello sv1 = (Inr r, sv2)"
  shows "handleClient P cfg w addr inp sv = (Inr (r, rest), sv2)"
  using assms by (simp add: handleClient_def read_client_hello_def)

section \<open>Properties\<close>

text \<open>
  Property C33. Stopping a session ends it. Whatever the session, the network, the timer and its user do afterwards, it stays stopped,
  never gets further from its end, and attempts no new connection. In every such state, unless the session is dialling or in
  the handshake, steps of its own (no answer of the network, no end of a delay) take it to its end, where it reports
  that it is disconnected and, if it is one that reconnects, returns no error. A dial or a handshake
  in progress is waited for: its outcome, whichever it is, brings the session nearer to its end.
\<close>
theorem stop_ends_session:
  assumes "session_step\<^sup>*\<^sup>* (fresh_engine auto) e" and "egStopped e"
  shows "(\<forall>e'. session_step\<^sup>*\<^sup>* e e' \<longrightarrow> egStopped e' \<and> rank (egPhase e') \<le> rank (egPhase e) \<and> (egPhase e' = Trying \<longrightarrow> egPhase e = Trying)) \<and>
    (egPhase e \<notin> {Trying, Greeting} \<longrightarrow>
       (\<exists>e' r. (engine_step Self)\<^sup>*\<^sup>* e e' \<and> egPhase e' = Returned r \<and> egStatus e' = ''disconnected'' \<and> (egAuto e' \<longrightarrow> r = None))) \<and>
    (egPhase e \<in> {Trying, Greeting} \<longrightarrow>
       (\<exists>e'. engine_step Net e e') \<and> (\<forall>e'. engine_step Net e e' \<longrightarrow> rank (egPhase e') < rank (egPhase e)))"
proof -
  have i: "engine_inv e" by (rule reachable_engine_inv [OF assms(1)])
  have "egPhase e = Trying" if "session_step\<^sup>*\<^sup>* e e'" "egPhase e' = Trying" for e'
    using stopped_run [OF that(1) assms(2)] that(2) rank_Trying [of "egPhase e"] by simp
  moreover have "\<exists>e' r. (engine_step Self)\<^sup>*\<^sup>* e e' \<and> egPhase e' = Returned r \<and> egStatus e' = ''disconnected'' \<and> (egAuto e' \<longrightarrow> r = None)"
    if "egPhase e \<notin> {Trying, Greeting}"
    using stopped_ends [OF assms(2) that i] unfolding engine_inv_def by blast
  moreover have "\<exists>e'. engine_step Net e e'" if "egPhase e \<in> {Trying, Greeting}"
    using that dial_failed [of e] greet_failed [of e] by blast
  ultimately show ?thesis using stopped_run [OF _ assms(2)] network_step_progress by blast
qed

text \<open>A session with a connection, stopped.\<close>

definition live_engine :: engine where
  "live_engine = (next_attempt (fresh_engine True))\<lparr>egWatching := True, egPhase := Live, egStatus := ''connected''\<rparr>"

theorem stop_ends_session_witness:
  "egPhase (Stop_session live_engine) = Live \<and>
   (\<exists>e' r. (engine_step Self)\<^sup>*\<^sup>* (Stop_session live_engine) e' \<and> egPhase e' = Returned r \<and> egStatus e' = ''disconnected'')"
proof -
  let ?e0 = "fresh_engine True"
  let ?e1 = "next_attempt ?e0"
  let ?e2 = "?e1\<lparr>egPhase := Greeting, egWatching := True\<rparr>"
  have p: "egPhase ?e0 = LoopTop" "egPhase ?e1 = Trying" by (simp_all add: fresh_engine_def next_attempt_def)
  have "session_step ?e0 ?e1" using attempt [OF p(1)] by (rule session_step.own)
  moreover have "session_step ?e1 ?e2" using dialled [OF p(2)] by (rule session_step.own)
  moreover have "session_step ?e2 live_engine"
    using greeted [of ?e2] by (auto simp: live_engine_def intro: session_step.own)
  moreover have "session_step live_engine (Stop_session live_engine)" by (rule session_step.stop)
  ultimately have "session_step\<^sup>*\<^sup>* ?e0 (Stop_session live_engine)"
    by (meson converse_rtranclp_into_rtranclp rtranclp.rtrancl_refl)
  from stop_ends_session [OF this] show ?thesis by (auto simp: Stop_session_def live_engine_def)
qed

text \<open>
  Fact. A change of the network that is reported while the session waits for its next attempt leaves no trace: the
  attempt begins after the same delay, and its connection is not affected.
\<close>
theorem early_network_change_is_dropped:
  assumes "egPhase e = Waiting d" and "\<not> egStopped e" and "\<not> egSignal e"
  shows "next_attempt ((NetworkChanged e)\<lparr>egAttempt := egAttempt e + 1, egPhase := LoopTop\<rparr>) =
    next_attempt (e\<lparr>egAttempt := egAttempt e + 1, egPhase := LoopTop\<rparr>)"
  using assms by (simp add: NetworkChanged_def next_attempt_def)

end
