(* ===== verification/Vpn_Session.thy ===== *)
theory Vpn_Session
  imports Client_Session
begin

text \<open>
  Client and server together: a client that disguises its connection (REALITY) dials a server, passes the
  demultiplexer and establishes its session, starting from the two configuration files.
\<close>

section \<open>Circumstances\<close>

text \<open>
  The network works: the connection is made and everything is written. The real web server behind the disguise answers the client hello with a
  stream that begins with a whole handshake record, however it arrives, or it cannot be reached, in which case the
  demultiplexer builds a server hello of its own.
\<close>

definition network_works :: "client_world \<Rightarrow> world \<Rightarrow> bytes \<Rightarrow> fallback_io \<Rightarrow> reading \<Rightarrow> bool" where
  "network_works w v target io r \<longleftrightarrow>
     dwDial (cwDial w) = Inr () \<and> dwWrite (cwDial w) = Inr () \<and> cwWrites w = (Inr (), Inr (), Inr ()) \<and> wWritten v \<and> written r \<and>
     fetched r = fetchServerHelloFromFallback target io \<and> site_answers io \<and> length (helloRandom r) = 32 \<and> length (helloShare r) = 32"

text \<open>The clocks differ by at most 30 seconds.\<close>

definition clocks_agree :: "client_world \<Rightarrow> world \<Rightarrow> reading \<Rightarrow> bool" where
  "clocks_agree w v r \<longleftrightarrow>
     \<bar>dwUnix (cwDial w)\<bar> < 2 ^ 61 \<and> \<bar>verifiedAt r div second - dwUnix (cwDial w)\<bar> \<le> 30 \<and>
     sint (abs64 (of_int (wNow v div second) - of_int (cwUnix w))) \<le> 30"

text \<open>The server name the client announces, and the token it presents.\<close>

definition announced :: "(bytes \<Rightarrow> bool) \<Rightarrow> client_world \<Rightarrow> 'f Session \<Rightarrow> bytes" where
  "announced isIP w s = reality_sni isIP (dwDraw (cwDial w)) (transport_config (csCfg s) (csServerPub s))"

definition presented_token :: "crypto_lib \<Rightarrow> bytes \<Rightarrow> bytes \<Rightarrow> bytes \<Rightarrow> client_world \<Rightarrow> bytes" where
  "presented_token P key sni rnd w = session_token P key sni rnd (of_int (dwUnix (cwDial w)))"

text \<open>What the configuration files give: the same REALITY key, the same header ranges, and hellos that fit.\<close>

lemma configured:
  assumes su: "load_server N dur fv rnd cfg = Inr su" and target: "reality_target cfg \<noteq> []" "\<not> cfNoTLS cfg"
    and s: "NewSession M dur' P crnd (Some cc) [] = Inr s" "client_reality cc" "\<not> ccNoTLS cc"
    and shared: "ccRealityAuthKey cc = cfRealityAuthKey cfg" "csServerPub s = suPub su" "key = AuthKey (demux_config cfg su)"
    and h: "h = handler_config cfg su"
  shows "client_reality (csCfg s)" "\<not> ccNoTLS (csCfg s)" "ccFingerprint (csCfg s) = ccFingerprint cc"
    "ctRealityAuthKey (transport_config (csCfg s) (csServerPub s)) = key" "key \<noteq> []"
    "Headers (csObf s) = Headers (scObf h)" "max (S1Min (csObf s)) (S1Max (csObf s)) \<le> 6000" "max (S2Min (scObf h)) (S2Max (scObf h)) \<le> 6000"
    "scPub h = csServerPub s" "scReality h" "\<not> scNoTLS h"
proof -
  obtain cc' oc tc where ns: "client_static P crnd cc = Inr (csStatic s, cc')" "csCfg s = cc'" "csObf s = MakeObfConfig cc' oc"
      "ApplyProfile (ccProfile cc') DefaultTunnelConfig DefaultObfuscationConfig = (tc, oc)"
    by (rule NewSession_Inr [OF s(1)])
  have cc: "csCfg s = cc\<lparr>ccClientPrivateKey := ccClientPrivateKey cc'\<rparr>" using client_static_keeps [OF ns(1)] ns(2) by simp
  show re: "client_reality (csCfg s)" "\<not> ccNoTLS (csCfg s)" "ccFingerprint (csCfg s) = ccFingerprint cc"
    using s(2,3) by (simp_all add: cc client_reality_def)
  show "ctRealityAuthKey (transport_config (csCfg s) (csServerPub s)) = key"
    using re(1) shared by (simp add: transport_config_def Let_def demux_config_def cc)
  have "suPub su \<noteq> []" using load_server_Inr(2) [OF su] by auto
  then show "key \<noteq> []" using reality_key_nonempty shared(3) by (simp add: demux_config_def)
  obtain tc2 oc2 where sp: "ApplyProfile (cfProfile cfg) DefaultTunnelConfig DefaultObfuscationConfig = (tc2, oc2)" "makeObfConfig cfg oc2 = Inr (suObf su)"
    using load_server_Inr(8) [OF su] by blast
  show "Headers (csObf s) = Headers (scObf h)" "max (S1Min (csObf s)) (S1Max (csObf s)) \<le> 6000" "max (S2Min (scObf h)) (S2Max (scObf h)) \<le> 6000"
    using profile_paddings [OF ns(4)] profile_paddings [OF sp(1)] makeObfConfig_keeps [OF sp(2)]
    by (simp_all add: ns(3) MakeObfConfig_keeps h handler_config_def)
  show "scPub h = csServerPub s" "scReality h" "\<not> scNoTLS h" using shared(2) target by (simp_all add: h handler_config_def)
qed

section \<open>Properties\<close>

text \<open>
  Property C3. From configuration files to a session: a server and a client that share the REALITY
  key (or both use the server's public key), where the client knows the server's key and is admitted by it, establish a
  session through the demultiplexer, however the first record is cut up. Both ends then hold the same session keys and framers in
  lock-step in both directions, the server knows the static key of the client, and neither end has lost or added a byte of what
  the other sends next. This holds whether the client gets the answer of the real web server or, when that cannot be had, a hello of the
  demultiplexer; the client reads one record of it and scans over the records that came with it, so the one proviso is that
  these do not contain the 8-byte tag of a hello frame by accident.
\<close>
theorem reality_session_established:
  fixes s :: "'f Session" and cfg :: "'g Config"
  assumes P: "prims_ok P"
    and su: "load_server N dur fv rnd cfg = Inr su" and target: "reality_target cfg \<noteq> []" "\<not> cfNoTLS cfg"
    and s: "NewSession M dur' P crnd (Some cc) [] = Inr s" "client_reality cc" "\<not> ccNoTLS cc"
    and shared: "ccRealityAuthKey cc = cfRealityAuthKey cfg" "csServerPub s = suPub su" "AuthKey (rdCfg d) = AuthKey (demux_config cfg su)"
    and world: "network_works w v (FallbackTarget (rdCfg d)) io r" "clocks_agree w v r" "dwRandom (cwDial w) = Inr tokenRandom" "length tokenRandom = 16"
    and name: "utls_builds (U (parseFingerprint M (ccFingerprint cc))) (announced isIP w s)" "name_allowed L d (announced isIP w s)"
    and token: "\<not> cache_lookup (seenAt r) (presented_token P (AuthKey (rdCfg d)) (announced isIP w s) tokenRandom w) (rdCache d)"
    and c: "NewClientHandshakeWithStaticKey P (cwEph w) (cwKem w) (cwSalt w) (csServerPub s) (Some (csStatic s)) (csObf s) = Inr c"
    and hs: "NewServerHandshakeWithConfig P (wEph v) (suPriv su) (suPub su) (suAllowed su) (suObf su) = Inr hs"
    and peers: "peers P c hs z1 z2 z3" "admitted hs (Public (csStatic s))"
    and sv: "enter (wNow v) addr sv = (True, sv1)" "\<not> fst (IsRevoked (wFile v) (Public (csStatic s)) (svRevoked sv1))"
      "\<forall>hello. BuildHello P (cwHello w) (of_int (cwUnix w)) c = Inr hello \<longrightarrow> \<not> cache_lookup (wNow v) (replay_key P hello) (svReplay sv1)"
  shows "\<exists>tls flight sh extra st d' answer fS hs' sv2 fC c' keys.
    (no_false_hello P (suPub su) (surplus sh) (answer @ down) \<longrightarrow> connect P M U isIP w s (sh @ answer @ down) = (tls @ flight, Inr (fC, c', down))) \<and>
    (case fetched r of Inl e \<Rightarrow> surplus sh = [] | Inr b \<Rightarrow> sh = b) \<and>
    processIncoming P L chunk r (tls @ flight @ up) d = (Admitted sh extra, st, d') \<and>
    handleClient P (handler_config cfg su) v addr (content (newPeekedConn extra) st) sv = (Inr ((answer, fS, hs'), up), sv2) \<and>
    cSessionKeys c' = Some keys \<and> sSessionKeys hs' = Some keys \<and> keys_wf keys \<and> in_sync fC fS \<and> in_sync fS fC \<and>
    clientStaticPub hs' = Public (csStatic s)"
proof -
  let ?h = "handler_config cfg su" and ?sni = "announced isIP w s" and ?t = "transport_config (csCfg s) (csServerPub s)"
  note g = configured [OF su target s shared refl]
  have co: "cObfCfg c = csObf s" "staticKeypair c = csStatic s" using c by (auto simp: NewClientHandshakeWithStaticKey_def rbind_Inr)
  have h: "NewServerHandshakeWithConfig P (wEph v) (scPriv ?h) (scPub ?h) (scAllowed ?h) (scObf ?h) = Inr hs"
    using hs by (simp add: handler_config_def)
  have wv: "wWritten v" "sint (abs64 (of_int (wNow v div second) - of_int (cwUnix w))) \<le> 30" using world by (simp_all add: network_works_def clocks_agree_def)
  obtain hello answer frame fS fC hs' c' keys sv2 where e: "BuildHello P (cwHello w) (of_int (cwUnix w)) c = Inr hello" "length hello \<le> 8192"
      "\<not> cache_lookup (wNow v) (replay_key P hello) (svReplay sv1) \<Longrightarrow> establish P ?h v hello sv1 = (Inr (frame, fS, hs'), sv2)"
      "\<And>tail. ReadHelloFrame P (frame @ tail) (scPub ?h) 4096 8192 = Inr (answer, tail)"
      "ProcessServerHello P c answer = (Inr fC, c')" "clientStaticPub hs' = Public (staticKeypair c)"
      "cSessionKeys c' = Some keys" "sSessionKeys hs' = Some keys" "keys_wf keys" "in_sync fC fS" "in_sync fS fC"
    by (rule genuine_established [OF P h peers(1) wv(2) _ _ _ g(8), where sv = sv1 and d = "cwHello w"])
      (use peers(2) sv(2) wv(1) g(6,7) in \<open>auto simp: co\<close>)
  have sha: "sha_ok P" using P by (simp add: prims_ok_def)
  obtain cf where cf: "BuildHelloFrame P (cwFrame w) 0 (csServerPub s) hello = Inr cf" "\<And>tail. ReadHelloFrame P (cf @ tail) (csServerPub s) 4096 8192 = Inr (hello, tail)"
    using hello_frame_read [OF sha e(2), of "cwFrame w" 0 "csServerPub s"] by metis
  obtain tls sh extra st where d: "DialObsidianREALITY P (U (parseFingerprint M (ccFingerprint cc))) isIP (cwDial w) ?t (sh @ frame @ down) = (tls, Inr (surplus sh @ frame @ down))"
      "length (surplus sh) \<le> 4068" "case fetched r of Inl e \<Rightarrow> surplus sh = [] | Inr b \<Rightarrow> sh = b" "\<exists>d'. processIncoming P L chunk r (tls @ cf @ up) d = (Admitted sh extra, st, d')" "content (newPeekedConn extra) st = cf @ up"
    by (rule reality_dial_met [OF sha g(5) g(4) announced_def [of isIP w s] name world(3,4), where r = r and io = io and tok = "presented_token P (AuthKey (rdCfg d)) ?sni tokenRandom w"
          and reply = "frame @ down" and chunk = chunk and onward = "cf @ up"])
      (use world token in \<open>auto simp: network_works_def clocks_agree_def presented_token_def\<close>)
  have seen: "\<not> cache_lookup (wNow v) (replay_key P hello) (svReplay sv1)" using e(1) sv(3) by blast
  obtain offered where o: "BuildHelloFrame P (wRnd v) (wOff v) (scPub ?h) offered = Inr frame" using establish_frame [OF e(3) [OF seen]] by blast
  then have "offered = answer" using hello_frame_read_back [OF sha o, of "[]"] e(4) [of "[]"] by simp
  have dl: "dial P M U isIP w s (sh @ frame @ down) = (tls, Inr (surplus sh @ frame @ down))" using d(1) g(1,3) by (simp add: dial_def)
  have "connect P M U isIP w s (sh @ frame @ down) = (tls @ cf, Inr (fC, c', down))" if "no_false_hello P (suPub su) (surplus sh) (frame @ down)"
  proof -
    have "ReadHelloFrame P (surplus sh @ frame @ down) (csServerPub s) 4096 8192 = Inr (answer, down)"
      using hello_frame_scanned [OF sha o _ d(2), of down] that \<open>offered = answer\<close> g(9) shared(2) by simp
    then show ?thesis using connect_reality [OF g(1,2) dl c _ e(1) cf(1) _ e(5)] world(1) by (simp add: network_works_def)
  qed
  moreover have "handleClient P ?h v addr (content (newPeekedConn extra) st) sv = (Inr ((frame, fS, hs'), up), sv2)"
    using handleClient_reality [OF g(10,11) sv(1) _ e(3)] cf(2) [of up] seen d(5) g(9) by simp
  ultimately show ?thesis using d(3,4) e(6-11) co(2) by metis
qed

section \<open>An example\<close>

definition toy_key :: "byte \<Rightarrow> Keypair" where
  "toy_key b = \<lparr>Private = clamp (replicate 32 b), Public = the (x25519 toy_lib (clamp (replicate 32 b)) Basepoint)\<rparr>"

lemma toy_key_generated: "GenerateKeypair toy_lib (replicate 32 b) = Inr (toy_key b)"
  by (simp add: GenerateKeypair_def toy_key_def toy_lib_def Let_def)

lemma toy_key_lengths [simp]: "length (Private (toy_key b)) = 32" "length (Public (toy_key b)) = 32"
  by (simp_all add: toy_key_def clamp_def toy_lib_def Let_def)

lemma toy_key_ok: "kp_ok toy_lib (toy_key b)"
  by (rule GenerateKeypair_ok [OF toy_key_generated])

lemma toy_key_dh:
  assumes "a + b \<noteq> 0"
  shows "\<exists>z. DHSafe toy_lib (Private (toy_key a)) (Public (toy_key b)) = Inr z"
proof -
  define z where "z = the (x25519 toy_lib (Private (toy_key a)) (Public (toy_key b)))"
  have "z ! 1 = a + b" by (simp add: z_def toy_key_def clamp_def toy_lib_def Basepoint_def)
  with assms have "z \<noteq> replicate 32 0" by auto
  moreover have "x25519 toy_lib (Private (toy_key a)) (Public (toy_key b)) = Some z" unfolding z_def by (simp add: toy_lib_def)
  ultimately show ?thesis by (simp add: DHSafe_def DH_def ConstantTimeEqual_def)
qed

definition vpn_file :: "int Config" where
  "vpn_file = example_file\<lparr>cfServerPrivateKey := EncodeToString (Private (toy_key 3)), cfServerPublicKey := EncodeToString (Public (toy_key 3)),
     cfAllowedClients := None, cfRealityTarget := lit ''a:443''\<rparr>"

definition vpn_setup :: server_setup where
  "vpn_setup = example_setup\<lparr>suPriv := Private (toy_key 3), suPub := Public (toy_key 3), suAllowed := None\<rparr>"

definition vpn_client :: "int ClientConfig" where
  "vpn_client = example_client_config\<lparr>ccServerPublicKey := EncodeToString (Public (toy_key 3))\<rparr>"

definition vpn_hello :: "bytes \<Rightarrow> bytes \<Rightarrow> client_hello" where
  "vpn_hello sni sid = \<lparr>chVersion = [3, 3], chRandom = replicate 32 7, chSession = sid, chSuites = [0x13, 1], chCompression = [0],
     chExts = [ServerName [(0, sni)]]\<rparr>"

definition vpn_utls :: "ClientHelloID \<Rightarrow> bytes \<Rightarrow> bytes \<Rightarrow> bytes res" where
  "vpn_utls fp sni sid = (let b = hello_body (vpn_hello sni sid) in Inr (1 # drop 1 (be32 (of_nat (length b))) @ b))"

lemma vpn_utls_builds:
  assumes "length sni < 256"
  shows "utls_builds (vpn_utls fp) sni"
proof -
  have "hello_ok 1 (vpn_hello sni sid) \<and> first_host (chExts (vpn_hello sni sid)) = sni" if "length sid = 32" for sid
    using assms that by (simp add: vpn_hello_def hello_ok_def hello_body_def ext_entry_def first_host_def)
  moreover have "chSession (vpn_hello sni sid) = sid" for sid by (simp add: vpn_hello_def)
  ultimately show ?thesis unfolding utls_builds_def vpn_utls_def hello_record_def Let_def by fastforce
qed

definition vpn_world :: client_world where
  "vpn_world = \<lparr>cwDial = \<lparr>dwDraw = 0, dwRandom = Inr (replicate 16 2), dwUnix = 100, dwDial = Inr (), dwWrite = Inr ()\<rparr>,
     cwTLS = \<lambda>_ _ _. Inr (), cwEph = replicate 32 1, cwKem = [1], cwSalt = replicate 32 9, cwSigs = \<lambda>_. 0, cwJunk = \<lambda>_. 0,
     cwHello = example_hello_draws, cwFrame = \<lambda>_. 1, cwUnix = 90, cwWrites = (Inr (), Inr (), Inr ())\<rparr>"

definition vpn_server :: "nat server" where
  "vpn_server = hoServer (boot 0 vpn_setup)"

lemma vpn_loads: "load_server example_go id example_view (replicate 32 9) vpn_file = Inr vpn_setup"
proof -
  obtain tc oc where p: "ApplyProfile [] DefaultTunnelConfig DefaultObfuscationConfig = (tc, oc)" by fastforce
  have "newRevocationStore example_view [] [] = Inr \<lparr>rvPath = [], rvKeys = {}, rvModTime = zeroTime, rvInitialized = False\<rparr>"
    by (simp add: newRevocationStore_def)
  moreover have "makeObfConfig vpn_file oc = Inr oc" "makeTunnelConfig example_go id vpn_file tc = tc"
    by (simp_all add: makeObfConfig_def makeTunnelConfig_def vpn_file_def example_file_def example_go_def jitter_named_def)
  moreover have "cookie_secret (replicate 32 9) vpn_file = replicate 32 9" by (simp add: cookie_secret_def vpn_file_def example_file_def)
  moreover have "allowed_clients vpn_file = Inr None" by (simp add: allowed_clients_def vpn_file_def)
  ultimately show ?thesis
    by (simp add: load_server_def p vpn_setup_def example_setup_def decode_key_def KeySize_def or_default_def vpn_file_def example_file_def)
qed

lemma profile_nonneg:
  "ApplyProfile profile DefaultTunnelConfig DefaultObfuscationConfig = (tc, oc) \<Longrightarrow> 0 \<le> S1Min oc \<and> 0 \<le> S2Min oc"
  by (auto simp: ApplyProfile_def DefaultObfuscationConfig_def split: if_splits)

lemma vpn_session:
  obtains s where "NewSession example_go id toy_lib (replicate 32 2) (Some vpn_client) [] = Inr s" and "csStatic s = toy_key 2"
    and "csServerPub s = Public (toy_key 3)" and "csCfg s = vpn_client\<lparr>ccClientPrivateKey := EncodeToString (Private (toy_key 2))\<rparr>" and "0 \<le> S1Min (csObf s)"
proof -
  obtain tc oc where p: "ApplyProfile (ccProfile vpn_client) DefaultTunnelConfig DefaultObfuscationConfig = (tc, oc)" by fastforce
  have "ccClientPrivateKey vpn_client = []" "ccServerPublicKey vpn_client = EncodeToString (Public (toy_key 3))"
    by (simp_all add: vpn_client_def example_client_config_def DefaultClientConfig_def)
  then show thesis
    using that p profile_nonneg [OF p] by (simp add: NewSession_def client_static_def toy_key_generated decode_key_def KeySize_def MakeObfConfig_keeps)
qed

lemma vpn_server_facts:
  obtains sv where "enter (wNow example_world) None vpn_server = (True, sv)" and "svReplay sv = newHandshakeReplayCache (120 * second)"
    and "\<not> fst (IsRevoked (wFile example_world) key (svRevoked sv))" and "0 \<le> S2Min (suObf vpn_setup)"
proof -
  obtain tc oc where p: "ApplyProfile [] DefaultTunnelConfig DefaultObfuscationConfig = (tc, oc)" by fastforce
  then show thesis
    using that profile_nonneg [OF p]
    by (simp add: vpn_server_def boot_def start_host_def enter_def Acquire_def NewHandshakeRateLimiter_def vpn_setup_def example_setup_def
        IsRevoked_def reload_def)
qed

text \<open>The real web server answers with one handshake record, which arrives in two pieces.\<close>

definition vpn_record :: bytes where
  "vpn_record = [0x16, 3, 3, 0, 24] @ replicate 24 5"

definition vpn_site :: fallback_io where
  "vpn_site = \<lparr>fbDial = True, fbWrite = True, fbChunk = \<lambda>_. 9, fbStream = vpn_record\<rparr>"

definition vpn_reading :: reading where
  "vpn_reading = (example_reading 110)\<lparr>fetched := Inr vpn_record\<rparr>"

lemma vpn_whole: "whole_record (fbStream vpn_site)" "surplus vpn_record = []"
  by (simp_all add: whole_record_def surplus_def record_length_def vpn_site_def vpn_record_def Let_def subslice_def rd16_def)

lemma vpn_fetched:
  "fetchServerHelloFromFallback (FallbackTarget (rdCfg (NewRealityDemuxer id (demux_config vpn_file vpn_setup)))) vpn_site = Inr vpn_record"
proof -
  let ?t = "FallbackTarget (rdCfg (NewRealityDemuxer id (demux_config vpn_file vpn_setup)))"
  have t: "?t \<noteq> []"
    by (simp add: NewRealityDemuxer_def demux_config_def Let_def reality_target_def vpn_file_def example_file_def utf8_def utf8_rune_def lit_def)
  have "fetchServerHelloFromFallback [1] vpn_site = Inr vpn_record" by code_simp
  with t show ?thesis by (simp add: fetchServerHelloFromFallback_def)
qed

lemma vpn_circumstances:
  "reality_target vpn_file \<noteq> []" "\<not> cfNoTLS vpn_file" "client_reality vpn_client" "\<not> ccNoTLS vpn_client"
  "ccRealityAuthKey vpn_client = cfRealityAuthKey vpn_file"
  "clocks_agree vpn_world example_world vpn_reading" "dwRandom (cwDial vpn_world) = Inr (replicate 16 2)"
  by (simp_all add: vpn_file_def example_file_def reality_target_def vpn_client_def example_client_config_def DefaultClientConfig_def client_reality_def
      clocks_agree_def vpn_world_def example_world_def vpn_reading_def example_reading_def abs64_def)

lemma vpn_network: "network_works vpn_world example_world (FallbackTarget (rdCfg (NewRealityDemuxer id (demux_config vpn_file vpn_setup)))) vpn_site vpn_reading"
  by (simp add: network_works_def vpn_fetched vpn_world_def example_world_def vpn_reading_def example_reading_def site_answers_def vpn_whole)

lemma vpn_demuxer:
  "AuthKey (rdCfg (NewRealityDemuxer id (demux_config vpn_file vpn_setup))) = AuthKey (demux_config vpn_file vpn_setup)"
  "name_allowed id (NewRealityDemuxer id (demux_config vpn_file vpn_setup)) sni"
  "\<not> cache_lookup t tok (rdCache (NewRealityDemuxer id (demux_config vpn_file vpn_setup)))"
  by (simp_all add: NewRealityDemuxer_def demux_config_def Let_def name_allowed_def reality_names_def vpn_file_def example_file_def
      cache_lookup_def NewRealityReplayCache_def)

theorem reality_session_established_witness:
  "\<exists>s tls flight sh extra st d' answer fS hs' sv2 fC c' keys.
    NewSession example_go id toy_lib (replicate 32 2) (Some vpn_client) [] = Inr s \<and>
    connect toy_lib example_go vpn_utls (\<lambda>_. False) vpn_world s (sh @ answer @ [7]) = (tls @ flight, Inr (fC, c', [7])) \<and>
    sh = vpn_record \<and>
    processIncoming toy_lib id (\<lambda>_. 0) vpn_reading (tls @ flight @ [8]) (NewRealityDemuxer id (demux_config vpn_file vpn_setup)) = (Admitted sh extra, st, d') \<and>
    handleClient toy_lib (handler_config vpn_file vpn_setup) example_world None (content (newPeekedConn extra) st) vpn_server = (Inr ((answer, fS, hs'), [8]), sv2) \<and>
    cSessionKeys c' = Some keys \<and> sSessionKeys hs' = Some keys \<and> in_sync fC fS \<and> in_sync fS fC"
proof -
  obtain s where s: "NewSession example_go id toy_lib (replicate 32 2) (Some vpn_client) [] = Inr s" and ss: "csStatic s = toy_key 2" "csServerPub s = Public (toy_key 3)"
      "csCfg s = vpn_client\<lparr>ccClientPrivateKey := EncodeToString (Private (toy_key 2))\<rparr>" "0 \<le> S1Min (csObf s)"
    by (rule vpn_session)
  have sni: "announced (\<lambda>_. False) vpn_world s = [97, 46, 98]"
    by (simp add: announced_def transport_config_def ss client_reality_def vpn_client_def example_client_config_def reality_sni_def utf8_def utf8_rune_def lit_def)
  obtain c where c: "NewClientHandshakeWithStaticKey toy_lib (cwEph vpn_world) (cwKem vpn_world) (cwSalt vpn_world) (csServerPub s) (Some (csStatic s)) (csObf s) = Inr c"
      "ephemeralKeypair c = toy_key 1" "staticKeypair c = toy_key 2" "serverStaticPub c = Public (toy_key 3)" "cObfCfg c = csObf s" "cSalt c = replicate 32 9"
      "mlkemKeypair c = GenerateMLKEMKeypair toy_lib [1]"
    by (simp add: NewClientHandshakeWithStaticKey_def vpn_world_def toy_key_generated ss)
  obtain hs where hs: "NewServerHandshakeWithConfig toy_lib (wEph example_world) (suPriv vpn_setup) (suPub vpn_setup) (suAllowed vpn_setup) (suObf vpn_setup) = Inr hs"
      "staticPriv hs = Private (toy_key 3)" "staticPub hs = Public (toy_key 3)" "ephKeypair hs = toy_key 4" "allowedClients hs = None" "sObfCfg hs = suObf vpn_setup"
    by (simp add: NewServerHandshakeWithConfig_def example_world_def toy_key_generated vpn_setup_def)
  obtain sv1 where sv: "enter (wNow example_world) None vpn_server = (True, sv1)" "svReplay sv1 = newHandshakeReplayCache (120 * second)"
      "\<not> fst (IsRevoked (wFile example_world) (Public (csStatic s)) (svRevoked sv1))" "0 \<le> S2Min (suObf vpn_setup)"
    by (rule vpn_server_facts)
  obtain z1 z2 z3 where "DHSafe toy_lib (Private (toy_key 1)) (Public (toy_key 3)) = Inr z1" "DHSafe toy_lib (Private (toy_key 2)) (Public (toy_key 3)) = Inr z2"
      "DHSafe toy_lib (Private (toy_key 4)) (Public (toy_key 1)) = Inr z3"
    using toy_key_dh [of 1 3] toy_key_dh [of 2 3] toy_key_dh [of 4 1] by auto
  then have p: "peers toy_lib c hs z1 z2 z3"
    using toy_key_ok [of 1] toy_key_ok [of 2] toy_key_ok [of 3] toy_key_ok [of 4] c hs ss(4) sv(4) by (simp add: peers_def GenerateMLKEMKeypair_def kp_ok_def)
  have pub: "csServerPub s = suPub vpn_setup" by (simp add: ss vpn_setup_def)
  have u: "utls_builds (vpn_utls fp) (announced (\<lambda>_. False) vpn_world s)" for fp by (rule vpn_utls_builds) (simp add: sni)
  have fresh: "\<forall>hello. BuildHello toy_lib (cwHello vpn_world) (of_int (cwUnix vpn_world)) c = Inr hello \<longrightarrow>
      \<not> cache_lookup (wNow example_world) (replay_key toy_lib hello) (svReplay sv1)"
    using sv(2) by (simp add: cache_lookup_def newHandshakeReplayCache_def)
  have ad: "admitted hs (Public (csStatic s))" using hs(5) by (simp add: admitted_def)
  note v = vpn_circumstances
  obtain tls flight sh extra st d' answer fS hs' sv2 fC c' keys where
    x: "no_false_hello toy_lib (suPub vpn_setup) (surplus sh) (answer @ [7]) \<longrightarrow>
      connect toy_lib example_go vpn_utls (\<lambda>_. False) vpn_world s (sh @ answer @ [7]) = (tls @ flight, Inr (fC, c', [7]))"
    and y: "case fetched vpn_reading of Inl e \<Rightarrow> surplus sh = [] | Inr b \<Rightarrow> sh = b"
    and z: "processIncoming toy_lib id (\<lambda>_. 0) vpn_reading (tls @ flight @ [8]) (NewRealityDemuxer id (demux_config vpn_file vpn_setup)) = (Admitted sh extra, st, d')"
      "handleClient toy_lib (handler_config vpn_file vpn_setup) example_world None (content (newPeekedConn extra) st) vpn_server = (Inr ((answer, fS, hs'), [8]), sv2)"
      "cSessionKeys c' = Some keys" "sSessionKeys hs' = Some keys" "in_sync fC fS" "in_sync fS fC"
    using reality_session_established [where U = vpn_utls, OF toy_prims_ok vpn_loads v(1,2) s v(3-5) pub vpn_demuxer(1) vpn_network v(6,7) length_replicate u vpn_demuxer(2,3) c(1) hs(1) p ad sv(1,3) fresh,
        where down = "[7]" and up = "[8]" and chunk = "\<lambda>_. 0"]
    by (elim exE conjE)
  have sh: "sh = vpn_record" using y by (simp add: vpn_reading_def)
  then have "connect toy_lib example_go vpn_utls (\<lambda>_. False) vpn_world s (sh @ answer @ [7]) = (tls @ flight, Inr (fC, c', [7]))"
    using x vpn_whole(2) by (simp add: no_false_hello_def)
  then show ?thesis using s sh z by (intro exI conjI)
qed

end
