(* ===== verification/Route_Plan.thy ===== *)
theory Route_Plan
  imports Go_Strings
begin

text \<open>
  The planner of \<^verbatim>\<open>obsidian/tun/plan.go\<close>: which prefixes go into the tunnel and which
  past it. An address is the list of its bits (32 for IPv4, 128 for IPv6) and a masked prefix the
  list of its leading bits. The text parsers of \<^verbatim>\<open>net/netip\<close> are arguments. Where the code
  keeps maps of prefixes it has seen, the model looks into the lists they mirror.
\<close>

section \<open>Addresses and prefixes\<close>

type_synonym addr_bits = "bool list"

record prefix =
  px6 :: bool
  pxBits :: "bool list"

text \<open>What is read from text: an address, or an address with a number of bits.\<close>

record netip_lib =
  ParsePrefix :: "gostring \<Rightarrow> (addr_bits \<times> nat) option"
  ParseAddr :: "gostring \<Rightarrow> addr_bits option"
  unicodeLower :: "rune \<Rightarrow> rune"

definition addr_ok :: "addr_bits \<Rightarrow> bool" where
  "addr_ok a \<longleftrightarrow> length a = 32 \<or> length a = 128"

definition Is4In6 :: "addr_bits \<Rightarrow> bool" where
  "Is4In6 a \<longleftrightarrow> length a = 128 \<and> take 96 a = replicate 80 False @ replicate 16 True"

definition Unmap :: "addr_bits \<Rightarrow> addr_bits" where
  "Unmap a = (if Is4In6 a then drop 96 a else a)"

text \<open>\<^verbatim>\<open>netip.PrefixFrom(a, a.BitLen())\<close>\<close>

definition host_prefix :: "addr_bits \<Rightarrow> prefix" where
  "host_prefix a = \<lparr>px6 = (length a = 128), pxBits = a\<rparr>"

definition normalizePrefix :: "addr_bits \<times> nat \<Rightarrow> prefix" where
  "normalizePrefix p =
     (case p of (a, bits) \<Rightarrow>
        if Is4In6 a then \<lparr>px6 = False, pxBits = take (bits - 96) (Unmap a)\<rparr>
        else \<lparr>px6 = (length a = 128), pxBits = take bits a\<rparr>)"

definition entryPrefix :: "netip_lib \<Rightarrow> gostring \<Rightarrow> prefix option" where
  "entryPrefix N entry =
     (let entry = TrimSpace entry
      in case ParsePrefix N entry of
           Some p \<Rightarrow> Some (normalizePrefix p)
         | None \<Rightarrow>
             case ParseAddr N entry of
               Some a \<Rightarrow> Some (host_prefix (Unmap a))
             | None \<Rightarrow> None)"

definition ipToPrefix :: "addr_bits \<Rightarrow> prefix option" where
  "ipToPrefix ip = (if addr_ok ip then Some (host_prefix (Unmap ip)) else None)"

definition hostKey :: "netip_lib \<Rightarrow> gostring \<Rightarrow> gostring" where
  "hostKey N raw =
     (let d = ToLower (unicodeLower N) (TrimSpace raw);
          d = TrimPrefix d (lit ''http://'');
          d = TrimPrefix d (lit ''https://'');
          d = cut_at_any d (lit ''/:?#'');
          d = TrimPrefix d (lit ''*.'');
          d = TrimPrefix d (lit ''.'')
      in TrimSuffix d (lit ''.''))"

text \<open>The loop over the entries, with the hosts and the entries without a dot found so far.\<close>

fun domain_loop :: "netip_lib \<Rightarrow> gostring list \<Rightarrow> gostring list \<Rightarrow> gostring list \<Rightarrow> gostring list \<times> gostring list" where
  "domain_loop N [] hosts unresolvable = (hosts, unresolvable)"
| "domain_loop N (e # es) hosts unresolvable =
     (let e = TrimSpace e; h = hostKey N e
      in if e = [] \<or> HasPrefix e (lit ''#'') then domain_loop N es hosts unresolvable
         else if entryPrefix N e \<noteq> None then domain_loop N es hosts unresolvable
         else if h = [] then domain_loop N es hosts unresolvable
         else if \<not> str_Contains h (lit ''.'') then domain_loop N es hosts (unresolvable @ [e])
         else if h \<notin> set hosts then domain_loop N es (hosts @ [h]) unresolvable
         else domain_loop N es hosts unresolvable)"

definition domainEntries :: "netip_lib \<Rightarrow> gostring list \<Rightarrow> gostring list \<times> gostring list" where
  "domainEntries N entries = domain_loop N entries [] []"

section \<open>The plan\<close>

definition SplitModeInclude :: gostring where "SplitModeInclude = lit ''include''"
definition SplitModeExclude :: gostring where "SplitModeExclude = lit ''exclude''"
definition SplitModeOff :: gostring where "SplitModeOff = []"

definition defaultRoutes :: "prefix list" where
  "defaultRoutes =
     [\<lparr>px6 = False, pxBits = [False]\<rparr>, \<lparr>px6 = False, pxBits = [True]\<rparr>,
      \<lparr>px6 = True, pxBits = [False]\<rparr>, \<lparr>px6 = True, pxBits = [True]\<rparr>]"

definition addGW :: "prefix \<Rightarrow> prefix list \<Rightarrow> prefix list" where
  "addGW p gw = (if p \<in> set gw then gw else gw @ [p])"

definition addTun :: "prefix list \<Rightarrow> prefix \<Rightarrow> prefix list \<Rightarrow> prefix list" where
  "addTun servers p tun = (if p \<in> set tun \<or> p \<in> set servers then tun else tun @ [p])"

definition keep_prefix :: "bool \<Rightarrow> prefix \<Rightarrow> bool" where
  "keep_prefix ipv6 p \<longleftrightarrow> ipv6 \<or> \<not> px6 p"

text \<open>The prefixes of one entry: its own, or those of the addresses its name resolved to.\<close>

definition entry_prefixes :: "netip_lib \<Rightarrow> (gostring \<rightharpoonup> addr_bits list) \<Rightarrow> bool \<Rightarrow> gostring \<Rightarrow> prefix list" where
  "entry_prefixes N resolved ipv6 e =
     (let e = TrimSpace e
      in if e = [] \<or> HasPrefix e (lit ''#'') then []
         else case entryPrefix N e of
                Some p \<Rightarrow> if keep_prefix ipv6 p then [p] else []
              | None \<Rightarrow>
                  filter (keep_prefix ipv6)
                    (List.map_filter ipToPrefix (case resolved (hostKey N e) of None \<Rightarrow> [] | Some ips \<Rightarrow> ips)))"

definition split_prefixes :: "netip_lib \<Rightarrow> gostring \<Rightarrow> gostring list \<Rightarrow> (gostring \<rightharpoonup> addr_bits list) \<Rightarrow> bool \<Rightarrow> prefix list" where
  "split_prefixes N mode entries resolved ipv6 =
     (if mode = SplitModeInclude \<or> mode = SplitModeExclude
      then concat (map (entry_prefixes N resolved ipv6) entries) else [])"

definition planRoutes ::
    "netip_lib \<Rightarrow> gostring \<Rightarrow> gostring list \<Rightarrow> (gostring \<rightharpoonup> addr_bits list) \<Rightarrow> gostring \<Rightarrow> addr_bits list \<Rightarrow> bool
     \<Rightarrow> prefix list \<times> prefix list" where
  "planRoutes N mode entries resolved dns serverIPs ipv6 =
     (let servers = List.map_filter ipToPrefix serverIPs;
          gw = fold addGW servers [];
          split = split_prefixes N mode entries resolved ipv6;
          (tun, gw) =
            (if mode = SplitModeInclude then (fold (addTun servers) split [], gw)
             else if mode = SplitModeExclude then (fold (addTun servers) defaultRoutes [], fold addGW split gw)
             else (fold (addTun servers) defaultRoutes [], gw));
          tun =
            (case ParseAddr N (TrimSpace dns) of
               None \<Rightarrow> tun
             | Some a \<Rightarrow>
                 let p = host_prefix (Unmap a) in if keep_prefix ipv6 p then addTun servers p tun else tun)
      in (tun, gw))"

section \<open>Where a packet goes\<close>

text \<open>
  The routing of the host: the longest prefix that covers a destination decides. If the longest
  prefixes of both kinds are the same, the operating system has to choose; if none covers the
  destination, the route of the system stays in force.
\<close>

definition covers :: "prefix \<Rightarrow> addr_bits \<Rightarrow> bool" where
  "covers p a \<longleftrightarrow> px6 p = (length a = 128) \<and> take (length (pxBits p)) a = pxBits p"

datatype hop = IntoTunnel | PastTunnel | Undecided | SystemRoute

definition best :: "prefix list \<Rightarrow> addr_bits \<Rightarrow> nat option" where
  "best ps a =
     (case map (\<lambda>p. length (pxBits p)) (filter (\<lambda>p. covers p a) ps) of [] \<Rightarrow> None | l # ls \<Rightarrow> Some (fold max ls l))"

definition next_hop :: "prefix list \<times> prefix list \<Rightarrow> addr_bits \<Rightarrow> hop" where
  "next_hop plan a =
     (case (best (fst plan) a, best (snd plan) a) of
        (None, None) \<Rightarrow> SystemRoute
      | (Some m, None) \<Rightarrow> IntoTunnel
      | (None, Some n) \<Rightarrow> PastTunnel
      | (Some m, Some n) \<Rightarrow> if n < m then IntoTunnel else if m < n then PastTunnel else Undecided)"

lemma best_None: "best ps a = None \<longleftrightarrow> (\<forall>p \<in> set ps. \<not> covers p a)"
proof -
  have "best ps a = None \<longleftrightarrow> filter (\<lambda>p. covers p a) ps = []"
    by (cases "filter (\<lambda>p. covers p a) ps") (simp_all add: best_def)
  then show ?thesis by (simp add: filter_empty_conv)
qed

lemma best_Some:
  assumes "best ps a = Some n"
  shows "\<exists>p \<in> set ps. covers p a \<and> length (pxBits p) = n" and "p \<in> set ps \<Longrightarrow> covers p a \<Longrightarrow> length (pxBits p) \<le> n"
proof -
  let ?ls = "map (\<lambda>p. length (pxBits p)) (filter (\<lambda>p. covers p a) ps)"
  from assms obtain l ls where ls: "?ls = l # ls" "n = fold max ls l" by (auto simp: best_def split: list.splits)
  have n: "n = Max (set ?ls)" unfolding ls(1) by (simp only: Max.set_eq_fold ls(2))
  have ne: "set ?ls \<noteq> {}" using ls(1) by simp
  show "\<exists>p \<in> set ps. covers p a \<and> length (pxBits p) = n" using Max_in [OF finite_set ne] unfolding n by auto
  show "length (pxBits p) \<le> n" if "p \<in> set ps" "covers p a" using that unfolding n by (intro Max_ge) auto
qed

lemma next_hop_tunnel:
  assumes "p \<in> set tun" and "covers p a" and "\<And>q. q \<in> set gw \<Longrightarrow> covers q a \<Longrightarrow> length (pxBits q) < length (pxBits p)"
  shows "next_hop (tun, gw) a = IntoTunnel"
proof -
  obtain m where m: "best tun a = Some m" using best_None [of tun a] assms(1,2) by (cases "best tun a") auto
  have "n < m" if "best gw a = Some n" for n
    using best_Some(1) [OF that] best_Some(2) [OF m assms(1,2)] assms(3) by force
  then show ?thesis using m by (auto simp: next_hop_def split: option.splits)
qed

lemma next_hop_gateway:
  assumes "q \<in> set gw" and "covers q a" and "\<And>p. p \<in> set tun \<Longrightarrow> covers p a \<Longrightarrow> length (pxBits p) < length (pxBits q)"
  shows "next_hop (tun, gw) a = PastTunnel"
proof -
  obtain n where n: "best gw a = Some n" using best_None [of gw a] assms(1,2) by (cases "best gw a") auto
  have "m < n" if "best tun a = Some m" for m
    using best_Some(1) [OF that] best_Some(2) [OF n assms(1,2)] assms(3) by force
  then show ?thesis using n by (auto simp: next_hop_def split: option.splits)
qed

lemma next_hop_system:
  "(\<And>p. p \<in> set tun \<union> set gw \<Longrightarrow> \<not> covers p a) \<Longrightarrow> next_hop (tun, gw) a = SystemRoute"
  using best_None [of tun a] best_None [of gw a] by (simp add: next_hop_def)

section \<open>What is planned\<close>

lemma set_fold_addGW: "set (fold addGW ps gw) = set gw \<union> set ps"
  by (induction ps arbitrary: gw) (auto simp: addGW_def)

lemma set_fold_addTun: "set (fold (addTun S) ps tun) = set tun \<union> (set ps - set S)"
  by (induction ps arbitrary: tun) (auto simp: addTun_def)

definition server_prefixes :: "addr_bits list \<Rightarrow> prefix set" where
  "server_prefixes ips = {host_prefix (Unmap ip) | ip. ip \<in> set ips \<and> addr_ok ip}"

definition dns_prefixes :: "netip_lib \<Rightarrow> gostring \<Rightarrow> bool \<Rightarrow> prefix set" where
  "dns_prefixes N dns ipv6 =
     {host_prefix (Unmap a) | a. ParseAddr N (TrimSpace dns) = Some a \<and> keep_prefix ipv6 (host_prefix (Unmap a))}"

lemma server_prefixes_eq: "set (List.map_filter ipToPrefix ips) = server_prefixes ips"
  by (auto simp: server_prefixes_def map_filter_def ipToPrefix_def)

lemma plan_sets:
  assumes "planRoutes N mode entries resolved dns ips ipv6 = (tun, gw)"
  shows "set gw = server_prefixes ips \<union> (if mode = SplitModeExclude then set (split_prefixes N mode entries resolved ipv6) else {})"
    and "set tun = ((if mode = SplitModeInclude then set (split_prefixes N mode entries resolved ipv6) else set defaultRoutes) \<union>
           dns_prefixes N dns ipv6) - server_prefixes ips"
proof -
  have ne: "SplitModeInclude \<noteq> SplitModeExclude" by (simp add: SplitModeInclude_def SplitModeExclude_def)
  let ?S = "List.map_filter ipToPrefix ips" and ?E = "split_prefixes N mode entries resolved ipv6"
  let ?t = "fold (addTun ?S) (if mode = SplitModeInclude then ?E else defaultRoutes) []"
  let ?g = "if mode = SplitModeExclude then fold addGW ?E (fold addGW ?S []) else fold addGW ?S []"
  have "gw = ?g"
    using assms ne by (auto simp: planRoutes_def Let_def split: if_splits)
  then show "set gw = server_prefixes ips \<union> (if mode = SplitModeExclude then set ?E else {})"
    by (simp add: set_fold_addGW server_prefixes_eq)
  have "tun = (case ParseAddr N (TrimSpace dns) of None \<Rightarrow> ?t
      | Some a \<Rightarrow> if keep_prefix ipv6 (host_prefix (Unmap a)) then addTun ?S (host_prefix (Unmap a)) ?t else ?t)"
    using assms ne by (auto simp: planRoutes_def Let_def split: if_splits option.splits)
  then show "set tun = ((if mode = SplitModeInclude then set ?E else set defaultRoutes) \<union> dns_prefixes N dns ipv6) - server_prefixes ips"
    using set_fold_addTun [of ?S "if mode = SplitModeInclude then ?E else defaultRoutes" "[]"] server_prefixes_eq [of ips]
    by (auto simp: dns_prefixes_def addTun_def split: option.splits if_splits)
qed

text \<open>The parsers return addresses of 4 or 16 bytes.\<close>

definition netip_ok :: "netip_lib \<Rightarrow> bool" where
  "netip_ok N \<longleftrightarrow> (\<forall>s a. ParseAddr N s = Some a \<longrightarrow> addr_ok a)"

lemma Unmap_ok: "addr_ok a \<Longrightarrow> addr_ok (Unmap a)"
  by (auto simp: addr_ok_def Unmap_def Is4In6_def)

lemma covers_host: "addr_ok a \<Longrightarrow> addr_ok b \<Longrightarrow> covers (host_prefix b) a \<longleftrightarrow> b = a"
  by (auto simp: covers_def host_prefix_def addr_ok_def)

lemma covers_length:
  assumes "covers p a"
  shows "length (pxBits p) \<le> length a" and "length (pxBits p) = length a \<Longrightarrow> p = host_prefix a"
proof -
  have t: "take (length (pxBits p)) a = pxBits p" and v: "px6 p = (length a = 128)" using assms by (simp_all add: covers_def)
  show "length (pxBits p) \<le> length a" using arg_cong [OF t, of length] by simp
  show "p = host_prefix a" if l: "length (pxBits p) = length a"
  proof -
    have "pxBits p = a" using t unfolding l by simp
    then show ?thesis using v by (simp add: host_prefix_def)
  qed
qed

lemma host_prefix_inject: "host_prefix a = host_prefix b \<longleftrightarrow> a = b"
  by (auto simp: host_prefix_def)

lemma server_covers:
  assumes "q \<in> server_prefixes ips" and "addr_ok a"
  shows "covers q a \<longleftrightarrow> q = host_prefix a"
proof -
  obtain ip where "q = host_prefix (Unmap ip)" "addr_ok ip" using assms(1) by (auto simp: server_prefixes_def)
  then show ?thesis using covers_host [OF assms(2) Unmap_ok] by (simp add: host_prefix_inject)
qed

lemma dns_covers:
  assumes "netip_ok N" and "q \<in> dns_prefixes N dns ipv6" and "addr_ok a"
  shows "covers q a \<longleftrightarrow> q = host_prefix a"
proof -
  obtain b where "q = host_prefix (Unmap b)" "addr_ok b" using assms(1,2) by (auto simp: dns_prefixes_def netip_ok_def)
  then show ?thesis using covers_host [OF assms(3) Unmap_ok] by (simp add: host_prefix_inject)
qed

lemma default_covers:
  assumes "addr_ok a"
  obtains p where "p \<in> set defaultRoutes" and "covers p a"
proof -
  obtain x xs where a: "a = x # xs" using assms by (cases a) (auto simp: addr_ok_def)
  show thesis
    by (rule that [of "\<lparr>px6 = (length a = 128), pxBits = [x]\<rparr>"]) (cases x; auto simp: defaultRoutes_def covers_def a)+
qed

lemma default_length: "p \<in> set defaultRoutes \<Longrightarrow> length (pxBits p) = 1"
  by (auto simp: defaultRoutes_def)

lemma default_not_server: "p \<in> set defaultRoutes \<Longrightarrow> p \<notin> server_prefixes ips"
proof
  assume d: "p \<in> set defaultRoutes" and "p \<in> server_prefixes ips"
  then obtain ip where "p = host_prefix (Unmap ip)" "addr_ok (Unmap ip)" using Unmap_ok by (auto simp: server_prefixes_def)
  then show False using default_length [OF d] by (auto simp: host_prefix_def addr_ok_def)
qed

lemma server_past_tunnel:
  assumes "planRoutes N mode entries resolved dns ips ipv6 = (tun, gw)" and "host_prefix a \<in> server_prefixes ips"
    and "addr_ok a"
  shows "next_hop (tun, gw) a = PastTunnel"
proof (rule next_hop_gateway [of "host_prefix a"])
  show "host_prefix a \<in> set gw" using plan_sets(1) [OF assms(1)] assms(2) by simp
  show "covers (host_prefix a) a" using covers_host [OF assms(3,3)] by simp
  fix p assume p: "p \<in> set tun" "covers p a"
  then have "p \<noteq> host_prefix a" using plan_sets(2) [OF assms(1)] assms(2) by auto
  then show "length (pxBits p) < length (pxBits (host_prefix a))"
    using covers_length [OF p(2)] by (auto simp: host_prefix_def nat_less_le)
qed

text \<open>What a plan holds for an address that is not the server's.\<close>

lemma plan_for_others:
  assumes "planRoutes N mode entries resolved dns ips ipv6 = (tun, gw)" and "host_prefix a \<notin> server_prefixes ips"
    and "addr_ok a"
  shows "q \<in> set gw \<Longrightarrow> covers q a \<Longrightarrow> mode = SplitModeExclude \<and> q \<in> set (split_prefixes N mode entries resolved ipv6)"
    and "p \<in> (if mode = SplitModeInclude then set (split_prefixes N mode entries resolved ipv6) else set defaultRoutes) \<union>
           dns_prefixes N dns ipv6 \<Longrightarrow> covers p a \<Longrightarrow> p \<in> set tun"
proof -
  have s: "q \<notin> server_prefixes ips" if "covers q a" for q
    using that server_covers [OF _ assms(3)] assms(2) by blast
  show "mode = SplitModeExclude \<and> q \<in> set (split_prefixes N mode entries resolved ipv6)" if "q \<in> set gw" "covers q a"
    using that s plan_sets(1) [OF assms(1)] by (auto split: if_splits)
  show "p \<in> set tun" if "p \<in> (if mode = SplitModeInclude then set (split_prefixes N mode entries resolved ipv6) else set defaultRoutes) \<union>
           dns_prefixes N dns ipv6" "covers p a"
    using that s plan_sets(2) [OF assms(1)] by blast
qed

lemma mode_distinct: "SplitModeInclude \<noteq> SplitModeExclude" "SplitModeExclude \<noteq> SplitModeInclude"
  by (simp_all add: SplitModeInclude_def SplitModeExclude_def)

lemma covers_own_host: "addr_ok a \<Longrightarrow> covers (host_prefix a) a"
  using covers_host [of a a] by simp

lemma full_routes:
  assumes "planRoutes N mode entries resolved dns ips ipv6 = (tun, gw)" and "host_prefix a \<notin> server_prefixes ips"
    and "addr_ok a" and "mode \<noteq> SplitModeInclude" and "mode = SplitModeExclude \<Longrightarrow> \<forall>p \<in> set (split_prefixes N mode entries resolved ipv6). \<not> covers p a"
  shows "next_hop (tun, gw) a = IntoTunnel"
proof -
  obtain d where d: "d \<in> set defaultRoutes" "covers d a" by (rule default_covers [OF assms(3)])
  show ?thesis
    using d plan_for_others [OF assms(1-3)] assms(4,5) by (intro next_hop_tunnel [of d]) auto
qed

lemma include_routes:
  assumes "planRoutes N SplitModeInclude entries resolved dns ips ipv6 = (tun, gw)" and "host_prefix a \<notin> server_prefixes ips"
    and "addr_ok a" and "netip_ok N"
    and "hit \<longleftrightarrow> (\<exists>p \<in> set (split_prefixes N SplitModeInclude entries resolved ipv6). covers p a) \<or> host_prefix a \<in> dns_prefixes N dns ipv6"
  shows "next_hop (tun, gw) a = (if hit then IntoTunnel else SystemRoute)"
proof (cases hit)
  case True
  then obtain p where "p \<in> set (split_prefixes N SplitModeInclude entries resolved ipv6) \<union> dns_prefixes N dns ipv6" "covers p a"
    using assms(5) covers_own_host [OF assms(3)] by blast
  then have "next_hop (tun, gw) a = IntoTunnel"
    using plan_for_others [OF assms(1-3)] mode_distinct by (intro next_hop_tunnel [of p]) auto
  then show ?thesis using True by simp
next
  case False
  have "\<not> covers p a" if "p \<in> set tun \<union> set gw" for p
    using that False assms(5) plan_sets(2) [OF assms(1)] plan_for_others(1) [OF assms(1-3)] mode_distinct
      dns_covers [OF assms(4) _ assms(3)] by auto
  then show ?thesis using False next_hop_system by simp
qed

lemma exclude_routes:
  assumes "planRoutes N SplitModeExclude entries resolved dns ips ipv6 = (tun, gw)" and "host_prefix a \<notin> server_prefixes ips"
    and "addr_ok a" and "netip_ok N" and "E = set (split_prefixes N SplitModeExclude entries resolved ipv6)"
  shows "host_prefix a \<notin> dns_prefixes N dns ipv6 \<Longrightarrow> q \<in> E \<Longrightarrow> covers q a \<Longrightarrow> 2 \<le> length (pxBits q) \<Longrightarrow> next_hop (tun, gw) a = PastTunnel"
    and "host_prefix a \<in> dns_prefixes N dns ipv6 \<Longrightarrow> host_prefix a \<notin> E \<Longrightarrow> next_hop (tun, gw) a = IntoTunnel"
    and "host_prefix a \<in> dns_prefixes N dns ipv6 \<Longrightarrow> host_prefix a \<in> E \<Longrightarrow> next_hop (tun, gw) a = Undecided"
proof -
  note host = covers_own_host [OF assms(3)]
  have gw: "E \<subseteq> set gw" using plan_sets(1) [OF assms(1)] assms(5) by simp
  have tun: "p \<in> set defaultRoutes \<or> p = host_prefix a \<and> p \<in> dns_prefixes N dns ipv6" if "p \<in> set tun" "covers p a" for p
    using that plan_sets(2) [OF assms(1)] dns_covers [OF assms(4) _ assms(3)] mode_distinct by auto
  show "next_hop (tun, gw) a = PastTunnel"
    if h: "host_prefix a \<notin> dns_prefixes N dns ipv6" "q \<in> E" "covers q a" "2 \<le> length (pxBits q)"
  proof (rule next_hop_gateway [of q])
    show "length (pxBits p) < length (pxBits q)" if "p \<in> set tun" "covers p a" for p
      using tun [OF that] h default_length [of p] by auto
  qed (use gw h in auto)
  show "next_hop (tun, gw) a = IntoTunnel" if h: "host_prefix a \<in> dns_prefixes N dns ipv6" "host_prefix a \<notin> E"
  proof (rule next_hop_tunnel [of "host_prefix a"])
    show "host_prefix a \<in> set tun" using plan_for_others(2) [OF assms(1-3) _ host] h(1) by blast
    show "length (pxBits q) < length (pxBits (host_prefix a))" if q: "q \<in> set gw" "covers q a" for q
      using plan_for_others(1) [OF assms(1-3) q] h(2) assms(5) covers_length [OF q(2)] by (auto simp: host_prefix_def nat_less_le)
  qed (rule host)
  show "next_hop (tun, gw) a = Undecided" if h: "host_prefix a \<in> dns_prefixes N dns ipv6" "host_prefix a \<in> E"
  proof -
    have t: "host_prefix a \<in> set tun" using plan_for_others(2) [OF assms(1-3) _ host] h(1) by blast
    have full: "best ps a = Some (length a)" if h: "host_prefix a \<in> set ps" for ps
    proof -
      obtain n where n: "best ps a = Some n" using best_None [of ps a] h host by (cases "best ps a") auto
      show ?thesis using best_Some(1) [OF n] best_Some(2) [OF n h host] covers_length(1) n by (force simp: host_prefix_def)
    qed
    show ?thesis using full [OF t] full [of gw] gw h(2) by (auto simp: next_hop_def)
  qed
qed

section \<open>Properties\<close>

text \<open>
  Property C31. Traffic follows the split mode, by longest-prefix routing over the planned routes.
  The addresses of the server go past the tunnel in every mode. Otherwise: in full-tunnel mode every
  IPv4 and IPv6 address goes into the tunnel; in include mode exactly the listed prefixes, the
  addresses of listed names and the DNS server do, and all else keeps its route; in exclude mode
  what no entry covers goes into the tunnel, what an entry of at least two bits covers goes
  past it, and the DNS server goes into it unless an entry names exactly its address.
\<close>
theorem traffic_follows_split_mode:
  assumes "netip_ok N" and "addr_ok a" and "plan = planRoutes N mode entries resolved dns ips ipv6"
    and "E = set (split_prefixes N mode entries resolved ipv6)" and "D = dns_prefixes N dns ipv6"
  shows "if host_prefix a \<in> server_prefixes ips then next_hop plan a = PastTunnel
    else if mode = SplitModeInclude then
      next_hop plan a = (if (\<exists>p \<in> E. covers p a) \<or> host_prefix a \<in> D then IntoTunnel else SystemRoute)
    else if mode = SplitModeExclude then
      ((\<forall>p \<in> E. \<not> covers p a) \<longrightarrow> next_hop plan a = IntoTunnel) \<and>
      (host_prefix a \<notin> D \<and> (\<exists>p \<in> E. covers p a \<and> 2 \<le> length (pxBits p)) \<longrightarrow> next_hop plan a = PastTunnel) \<and>
      (host_prefix a \<in> D - E \<longrightarrow> next_hop plan a = IntoTunnel)
    else next_hop plan a = IntoTunnel"
proof -
  obtain tun gw where tg: "planRoutes N mode entries resolved dns ips ipv6 = (tun, gw)"
    by (cases "planRoutes N mode entries resolved dns ips ipv6")
  show ?thesis
    using server_past_tunnel [OF tg _ assms(2)] full_routes [OF tg _ assms(2)] include_routes [OF _ _ assms(2,1) refl, of entries resolved dns ips ipv6]
      exclude_routes [OF _ _ assms(2,1) refl, of entries resolved dns ips ipv6] tg mode_distinct
    unfolding assms(3-5) by auto
qed

theorem traffic_follows_split_mode_witness:
  "let N = \<lparr>ParsePrefix = \<lambda>s. None, ParseAddr = \<lambda>s. if s = lit ''dns'' then Some (replicate 32 True) else None, unicodeLower = id\<rparr>;
       plan = planRoutes N SplitModeOff [] (\<lambda>_. None) (lit ''dns'') [replicate 32 False] False
   in next_hop plan (replicate 32 False) = PastTunnel \<and> next_hop plan (replicate 128 False) = IntoTunnel"
proof -
  let ?N = "\<lparr>ParsePrefix = \<lambda>s. None, ParseAddr = \<lambda>s. if s = lit ''dns'' then Some (replicate 32 True) else None, unicodeLower = id\<rparr>"
  have n: "netip_ok ?N" by (auto simp: netip_ok_def addr_ok_def)
  have o: "SplitModeOff \<noteq> SplitModeInclude" "SplitModeOff \<noteq> SplitModeExclude"
    by (simp_all add: SplitModeOff_def SplitModeInclude_def SplitModeExclude_def)
  have "host_prefix (replicate 32 False) \<in> server_prefixes [replicate 32 False]"
    by (auto simp: server_prefixes_def addr_ok_def Unmap_def Is4In6_def)
  moreover have "host_prefix (replicate 128 False) \<notin> server_prefixes [replicate 32 False]"
    by (auto simp: server_prefixes_def Unmap_def Is4In6_def host_prefix_def)
  ultimately show ?thesis
    using traffic_follows_split_mode [OF n _ refl refl refl, where a = "replicate 32 False" and ips = "[replicate 32 False]" and mode = SplitModeOff]
      traffic_follows_split_mode [OF n _ refl refl refl, where a = "replicate 128 False" and ips = "[replicate 32 False]" and mode = SplitModeOff] o
    by (simp add: addr_ok_def)
qed

text \<open>
  Fact. In exclude mode an entry that names exactly the address of the DNS server is
  planned in both directions: the same host route is to be installed past the tunnel and into
  it, so the plan does not decide where the DNS queries go.
\<close>
theorem excluded_dns_server_is_undecided:
  assumes "netip_ok N" and "addr_ok a" and "host_prefix a \<notin> server_prefixes ips"
    and "host_prefix a \<in> dns_prefixes N dns ipv6" and "host_prefix a \<in> set (split_prefixes N SplitModeExclude entries resolved ipv6)"
  shows "next_hop (planRoutes N SplitModeExclude entries resolved dns ips ipv6) a = Undecided"
proof -
  obtain tun gw where tg: "planRoutes N SplitModeExclude entries resolved dns ips ipv6 = (tun, gw)"
    by (cases "planRoutes N SplitModeExclude entries resolved dns ips ipv6")
  show ?thesis using exclude_routes(3) [OF tg assms(3,2,1) refl assms(4,5)] tg by simp
qed

theorem excluded_dns_server_is_undecided_witness:
  "let N = \<lparr>ParsePrefix = \<lambda>s. None, ParseAddr = \<lambda>s. if s = lit ''dns'' then Some (replicate 32 True) else None, unicodeLower = id\<rparr>
   in next_hop (planRoutes N SplitModeExclude [lit ''dns''] (\<lambda>_. None) (lit ''dns'') [] False) (replicate 32 True) = Undecided"
proof -
  let ?N = "\<lparr>ParsePrefix = \<lambda>s. None, ParseAddr = \<lambda>s. if s = lit ''dns'' then Some (replicate 32 True) else None, unicodeLower = id\<rparr>"
  have n: "netip_ok ?N" by (auto simp: netip_ok_def addr_ok_def)
  have t: "TrimSpace (lit ''dns'') = lit ''dns''" "\<not> HasPrefix (lit ''dns'') (lit ''#'')"
    by (simp_all add: TrimSpace_def lit_def IsSpace_def HasPrefix_def)
  have u: "Unmap (replicate 32 True) = replicate 32 True" by (simp add: Unmap_def Is4In6_def)
  have k: "keep_prefix False (host_prefix (replicate 32 True))" by (simp add: keep_prefix_def host_prefix_def)
  have "host_prefix (replicate 32 True) \<in> dns_prefixes ?N (lit ''dns'') False" using t u k by (auto simp: dns_prefixes_def)
  moreover have "host_prefix (replicate 32 True) \<in> set (split_prefixes ?N SplitModeExclude [lit ''dns''] (\<lambda>_. None) False)"
    using t u k by (simp add: split_prefixes_def entry_prefixes_def entryPrefix_def)
  ultimately show ?thesis
    using excluded_dns_server_is_undecided [OF n, of "replicate 32 True" "[]"] by (simp add: addr_ok_def server_prefixes_def)
qed

end
