(* ===== verification/Route_Manager.thy ===== *)
theory Route_Manager
  imports Route_Plan
begin

text \<open>
  The owner of the routes of the client, \<^verbatim>\<open>obsidian/tun/routemgr.go\<close>: it installs the planned
  routes, adds the routes of names that resolve anew, and removes on close what it installed. The routing
  table of the host is explicit. What the host answers to a command, what the resolver answers to a
  lookup and in which order lookups finish are arguments.
\<close>

section \<open>Model\<close>

record route =
  rtPrefix :: prefix
  viaTun :: bool

type_synonym lookupFunc = "gostring \<Rightarrow> addr_bits list option"

record routeManager =
  rmMode :: gostring
  rmEntries :: "gostring list"
  rmDns :: gostring
  rmServerHost :: gostring
  rmIpv6 :: bool
  rmApplied :: "route list"
  rmSet :: "route set"
  rmResolved :: "gostring \<rightharpoonup> addr_bits list"
  rmServers :: "addr_bits list"
  rmClosed :: bool

definition newRouteManager :: "gostring \<Rightarrow> gostring list \<Rightarrow> gostring \<Rightarrow> gostring \<Rightarrow> bool \<Rightarrow> routeManager" where
  "newRouteManager mode entries dns serverHost ipv6 =
     \<lparr>rmMode = mode, rmEntries = entries, rmDns = dns, rmServerHost = serverHost, rmIpv6 = ipv6,
      rmApplied = [], rmSet = {}, rmResolved = Map.empty, rmServers = [], rmClosed = False\<rparr>"

text \<open>The default lookup: what the resolver returns, without IPv6 unless it is enabled.\<close>

definition lookupIPs :: "bool \<Rightarrow> lookupFunc \<Rightarrow> lookupFunc" where
  "lookupIPs ipv6 resolver host =
     (case resolver host of
        None \<Rightarrow> None
      | Some addrs \<Rightarrow>
          let out = filter (\<lambda>a. ipv6 \<or> length a = 32 \<or> Is4In6 a) addrs
          in if out = [] then None else Some out)"

definition trim_brackets :: "gostring \<Rightarrow> gostring" where
  "trim_brackets s = rev (dropWhile (\<lambda>c. c \<in> {91, 93}) (rev (dropWhile (\<lambda>c. c \<in> {91, 93}) s)))"

definition resolveServer :: "netip_lib \<Rightarrow> lookupFunc \<Rightarrow> routeManager \<Rightarrow> routeManager res" where
  "resolveServer N lookup m =
     (let host = trim_brackets (TrimSpace (rmServerHost m))
      in if host = [] then Inl (Errorf ''server host is empty'')
         else case ParseAddr N host of
                Some ip \<Rightarrow> Inr (m\<lparr>rmServers := [ip]\<rparr>)
              | None \<Rightarrow>
                  case lookup host of
                    None \<Rightarrow> Inl (Errorf ''lookup'')
                  | Some ips \<Rightarrow> Inr (m\<lparr>rmServers := ips\<rparr>))"

fun primary_loop :: "addr_bits option \<Rightarrow> addr_bits list \<Rightarrow> addr_bits option" where
  "primary_loop v6 [] = v6"
| "primary_loop v6 (ip # ips) =
     (if \<not> addr_ok ip then primary_loop v6 ips
      else let a = Unmap ip
           in if length a = 32 then Some a
              else primary_loop (if v6 = None then Some a else v6) ips)"

definition primaryServer :: "routeManager \<Rightarrow> addr_bits option" where
  "primaryServer m = primary_loop None (rmServers m)"

text \<open>
  The routing table and its answers. Adding fails if the host refuses or has the route already;
  a failed removal leaves the route.
\<close>

record kernel =
  kRoutes :: "route set"
  kRefuses :: "route \<Rightarrow> bool"
  kSticks :: "route \<Rightarrow> bool"

definition ops_add :: "route \<Rightarrow> kernel \<Rightarrow> bool \<times> kernel" where
  "ops_add r k = (if kRefuses k r \<or> r \<in> kRoutes k then (False, k) else (True, k\<lparr>kRoutes := insert r (kRoutes k)\<rparr>))"

definition ops_del :: "route \<Rightarrow> kernel \<Rightarrow> kernel" where
  "ops_del r k = (if kSticks k r then k else k\<lparr>kRoutes := kRoutes k - {r}\<rparr>)"

definition addLocked :: "route \<Rightarrow> routeManager \<times> kernel \<Rightarrow> routeManager \<times> kernel" where
  "addLocked r mk =
     (case mk of (m, k) \<Rightarrow>
        if r \<in> rmSet m then (m, k)
        else case ops_add r k of
               (False, k) \<Rightarrow> (m, k)
             | (True, k) \<Rightarrow> (m\<lparr>rmSet := insert r (rmSet m), rmApplied := rmApplied m @ [r]\<rparr>, k))"

definition plan_list :: "prefix list \<times> prefix list \<Rightarrow> route list" where
  "plan_list plan = map (\<lambda>p. \<lparr>rtPrefix = p, viaTun = False\<rparr>) (snd plan) @ map (\<lambda>p. \<lparr>rtPrefix = p, viaTun = True\<rparr>) (fst plan)"

definition apply_plan :: "prefix list \<times> prefix list \<Rightarrow> routeManager \<times> kernel \<Rightarrow> routeManager \<times> kernel" where
  "apply_plan plan mk = (if rmClosed (fst mk) then mk else fold addLocked (plan_list plan) mk)"

text \<open>
  The lookups of a refresh: each name and, unless it has it already, the name with \<^verbatim>\<open>www.\<close> in
  front. They run at once; \<open>order\<close> is the order in which they finish.
\<close>

definition targets :: "gostring list \<Rightarrow> (gostring \<times> gostring) list" where
  "targets hosts =
     concat (map (\<lambda>h. if HasPrefix h (lit ''www.'') then [(h, h)] else [(h, h), (h, lit ''www.'' @ h)]) hosts)"

fun collect :: "lookupFunc \<Rightarrow> (gostring \<times> gostring) list \<Rightarrow> (gostring \<rightharpoonup> addr_bits list) \<Rightarrow> (gostring \<rightharpoonup> addr_bits list)" where
  "collect lookup [] fresh = fresh"
| "collect lookup ((h, tg) # ts) fresh =
     (case lookup tg of
        None \<Rightarrow> collect lookup ts fresh
      | Some ips \<Rightarrow> collect lookup ts (fresh(h \<mapsto> (case fresh h of None \<Rightarrow> [] | Some old \<Rightarrow> old) @ ips)))"

definition fresh_addresses ::
    "netip_lib \<Rightarrow> lookupFunc \<Rightarrow> ((gostring \<times> gostring) list \<Rightarrow> (gostring \<times> gostring) list) \<Rightarrow> routeManager \<Rightarrow> (gostring \<rightharpoonup> addr_bits list)" where
  "fresh_addresses N lookup order m =
     (if rmMode m \<noteq> SplitModeOff then collect lookup (order (targets (fst (domainEntries N (rmEntries m))))) Map.empty
      else Map.empty)"

text \<open>The two critical sections of a refresh: the addresses are noted and the routes planned, then applied.\<close>

definition refresh_note ::
    "netip_lib \<Rightarrow> (gostring \<rightharpoonup> addr_bits list) \<Rightarrow> routeManager \<Rightarrow> (prefix list \<times> prefix list) option \<times> routeManager" where
  "refresh_note N fresh m =
     (if rmClosed m then (None, m)
      else let m = m\<lparr>rmResolved := rmResolved m ++ fresh\<rparr>
           in (Some (planRoutes N (rmMode m) (rmEntries m) (rmResolved m) (rmDns m) (rmServers m) (rmIpv6 m)), m))"

definition refresh ::
    "netip_lib \<Rightarrow> lookupFunc \<Rightarrow> ((gostring \<times> gostring) list \<Rightarrow> (gostring \<times> gostring) list) \<Rightarrow> routeManager \<times> kernel \<Rightarrow> routeManager \<times> kernel" where
  "refresh N lookup order mk =
     (case refresh_note N (fresh_addresses N lookup order (fst mk)) (fst mk) of
        (None, m) \<Rightarrow> (m, snd mk)
      | (Some plan, m) \<Rightarrow> apply_plan plan (m, snd mk))"

text \<open>The result says whether the refresh loop runs from now on.\<close>

definition start ::
    "netip_lib \<Rightarrow> lookupFunc \<Rightarrow> ((gostring \<times> gostring) list \<Rightarrow> (gostring \<times> gostring) list) \<Rightarrow> routeManager \<times> kernel
       \<Rightarrow> bool res \<times> routeManager \<times> kernel" where
  "start N lookup order mk =
     (let (err, m) = (case resolveServer N lookup (fst mk) of Inl e \<Rightarrow> (True, fst mk) | Inr m \<Rightarrow> (False, m))
      in if err \<and> rmMode m \<noteq> SplitModeInclude then (Inl (Errorf ''resolve server host''), m, snd mk)
         else (Inr (rmMode m \<noteq> SplitModeOff \<and> fst (domainEntries N (rmEntries m)) \<noteq> []), refresh N lookup order (m, snd mk)))"

definition close_mark :: "routeManager \<Rightarrow> routeManager" where
  "close_mark m = m\<lparr>rmClosed := True\<rparr>"

definition close_remove :: "routeManager \<times> kernel \<Rightarrow> routeManager \<times> kernel" where
  "close_remove mk = (case mk of (m, k) \<Rightarrow> (m\<lparr>rmApplied := [], rmSet := {}\<rparr>, fold ops_del (rev (rmApplied m)) k))"

section \<open>A manager at work\<close>

text \<open>
  The operations interleave: \<open>maPlans\<close> are refreshes between their two sections. The removal waits for
  the refresh loop.
\<close>

record managed =
  maManager :: routeManager
  maKernel :: kernel
  maPlans :: "(prefix list \<times> prefix list) list"
  maRemoved :: bool

inductive manager_step :: "netip_lib \<Rightarrow> managed \<Rightarrow> managed \<Rightarrow> bool" for N where
  noted: "refresh_note N fresh (maManager s) = (Some plan, m) \<Longrightarrow>
    manager_step N s (s\<lparr>maManager := m, maPlans := plan # maPlans s\<rparr>)"
| installed: "maPlans s = xs @ plan # ys \<Longrightarrow> apply_plan plan (maManager s, maKernel s) = (m, k) \<Longrightarrow>
    manager_step N s (s\<lparr>maManager := m, maKernel := k, maPlans := xs @ ys\<rparr>)"
| marked: "\<not> rmClosed (maManager s) \<Longrightarrow> manager_step N s (s\<lparr>maManager := close_mark (maManager s)\<rparr>)"
| removed: "rmClosed (maManager s) \<Longrightarrow> maPlans s = [] \<Longrightarrow> \<not> maRemoved s \<Longrightarrow> close_remove (maManager s, maKernel s) = (m, k) \<Longrightarrow>
    manager_step N s (s\<lparr>maManager := m, maKernel := k, maRemoved := True\<rparr>)"

definition fresh_managed :: "routeManager \<Rightarrow> kernel \<Rightarrow> managed" where
  "fresh_managed m k = \<lparr>maManager = m, maKernel = k, maPlans = [], maRemoved = False\<rparr>"

section \<open>Ownership\<close>

text \<open>What the manager owns, in a table that was \<open>K0\<close> before.\<close>

definition owns :: "route set \<Rightarrow> routeManager \<times> kernel \<Rightarrow> bool" where
  "owns K0 mk \<longleftrightarrow>
     (case mk of (m, k) \<Rightarrow> rmSet m = set (rmApplied m) \<and> kRoutes k = K0 \<union> set (rmApplied m) \<and> K0 \<inter> set (rmApplied m) = {})"

text \<open>If traffic is sent into the tunnel, the addresses of the server are not, as far as the host allows.\<close>

definition bypassed :: "routeManager \<times> kernel \<Rightarrow> bool" where
  "bypassed mk \<longleftrightarrow>
     (case mk of (m, k) \<Rightarrow>
        (\<exists>r \<in> set (rmApplied m). viaTun r) \<longrightarrow>
        (\<forall>p \<in> server_prefixes (rmServers m). \<lparr>rtPrefix = p, viaTun = False\<rparr> \<in> kRoutes k \<or> kRefuses k \<lparr>rtPrefix = p, viaTun = False\<rparr>))"

definition fixed_part :: "routeManager \<times> kernel \<Rightarrow> addr_bits list \<times> bool \<times> (route \<Rightarrow> bool) \<times> (route \<Rightarrow> bool)" where
  "fixed_part mk = (rmServers (fst mk), rmClosed (fst mk), kRefuses (snd mk), kSticks (snd mk))"

lemma addLocked_owns: "owns K0 mk \<Longrightarrow> owns K0 (addLocked r mk)"
  by (auto simp: owns_def addLocked_def ops_add_def split: prod.splits)

lemma addLocked_fixed: "fixed_part (addLocked r mk) = fixed_part mk"
  by (simp add: fixed_part_def addLocked_def ops_add_def split: prod.splits)

lemma addLocked_tries:
  "owns K0 mk \<Longrightarrow> r \<in> kRoutes (snd (addLocked r mk)) \<or> kRefuses (snd mk) r"
  by (auto simp: owns_def addLocked_def ops_add_def split: prod.splits)

lemma addLocked_grows:
  "kRoutes (snd mk) \<subseteq> kRoutes (snd (addLocked r mk))" "set (rmApplied (fst (addLocked r mk))) \<subseteq> insert r (set (rmApplied (fst mk)))"
  by (auto simp: addLocked_def ops_add_def split: prod.splits)

lemma fold_addLocked:
  assumes "owns K0 mk"
  shows "owns K0 (fold addLocked rs mk)" and "fixed_part (fold addLocked rs mk) = fixed_part mk"
    and "kRoutes (snd mk) \<subseteq> kRoutes (snd (fold addLocked rs mk))"
    and "set (rmApplied (fst (fold addLocked rs mk))) \<subseteq> set rs \<union> set (rmApplied (fst mk))"
    and "r \<in> set rs \<Longrightarrow> r \<in> kRoutes (snd (fold addLocked rs mk)) \<or> kRefuses (snd mk) r"
proof -
  have "owns K0 (fold addLocked rs mk) \<and> fixed_part (fold addLocked rs mk) = fixed_part mk \<and>
      kRoutes (snd mk) \<subseteq> kRoutes (snd (fold addLocked rs mk)) \<and>
      set (rmApplied (fst (fold addLocked rs mk))) \<subseteq> set rs \<union> set (rmApplied (fst mk)) \<and>
      (\<forall>r \<in> set rs. r \<in> kRoutes (snd (fold addLocked rs mk)) \<or> kRefuses (snd mk) r)"
    using assms
  proof (induction rs arbitrary: mk)
    case (Cons x rs)
    note IH = Cons.IH [OF addLocked_owns [OF Cons.prems, of x]]
    have "kRefuses (snd (addLocked x mk)) = kRefuses (snd mk)" using addLocked_fixed [of x mk] by (simp add: fixed_part_def)
    then show ?case
      using IH addLocked_fixed [of x mk] addLocked_grows [where mk = mk and r = x] addLocked_tries [OF Cons.prems, of x] by auto
  qed simp
  then show "owns K0 (fold addLocked rs mk)" "fixed_part (fold addLocked rs mk) = fixed_part mk"
    "kRoutes (snd mk) \<subseteq> kRoutes (snd (fold addLocked rs mk))"
    "set (rmApplied (fst (fold addLocked rs mk))) \<subseteq> set rs \<union> set (rmApplied (fst mk))"
    "r \<in> set rs \<Longrightarrow> r \<in> kRoutes (snd (fold addLocked rs mk)) \<or> kRefuses (snd mk) r" by blast+
qed

text \<open>Installing a plan that bypasses the server keeps the server bypassed at every moment.\<close>

lemma partial_install_bypassed:
  assumes "owns K0 mk" and "bypassed mk" and "server_prefixes (rmServers (fst mk)) \<subseteq> set (snd plan)"
  shows "bypassed (fold addLocked (take n (plan_list plan)) mk)"
proof -
  let ?g = "map (\<lambda>p. \<lparr>rtPrefix = p, viaTun = False\<rparr>) (snd plan)" and ?mk = "fold addLocked (take n (plan_list plan)) mk"
  note f = fold_addLocked [OF assms(1), where rs = "take n (plan_list plan)"]
  have x: "rmServers (fst ?mk) = rmServers (fst mk)" "kRefuses (snd ?mk) = kRefuses (snd mk)" using f(2) by (simp_all add: fixed_part_def)
  show ?thesis
  proof (cases "n \<le> length ?g")
    case True
    then have "\<forall>r \<in> set (take n (plan_list plan)). \<not> viaTun r" by (auto simp: plan_list_def dest!: in_set_takeD)
    then have "(\<exists>r \<in> set (rmApplied (fst ?mk)). viaTun r) \<longrightarrow> (\<exists>r \<in> set (rmApplied (fst mk)). viaTun r)" using f(4) by blast
    then show ?thesis using assms(2) f(3) x unfolding bypassed_def by (auto split: prod.splits) blast+
  next
    case False
    then have "set ?g \<subseteq> set (take n (plan_list plan))" by (auto simp: plan_list_def)
    then have "\<lparr>rtPrefix = p, viaTun = False\<rparr> \<in> kRoutes (snd ?mk) \<or> kRefuses (snd mk) \<lparr>rtPrefix = p, viaTun = False\<rparr>"
      if "p \<in> server_prefixes (rmServers (fst mk))" for p
      using f(5) assms(3) that by fastforce
    then show ?thesis using x by (auto simp: bypassed_def split: prod.splits) blast
  qed
qed

lemma ops_del_fold:
  "kRoutes (fold ops_del rs k) = kRoutes k - {r \<in> set rs. \<not> kSticks k r}" "kSticks (fold ops_del rs k) = kSticks k" "kRefuses (fold ops_del rs k) = kRefuses k"
  by (induction rs arbitrary: k) (auto simp: ops_del_def)

definition managed_inv :: "routeManager \<Rightarrow> kernel \<Rightarrow> managed \<Rightarrow> bool" where
  "managed_inv m0 k0 s \<longleftrightarrow>
     rmServers (maManager s) = rmServers m0 \<and> kRefuses (maKernel s) = kRefuses k0 \<and> kSticks (maKernel s) = kSticks k0 \<and>
     (\<forall>plan \<in> set (maPlans s). server_prefixes (rmServers m0) \<subseteq> set (snd plan)) \<and>
     (if maRemoved s then rmClosed (maManager s) \<and> rmApplied (maManager s) = [] \<and> rmSet (maManager s) = {} \<and>
          kRoutes k0 \<subseteq> kRoutes (maKernel s) \<and> (\<forall>r \<in> kRoutes (maKernel s) - kRoutes k0. kSticks k0 r)
      else owns (kRoutes k0) (maManager s, maKernel s) \<and> bypassed (maManager s, maKernel s))"

lemma note_keeps:
  assumes "refresh_note N fresh m = (Some plan, m')"
  shows "rmServers m' = rmServers m" "rmApplied m' = rmApplied m" "rmSet m' = rmSet m" "\<not> rmClosed m" "rmClosed m' = rmClosed m"
    "server_prefixes (rmServers m) \<subseteq> set (snd plan)"
proof -
  obtain tun gw where p: "plan = (tun, gw)" by fastforce
  then show "rmServers m' = rmServers m" "rmApplied m' = rmApplied m" "rmSet m' = rmSet m" "\<not> rmClosed m" "rmClosed m' = rmClosed m"
    "server_prefixes (rmServers m) \<subseteq> set (snd plan)"
    using assms plan_sets(1) [of N _ _ _ _ _ _ tun gw] by (auto simp: refresh_note_def Let_def split: if_splits)
qed

lemma closing_keeps [simp]:
  "owns K0 (m\<lparr>rmClosed := c\<rparr>, k) = owns K0 (m, k)" "bypassed (m\<lparr>rmClosed := c\<rparr>, k) = bypassed (m, k)"
  by (simp_all add: owns_def bypassed_def)

lemma managed_inv_step:
  assumes "manager_step N s t" and "managed_inv m0 k0 s"
  shows "managed_inv m0 k0 t"
  using assms(1)
proof cases
  case (noted fresh plan m)
  then show ?thesis using assms(2) note_keeps [OF noted(2)]
    by (auto simp: managed_inv_def owns_def bypassed_def split: if_splits)
next
  case (installed xs plan ys m k)
  let ?mk = "(maManager s, maKernel s)"
  show ?thesis
  proof (cases "rmClosed (maManager s)")
    case True
    then show ?thesis using installed assms(2) by (auto simp: managed_inv_def apply_plan_def)
  next
    case False
    then have o: "owns (kRoutes k0) ?mk" "bypassed ?mk" "\<not> maRemoved s" "server_prefixes (rmServers (fst ?mk)) \<subseteq> set (snd plan)"
      using assms(2) installed(2) by (auto simp: managed_inv_def split: if_splits)
    have f: "fold addLocked (plan_list plan) ?mk = (m, k)" using installed(3) False by (simp add: apply_plan_def)
    have "bypassed (m, k)" using partial_install_bypassed [OF o(1,2,4), of "length (plan_list plan)"] f by simp
    then show ?thesis
      using assms(2) installed(1,2) o(3) fold_addLocked(1,2) [OF o(1), where rs = "plan_list plan"] f
      by (auto simp: managed_inv_def fixed_part_def)
  qed
next
  case marked
  then show ?thesis using assms(2) by (simp add: managed_inv_def close_mark_def split: if_splits)
next
  case (removed m k)
  then show ?thesis using assms(2)
    by (auto simp: managed_inv_def close_remove_def owns_def ops_del_fold)
qed

lemma managed_inv_reached:
  assumes "(manager_step N)\<^sup>*\<^sup>* (fresh_managed m0 k0) s" and "rmApplied m0 = []" and "rmSet m0 = {}"
  shows "managed_inv m0 k0 s"
  using assms(1)
proof induction
  case base
  show ?case using assms(2,3) by (simp add: managed_inv_def fresh_managed_def owns_def bypassed_def)
next
  case (step y z)
  then show ?case using managed_inv_step by blast
qed

text \<open>
  Property C35. However refreshes and the close of the route manager interleave: until the close has
  removed them, the routing table is what it was before plus exactly the routes the manager owns, so it
  never claims a route it did not add; when any traffic is sent into the tunnel, every address of the server has its
  own route around it, or the host refused it, also half way through the installation of a planned set
  of routes; and after the close the table is as before, except for routes the host would not remove.
\<close>

theorem routes_owned_and_restored:
  assumes reached: "(manager_step N)\<^sup>*\<^sup>* (fresh_managed m0 k0) s"
    and fresh: "m0 = (newRouteManager mode entries dns host ipv6)\<lparr>rmServers := servers\<rparr>"
  shows "if maRemoved s
    then rmApplied (maManager s) = [] \<and> kRoutes k0 \<subseteq> kRoutes (maKernel s) \<and> (\<forall>r \<in> kRoutes (maKernel s) - kRoutes k0. kSticks k0 r)
    else kRoutes (maKernel s) = kRoutes k0 \<union> set (rmApplied (maManager s)) \<and> kRoutes k0 \<inter> set (rmApplied (maManager s)) = {} \<and>
      (\<forall>plan \<in> set (maPlans s). \<forall>n. bypassed (fold addLocked (take n (plan_list plan)) (maManager s, maKernel s)))"
proof -
  have i: "managed_inv m0 k0 s" by (rule managed_inv_reached [OF reached]) (simp_all add: fresh newRouteManager_def)
  have "bypassed (fold addLocked (take n (plan_list plan)) (maManager s, maKernel s))" if "\<not> maRemoved s" "plan \<in> set (maPlans s)" for plan n
    by (rule partial_install_bypassed [of "kRoutes k0"]) (use i that in \<open>auto simp: managed_inv_def split: if_splits\<close>)
  then show ?thesis using i by (cases "maRemoved s") (simp_all add: managed_inv_def owns_def)
qed

lemma fold_keeps_closed: "fold addLocked rs (m, k) = (m', k') \<Longrightarrow> rmClosed m' = rmClosed m"
  by (induction rs arbitrary: m k) (auto simp: addLocked_def ops_add_def split: if_splits)

text \<open>A refresh followed by the close is a run of the manager.\<close>

lemma refresh_then_close_reached:
  assumes "\<not> rmClosed m0" and "refresh N lookup order (m0, k0) = (m, k)" and "close_remove (close_mark m, k) = (m', k')"
  shows "(manager_step N)\<^sup>*\<^sup>* (fresh_managed m0 k0) \<lparr>maManager = m', maKernel = k', maPlans = [], maRemoved = True\<rparr>"
proof -
  obtain plan m1 where n: "refresh_note N (fresh_addresses N lookup order m0) m0 = (Some plan, m1)" and a: "apply_plan plan (m1, k0) = (m, k)"
    using assms(1,2) by (auto simp: refresh_def refresh_note_def Let_def)
  have c: "\<not> rmClosed m" using a note_keeps(4,5) [OF n] fold_keeps_closed by (auto simp: apply_plan_def split: if_splits)
  let ?s = "\<lambda>m k. \<lparr>maManager = m, maKernel = k, maPlans = [], maRemoved = False\<rparr>"
  have "manager_step N (fresh_managed m0 k0) \<lparr>maManager = m1, maKernel = k0, maPlans = [plan], maRemoved = False\<rparr>"
    using noted [of N "fresh_addresses N lookup order m0" "fresh_managed m0 k0"] n by (simp add: fresh_managed_def)
  moreover have "manager_step N \<lparr>maManager = m1, maKernel = k0, maPlans = [plan], maRemoved = False\<rparr> (?s m k)"
    using installed [of "\<lparr>maManager = m1, maKernel = k0, maPlans = [plan], maRemoved = False\<rparr>" "[]" plan "[]" m k N] a by simp
  moreover have "manager_step N (?s m k) (?s (close_mark m) k)" using marked [of "?s m k" N] c by simp
  moreover have "manager_step N (?s (close_mark m) k) \<lparr>maManager = m', maKernel = k', maPlans = [], maRemoved = True\<rparr>"
    using removed [of "?s (close_mark m) k" m' k' N] assms(3) by (simp add: close_mark_def)
  ultimately show ?thesis by (meson converse_rtranclp_into_rtranclp rtranclp.rtrancl_refl)
qed

definition example_netip :: netip_lib where
  "example_netip = \<lparr>ParsePrefix = \<lambda>s. None, ParseAddr = \<lambda>s. if s = lit ''dns'' then Some (replicate 32 True) else None, unicodeLower = id\<rparr>"

definition example_manager :: routeManager where
  "example_manager = (newRouteManager SplitModeOff [] (lit ''dns'') (lit ''server'') False)\<lparr>rmServers := [replicate 32 False]\<rparr>"

definition example_kernel :: kernel where
  "example_kernel = \<lparr>kRoutes = {}, kRefuses = \<lambda>_. False, kSticks = \<lambda>_. False\<rparr>"

lemma example_refreshed:
  "\<lparr>rtPrefix = host_prefix (replicate 32 False), viaTun = False\<rparr> \<in> kRoutes (snd (refresh example_netip (\<lambda>_. None) id (example_manager, example_kernel)))"
  (is "?r \<in> _")
proof -
  obtain plan m where n: "refresh_note example_netip (fresh_addresses example_netip (\<lambda>_. None) id example_manager) example_manager = (Some plan, m)"
    by (auto simp: refresh_note_def Let_def example_manager_def newRouteManager_def)
  note k = note_keeps [OF n]
  have "owns {} (m, example_kernel)"
    using k(2,3) by (simp add: owns_def example_manager_def newRouteManager_def example_kernel_def)
  moreover have "host_prefix (replicate 32 False) \<in> server_prefixes (rmServers example_manager)"
    by (auto simp: example_manager_def server_prefixes_def addr_ok_def Unmap_def Is4In6_def)
  then have "?r \<in> set (plan_list plan)" using k(6) by (auto simp: plan_list_def)
  ultimately have "?r \<in> kRoutes (snd (fold addLocked (plan_list plan) (m, example_kernel)))"
    using fold_addLocked(5) by (fastforce simp: example_kernel_def)
  then show ?thesis using n k(4,5) by (simp add: refresh_def apply_plan_def)
qed

theorem routes_owned_and_restored_witness:
  "let mk = refresh example_netip (\<lambda>_. None) id (example_manager, example_kernel)
   in kRoutes (snd mk) \<noteq> {} \<and> kRoutes (snd (close_remove (close_mark (fst mk), snd mk))) = {}"
proof -
  obtain m k where r: "refresh example_netip (\<lambda>_. None) id (example_manager, example_kernel) = (m, k)" by fastforce
  obtain m' k' where c: "close_remove (close_mark m, k) = (m', k')" by fastforce
  have "\<not> rmClosed example_manager" by (simp add: example_manager_def newRouteManager_def)
  note x = refresh_then_close_reached [OF this r c]
  show ?thesis using routes_owned_and_restored [OF x example_manager_def] example_refreshed r c by (auto simp: example_kernel_def)
qed

end
