(* ===== verification/Net_Setup.thy ===== *)
theory Net_Setup
  imports Route_Manager
begin

text \<open>
  What the Linux and macOS clients change outside the TUN device, \<^verbatim>\<open>netparse.go\<close>, \<^verbatim>\<open>helpers.go\<close>,
  \<^verbatim>\<open>netsetup_unix.go\<close>, \<^verbatim>\<open>dns_linux.go\<close> and \<^verbatim>\<open>dns_darwin.go\<close> of \<^verbatim>\<open>obsidian/tun\<close>: the parsers of command output, the
  arguments of the route commands, the DNS settings with their backup, and the setup and close of both together. The
  answers of the commands and of the file system are arguments or part of an explicit state of the host.
\<close>

section \<open>Words and lines\<close>

fun fields_from :: "gostring \<Rightarrow> gostring \<Rightarrow> gostring list" where
  "fields_from cur [] = (if cur \<noteq> [] then [cur] else [])"
| "fields_from cur (r # s) =
     (if r \<in> {32, 9, 10, 13} then (if cur \<noteq> [] then cur # fields_from [] s else fields_from [] s)
      else fields_from (cur @ [r]) s)"

definition splitFields :: "gostring \<Rightarrow> gostring list" where
  "splitFields s = fields_from [] s"

fun lines_from :: "gostring \<Rightarrow> gostring \<Rightarrow> gostring list" where
  "lines_from cur [] = (if cur \<noteq> [] then [cur] else [])"
| "lines_from cur (r # s) =
     (if r = 10 then cur # lines_from [] s else if r \<noteq> 13 then lines_from (cur @ [r]) s else lines_from cur s)"

definition splitLines :: "gostring \<Rightarrow> gostring list" where
  "splitLines s = lines_from [] s"

section \<open>Gateways and route commands\<close>

record gateway =
  gwIp :: gostring
  gwDev :: gostring

definition no_gateway :: gateway where
  "no_gateway = \<lparr>gwIp = [], gwDev = []\<rparr>"

definition gateway_valid :: "gateway \<Rightarrow> bool" where
  "gateway_valid g \<longleftrightarrow> gwIp g \<noteq> [] \<or> gwDev g \<noteq> []"

fun route_words :: "gostring list \<Rightarrow> gateway \<Rightarrow> gateway" where
  "route_words (x # y # r) g =
     route_words (y # r) (if x = lit ''via'' then g\<lparr>gwIp := y\<rparr> else if x = lit ''dev'' then g\<lparr>gwDev := y\<rparr> else g)"
| "route_words _ g = g"

fun default_in :: "gostring list \<Rightarrow> gateway" where
  "default_in [] = no_gateway"
| "default_in (line # ls) =
     (let f = splitFields line; g = route_words f no_gateway
      in if f = [] \<or> hd f \<noteq> lit ''default'' then default_in ls
         else if gateway_valid g then g else default_in ls)"

definition parseLinuxDefaultRoute :: "gostring \<Rightarrow> gateway" where
  "parseLinuxDefaultRoute out = default_in (splitLines out)"

definition darwin_line :: "gostring \<Rightarrow> gateway \<Rightarrow> gateway" where
  "darwin_line line g =
     (case splitFields line of
        x # y # _ \<Rightarrow> if x = lit ''gateway:'' then g\<lparr>gwIp := y\<rparr> else if x = lit ''interface:'' then g\<lparr>gwDev := y\<rparr> else g
      | _ \<Rightarrow> g)"

definition parseDarwinDefaultRoute :: "(rune \<Rightarrow> rune) \<Rightarrow> gostring \<Rightarrow> gateway" where
  "parseDarwinDefaultRoute lower out =
     (let g = fold darwin_line (splitLines out) no_gateway;
          g = (if HasPrefix (ToLower lower (gwIp g)) (lit ''fe80:'') \<and> \<not> str_Contains (gwIp g) (lit ''%'') \<and> gwDev g \<noteq> []
               then g\<lparr>gwIp := gwIp g @ lit ''%'' @ gwDev g\<rparr> else g)
      in if HasPrefix (gwIp g) (lit ''link#'') then g\<lparr>gwIp := []\<rparr> else g)"

text \<open>\<open>shown\<close> is \<^verbatim>\<open>Prefix.String\<close>.\<close>

definition linuxRouteArgs :: "(prefix \<Rightarrow> gostring) \<Rightarrow> route \<Rightarrow> gostring \<Rightarrow> gostring \<Rightarrow> gateway \<Rightarrow> gostring list res" where
  "linuxRouteArgs shown r verb tunName gw =
     (let args = (if px6 (rtPrefix r) then [lit ''-6''] else []) @ [lit ''route'', verb, shown (rtPrefix r)]
      in if viaTun r then Inr (args @ [lit ''dev'', tunName])
         else if \<not> gateway_valid gw then Inl (Errorf ''no original default gateway known'')
         else Inr (args @ (if gwIp gw \<noteq> [] then [lit ''via'', gwIp gw] else []) @
                     (if gwDev gw \<noteq> [] then [lit ''dev'', gwDev gw] else [])))"

definition darwinRouteArgs :: "(prefix \<Rightarrow> gostring) \<Rightarrow> route \<Rightarrow> gostring \<Rightarrow> gostring \<Rightarrow> gateway \<Rightarrow> gostring list res" where
  "darwinRouteArgs shown r verb tunName gw =
     (let args = [lit ''-n'', verb] @ (if px6 (rtPrefix r) then [lit ''-inet6''] else []) @ [lit ''-net'', shown (rtPrefix r)]
      in if viaTun r then Inr (args @ [lit ''-interface'', tunName])
         else if gwIp gw \<noteq> [] then Inr (args @ [gwIp gw])
         else if gwDev gw \<noteq> [] then Inr (args @ [lit ''-interface'', gwDev gw])
         else Inl (Errorf ''no original default gateway known''))"

text \<open>The routes of the host through a command; the shell answers to a command line.\<close>

type_synonym shell = "gostring list \<Rightarrow> gostring res"

record execRoutes =
  erBin :: gostring
  erTunName :: gostring
  erGw4 :: gateway
  erGw6 :: gateway
  erBuild :: "route \<Rightarrow> gostring \<Rightarrow> gostring \<Rightarrow> gateway \<Rightarrow> gostring list res"

definition exec_run :: "shell \<Rightarrow> execRoutes \<Rightarrow> route \<Rightarrow> gostring \<Rightarrow> unit res" where
  "exec_run sh x r verb =
     (case erBuild x r verb (erTunName x) (if px6 (rtPrefix r) then erGw6 x else erGw4 x) of
        Inl e \<Rightarrow> Inl e
      | Inr args \<Rightarrow> (case sh (erBin x # args) of Inl e \<Rightarrow> Inl e | Inr _ \<Rightarrow> Inr ()))"

definition exec_add :: "shell \<Rightarrow> execRoutes \<Rightarrow> route \<Rightarrow> unit res" where
  "exec_add sh x r = exec_run sh x r (lit ''add'')"

definition exec_del :: "shell \<Rightarrow> execRoutes \<Rightarrow> route \<Rightarrow> unit res" where
  "exec_del sh x r = exec_run sh x r (lit ''delete'')"

section \<open>DNS on Linux\<close>

definition resolvConfFor :: "gostring \<Rightarrow> gostring" where
  "resolvConfFor dns =
     lit ''# generated by Obsidian VPN; original saved in /etc/resolv.conf.obsidian-backup'' @ [10] @
     lit ''nameserver '' @ dns @ [10]"

text \<open>
  The resolver of the host: the file \<^verbatim>\<open>/etc/resolv.conf\<close>, which may be a link, the backup, the files that links lead to,
  the setting of systemd-resolved for the interface, and the operations that fail.
\<close>

datatype conf_file = Absent | Plain gostring | Linked gostring

datatype dns_op =
  ReadConf | ReadBackup | WriteBackup | RemoveConf | WriteConf | SymlinkConf | RemoveBackup
| ResolvectlDns | ResolvectlRevert

record dns_host =
  dhConf :: conf_file
  dhBackup :: "gostring option"
  dhTargets :: "gostring \<rightharpoonup> gostring"
  dhResolved :: bool
  dhLink :: "gostring option"
  dhFails :: "dns_op set"

definition read_conf :: "dns_host \<Rightarrow> gostring option" where
  "read_conf h = (case dhConf h of Absent \<Rightarrow> None | Plain b \<Rightarrow> Some b | Linked t \<Rightarrow> dhTargets h t)"

definition write_conf :: "gostring \<Rightarrow> dns_host \<Rightarrow> bool \<times> dns_host" where
  "write_conf b h =
     (if WriteConf \<in> dhFails h then (False, h)
      else (True, case dhConf h of Linked t \<Rightarrow> h\<lparr>dhTargets := (dhTargets h)(t \<mapsto> b)\<rparr> | _ \<Rightarrow> h\<lparr>dhConf := Plain b\<rparr>))"

definition remove_conf :: "dns_host \<Rightarrow> dns_host" where
  "remove_conf h = (if RemoveConf \<in> dhFails h then h else h\<lparr>dhConf := Absent\<rparr>)"

definition symlink_conf :: "gostring \<Rightarrow> dns_host \<Rightarrow> bool \<times> dns_host" where
  "symlink_conf t h =
     (if SymlinkConf \<in> dhFails h \<or> dhConf h \<noteq> Absent then (False, h) else (True, h\<lparr>dhConf := Linked t\<rparr>))"

definition remove_backup :: "dns_host \<Rightarrow> dns_host" where
  "remove_backup h = (if RemoveBackup \<in> dhFails h then h else h\<lparr>dhBackup := None\<rparr>)"

definition restoreResolvConf :: "gostring \<Rightarrow> gostring \<Rightarrow> dns_host \<Rightarrow> dns_host" where
  "restoreResolvConf orig linkTarget h =
     (if linkTarget \<noteq> [] then
        case symlink_conf linkTarget (remove_conf h) of (ok, h) \<Rightarrow> if ok then remove_backup h else h
      else case write_conf orig h of (ok, h) \<Rightarrow> if ok then remove_backup h else h)"

definition applyResolvConf :: "gostring \<Rightarrow> dns_host \<Rightarrow> (dns_host \<Rightarrow> dns_host) \<times> dns_host" where
  "applyResolvConf dns h =
     (if ReadConf \<in> dhFails h then (id, h)
      else
        let orig = (case read_conf h of None \<Rightarrow> [] | Some b \<Rightarrow> b);
            linkTarget = (case dhConf h of Linked t \<Rightarrow> t | _ \<Rightarrow> []);
            step = (case dhBackup h of
                      None \<Rightarrow> if WriteBackup \<in> dhFails h then None else Some (orig, h\<lparr>dhBackup := Some orig\<rparr>)
                    | Some data \<Rightarrow> Some (if ReadBackup \<in> dhFails h then orig else data, h))
        in case step of
             None \<Rightarrow> (id, h)
           | Some (orig, h) \<Rightarrow>
               let h = (if linkTarget \<noteq> [] then remove_conf h else h)
               in case write_conf (resolvConfFor dns) h of
                    (False, h) \<Rightarrow> (id, restoreResolvConf orig linkTarget h)
                  | (True, h) \<Rightarrow> (restoreResolvConf orig linkTarget, h))"

text \<open>systemd-resolved keeps the server for the interface; only its first command decides.\<close>

definition applyDNSLinux :: "gostring \<Rightarrow> dns_host \<Rightarrow> (dns_host \<Rightarrow> dns_host) \<times> dns_host" where
  "applyDNSLinux dns h =
     (if dhResolved h then
        if ResolvectlDns \<in> dhFails h then (id, h)
        else (\<lambda>h. if ResolvectlRevert \<in> dhFails h then h else h\<lparr>dhLink := None\<rparr>, h\<lparr>dhLink := Some dns\<rparr>)
      else applyResolvConf dns h)"

section \<open>DNS on macOS\<close>

definition parseNetworkServices :: "gostring \<Rightarrow> gostring list" where
  "parseNetworkServices out =
     filter (\<lambda>line. \<not> (line = [] \<or> HasPrefix line (lit ''*'') \<or> HasPrefix line (lit ''An asterisk''))) (map TrimSpace (splitLines out))"

definition parseDNSServers :: "netip_lib \<Rightarrow> gostring \<Rightarrow> gostring list" where
  "parseDNSServers N out =
     (if str_Contains out (lit ''aren'' @ [39] @ lit ''t any DNS Servers'') then []
      else filter (\<lambda>line. line \<noteq> [] \<and> ParseAddr N line \<noteq> None) (map TrimSpace (splitLines out)))"

definition setDNSArgs :: "gostring \<Rightarrow> gostring list \<Rightarrow> gostring list" where
  "setDNSArgs service servers =
     [lit ''-setdnsservers'', service] @ (if servers = [] then [lit ''Empty''] else servers)"

text \<open>
  The settings of macOS: the servers of each service, as \<^verbatim>\<open>networksetup\<close> prints them and sets them. A command on a service
  may fail.
\<close>

record mac_host =
  mhListing :: "gostring option"
  mhServers :: "gostring \<Rightarrow> gostring list"
  mhPrints :: "gostring list \<Rightarrow> gostring"
  mhGetFails :: "gostring set"
  mhSetFails :: "gostring set"

definition mac_get :: "gostring \<Rightarrow> mac_host \<Rightarrow> gostring option" where
  "mac_get svc h = (if svc \<in> mhGetFails h then None else Some (mhPrints h (mhServers h svc)))"

fun mac_set :: "gostring list \<Rightarrow> mac_host \<Rightarrow> bool \<times> mac_host" where
  "mac_set (_ # svc # servers) h =
     (if svc \<in> mhSetFails h then (False, h)
      else (True, h\<lparr>mhServers := (mhServers h)(svc := if servers = [lit ''Empty''] then [] else servers)\<rparr>))"
| "mac_set _ h = (False, h)"

fun set_services :: "netip_lib \<Rightarrow> gostring \<Rightarrow> gostring list \<Rightarrow> (gostring \<times> gostring list) list \<Rightarrow> mac_host
    \<Rightarrow> (gostring \<times> gostring list) list \<times> mac_host" where
  "set_services N dns [] saved h = (saved, h)"
| "set_services N dns (svc # svcs) saved h =
     (case mac_get svc h of
        None \<Rightarrow> set_services N dns svcs saved h
      | Some cur \<Rightarrow>
          (case mac_set (setDNSArgs svc [dns]) h of
             (False, h) \<Rightarrow> set_services N dns svcs saved h
           | (True, h) \<Rightarrow> set_services N dns svcs (saved @ [(svc, parseDNSServers N cur)]) h))"

text \<open>\<open>saved\<close> in the order of the services; the last entry of a service counts, as in the map of the code.\<close>

definition restore_services :: "(gostring \<times> gostring list) list \<Rightarrow> mac_host \<Rightarrow> mac_host" where
  "restore_services saved h =
     fold (\<lambda>svc h. snd (mac_set (setDNSArgs svc (the (map_of (rev saved) svc))) h)) (map fst saved) h"

definition applyDNSDarwin :: "netip_lib \<Rightarrow> gostring \<Rightarrow> mac_host \<Rightarrow> (mac_host \<Rightarrow> mac_host) \<times> mac_host" where
  "applyDNSDarwin N dns h =
     (case mhListing h of
        None \<Rightarrow> (id, h)
      | Some out \<Rightarrow> (case set_services N dns (parseNetworkServices out) [] h of (saved, h) \<Rightarrow> (restore_services saved, h)))"

section \<open>Setup and close\<close>

record tun_config =
  tcName :: gostring
  tcAddress :: gostring
  tcMTU :: int
  tcDNS :: gostring
  tcServerHost :: gostring
  tcEnableIPv6 :: bool
  tcSplitMode :: gostring
  tcSplitEntries :: "gostring list"

definition dnsOrDefault :: "gostring \<Rightarrow> gostring" where
  "dnsOrDefault dns = (let dns = TrimSpace dns in if dns = [] then lit ''1.1.1.1'' else dns)"

definition tunIPv6Addr :: gostring where
  "tunIPv6Addr = lit ''fd00:8::2''"

definition tunWantsIPv6 :: "tun_config \<Rightarrow> bool" where
  "tunWantsIPv6 cfg \<longleftrightarrow> tcSplitMode cfg \<noteq> SplitModeInclude \<or> tcEnableIPv6 cfg"

record 'h netState =
  nsManager :: routeManager
  nsRestoreDNS :: "('h \<Rightarrow> 'h) option"

text \<open>The server that the DNS settings are changed to, or none.\<close>

definition setup_dns :: "netip_lib \<Rightarrow> tun_config \<Rightarrow> gostring" where
  "setup_dns N cfg =
     (let dns = dnsOrDefault (tcDNS cfg)
      in case ParseAddr N dns of
           None \<Rightarrow> []
         | Some a \<Rightarrow> if length a = 128 \<and> \<not> tcEnableIPv6 cfg then [] else dns)"

definition setup_mode :: "tun_config \<Rightarrow> gostring" where
  "setup_mode cfg = (if tcSplitMode cfg \<noteq> SplitModeInclude \<and> tcSplitMode cfg \<noteq> SplitModeExclude then SplitModeOff else tcSplitMode cfg)"

definition manager_close :: "routeManager \<times> kernel \<Rightarrow> routeManager \<times> kernel" where
  "manager_close mk = (if rmClosed (fst mk) then mk else close_remove (close_mark (fst mk), snd mk))"

definition setupNetwork ::
    "netip_lib \<Rightarrow> lookupFunc \<Rightarrow> ((gostring \<times> gostring) list \<Rightarrow> (gostring \<times> gostring) list) \<Rightarrow> tun_config
       \<Rightarrow> ('h \<Rightarrow> ('h \<Rightarrow> 'h) \<times> 'h) option \<Rightarrow> kernel \<times> 'h \<Rightarrow> 'h netState option \<times> kernel \<times> 'h" where
  "setupNetwork N resolver order cfg applyDNS kh =
     (case kh of (k, h) \<Rightarrow>
        let dns = setup_dns N cfg;
            rm = newRouteManager (setup_mode cfg) (tcSplitEntries cfg) dns (tcServerHost cfg) (tcEnableIPv6 cfg)
        in case start N (lookupIPs (tcEnableIPv6 cfg) resolver) order (rm, k) of
             (Inl e, mk) \<Rightarrow> (None, snd (manager_close mk), h)
           | (Inr _, rm, k) \<Rightarrow>
               (case applyDNS of
                  Some app \<Rightarrow>
                    if dns \<noteq> [] then case app h of (restore, h) \<Rightarrow> (Some \<lparr>nsManager = rm, nsRestoreDNS = Some restore\<rparr>, k, h)
                    else (Some \<lparr>nsManager = rm, nsRestoreDNS = None\<rparr>, k, h)
                | None \<Rightarrow> (Some \<lparr>nsManager = rm, nsRestoreDNS = None\<rparr>, k, h)))"

definition serverAddr :: "'h netState option \<Rightarrow> addr_bits option" where
  "serverAddr st = (case st of None \<Rightarrow> None | Some s \<Rightarrow> primaryServer (nsManager s))"

definition netState_close :: "'h netState option \<Rightarrow> kernel \<times> 'h \<Rightarrow> kernel \<times> 'h" where
  "netState_close st kh =
     (case st of
        None \<Rightarrow> kh
      | Some s \<Rightarrow>
          (snd (manager_close (nsManager s, fst kh)), case nsRestoreDNS s of None \<Rightarrow> snd kh | Some restore \<Rightarrow> restore (snd kh)))"

section \<open>Reading the output of commands\<close>

definition word_ok :: "gostring \<Rightarrow> bool" where
  "word_ok w \<longleftrightarrow> w \<noteq> [] \<and> set w \<inter> {32, 9, 10, 13} = {}"

fun unwords :: "gostring list \<Rightarrow> gostring" where
  "unwords [] = []"
| "unwords [w] = w"
| "unwords (w # ws) = w @ 32 # unwords ws"

lemma fields_word: "set w \<inter> {32, 9, 10, 13} = {} \<Longrightarrow> fields_from cur (w @ s) = fields_from (cur @ w) s"
  by (induction w arbitrary: cur) auto

lemma splitFields_unwords: "\<forall>w \<in> set ws. word_ok w \<Longrightarrow> splitFields (unwords ws) = ws"
proof (induction ws rule: unwords.induct)
  case (2 w)
  then show ?case using fields_word[of w "[]" "[]"] by (simp add: splitFields_def word_ok_def)
next
  case (3 w v ws)
  then show ?case using fields_word[of w "[]" "32 # unwords (v # ws)"] by (simp add: splitFields_def word_ok_def)
qed (simp add: splitFields_def)

lemma lines_word: "set w \<inter> {10, 13} = {} \<Longrightarrow> lines_from cur (w @ s) = lines_from (cur @ w) s"
  by (induction w arbitrary: cur) auto

lemma splitLines_first: "set w \<inter> {10, 13} = {} \<Longrightarrow> splitLines (w @ 10 # s) = w # splitLines s"
  using lines_word[of w "[]" "10 # s"] by (simp add: splitLines_def)

lemma unwords_one_line: "\<forall>w \<in> set ws. word_ok w \<Longrightarrow> set (unwords ws) \<inter> {10, 13} = {}"
  by (induction ws rule: unwords.induct) (auto simp: word_ok_def)

lemma route_words_rest: "\<forall>w \<in> set ws. w \<noteq> lit ''via'' \<and> w \<noteq> lit ''dev'' \<Longrightarrow> route_words ws g = g"
  by (induction ws g rule: route_words.induct) auto

text \<open>The default route of \<^verbatim>\<open>ip route show default\<close> is read whatever attributes and routes follow it.\<close>

lemma linux_default_route_read:
  assumes "word_ok ip" and "word_ok dev" and "\<forall>w \<in> set attrs. word_ok w \<and> w \<noteq> lit ''via'' \<and> w \<noteq> lit ''dev''"
    and "{ip, dev} \<inter> {lit ''via'', lit ''dev''} = {}"
  shows "parseLinuxDefaultRoute (unwords ([lit ''default'', lit ''via'', ip, lit ''dev'', dev] @ attrs) @ 10 # others) = \<lparr>gwIp = ip, gwDev = dev\<rparr>"
proof -
  let ?ws = "[lit ''default'', lit ''via'', ip, lit ''dev'', dev] @ attrs"
  have ok: "\<forall>w \<in> set ?ws. word_ok w" using assms(1-3) by (auto simp: word_ok_def lit_def)
  have "lit ''default'' \<noteq> lit ''via''" "lit ''default'' \<noteq> lit ''dev''" "lit ''dev'' \<noteq> lit ''via''" by (simp_all add: lit_def)
  moreover have "route_words (dev # attrs) g = g" for g by (rule route_words_rest) (use assms(3,4) in auto)
  ultimately have "route_words ?ws no_gateway = \<lparr>gwIp = ip, gwDev = dev\<rparr>" using assms(4) by (auto simp: no_gateway_def)
  then show ?thesis
    using splitLines_first[OF unwords_one_line[OF ok]] splitFields_unwords[OF ok] assms(1)
    by (simp add: parseLinuxDefaultRoute_def gateway_valid_def word_ok_def Let_def)
qed

section \<open>Everything is put back\<close>

text \<open>
  What an earlier run of the program leaves of the resolver when it ends, at whatever point: before it changed DNS, with the
  backup written, with the link removed, with the file taken over, or after it put things back. The setting of systemd-resolved goes with the interface.
\<close>

definition conf_content :: "dns_host \<Rightarrow> gostring" where
  "conf_content h = (case read_conf h of None \<Rightarrow> [] | Some b \<Rightarrow> b)"

definition backed_up :: "dns_host \<Rightarrow> dns_host" where
  "backed_up h = (case dhBackup h of None \<Rightarrow> h\<lparr>dhBackup := Some (conf_content h)\<rparr> | Some _ \<Rightarrow> h)"

inductive dns_left :: "dns_host \<Rightarrow> dns_host \<Rightarrow> bool" where
  untouched: "dns_left h h"
| backup_only: "\<not> dhResolved h \<Longrightarrow> dns_left h (backed_up h)"
| link_removed: "\<not> dhResolved h \<Longrightarrow> dhConf h = Linked t \<Longrightarrow> dns_left h ((backed_up h)\<lparr>dhConf := Absent\<rparr>)"
| taken_over: "applyDNSLinux dns h = (restore, h') \<Longrightarrow> dns_left h (h'\<lparr>dhLink := None\<rparr>)"
| put_back: "applyDNSLinux dns h = (restore, h') \<Longrightarrow> dns_left h ((restore h')\<lparr>dhLink := None\<rparr>)"

text \<open>
  What it leaves of the routes: it installed some, possibly part of a plan, and may have removed some again when it was closing (\<open>gone\<close>);
  those through the interface disappear with it.
\<close>

inductive earlier_run :: "netip_lib \<Rightarrow> kernel \<times> dns_host \<Rightarrow> kernel \<times> dns_host \<Rightarrow> bool" for N where
  ran: "(manager_step N)\<^sup>*\<^sup>* (fresh_managed ((newRouteManager mode entries server host ipv6)\<lparr>rmServers := servers\<rparr>) k) s \<Longrightarrow>
    n = 0 \<or> plan \<in> set (maPlans s) \<and> \<not> rmClosed (maManager s) \<Longrightarrow>
    fold addLocked (take n (plan_list plan)) (maManager s, maKernel s) = (m, k') \<Longrightarrow>
    gone \<subseteq> set (rmApplied m) \<Longrightarrow> gone = {} \<or> rmClosed m \<Longrightarrow> dns_left h h' \<Longrightarrow>
    earlier_run N (k, h) (k'\<lparr>kRoutes := {r \<in> kRoutes k' - gone. \<not> viaTun r}\<rparr>, h')"

text \<open>The host before the first run: no operation on the resolver fails, and there is no backup and no interface.\<close>

definition clean_host :: "kernel \<Rightarrow> dns_host \<Rightarrow> bool" where
  "clean_host k h \<longleftrightarrow> dhFails h = {} \<and> dhBackup h = None \<and> dhLink h = None \<and> dhConf h \<noteq> Linked [] \<and> (\<forall>r \<in> kRoutes k. \<not> viaTun r)"

text \<open>
  What a run that closes makes of the resolver of \<open>h0\<close> when it found \<open>g\<close>: a file is written back with its first content. A link is put back
  only if it was still there; a file that did not exist is created, empty.
\<close>

definition restored_dns :: "dns_host \<Rightarrow> dns_host \<Rightarrow> dns_host" where
  "restored_dns h0 g =
     (if dhResolved h0 then h0
      else h0\<lparr>dhConf := (case dhConf g of Linked t \<Rightarrow> Linked t | _ \<Rightarrow> Plain (conf_content h0))\<rparr>)"

definition dns_inv :: "dns_host \<Rightarrow> dns_host \<Rightarrow> bool" where
  "dns_inv h0 g \<longleftrightarrow> dhTargets g = dhTargets h0 \<and> dhResolved g = dhResolved h0 \<and> dhFails g = {} \<and> dhLink g = None \<and>
     (dhResolved h0 \<longrightarrow> g = h0) \<and>
     (case dhBackup g of
        None \<Rightarrow> dhConf g = dhConf h0 \<or> dhConf g = Plain (conf_content h0)
      | Some d \<Rightarrow> d = conf_content h0 \<and> (dhConf g = dhConf h0 \<or> (\<forall>t. dhConf g \<noteq> Linked t)))"

lemma dns_inv_content:
  assumes "dns_inv h0 g"
  shows "(case dhBackup g of None \<Rightarrow> conf_content g | Some d \<Rightarrow> d) = conf_content h0"
proof (cases "dhBackup g")
  case None
  then have "read_conf g = read_conf h0 \<or> read_conf g = Some (conf_content h0)"
    using assms by (auto simp: dns_inv_def read_conf_def split: conf_file.split)
  then show ?thesis using None by (auto simp: conf_content_def)
qed (use assms in \<open>simp add: dns_inv_def\<close>)

lemma dns_taken_over:
  assumes "dns_inv h0 g" and "clean_host k0 h0" and "applyDNSLinux dns g = (restore, h')"
  shows "dns_inv h0 (h'\<lparr>dhLink := None\<rparr>)" and "restore h' = restored_dns h0 g"
proof -
  have f: "dhFails g = {}" "dhTargets g = dhTargets h0" "dhResolved g = dhResolved h0" "dhLink g = None" using assms(1) by (simp_all add: dns_inv_def)
  have "dns_inv h0 (h'\<lparr>dhLink := None\<rparr>) \<and> restore h' = restored_dns h0 g"
  proof (cases "dhResolved h0")
    case True
    then have g: "g = h0" using assms(1) by (simp add: dns_inv_def)
    then have h': "h' = g\<lparr>dhLink := Some dns\<rparr>" "restore h' = h'\<lparr>dhLink := None\<rparr>" using True f assms(3) by (auto simp: applyDNSLinux_def)
    have "h'\<lparr>dhLink := None\<rparr> = g" using h'(1) f(4) by simp
    then show ?thesis using h'(2) g assms(1) True by (simp add: restored_dns_def)
  next
    case False
    define b where "b = conf_content h0"
    have b: "(case dhBackup g of None \<Rightarrow> conf_content g | Some d \<Rightarrow> d) = b" using dns_inv_content [OF assms(1)] by (simp add: b_def)
    define lt where "lt = (case dhConf g of Linked t \<Rightarrow> t | _ \<Rightarrow> [])"
    have lt: "dhConf g = Linked t \<Longrightarrow> lt = t \<and> lt \<noteq> []" for t
      using assms(1,2) by (auto simp: lt_def dns_inv_def clean_host_def split: option.splits)
    have nl: "lt = []" if "\<forall>t. dhConf g \<noteq> Linked t" using that by (auto simp: lt_def split: conf_file.split)
    let ?g = "g\<lparr>dhBackup := Some b\<rparr>"
    have same: "g\<lparr>dhBackup := Some x\<rparr> = g" if "dhBackup g = Some x" for x using that by (cases g) simp
    have kept: "(case dhBackup g of
          None \<Rightarrow> if WriteBackup \<in> dhFails g then None else Some (conf_content g, g\<lparr>dhBackup := Some (conf_content g)\<rparr>)
        | Some data \<Rightarrow> Some (if ReadBackup \<in> dhFails g then conf_content g else data, g)) = Some (b, ?g)"
      using b f(1) same by (cases "dhBackup g") simp_all
    have written: "write_conf x (if lt \<noteq> [] then remove_conf ?g else ?g) = (True, ?g\<lparr>dhConf := Plain x\<rparr>)" for x
      using lt nl f(1) by (cases "dhConf g") (simp_all add: write_conf_def remove_conf_def)
    have h': "h' = ?g\<lparr>dhConf := Plain (resolvConfFor dns)\<rparr>" "restore = restoreResolvConf b lt"
      using assms(3) False f kept written
      by (simp_all add: applyDNSLinux_def applyResolvConf_def conf_content_def [symmetric] lt_def [symmetric] Let_def)
    have "dns_inv h0 (h'\<lparr>dhLink := None\<rparr>)" using f False by (simp add: h'(1) dns_inv_def b_def)
    moreover have "restore h' = g\<lparr>dhBackup := None, dhConf := (case dhConf g of Linked t \<Rightarrow> Linked t | _ \<Rightarrow> Plain b)\<rparr>"
      using lt nl f unfolding h'
      by (cases "dhConf g") (auto simp: restoreResolvConf_def remove_conf_def symlink_conf_def write_conf_def remove_backup_def)
    moreover have "dhFails h0 = {}" "dhBackup h0 = None" "dhLink h0 = None" using assms(2) by (simp_all add: clean_host_def)
    moreover from this have "g\<lparr>dhBackup := None, dhConf := c\<rparr> = h0\<lparr>dhConf := c\<rparr>" for c
      using f by (intro dns_host.equality) simp_all
    ultimately show ?thesis using False unfolding restored_dns_def b_def by simp
  qed
  then show "dns_inv h0 (h'\<lparr>dhLink := None\<rparr>)" "restore h' = restored_dns h0 g" by simp_all
qed

lemma restored_inv: "dns_inv h0 g \<Longrightarrow> clean_host k0 h0 \<Longrightarrow> dns_inv h0 (restored_dns h0 g)"
  by (auto simp: dns_inv_def restored_dns_def clean_host_def split: conf_file.splits option.splits)

lemma dns_left_inv:
  assumes "dns_left g g'" and "dns_inv h0 g" and "clean_host k0 h0"
  shows "dns_inv h0 g'"
  using assms(1)
proof cases
  case backup_only
  then show ?thesis using assms(2) dns_inv_content [OF assms(2)] by (auto simp: backed_up_def dns_inv_def conf_content_def split: option.splits)
next
  case (link_removed t)
  then show ?thesis using assms(2) dns_inv_content [OF assms(2)] by (auto simp: backed_up_def dns_inv_def conf_content_def split: option.splits)
next
  case (taken_over dns restore h')
  then show ?thesis using dns_taken_over(1) [OF assms(2,3)] by blast
next
  case (put_back dns restore h')
  have "dns_inv h0 (restore h')" using dns_taken_over(2) [OF assms(2,3) put_back(2)] restored_inv [OF assms(2,3)] by simp
  moreover from this have "dhLink (restore h') = None" by (simp add: dns_inv_def)
  ultimately show ?thesis using put_back(1) by (cases "restore h'") simp
qed (use assms(2) in simp)

text \<open>The routes: what the manager owns survives every refresh, and the close gives it back.\<close>

lemma refresh_owns:
  assumes "owns K0 mk"
  shows "owns K0 (refresh N lookup order mk)" "kSticks (snd (refresh N lookup order mk)) = kSticks (snd mk)"
    "rmClosed (fst (refresh N lookup order mk)) = rmClosed (fst mk)"
proof -
  obtain m k where mk: "mk = (m, k)" by (rule prod.exhaust)
  obtain plan m' where n: "refresh_note N (fresh_addresses N lookup order m) m = (plan, m')" by (rule prod.exhaust)
  have "owns K0 (refresh N lookup order mk) \<and> kSticks (snd (refresh N lookup order mk)) = kSticks (snd mk) \<and>
      rmClosed (fst (refresh N lookup order mk)) = rmClosed (fst mk)"
  proof (cases plan)
    case None
    then have "m' = m" using n by (auto simp: refresh_note_def Let_def split: if_splits)
    then show ?thesis using None n assms mk by (simp add: refresh_def)
  next
    case (Some p)
    then have o: "owns K0 (m', k)" "rmClosed m' = rmClosed m" using note_keeps[of N _ m p m'] n assms mk by (auto simp: owns_def)
    show ?thesis
      using fold_addLocked(1,2)[OF o(1), of "plan_list p"] Some n o mk
      by (auto simp: refresh_def apply_plan_def fixed_part_def)
  qed
  then show "owns K0 (refresh N lookup order mk)" "kSticks (snd (refresh N lookup order mk)) = kSticks (snd mk)"
    "rmClosed (fst (refresh N lookup order mk)) = rmClosed (fst mk)" by auto
qed

lemma refreshes_own:
  "owns K0 mk \<Longrightarrow> owns K0 (fold (\<lambda>(lookup, order). refresh N lookup order) rs mk) \<and>
     kSticks (snd (fold (\<lambda>(lookup, order). refresh N lookup order) rs mk)) = kSticks (snd mk) \<and>
     rmClosed (fst (fold (\<lambda>(lookup, order). refresh N lookup order) rs mk)) = rmClosed (fst mk)"
proof (induction rs arbitrary: mk)
  case (Cons r rs)
  obtain l c where r: "r = (l, c)" by (rule prod.exhaust)
  show ?case using Cons.IH[of "refresh N l c mk"] refresh_owns[OF Cons.prems, of N l c] r by simp
qed simp

lemma manager_close_gives_back:
  assumes "owns K0 (m, k)" and "\<not> rmClosed m"
  shows "K0 \<subseteq> kRoutes (snd (manager_close (m, k)))" "\<forall>r \<in> kRoutes (snd (manager_close (m, k))) - K0. kSticks k r"
  using assms by (auto simp: manager_close_def close_mark_def close_remove_def owns_def ops_del_fold)

lemma start_owns:
  assumes "start N lookup order (newRouteManager mode entries dns host ipv6, k) = (r, mk)"
  shows "owns (kRoutes k) mk" "kSticks (snd mk) = kSticks k" "\<not> rmClosed (fst mk)" "r = Inl e \<Longrightarrow> kRoutes (snd (manager_close mk)) = kRoutes k"
proof -
  have f: "owns (kRoutes k) ((newRouteManager mode entries dns host ipv6)\<lparr>rmServers := xs\<rparr>, k)"
    "owns (kRoutes k) (newRouteManager mode entries dns host ipv6, k)" for xs
    by (simp_all add: owns_def newRouteManager_def)
  show "owns (kRoutes k) mk" "kSticks (snd mk) = kSticks k" "\<not> rmClosed (fst mk)" "r = Inl e \<Longrightarrow> kRoutes (snd (manager_close mk)) = kRoutes k"
    using assms f refresh_owns[OF f(1)] refresh_owns[OF f(2)]
    by (auto simp: start_def Let_def resolveServer_def manager_close_def close_mark_def close_remove_def newRouteManager_def
        split: if_splits option.splits)
qed

text \<open>An earlier run takes no route away that was there before, and leaves only routes around the tunnel.\<close>

lemma earlier_run_routes:
  assumes "earlier_run N (k, h) (k1, h1)" and "\<forall>r \<in> kRoutes k. \<not> viaTun r"
  shows "kRoutes k \<subseteq> kRoutes k1" and "\<forall>r \<in> kRoutes k1. \<not> viaTun r" and "kSticks k1 = kSticks k" and "dns_left h h1"
proof -
  obtain m0 s n plan m k' gone where
    reached: "(manager_step N)\<^sup>*\<^sup>* (fresh_managed m0 k) s" and m0: "rmApplied m0 = []" "rmSet m0 = {}"
    and n: "n = 0 \<or> plan \<in> set (maPlans s) \<and> \<not> rmClosed (maManager s)"
    and f: "fold addLocked (take n (plan_list plan)) (maManager s, maKernel s) = (m, k')"
    and gone: "gone \<subseteq> set (rmApplied m)" and k1: "k1 = k'\<lparr>kRoutes := {r \<in> kRoutes k' - gone. \<not> viaTun r}\<rparr>" and d: "dns_left h h1"
    using assms(1) by cases (auto simp: newRouteManager_def)
  have i: "managed_inv m0 k s" by (rule managed_inv_reached [OF reached m0])
  have "kRoutes k \<subseteq> kRoutes k' - gone \<and> kSticks k' = kSticks k"
  proof (cases "maRemoved s")
    case True
    then have "rmClosed (maManager s)" "rmApplied (maManager s) = []" "kRoutes k \<subseteq> kRoutes (maKernel s)" "kSticks (maKernel s) = kSticks k"
      using i by (simp_all add: managed_inv_def)
    then show ?thesis using n f gone by auto
  next
    case False
    then have o: "owns (kRoutes k) (maManager s, maKernel s)" "kSticks (maKernel s) = kSticks k" using i by (simp_all add: managed_inv_def)
    have "owns (kRoutes k) (m, k')" "kSticks k' = kSticks (maKernel s)"
      using fold_addLocked(1,2) [OF o(1), where rs = "take n (plan_list plan)"] f by (simp_all add: fixed_part_def)
    then show ?thesis using gone o(2) by (auto simp: owns_def)
  qed
  then show "kRoutes k \<subseteq> kRoutes k1" "\<forall>r \<in> kRoutes k1. \<not> viaTun r" "kSticks k1 = kSticks k" "dns_left h h1"
    using assms(2) k1 d by auto
qed

lemma earlier_runs:
  assumes "(earlier_run N)\<^sup>*\<^sup>* (k0, h0) (kd, g)" and "clean_host k0 h0"
  shows "kRoutes k0 \<subseteq> kRoutes kd \<and> (\<forall>r \<in> kRoutes kd. \<not> viaTun r) \<and> kSticks kd = kSticks k0 \<and> dns_inv h0 g"
  using assms(1)
proof (induction rule: rtranclp_induct2)
  case refl
  show ?case using assms(2) by (auto simp: clean_host_def dns_inv_def split: option.split)
next
  case (step k h k1 h1)
  then have "\<forall>r \<in> kRoutes k. \<not> viaTun r" by simp
  note r = earlier_run_routes [OF step(2) this]
  have "dns_inv h0 h1" using dns_left_inv [OF r(4) _ assms(2)] step(3) by blast
  then show ?case using step(3) r(1-3) by auto
qed

lemma restored_as_before:
  assumes "dhBackup h0 = None" and "dns_inv h0 g"
  shows "dhConf h0 = Plain b \<Longrightarrow> restored_dns h0 g = h0" and "dhConf g = Linked t \<Longrightarrow> restored_dns h0 g = h0"
  using assms by (cases h0; auto simp: restored_dns_def dns_inv_def conf_content_def read_conf_def split: option.splits conf_file.splits)+

text \<open>
  Property C10. What setting up the network of a Linux client and closing it again leaves, with any number of refreshes of the routes in between, and
  after any number of earlier runs that ended at any point, closed or not. Earlier runs took away no route of the host,
  and the routes they left lead around the tunnel. The run itself leaves the table it found, except for routes the host would not
  remove. The resolver gets back the content it had before the very first run and no backup is left: a plain file is exactly
  the first one again, and so is a link, unless an earlier run that never closed had replaced it, in which case the file is
  plain; a file that was missing is there and empty. When the routes cannot be installed, nothing is changed at all, and without
  a usable DNS server the resolver is not touched.
\<close>

theorem network_restored:
  assumes before: "(earlier_run N)\<^sup>*\<^sup>* (k0, h0) (kd, g)" and clean: "clean_host k0 h0"
    and up: "setupNetwork N resolver order cfg (Some (applyDNSLinux dns)) (kd, g) = (st, k1, h1)"
  shows "kRoutes k0 \<subseteq> kRoutes kd \<and> (\<forall>r \<in> kRoutes kd - kRoutes k0. \<not> viaTun r) \<and>
    (case st of
      None \<Rightarrow> kRoutes k1 = kRoutes kd \<and> h1 = g
    | Some s \<Rightarrow>
        (case fold (\<lambda>(lookup, order). refresh N lookup order) rs (nsManager s, k1) of (m, k2) \<Rightarrow>
         case netState_close (Some (s\<lparr>nsManager := m\<rparr>)) (k2, h1) of (k, h) \<Rightarrow>
           kRoutes kd \<subseteq> kRoutes k \<and> (\<forall>r \<in> kRoutes k - kRoutes kd. kSticks k0 r) \<and>
           h = (if setup_dns N cfg = [] then g else restored_dns h0 g))) \<and>
    (\<forall>b. dhConf h0 = Plain b \<longrightarrow> restored_dns h0 g = h0) \<and> (\<forall>t. dhConf g = Linked t \<longrightarrow> restored_dns h0 g = h0)"
proof -
  let ?rm = "newRouteManager (setup_mode cfg) (tcSplitEntries cfg) (setup_dns N cfg) (tcServerHost cfg) (tcEnableIPv6 cfg)"
  note e = earlier_runs [OF before clean]
  have same: "(\<forall>b. dhConf h0 = Plain b \<longrightarrow> restored_dns h0 g = h0) \<and> (\<forall>t. dhConf g = Linked t \<longrightarrow> restored_dns h0 g = h0)"
    using restored_as_before [of h0 g] e clean by (simp add: clean_host_def)
  obtain r mk where s: "start N (lookupIPs (tcEnableIPv6 cfg) resolver) order (?rm, kd) = (r, mk)" by (rule prod.exhaust)
  obtain restore h2 where d: "applyDNSLinux dns g = (restore, h2)" by (rule prod.exhaust)
  show ?thesis
  proof (cases r)
    case (Inl err)
    then show ?thesis using up s start_owns(4) [OF s] e same by (auto simp: setupNetwork_def Let_def)
  next
    case (Inr b)
    obtain m1 k' where mk: "mk = (m1, k')" by (rule prod.exhaust)
    obtain m k2 where f: "fold (\<lambda>(lookup, order). refresh N lookup order) rs (m1, k') = (m, k2)" by (rule prod.exhaust)
    have o: "owns (kRoutes kd) (m, k2)" "kSticks k2 = kSticks k0" "\<not> rmClosed m"
      using refreshes_own [OF start_owns(1) [OF s], of N rs] start_owns(2,3) [OF s] f mk e by auto
    have h: "restore h2 = restored_dns h0 g" using dns_taken_over(2) [OF _ clean d] e by simp
    show ?thesis using up s Inr mk f d h o manager_close_gives_back [OF o(1,3)] e same
      by (cases "setup_dns N cfg = []") (auto simp: setupNetwork_def netState_close_def Let_def)
  qed
qed

definition example_tun_config :: tun_config where
  "example_tun_config = \<lparr>tcName = [], tcAddress = [], tcMTU = 0, tcDNS = lit ''dns'', tcServerHost = lit ''dns'',
     tcEnableIPv6 = False, tcSplitMode = [], tcSplitEntries = []\<rparr>"

definition example_host :: dns_host where
  "example_host = \<lparr>dhConf = Plain (lit ''nameserver 192.0.2.1''), dhBackup = None, dhTargets = Map.empty,
     dhResolved = False, dhLink = None, dhFails = {}\<rparr>"

lemma example_setup_dns: "setup_dns example_netip example_tun_config = lit ''dns''"
  by (simp add: setup_dns_def example_tun_config_def example_netip_def dnsOrDefault_def TrimSpace_def IsSpace_def lit_def Let_def)

lemma example_network_up:
  "\<exists>s k h. setupNetwork example_netip (\<lambda>_. None) id example_tun_config (Some (applyDNSLinux (lit ''dns''))) (kd, g) = (Some s, k, h)"
proof -
  have h: "trim_brackets (TrimSpace (lit ''dns'')) = lit ''dns''" by (simp add: trim_brackets_def TrimSpace_def IsSpace_def lit_def)
  have "resolveServer example_netip lookup (newRouteManager mode entries dns (lit ''dns'') ipv6) \<noteq> Inl e" for lookup mode entries dns ipv6 e
    using h by (simp add: resolveServer_def newRouteManager_def example_netip_def Let_def)
  then show ?thesis
    by (auto simp: setupNetwork_def start_def Let_def example_setup_dns example_tun_config_def split: sum.splits prod.splits)
qed

lemma example_earlier_run:
  assumes "dns_left h h'"
  shows "\<exists>kd. earlier_run example_netip (example_kernel, h) (kd, h') \<and> kRoutes kd \<noteq> {} \<and> kSticks kd = (\<lambda>_. False)"
proof -
  obtain plan m where n: "refresh_note example_netip (fresh_addresses example_netip (\<lambda>_. None) id example_manager) example_manager = (Some plan, m)"
    by (auto simp: refresh_note_def Let_def example_manager_def newRouteManager_def)
  let ?s = "\<lparr>maManager = m, maKernel = example_kernel, maPlans = [plan], maRemoved = False\<rparr>"
  have "manager_step example_netip (fresh_managed example_manager example_kernel) ?s"
    using noted [of example_netip _ "fresh_managed example_manager example_kernel" plan m] n by (simp add: fresh_managed_def)
  then have reached: "(manager_step example_netip)\<^sup>*\<^sup>* (fresh_managed example_manager example_kernel) ?s" by blast
  obtain m' k' where f: "fold addLocked (take (length (plan_list plan)) (plan_list plan)) (m, example_kernel) = (m', k')" by (rule prod.exhaust)
  note k = note_keeps [OF n]
  have "apply_plan plan (m, example_kernel) = (m', k')" using f k(4,5) by (simp add: apply_plan_def)
  then have r: "\<lparr>rtPrefix = host_prefix (replicate 32 False), viaTun = False\<rparr> \<in> kRoutes k'"
    using example_refreshed n by (simp add: refresh_def)
  have run: "earlier_run example_netip (example_kernel, h) (k'\<lparr>kRoutes := {r \<in> kRoutes k' - {}. \<not> viaTun r}\<rparr>, h')"
    by (rule earlier_run.ran [OF reached [unfolded example_manager_def] _ _ _ _ assms,
          where n = "length (plan_list plan)" and plan = plan and m = m']) (use f k in auto)
  from earlier_run_routes(3) [OF run] have "kSticks k' = (\<lambda>_. False)" by (simp add: example_kernel_def)
  with run r show ?thesis by (intro exI [of _ "k'\<lparr>kRoutes := {r \<in> kRoutes k' - {}. \<not> viaTun r}\<rparr>"]) auto
qed

theorem network_restored_witness:
  "\<exists>kd g s k1 h1. (earlier_run example_netip)\<^sup>*\<^sup>* (example_kernel, example_host) (kd, g) \<and> kRoutes kd \<noteq> {} \<and> g \<noteq> example_host \<and>
     setupNetwork example_netip (\<lambda>_. None) id example_tun_config (Some (applyDNSLinux (lit ''dns''))) (kd, g) = (Some s, k1, h1) \<and>
     (case netState_close (Some s) (k1, h1) of (k, h) \<Rightarrow> kRoutes k = kRoutes kd \<and> h = example_host)"
proof -
  obtain restore h' where h': "applyDNSLinux (lit ''old'') example_host = (restore, h')" by (rule prod.exhaust)
  let ?g = "h'\<lparr>dhLink := None\<rparr>"
  have g: "?g \<noteq> example_host"
    using h' by (auto simp: applyDNSLinux_def applyResolvConf_def example_host_def read_conf_def write_conf_def Let_def)
  obtain kd where kd: "earlier_run example_netip (example_kernel, example_host) (kd, ?g)" "kRoutes kd \<noteq> {}"
    using example_earlier_run [OF dns_left.taken_over [OF h']] by blast
  then have runs: "(earlier_run example_netip)\<^sup>*\<^sup>* (example_kernel, example_host) (kd, ?g)" by blast
  obtain s k1 h1 where up: "setupNetwork example_netip (\<lambda>_. None) id example_tun_config (Some (applyDNSLinux (lit ''dns''))) (kd, ?g) = (Some s, k1, h1)"
    using example_network_up by blast
  have c: "clean_host example_kernel example_host" by (simp add: clean_host_def example_host_def example_kernel_def)
  have p: "dhConf example_host = Plain (lit ''nameserver 192.0.2.1'')" by (simp add: example_host_def)
  have "case netState_close (Some s) (k1, h1) of (k, h) \<Rightarrow> kRoutes k = kRoutes kd \<and> h = example_host"
    using network_restored [OF runs c up, of "[]"] p by (auto simp: example_kernel_def example_setup_dns lit_def)
  then show ?thesis
    by (intro exI [of _ kd] exI [of _ ?g] exI [of _ s] exI [of _ k1] exI [of _ h1] conjI) (rule runs kd(2) g up | assumption)+
qed

end
