(* ===== verification/Split_Tunnel.thy ===== *)
theory Split_Tunnel
  imports Go_Strings
begin

text \<open>
  Split tunnelling by name on the client, \<^verbatim>\<open>cmd/client/split_tunnel.go\<close>: the mode and the entries of a
  configuration, the matcher of domains and addresses, and the reader of DNS messages that finds the addresses of
  matched names. Addresses are bytes; the parsers of package \<^verbatim>\<open>net\<close> and the case table of Unicode are arguments.
\<close>

section \<open>Configuration\<close>

definition splitModeInclude :: gostring where "splitModeInclude = lit ''include''"
definition splitModeExclude :: gostring where "splitModeExclude = lit ''exclude''"

record split_config =
  spMode :: gostring
  spRouteIPs :: "gostring list"
  spSites :: "gostring list"
  spApps :: "gostring list"
  spProcesses :: "gostring list"

text \<open>The trimmed entries that are not empty, each once, in their order.\<close>

fun first_seen :: "gostring set \<Rightarrow> gostring list \<Rightarrow> gostring list" where
  "first_seen seen [] = []"
| "first_seen seen (x # xs) =
     (let item = TrimSpace x
      in if item = [] \<or> item \<in> seen then first_seen seen xs else item # first_seen (insert item seen) xs)"

definition splitTunnelEntries :: "gostring list \<Rightarrow> gostring list \<Rightarrow> gostring list \<Rightarrow> gostring list \<Rightarrow> gostring list" where
  "splitTunnelEntries routeIPs sites apps processes = first_seen {} (routeIPs @ sites @ apps @ processes)"

definition splitTunnelMode :: "(rune \<Rightarrow> rune) \<Rightarrow> split_config \<Rightarrow> gostring" where
  "splitTunnelMode lower cfg =
     (let mode = ToLower lower (TrimSpace (spMode cfg))
      in if mode \<in> {splitModeInclude, lit ''only'', lit ''only_selected'', lit ''vpn_only''} then splitModeInclude
         else if mode \<in> {splitModeExclude, lit ''except'', lit ''all_except'', lit ''bypass_selected''} then splitModeExclude
         else if splitTunnelEntries (spRouteIPs cfg) [] [] [] \<noteq> [] then splitModeInclude
         else splitModeExclude)"

definition splitTunnelEnabled :: "split_config \<Rightarrow> bool" where
  "splitTunnelEnabled cfg \<longleftrightarrow> splitTunnelEntries (spRouteIPs cfg) (spSites cfg) (spApps cfg) (spProcesses cfg) \<noteq> []"

definition unixSplitTunnel :: "(rune \<Rightarrow> rune) \<Rightarrow> split_config \<Rightarrow> gostring \<times> gostring list" where
  "unixSplitTunnel lower cfg =
     (let entries = splitTunnelEntries (spRouteIPs cfg) (spSites cfg) [] []
      in if entries = [] then ([], []) else (splitTunnelMode lower cfg, entries))"

section \<open>The matcher\<close>

text \<open>Networks are an address with a msk of the same length.\<close>

record split_lib =
  ParseCIDR :: "gostring \<Rightarrow> (bytes \<times> bytes) option"
  ParseIP :: "gostring \<Rightarrow> bytes option"
  lowerRune :: "rune \<Rightarrow> rune"

record SplitMatcher =
  exactDomains :: "gostring set"
  suffixRules :: "gostring list"
  tldRules :: "gostring list"
  ipNets :: "(bytes \<times> bytes) list"
  staticIPs :: "bytes list"
  domainList :: "gostring list"

definition normalizeDomain :: "(rune \<Rightarrow> rune) \<Rightarrow> gostring \<Rightarrow> gostring" where
  "normalizeDomain lower d =
     (let d = ToLower lower (TrimSpace d);
          d = TrimPrefix d (lit ''http://'');
          d = TrimPrefix d (lit ''https://'');
          d = cut_at_any d (lit ''/:?#'')
      in TrimSuffix d (lit ''.''))"

text \<open>The zone of Russia in Cyrillic letters, and as it is written in ASCII.\<close>

definition rf_zone :: gostring where "rf_zone = [0x440, 0x444]"
definition rf_puny :: gostring where "rf_puny = lit ''xn--p1ai''"

definition isTopLevelZone :: "gostring \<Rightarrow> bool" where
  "isTopLevelZone z \<longleftrightarrow>
     z \<in> {lit ''ru'', rf_zone, lit ''su'', lit ''by'', lit ''kz'', lit ''ua'', lit ''com'', lit ''net'', lit ''org'', rf_puny}"

definition HasSuffix :: "gostring \<Rightarrow> gostring \<Rightarrow> bool" where
  "HasSuffix s p \<longleftrightarrow> HasPrefix (rev s) (rev p)"

definition clean_rule :: "gostring \<Rightarrow> gostring" where
  "clean_rule domain =
     (if HasPrefix domain (lit ''*.'') then TrimPrefix domain (lit ''*.'')
      else if HasPrefix domain (lit ''.'') then TrimPrefix domain (lit ''.'') else domain)"

definition add_domain :: "gostring \<Rightarrow> SplitMatcher \<Rightarrow> SplitMatcher" where
  "add_domain cleanRule m =
     (if isTopLevelZone cleanRule then
        m\<lparr>tldRules := tldRules m @ [cleanRule] @
            (if cleanRule = rf_zone then [rf_puny] else if cleanRule = rf_puny then [rf_zone] else []),
          domainList := domainList m @ [lit ''*.'' @ cleanRule]\<rparr>
      else
        let m = m\<lparr>exactDomains := insert cleanRule (exactDomains m), suffixRules := suffixRules m @ [lit ''.'' @ cleanRule],
                  domainList := domainList m @ [cleanRule]\<rparr>
        in if HasSuffix cleanRule (lit ''.'' @ rf_zone) then
             let puny = TrimSuffix cleanRule (lit ''.'' @ rf_zone) @ lit ''.xn--p1ai''
             in m\<lparr>exactDomains := insert puny (exactDomains m), suffixRules := suffixRules m @ [lit ''.'' @ puny]\<rparr>
           else m)"

definition add_entry :: "split_lib \<Rightarrow> gostring \<Rightarrow> SplitMatcher \<Rightarrow> SplitMatcher" where
  "add_entry N raw m =
     (let raw = TrimSpace raw
      in if raw = [] \<or> HasPrefix raw (lit ''#'') then m
         else case ParseCIDR N raw of
                Some ipNet \<Rightarrow> m\<lparr>ipNets := ipNets m @ [ipNet]\<rparr>
              | None \<Rightarrow>
                  case ParseIP N raw of
                    Some ip \<Rightarrow> (case To4 ip of Some ip4 \<Rightarrow> m\<lparr>staticIPs := staticIPs m @ [ip4]\<rparr> | None \<Rightarrow> m)
                  | None \<Rightarrow>
                      let domain = normalizeDomain (lowerRune N) raw
                      in if domain = [] then m else add_domain (clean_rule domain) m)"

definition NewSplitMatcher :: "split_lib \<Rightarrow> gostring list \<Rightarrow> SplitMatcher" where
  "NewSplitMatcher N entries =
     fold (add_entry N) entries \<lparr>exactDomains = {}, suffixRules = [], tldRules = [], ipNets = [], staticIPs = [], domainList = []\<rparr>"

definition MatchesDomain :: "split_lib \<Rightarrow> SplitMatcher option \<Rightarrow> gostring \<Rightarrow> bool" where
  "MatchesDomain N m domain =
     (case m of
        None \<Rightarrow> False
      | Some m \<Rightarrow>
          let d = normalizeDomain (lowerRune N) domain
          in if d = [] then False
             else if d \<in> exactDomains m then True
             else if \<exists>suffix \<in> set (suffixRules m). HasSuffix d suffix then True
             else \<exists>tld \<in> set (tldRules m). HasSuffix d (lit ''.'' @ tld) \<or> d = tld)"

text \<open>\<^verbatim>\<open>IPNet.Contains\<close>: an IPv4 network is compared on 4 bytes, also when it is written with 16.\<close>

definition networkNumberAndMask :: "bytes \<times> bytes \<Rightarrow> bytes \<times> bytes" where
  "networkNumberAndMask n =
     (case n of (ip, m) \<Rightarrow>
        let ip' = (case To4 ip of Some ip4 \<Rightarrow> ip4 | None \<Rightarrow> ip)
        in if length ip' \<noteq> 4 \<and> length ip' \<noteq> 16 then ([], [])
           else if length m = 4 then (if length ip' \<noteq> 4 then ([], []) else (ip', m))
           else if length m = 16 then (ip', if length ip' = 4 then drop 12 m else m)
           else ([], []))"

definition net_Contains :: "bytes \<times> bytes \<Rightarrow> bytes \<Rightarrow> bool" where
  "net_Contains n ip =
     (case networkNumberAndMask n of (nn, m) \<Rightarrow>
        let x = (case To4 ip of Some ip4 \<Rightarrow> ip4 | None \<Rightarrow> ip)
        in length x = length nn \<and> (\<forall>i < length x. nn ! i AND m ! i = x ! i AND m ! i))"

definition MatchesIP :: "SplitMatcher option \<Rightarrow> bytes option \<Rightarrow> bool" where
  "MatchesIP m ip =
     (case (m, ip) of (Some m, Some ip) \<Rightarrow> (\<exists>ipNet \<in> set (ipNets m). net_Contains ipNet ip) | _ \<Rightarrow> False)"

text \<open>A route is the address and the msk, as bytes.\<close>

definition StaticRoutes :: "SplitMatcher option \<Rightarrow> (bytes \<times> bytes) list" where
  "StaticRoutes m =
     (case m of
        None \<Rightarrow> []
      | Some m \<Rightarrow>
          map (\<lambda>ip. (ip, replicate 4 255)) (staticIPs m) @
          concat (map (\<lambda>(ip, msk).
              case To4 ip of
                None \<Rightarrow> []
              | Some ip4 \<Rightarrow> if length msk \<noteq> 4 then [] else [(map2 (AND) ip4 msk, msk)]) (ipNets m)))"

definition Domains :: "SplitMatcher option \<Rightarrow> gostring list" where
  "Domains m = (case m of None \<Rightarrow> [] | Some m \<Rightarrow> domainList m)"

section \<open>DNS messages\<close>

text \<open>
  Reading past the end of the message would be a panic, which is \<^term>\<open>None\<close>; \<^verbatim>\<open>parseDNSName\<close> gives the labels joined
  with dots and the offset after the name, and offset 0 for a name it refuses. The loop follows at most ten
  compression pointers, and between two of them it only moves forward.
\<close>

definition maxJumps :: nat where "maxJumps = 10"

fun joined :: "bytes list \<Rightarrow> bytes" where
  "joined [] = []"
| "joined [l] = l"
| "joined (l # ls) = l @ 46 # joined ls"

function dns_labels :: "bytes \<Rightarrow> nat \<Rightarrow> bool \<Rightarrow> nat \<Rightarrow> nat \<Rightarrow> bytes list \<Rightarrow> (bytes \<times> nat) option" where
  "dns_labels data cur jumped nextOffset jumps labels =
     (if cur < length data then
        (case gidx data cur of
          None \<Rightarrow> None
        | Some b \<Rightarrow>
            if b = 0 then Some (joined labels, if jumped then nextOffset else cur + 1)
            else if b AND 0xC0 = 0xC0 then
              if cur + 1 \<ge> length data then Some ([], 0)
              else (case gslice cur (cur + 2) data of
                     None \<Rightarrow> None
                   | Some p \<Rightarrow>
                       let nextOffset = (if jumped then nextOffset else cur + 2);
                           pointer = unat (rd16 p AND 0x3FFF)
                       in if pointer \<ge> length data then Some ([], 0)
                          else if jumps + 1 > maxJumps then Some ([], 0)
                          else dns_labels data pointer True nextOffset (jumps + 1) labels)
            else if cur + 1 + unat b > length data then Some ([], 0)
            else case gslice (cur + 1) (cur + 1 + unat b) data of
                   None \<Rightarrow> None
                 | Some l \<Rightarrow> dns_labels data (cur + 1 + unat b) jumped nextOffset jumps (labels @ [l]))
      else Some (joined labels, if jumped then nextOffset else cur))"
  by pat_completeness auto
termination
  by (relation "measures [\<lambda>(d, c, j, n, k, l). maxJumps - k, \<lambda>(d, c, j, n, k, l). length d - c]") auto

declare dns_labels.simps [simp del]

definition parseDNSName :: "bytes \<Rightarrow> nat \<Rightarrow> (bytes \<times> nat) option" where
  "parseDNSName data offset = dns_labels data offset False 0 0 []"

text \<open>The questions: the first name and the offset after them, or the answer of a refused message.\<close>

fun dns_questions :: "bytes \<Rightarrow> nat \<Rightarrow> bool \<Rightarrow> nat \<Rightarrow> bytes \<Rightarrow> (bytes \<times> nat) option option" where
  "dns_questions data 0 first offset qname = Some (Some (qname, offset))"
| "dns_questions data (Suc n) first offset qname =
     (case parseDNSName data offset of
        None \<Rightarrow> None
      | Some (nm, nextOffset) \<Rightarrow>
          if nextOffset = 0 \<or> nextOffset + 4 > length data then Some None
          else dns_questions data n False (nextOffset + 4) (if first then nm else qname))"

fun dns_answers :: "bytes \<Rightarrow> nat \<Rightarrow> nat \<Rightarrow> bytes list option" where
  "dns_answers data 0 offset = Some []"
| "dns_answers data (Suc n) offset =
     (if \<not> offset < length data then Some []
      else case parseDNSName data offset of
        None \<Rightarrow> None
      | Some (_, nextOffset) \<Rightarrow>
          if nextOffset = 0 \<or> nextOffset + 10 > length data then Some []
          else case (gslice nextOffset (nextOffset + 2) data, gslice (nextOffset + 8) (nextOffset + 10) data) of
            (Some t, Some l) \<Rightarrow>
              let rtype = rd16 t; rdLength = unat (rd16 l); offset = nextOffset + 10
              in if offset + rdLength > length data then Some []
                 else if rtype = 1 \<and> rdLength = 4 then
                   case gslice offset (offset + 4) data of
                     None \<Rightarrow> None
                   | Some ip \<Rightarrow> map_option ((#) ip) (dns_answers data n (offset + rdLength))
                 else dns_answers data n (offset + rdLength)
          | _ \<Rightarrow> None)"

definition ParseDNSMessage :: "bytes \<Rightarrow> (bytes \<times> bool \<times> bytes list) option" where
  "ParseDNSMessage data =
     (if length data < 12 then Some ([], False, [])
      else case (gslice 2 4 data, gslice 4 6 data, gslice 6 8 data) of
        (Some f, Some q, Some a) \<Rightarrow>
          let isResponse = (rd16 f AND 0x8000 \<noteq> 0); qdCount = unat (rd16 q); anCount = unat (rd16 a)
          in (case dns_questions data qdCount True 12 [] of
                None \<Rightarrow> None
              | Some None \<Rightarrow> Some ([], isResponse, [])
              | Some (Some (qname, offset)) \<Rightarrow>
                  if \<not> isResponse \<or> anCount = 0 then Some (qname, isResponse, [])
                  else map_option (\<lambda>ips. (qname, isResponse, ips)) (dns_answers data anCount offset))
      | _ \<Rightarrow> None)"

section \<open>What the matcher matches\<close>

text \<open>A rule covers the name itself and the names below it.\<close>

definition covers_name :: "gostring \<Rightarrow> gostring \<Rightarrow> bool" where
  "covers_name rule d \<longleftrightarrow> d = rule \<or> HasSuffix d (lit ''.'' @ rule)"

text \<open>The rule of an entry in each of its spellings; networks, addresses and comments are no domain rules.\<close>

definition spellings :: "gostring \<Rightarrow> gostring list" where
  "spellings r =
     r # (if r = rf_zone then [rf_puny] else if r = rf_puny then [rf_zone]
          else if HasSuffix r (lit ''.'' @ rf_zone) then [TrimSuffix r (lit ''.'' @ rf_zone) @ lit ''.xn--p1ai''] else [])"

definition domain_rules :: "split_lib \<Rightarrow> gostring \<Rightarrow> gostring list" where
  "domain_rules N raw =
     (let raw = TrimSpace raw; domain = normalizeDomain (lowerRune N) raw
      in if raw = [] \<or> HasPrefix raw (lit ''#'') \<or> ParseCIDR N raw \<noteq> None \<or> ParseIP N raw \<noteq> None \<or> domain = [] then []
         else spellings (clean_rule domain))"

definition matches_name :: "SplitMatcher \<Rightarrow> gostring \<Rightarrow> bool" where
  "matches_name m d \<longleftrightarrow> d \<in> exactDomains m \<or> (\<exists>s \<in> set (suffixRules m). HasSuffix d s) \<or> (\<exists>t \<in> set (tldRules m). covers_name t d)"

lemma add_domain_matches: "matches_name (add_domain r m) d \<longleftrightarrow> matches_name m d \<or> (\<exists>s \<in> set (spellings r). covers_name s d)"
proof (cases "isTopLevelZone r")
  case True
  then have "\<not> HasSuffix r (lit ''.'' @ rf_zone)"
    by (auto simp: isTopLevelZone_def HasSuffix_def HasPrefix_def rf_zone_def rf_puny_def lit_def)
  then show ?thesis using True by (auto simp: add_domain_def matches_name_def spellings_def)
next
  case False
  then have "r \<noteq> rf_zone" "r \<noteq> rf_puny" by (auto simp: isTopLevelZone_def)
  then show ?thesis using False by (auto simp: add_domain_def matches_name_def spellings_def covers_name_def Let_def)
qed

lemma add_entry_matches: "matches_name (add_entry N raw m) d \<longleftrightarrow> matches_name m d \<or> (\<exists>r \<in> set (domain_rules N raw). covers_name r d)"
proof -
  have ip: "matches_name (m\<lparr>ipNets := x\<rparr>) d = matches_name m d" "matches_name (m\<lparr>staticIPs := y\<rparr>) d = matches_name m d" for x y
    by (simp_all add: matches_name_def)
  show ?thesis
    by (auto simp: add_entry_def domain_rules_def Let_def add_domain_matches ip split: option.splits)
qed

lemma entries_match:
  "matches_name (fold (add_entry N) es m) d \<longleftrightarrow> matches_name m d \<or> (\<exists>e \<in> set es. \<exists>r \<in> set (domain_rules N e). covers_name r d)"
  by (induction es arbitrary: m) (auto simp: add_entry_matches)

text \<open>
  Fact. The matcher built from a list of entries selects a name exactly when the name, in lower case and without
  scheme, port, path and final dot, is not empty and is equal to or below the rule of one of the domain entries, in
  one of its spellings: no entry shadows another one, networks and comments select no name, and a rule never selects
  a name that only ends in the same letters.
\<close>

theorem matcher_selects_covered_names:
  "MatchesDomain N (Some (NewSplitMatcher N es)) q \<longleftrightarrow>
     normalizeDomain (lowerRune N) q \<noteq> [] \<and>
     (\<exists>e \<in> set es. \<exists>r \<in> set (domain_rules N e). covers_name r (normalizeDomain (lowerRune N) q))"
proof -
  have "MatchesDomain N (Some m) q \<longleftrightarrow>
      normalizeDomain (lowerRune N) q \<noteq> [] \<and> matches_name m (normalizeDomain (lowerRune N) q)" for m
    by (auto simp: MatchesDomain_def matches_name_def covers_name_def Let_def)
  then show ?thesis by (auto simp: NewSplitMatcher_def entries_match) (auto simp: matches_name_def)
qed

section \<open>Reading DNS messages\<close>

lemma dns_labels_returns: "\<exists>r. dns_labels data cur jumped nextOffset jumps labels = Some r"
proof (induction data cur jumped nextOffset jumps labels rule: dns_labels.induct)
  case (1 data cur jumped nextOffset jumps labels)
  show ?case
    by (subst dns_labels.simps) (use 1 in \<open>auto simp: gidx_def gslice_def Let_def split: option.splits\<close>)
qed

lemma parseDNSName_returns: "\<exists>nm nextOffset. parseDNSName data offset = Some (nm, nextOffset)"
  using dns_labels_returns by (fastforce simp: parseDNSName_def)

lemma dns_questions_return: "\<exists>r. dns_questions data n first offset qname = Some r"
proof (induction n arbitrary: first offset qname)
  case (Suc n)
  obtain nm o' where "parseDNSName data offset = Some (nm, o')" using parseDNSName_returns by blast
  then show ?case using Suc by auto
qed simp

lemma dns_answers_return: "\<exists>ips. dns_answers data n offset = Some ips"
proof (induction n arbitrary: offset)
  case (Suc n)
  obtain nm o' where "parseDNSName data offset = Some (nm, o')" using parseDNSName_returns by blast
  then show ?case using Suc by (auto simp: gslice_def Let_def)
qed simp

text \<open>
  Property C36. \<^verbatim>\<open>ParseDNSMessage\<close> returns on every payload of the network: the loop over compression pointers ends, and
  no index or slice leaves the message, whatever the counts, the pointers and the lengths in it.
\<close>

theorem dns_message_never_panics: "ParseDNSMessage data \<noteq> None"
proof -
  obtain r where "dns_questions data (unat (rd16 (subslice 4 6 data))) True 12 [] = Some r"
    using dns_questions_return by blast
  moreover have "dns_answers data n k \<noteq> None" for n k using dns_answers_return by (metis option.distinct(1))
  ultimately show ?thesis by (auto simp: ParseDNSMessage_def gslice_def Let_def split: option.splits)
qed

text \<open>A name on the wire, and a resource record whose name points to the question.\<close>

definition label_ok :: "bytes \<Rightarrow> bool" where
  "label_ok l \<longleftrightarrow> 0 < length l \<and> length l < 64"

definition wire_name :: "bytes list \<Rightarrow> bytes" where
  "wire_name ls = concat (map (\<lambda>l. of_nat (length l) # l) ls) @ [0]"

record dns_record =
  rrType :: u16
  rrClassTTL :: bytes
  rrData :: bytes

definition record_ok :: "dns_record \<Rightarrow> bool" where
  "record_ok r \<longleftrightarrow> length (rrClassTTL r) = 6 \<and> length (rrData r) < 65536"

definition wire_record :: "dns_record \<Rightarrow> bytes" where
  "wire_record r = [0xC0, 12] @ be16 (rrType r) @ rrClassTTL r @ be16 (of_nat (length (rrData r))) @ rrData r"

definition addresses :: "dns_record list \<Rightarrow> bytes list" where
  "addresses rs = map rrData (filter (\<lambda>r. rrType r = 1 \<and> length (rrData r) = 4) rs)"

definition dns_response :: "bytes \<Rightarrow> u16 \<Rightarrow> bytes \<Rightarrow> bytes list \<Rightarrow> bytes \<Rightarrow> dns_record list \<Rightarrow> bytes \<Rightarrow> bytes" where
  "dns_response ident flags others ls qtype rs rest =
     ident @ be16 flags @ be16 1 @ be16 (of_nat (length rs)) @ others @ wire_name ls @ qtype @ concat (map wire_record rs) @ rest"

lemma label_byte:
  assumes "label_ok l"
  shows "unat (of_nat (length l) :: byte) = length l" "(of_nat (length l) :: byte) \<noteq> 0"
    "(of_nat (length l) :: byte) AND 0xC0 \<noteq> 0xC0"
proof -
  show u: "unat (of_nat (length l) :: byte) = length l" using assms by (simp add: label_ok_def unat_of_nat)
  then show "(of_nat (length l) :: byte) \<noteq> 0" using assms by (metis label_ok_def less_numeral_extra(3) unat_0)
  show "(of_nat (length l) :: byte) AND 0xC0 \<noteq> 0xC0"
  proof
    assume a: "(of_nat (length l) :: byte) AND 0xC0 = 0xC0"
    have "(of_nat (length l) :: byte) AND 0xC0 \<le> of_nat (length l)" by (rule word_and_le2)
    then have "192 \<le> unat (of_nat (length l) :: byte)" using a by (simp add: word_le_nat_alt)
    then show False using u assms by (simp add: label_ok_def)
  qed
qed

lemma dns_labels_wire:
  assumes "\<forall>l \<in> set ls. label_ok l" and "length p = cur"
  shows "dns_labels (p @ wire_name ls @ r) cur jumped nextOffset jumps acc =
    Some (joined (acc @ ls), if jumped then nextOffset else cur + length (wire_name ls))"
  using assms
proof (induction ls arbitrary: p cur acc)
  case Nil
  then show ?case by (subst dns_labels.simps) (simp add: wire_name_def gidx_def nth_append)
next
  case (Cons l ls)
  let ?d = "p @ wire_name (l # ls) @ r"
  have l: "label_ok l" using Cons.prems by simp
  have d: "?d = (p @ of_nat (length l) # l) @ wire_name ls @ r" by (simp add: wire_name_def)
  have s: "gslice (cur + 1) (cur + 1 + length l) ?d = Some l" using Cons.prems
    by (simp add: gslice_def subslice_def wire_name_def)
  have "dns_labels ?d cur jumped nextOffset jumps acc = dns_labels ?d (cur + 1 + length l) jumped nextOffset jumps (acc @ [l])"
    using Cons.prems label_byte[OF l] s
    by (subst dns_labels.simps) (simp add: gidx_def wire_name_def nth_append)
  also have "\<dots> = Some (joined ((acc @ [l]) @ ls), if jumped then nextOffset else cur + 1 + length l + length (wire_name ls))"
    unfolding d by (rule Cons.IH) (use Cons.prems in auto)
  finally show ?case by (simp add: wire_name_def)
qed

text \<open>A pointer to the name at offset 12 is followed, and the next offset is the one after the pointer.\<close>

lemma pointer_followed:
  assumes "\<forall>l \<in> set ls. label_ok l" and "length h = 12" and "length (h @ wire_name ls @ q) = off"
  shows "parseDNSName (h @ wire_name ls @ q @ [0xC0, 12] @ r) off = Some (joined ls, off + 2)"
proof -
  let ?d = "h @ wire_name ls @ q @ [0xC0, 12] @ r"
  have i: "?d ! off = 0xC0" using assms(3) by (metis append.assoc append_Cons nth_append_length)
  have s: "gslice off (off + 2) ?d = Some [0xC0, 12]" using assms(3) by (simp add: gslice_def subslice_def)
  have "dns_labels ?d off False 0 0 [] = dns_labels ?d 12 True (off + 2) 1 []"
    using i s assms(2,3) by (subst dns_labels.simps) (simp add: gidx_def rd16_def maxJumps_def wire_name_def)
  also have "\<dots> = Some (joined ls, off + 2)"
    using dns_labels_wire[OF assms(1) assms(2), of "q @ [0xC0, 12] @ r" True "off + 2" 1 "[]"] by simp
  finally show ?thesis by (simp add: parseDNSName_def)
qed

lemma gslice_behind: "gslice (length p + i) (length p + j) (p @ x) = gslice i j x"
  by (simp add: gslice_def subslice_def)

lemma dns_answers_step:
  assumes "off < length data" and "parseDNSName data off = Some (nm, o2)" and "o2 \<noteq> 0" and "o2 + 10 + len \<le> length data"
    and "gslice o2 (o2 + 2) data = Some t" and "gslice (o2 + 8) (o2 + 10) data = Some l" and "unat (rd16 l) = len"
    and "len = 4 \<Longrightarrow> gslice (o2 + 10) (o2 + 10 + 4) data = Some ip"
  shows "dns_answers data (Suc n) off =
    map_option ((@) (if rd16 t = 1 \<and> len = 4 then [ip] else [])) (dns_answers data n (o2 + 10 + len))"
proof -
  have e: "(@) [] = (\<lambda>x. x)" "(@) [ip] = (#) ip" by auto
  show ?thesis using assms by (auto simp: Let_def e option.map_ident ac_simps simp del: append_Nil append_Cons)
qed

lemma record_read:
  assumes "\<forall>l \<in> set ls. label_ok l" and "length h = 12" and "length (h @ wire_name ls @ q) = off" and "record_ok a"
  shows "dns_answers (h @ wire_name ls @ q @ wire_record a @ r) (Suc n) off =
    map_option ((@) (addresses [a])) (dns_answers (h @ wire_name ls @ q @ wire_record a @ r) n (off + length (wire_record a)))"
proof -
  let ?d = "h @ wire_name ls @ q @ wire_record a @ r"
  have w: "length (wire_record a) = 12 + length (rrData a)" "length (rrClassTTL a) = 6" "length (rrData a) < 65536"
    using assms(4) by (simp_all add: record_ok_def wire_record_def be16_def)
  have n: "parseDNSName ?d off = Some (joined ls, off + 2)"
    using pointer_followed[OF assms(1-3), of "drop 2 (wire_record a) @ r"] by (simp add: wire_record_def)
  have g: "gslice (off + i) (off + j) ?d = gslice i j (wire_record a @ r)" for i j
    using gslice_behind[of "h @ wire_name ls @ q" i j "wire_record a @ r"] assms(3) by simp
  have t: "gslice (off + 2) (off + 4) ?d = Some (be16 (rrType a))"
    unfolding g using w by (simp add: gslice_def subslice_def wire_record_def be16_def)
  have l: "gslice (off + 10) (off + 12) ?d = Some (be16 (of_nat (length (rrData a))))"
    unfolding g using w by (simp add: gslice_def subslice_def wire_record_def be16_def)
  have i: "length (rrData a) = 4 \<Longrightarrow> gslice (off + 12) (off + 16) ?d = Some (rrData a)"
    unfolding g using w by (simp add: gslice_def subslice_def wire_record_def be16_def)
  have u: "unat (rd16 (be16 (of_nat (length (rrData a))))) = length (rrData a)"
    using w(3) by (simp add: be16.dec_enc unat_of_nat)
  have e: "off + 4 = off + 2 + 2" "off + 10 = off + 2 + 8" "off + 12 = off + 2 + 10" "off + 16 = off + 2 + 10 + 4" by simp_all
  have b: "off < length ?d" "off + 2 \<noteq> 0" "off + 2 + 10 + length (rrData a) \<le> length ?d" using assms(3) w(1) by simp_all
  have k: "off + 2 + 10 + length (rrData a) = off + length (wire_record a)" using w(1) by simp
  show ?thesis
    using dns_answers_step[OF b(1) n b(2,3) t[unfolded e] l[unfolded e] u i[unfolded e], unfolded k be16.dec_enc]
    by (simp add: addresses_def del: dns_answers.simps)
qed

lemma records_read:
  assumes "\<forall>l \<in> set ls. label_ok l" and "length h = 12" and "length (h @ wire_name ls @ q) = off"
    and "\<forall>a \<in> set rs. record_ok a"
  shows "dns_answers (h @ wire_name ls @ q @ concat (map wire_record rs) @ r) (length rs) off = Some (addresses rs)"
  using assms(3,4)
proof (induction rs arbitrary: q off)
  case Nil
  then show ?case by (simp add: addresses_def)
next
  case (Cons a rs)
  let ?r = "concat (map wire_record rs) @ r"
  have "dns_answers (h @ wire_name ls @ (q @ wire_record a) @ ?r) (length rs) (off + length (wire_record a)) = Some (addresses rs)"
    by (rule Cons.IH) (use Cons.prems in auto)
  then show ?case
    using record_read[OF assms(1,2) Cons.prems(1), of a ?r "length rs"] Cons.prems(2) by (simp add: addresses_def)
qed

text \<open>
  Property C37. A response with one question and any number of answer records that point back to the question's name is
  read completely: \<^verbatim>\<open>ParseDNSMessage\<close> gives the name of the question, labels joined with dots, and the addresses of
  all the A records among the answers, in their order, whatever the other records hold and whatever follows.
\<close>

theorem dns_response_read:
  assumes "length ident = 2" and "length others = 4" and "length qtype = 4" and "flags AND 0x8000 \<noteq> 0"
    and "\<forall>l \<in> set ls. label_ok l" and "\<forall>a \<in> set rs. record_ok a" and "length rs < 65536"
  shows "ParseDNSMessage (dns_response ident flags others ls qtype rs rest) = Some (joined ls, True, addresses rs)"
proof -
  let ?h = "ident @ be16 flags @ be16 1 @ be16 (of_nat (length rs)) @ others"
  let ?d = "?h @ wire_name ls @ qtype @ concat (map wire_record rs) @ rest"
  have h: "length ?h = 12" using assms(1,2) by (simp add: be16_def)
  have s: "gslice 2 4 ?d = Some (be16 flags)" "gslice 4 6 ?d = Some (be16 1)"
      "gslice 6 8 ?d = Some (be16 (of_nat (length rs)))"
    using assms(1) by (simp_all add: gslice_def subslice_def be16_def)
  have c: "unat (rd16 (be16 (of_nat (length rs)))) = length rs" "unat (rd16 (be16 1)) = Suc 0"
    using assms(7) by (simp_all add: be16.dec_enc unat_of_nat)
  have n: "parseDNSName ?d 12 = Some (joined ls, 12 + length (wire_name ls))"
    using dns_labels_wire[OF assms(5) h, of "qtype @ concat (map wire_record rs) @ rest" False 0 0 "[]"]
    by (simp add: parseDNSName_def)
  have a: "dns_answers ?d (length rs) (12 + length (wire_name ls) + 4) = Some (addresses rs)"
    by (rule records_read[OF assms(5) h _ assms(6)]) (use h assms(3) in simp)
  have q: "dns_questions ?d (Suc 0) True 12 [] = Some (Some (joined ls, 12 + length (wire_name ls) + 4))"
    using n h assms(3) by simp
  have z: "rs = [] \<Longrightarrow> addresses rs = []" by (simp add: addresses_def)
  have "length ?d \<ge> 12" using h by simp
  then have "ParseDNSMessage ?d = Some (joined ls, True, addresses rs)"
    using s c q a z assms(4) by (auto simp: ParseDNSMessage_def be16.dec_enc Let_def simp del: dns_questions.simps)
  then show ?thesis by (simp add: dns_response_def)
qed

theorem dns_response_read_witness:
  "ParseDNSMessage (dns_response [1, 2] 0x8180 [0, 0, 0, 0] [str ''ya'', str ''ru''] [0, 1, 0, 1]
       [\<lparr>rrType = 5, rrClassTTL = [0, 1, 0, 0, 0, 60], rrData = [0xC0, 12]\<rparr>,
        \<lparr>rrType = 1, rrClassTTL = [0, 1, 0, 0, 0, 60], rrData = [77, 88, 55, 242]\<rparr>] []) =
     Some (str ''ya.ru'', True, [[77, 88, 55, 242]])"
  using dns_response_read[where ident = "[1, 2]" and flags = "0x8180" and others = "[0, 0, 0, 0]"
      and ls = "[str ''ya'', str ''ru'']" and qtype = "[0, 1, 0, 1]" and rest = "[]"
      and rs = "[\<lparr>rrType = 5, rrClassTTL = [0, 1, 0, 0, 0, 60], rrData = [0xC0, 12]\<rparr>,
        \<lparr>rrType = 1, rrClassTTL = [0, 1, 0, 0, 0, 60], rrData = [77, 88, 55, 242]\<rparr>]"]
  by (simp add: label_ok_def record_ok_def addresses_def str_def)

end
