(* ===== verification/Server_Device.thy ===== *)
theory Server_Device
  imports Tcp_Mss Net_Setup Split_Tunnel
begin

text \<open>
  The TUN device of the Linux server, \<^verbatim>\<open>cmd/server/tun_linux.go\<close> and \<^verbatim>\<open>egress.go\<close>: the checks of the configuration, the commands
  that bring the interface up, and the rules for NAT, forwarding, DNS and the segment size that the server puts into the
  firewall of its host. The chains of the firewall are explicit lists of rules, in the order in which they
  match; the answers of the system calls and commands are arguments.
\<close>

section \<open>Egress addresses\<close>

definition parseEgressIP :: "(gostring \<Rightarrow> bytes option) \<Rightarrow> gostring \<Rightarrow> bool \<Rightarrow> bytes option res" where
  "parseEgressIP parseIP raw want6 =
     (if raw = [] then Inr None
      else case parseIP raw of
             None \<Rightarrow> Inl (Errorf ''not an IP address'')
           | Some ip \<Rightarrow>
               let is4 = (To4 ip \<noteq> None)
               in if want6 \<and> is4 then Inl (Errorf ''not an IPv6 address'')
                  else if \<not> want6 \<and> \<not> is4 then Inl (Errorf ''not an IPv4 address'')
                  else Inr (Some ip))"

text \<open>\<^verbatim>\<open>IP.Equal\<close>: an IPv4 address is the same in 4 and in 16 bytes.\<close>

definition ip_Equal :: "bytes \<Rightarrow> bytes \<Rightarrow> bool" where
  "ip_Equal a b \<longleftrightarrow> (if length a = length b then a = b else To4 a \<noteq> None \<and> To4 a = To4 b)"

definition egressIPAssigned :: "bytes \<Rightarrow> bytes option list \<Rightarrow> bool" where
  "egressIPAssigned ip addrs \<longleftrightarrow> (\<exists>a \<in> set addrs. case a of None \<Rightarrow> False | Some l \<Rightarrow> ip_Equal l ip)"

section \<open>Output of commands\<close>

text \<open>\<^verbatim>\<open>splitFieldsBytes\<close>, with the index at which the current field starts.\<close>

function fields_bytes :: "gostring \<Rightarrow> nat \<Rightarrow> nat \<Rightarrow> bool \<Rightarrow> gostring list" where
  "fields_bytes data i start_at inField =
     (if i < length data then
        if data ! i \<in> {32, 9, 10, 13} then
          if inField then subslice start_at i data # fields_bytes data (i + 1) start_at False
          else fields_bytes data (i + 1) start_at False
        else if inField then fields_bytes data (i + 1) start_at True
        else fields_bytes data (i + 1) i True
      else if inField then [drop start_at data] else [])"
  by pat_completeness auto
termination by (relation "measure (\<lambda>(data, i, _). length data - i)") auto

declare fields_bytes.simps [simp del]

definition splitFieldsBytes :: "gostring \<Rightarrow> gostring list" where
  "splitFieldsBytes data = fields_bytes data 0 0 False"

fun after_dev :: "gostring list \<Rightarrow> gostring option" where
  "after_dev (f # g # r) = (if f = lit ''dev'' then Some g else after_dev (g # r))"
| "after_dev _ = None"

definition detectOutInterface :: "gostring option \<Rightarrow> gostring" where
  "detectOutInterface out =
     (case out of
        None \<Rightarrow> lit ''eth0''
      | Some o4 \<Rightarrow> (case after_dev (splitFieldsBytes o4) of Some d \<Rightarrow> d | None \<Rightarrow> lit ''eth0''))"

definition detectOutInterfaceIPv6 :: "gostring option \<Rightarrow> gostring" where
  "detectOutInterfaceIPv6 out =
     (case out of
        None \<Rightarrow> []
      | Some o6 \<Rightarrow> if o6 = [] then [] else (case after_dev (splitFieldsBytes o6) of Some d \<Rightarrow> d | None \<Rightarrow> []))"

section \<open>The firewall\<close>

datatype direction = InputFrom | OutputTo

datatype rule =
  Masquerade gostring gostring
| Snat gostring gostring bytes
| AcceptOut gostring gostring
| AcceptEstablished gostring gostring
| AcceptDns gostring gostring
| ClampMss direction gostring
| SetMss direction gostring int
| OtherRule nat

record firewall =
  fwPostrouting :: "rule list"
  fwForward :: "rule list"
  fwInput :: "rule list"
  fwMangle :: "rule list"

text \<open>\<^verbatim>\<open>-C\<close> with \<^verbatim>\<open>-A\<close> if it fails; \<^verbatim>\<open>-D\<close>, which removes the first such rule; \<^verbatim>\<open>-A\<close>.\<close>

definition ensure :: "rule \<Rightarrow> rule list \<Rightarrow> rule list" where
  "ensure r rs = (if r \<in> set rs then rs else rs @ [r])"

definition nat_chain :: "gostring \<Rightarrow> gostring \<Rightarrow> bytes option \<Rightarrow> rule list \<Rightarrow> rule list" where
  "nat_chain subnet outIface egress rs =
     (case egress of
        Some ip \<Rightarrow> remove1 (Masquerade subnet outIface) (ensure (Snat subnet outIface ip) rs)
      | None \<Rightarrow> ensure (Masquerade subnet outIface) rs)"

definition forward_chain :: "gostring \<Rightarrow> gostring \<Rightarrow> rule list \<Rightarrow> rule list" where
  "forward_chain iface outIface rs = ensure (AcceptEstablished outIface iface) (ensure (AcceptOut iface outIface) rs)"

definition input_chain :: "gostring \<Rightarrow> rule list \<Rightarrow> rule list" where
  "input_chain iface rs = ensure (AcceptDns iface (lit ''tcp'')) (ensure (AcceptDns iface (lit ''udp'')) rs)"

definition mss_dir4 :: "bool \<Rightarrow> int \<Rightarrow> gostring \<Rightarrow> direction \<Rightarrow> rule list \<Rightarrow> rule list" where
  "mss_dir4 normalized mtu iface dir rs =
     (let mss4 = mtu - 40;
          rs = remove1 (SetMss dir iface mss4) (remove1 (ClampMss dir iface) rs)
      in if normalized then rs else rs @ [if mtu \<ge> 1500 then ClampMss dir iface else SetMss dir iface mss4])"

definition mss6_for :: "int \<Rightarrow> int" where
  "mss6_for mtu = (if mtu - 80 < 1200 then 1200 else mtu - 80)"

definition mss_dir6 :: "bool \<Rightarrow> int \<Rightarrow> gostring \<Rightarrow> direction \<Rightarrow> rule list \<Rightarrow> rule list" where
  "mss_dir6 normalized mtu iface dir rs =
     (let mss4 = mtu - 40; mss6 = mss6_for mtu;
          rs = remove1 (SetMss dir iface mss6) (remove1 (SetMss dir iface mss4) (remove1 (ClampMss dir iface) rs))
      in if normalized then rs else rs @ [SetMss dir iface mss6])"

definition rules4 :: "gostring \<Rightarrow> gostring \<Rightarrow> gostring \<Rightarrow> bytes option \<Rightarrow> bool \<Rightarrow> int \<Rightarrow> firewall \<Rightarrow> firewall" where
  "rules4 iface subnet outIface egress4 normalized mtu fw =
     \<lparr>fwPostrouting = nat_chain subnet outIface egress4 (fwPostrouting fw),
      fwForward = forward_chain iface outIface (fwForward fw),
      fwInput = input_chain iface (fwInput fw),
      fwMangle = fold (mss_dir4 normalized mtu iface) [InputFrom, OutputTo] (fwMangle fw)\<rparr>"

definition rules6 :: "gostring \<Rightarrow> gostring \<Rightarrow> bytes option \<Rightarrow> bool \<Rightarrow> int \<Rightarrow> firewall \<Rightarrow> firewall" where
  "rules6 iface outIface6 egress6 normalized mtu fw =
     \<lparr>fwPostrouting = nat_chain (lit ''fd00:8::/64'') outIface6 egress6 (fwPostrouting fw),
      fwForward = forward_chain iface outIface6 (fwForward fw),
      fwInput = fwInput fw,
      fwMangle = fold (mss_dir6 normalized mtu iface) [InputFrom, OutputTo] (fwMangle fw)\<rparr>"

section \<open>Opening the device\<close>

record device_config =
  dcInterface :: gostring
  dcAddress :: gostring
  dcEgressIP :: gostring
  dcEgressIP6 :: gostring
  dcEnableIPv6 :: bool
  dcMTU :: int
  dcDisableNormalize :: bool
  dcOutInterface :: gostring

record device_env =
  dePrefixOk :: "gostring \<Rightarrow> bool"
  deParseIP :: "gostring \<Rightarrow> bytes option"
  deItoa :: "int \<Rightarrow> gostring"
  deOpens :: bool
  deAttaches :: bool
  deRuns :: "gostring list \<Rightarrow> bool"
  deRoute4 :: "gostring option"
  deRoute6 :: "gostring option"
  deIptables :: bool
  deIp6tables :: bool

record server_host =
  shFw4 :: firewall
  shFw6 :: firewall
  shForward4 :: bool
  shForward6 :: bool
  shRan :: "gostring list list"

datatype opened = Fatal | NoDevice | Opened gostring

definition normalizedTunMTU :: int where "normalizedTunMTU = 1500"

definition ran :: "gostring list \<Rightarrow> server_host \<Rightarrow> server_host" where
  "ran c h = h\<lparr>shRan := shRan h @ [c]\<rparr>"

definition ip_cmd :: "string list \<Rightarrow> gostring list" where
  "ip_cmd ws = map lit ws"

text \<open>The interface is up with its addresses and its MTU; a failure of two of the commands ends the setup.\<close>

definition configure_link :: "device_env \<Rightarrow> device_config \<Rightarrow> gostring \<Rightarrow> gostring \<Rightarrow> int \<Rightarrow> server_host \<Rightarrow> bool \<times> server_host" where
  "configure_link E cfg iface tunAddr linkMTU h =
     (let up = ip_cmd [''ip'', ''link'', ''set''] @ [iface, lit ''up''];
          add = ip_cmd [''ip'', ''addr'', ''add''] @ [tunAddr, lit ''dev'', iface];
          h = ran up h
      in if \<not> deRuns E up then (False, h)
         else
           let h = ran add (ran (ip_cmd [''ip'', ''addr'', ''flush'', ''dev''] @ [iface]) h)
           in if \<not> deRuns E add then (False, h)
              else
                let h = (if dcEnableIPv6 cfg then ran (ip_cmd [''ip'', ''-6'', ''addr'', ''add'', ''fd00:8::1/64'', ''dev''] @ [iface]) h else h)
                in (True, ran (ip_cmd [''ip'', ''link'', ''set''] @ [iface, lit ''mtu'', deItoa E linkMTU]) h))"

definition open_device ::
    "device_env \<Rightarrow> device_config \<Rightarrow> gostring \<Rightarrow> gostring \<Rightarrow> bytes option \<Rightarrow> bytes option \<Rightarrow> server_host \<Rightarrow> opened \<times> server_host" where
  "open_device E cfg iface tunAddr egress4 egress6 h =
     (if \<not> deOpens E \<or> \<not> deAttaches E then (NoDevice, h)
      else
        let h = h\<lparr>shForward4 := True, shForward6 := dcEnableIPv6 cfg \<or> shForward6 h\<rparr>;
            mtu = tunnelMTUFor (dcMTU cfg);
            normalized = (\<not> dcDisableNormalize cfg);
            linkMTU = (if normalized then normalizedTunMTU else mtu)
        in case configure_link E cfg iface tunAddr linkMTU h of
             (False, h) \<Rightarrow> (NoDevice, h)
           | (True, h) \<Rightarrow>
               let outIface = (if dcOutInterface cfg = [] then detectOutInterface (deRoute4 E) else dcOutInterface cfg);
                   outIface6 = detectOutInterfaceIPv6 (deRoute6 E);
                   h = (if deIptables E then h\<lparr>shFw4 := rules4 iface tunAddr outIface egress4 normalized mtu (shFw4 h)\<rparr> else h);
                   h = (if dcEnableIPv6 cfg \<and> outIface6 \<noteq> [] \<and> deIp6tables E
                        then h\<lparr>shFw6 := rules6 iface outIface6 egress6 normalized mtu (shFw6 h)\<rparr> else h)
               in (Opened iface, h))"

definition openTUN :: "device_env \<Rightarrow> device_config \<Rightarrow> server_host \<Rightarrow> opened \<times> server_host" where
  "openTUN E cfg h =
     (let iface = (if dcInterface cfg = [] then lit ''tun0'' else dcInterface cfg);
          tunAddr = (if dcAddress cfg = [] then lit ''10.8.0.1/24'' else dcAddress cfg)
      in if \<not> dePrefixOk E tunAddr then (NoDevice, h)
         else case parseEgressIP (deParseIP E) (dcEgressIP cfg) False of
                Inl _ \<Rightarrow> (Fatal, h)
              | Inr egress4 \<Rightarrow>
                  (case parseEgressIP (deParseIP E) (dcEgressIP6 cfg) True of
                     Inl _ \<Rightarrow> (Fatal, h)
                   | Inr egress6 \<Rightarrow> open_device E cfg iface tunAddr egress4 egress6 h))"

section \<open>Fields\<close>

lemma subslice_snoc: "st \<le> i \<Longrightarrow> i < length xs \<Longrightarrow> subslice st (i + 1) xs = subslice st i xs @ [xs ! i]"
  by (simp add: subslice_def Suc_diff_le take_Suc_conv_app_nth)

lemma fields_bytes_eq:
  "(inField \<Longrightarrow> st < i) \<Longrightarrow> i \<le> length data \<Longrightarrow>
     fields_bytes data i st inField = fields_from (if inField then subslice st i data else []) (drop i data)"
proof (induction data i st inField rule: fields_bytes.induct)
  case (1 data i st inField)
  show ?case
  proof (cases "i < length data")
    case True
    then have d: "drop i data = data ! i # drop (i + 1) data" by (simp add: Cons_nth_drop_Suc)
    have ne: "inField \<Longrightarrow> subslice st i data \<noteq> []" using 1(5,6) True by (auto simp: subslice_def)
    have one: "subslice i (i + 1) data = [data ! i]" using subslice_snoc[of i i data] True by (simp add: subslice_def)
    show ?thesis
      using True 1 ne one subslice_snoc[of st i data] by (cases inField; subst fields_bytes.simps) (simp_all add: d less_Suc_eq del: drop_append)
  next
    case False
    then show ?thesis using 1(5,6) by (subst fields_bytes.simps) (auto simp: subslice_def)
  qed
qed

text \<open>The server and the TUN package split the output of a command in the same way.\<close>

lemma splitFieldsBytes_same: "splitFieldsBytes s = splitFields s"
  by (simp add: splitFieldsBytes_def splitFields_def fields_bytes_eq)

section \<open>The rules after the setup\<close>

definition fw_distinct :: "firewall \<Rightarrow> bool" where
  "fw_distinct fw \<longleftrightarrow> distinct (fwPostrouting fw) \<and> distinct (fwForward fw) \<and> distinct (fwInput fw) \<and> distinct (fwMangle fw)"

text \<open>The rules of others, in their order.\<close>

definition foreign :: "firewall \<Rightarrow> rule list list" where
  "foreign fw = map (filter (\<lambda>r. \<exists>n. r = OtherRule n)) [fwPostrouting fw, fwForward fw, fwInput fw, fwMangle fw]"

lemma ensure_simps [simp]:
  "r \<in> set (ensure r rs)" "set (ensure r rs) = insert r (set rs)" "distinct (ensure r rs) = distinct rs"
  "r \<in> set rs \<Longrightarrow> ensure r rs = rs"
  by (auto simp: ensure_def)

lemma ensure_foreign [simp]: "\<forall>n. r \<noteq> OtherRule n \<Longrightarrow> filter (\<lambda>r. \<exists>n. r = OtherRule n) (ensure r rs) = filter (\<lambda>r. \<exists>n. r = OtherRule n) rs"
  by (simp add: ensure_def)

lemma remove1_foreign [simp]:
  "\<forall>n. r \<noteq> OtherRule n \<Longrightarrow> filter (\<lambda>r. \<exists>n. r = OtherRule n) (remove1 r rs) = filter (\<lambda>r. \<exists>n. r = OtherRule n) rs"
  by (simp add: filter_remove1 remove1_idem)

lemma nat_chain_twice:
  assumes "distinct rs"
  shows "nat_chain sn out eg (nat_chain sn out eg rs) = nat_chain sn out eg rs" "distinct (nat_chain sn out eg rs)"
  using assms by (auto simp: nat_chain_def remove1_idem split: option.splits)

lemma forward_chain_twice: "forward_chain i out (forward_chain i out rs) = forward_chain i out rs" "distinct (forward_chain i out rs) = distinct rs"
  by (simp_all add: forward_chain_def)

lemma input_chain_twice: "input_chain i (input_chain i rs) = input_chain i rs" "distinct (input_chain i rs) = distinct rs"
  by (simp_all add: input_chain_def)

text \<open>In a chain without duplicates, both passes over the directions leave the other rules followed by the two of the setup.\<close>

lemma mss_dir4_form:
  "distinct rs \<Longrightarrow> mss_dir4 nz mtu i dir rs =
     filter (\<lambda>r. r \<noteq> ClampMss dir i \<and> r \<noteq> SetMss dir i (mtu - 40)) rs @
     (if nz then [] else [if mtu \<ge> 1500 then ClampMss dir i else SetMss dir i (mtu - 40)])"
  by (auto simp: mss_dir4_def Let_def distinct_remove1_removeAll removeAll_filter_not_eq intro!: filter_cong)

lemma mss_dir6_form:
  "distinct rs \<Longrightarrow> mss_dir6 nz mtu i dir rs =
     filter (\<lambda>r. r \<noteq> ClampMss dir i \<and> r \<noteq> SetMss dir i (mtu - 40) \<and> r \<noteq> SetMss dir i (mss6_for mtu)) rs @
     (if nz then [] else [SetMss dir i (mss6_for mtu)])"
  by (auto simp: mss_dir6_def Let_def distinct_remove1_removeAll removeAll_filter_not_eq intro!: filter_cong)

lemma mss_twice4:
  assumes "distinct rs"
  shows "fold (mss_dir4 nz mtu i) [InputFrom, OutputTo] (fold (mss_dir4 nz mtu i) [InputFrom, OutputTo] rs) =
      fold (mss_dir4 nz mtu i) [InputFrom, OutputTo] rs" "distinct (fold (mss_dir4 nz mtu i) [InputFrom, OutputTo] rs)"
  using assms by (simp_all add: mss_dir4_form conj_ac)

lemma mss_twice6:
  assumes "distinct rs"
  shows "fold (mss_dir6 nz mtu i) [InputFrom, OutputTo] (fold (mss_dir6 nz mtu i) [InputFrom, OutputTo] rs) =
      fold (mss_dir6 nz mtu i) [InputFrom, OutputTo] rs" "distinct (fold (mss_dir6 nz mtu i) [InputFrom, OutputTo] rs)"
  using assms by (simp_all add: mss_dir6_form conj_ac)

lemma mss_foreign [simp]:
  "filter (\<lambda>r. \<exists>n. r = OtherRule n) (mss_dir4 nz mtu i dir rs) = filter (\<lambda>r. \<exists>n. r = OtherRule n) rs"
  "filter (\<lambda>r. \<exists>n. r = OtherRule n) (mss_dir6 nz mtu i dir rs) = filter (\<lambda>r. \<exists>n. r = OtherRule n) rs"
  by (simp_all add: mss_dir4_def mss_dir6_def Let_def)

text \<open>A change of the firewall that the setup may make: it is made once, and leaves the rules of others.\<close>

definition settled :: "(firewall \<Rightarrow> firewall) \<Rightarrow> bool" where
  "settled f \<longleftrightarrow> (\<forall>fw. fw_distinct fw \<longrightarrow> f (f fw) = f fw \<and> fw_distinct (f fw) \<and> foreign (f fw) = foreign fw)"

lemma rules_settled: "settled id" "settled (rules4 i sn out eg nz mtu)" "settled (rules6 i out eg nz mtu)"
proof -
  have n: "filter (\<lambda>r. \<exists>n. r = OtherRule n) (nat_chain sn out eg rs) = filter (\<lambda>r. \<exists>n. r = OtherRule n) rs" for sn rs
    by (simp add: nat_chain_def split: option.splits)
  show "settled id" by (simp add: settled_def)
  show "settled (rules4 i sn out eg nz mtu)"
    using nat_chain_twice forward_chain_twice input_chain_twice mss_twice4
    by (simp add: settled_def rules4_def fw_distinct_def foreign_def n forward_chain_def input_chain_def)
  show "settled (rules6 i out eg nz mtu)"
    using nat_chain_twice forward_chain_twice mss_twice6
    by (simp add: settled_def rules6_def fw_distinct_def foreign_def n forward_chain_def)
qed

lemma configure_link_effect:
  "\<exists>ok. \<forall>h. fst (configure_link E cfg iface a m h) = ok \<and> shFw4 (snd (configure_link E cfg iface a m h)) = shFw4 h \<and>
     shFw6 (snd (configure_link E cfg iface a m h)) = shFw6 h"
  by (simp add: configure_link_def Let_def ran_def) blast

definition settles :: "(server_host \<Rightarrow> opened \<times> server_host) \<Rightarrow> bool" where
  "settles run \<longleftrightarrow> (\<exists>r f4 f6. settled f4 \<and> settled f6 \<and>
     (\<forall>h. fst (run h) = r \<and> shFw4 (snd (run h)) = f4 (shFw4 h) \<and> shFw6 (snd (run h)) = f6 (shFw6 h)))"

lemma settlesI: "settled f4 \<Longrightarrow> settled f6 \<Longrightarrow>
    (\<And>h. fst (run h) = r \<and> shFw4 (snd (run h)) = f4 (shFw4 h) \<and> shFw6 (snd (run h)) = f6 (shFw6 h)) \<Longrightarrow> settles run"
  by (auto simp: settles_def)

lemma no_change_settles: "settles (\<lambda>h. (r, h))"
  by (rule settlesI[of id id]) (simp_all add: rules_settled)

lemma open_device_settles: "settles (open_device E cfg iface tunAddr e4 e6)"
proof (cases "deOpens E \<and> deAttaches E")
  case True
  define mtu where "mtu = tunnelMTUFor (dcMTU cfg)"
  define nz where "nz = (\<not> dcDisableNormalize cfg)"
  define out where "out = (if dcOutInterface cfg = [] then detectOutInterface (deRoute4 E) else dcOutInterface cfg)"
  define out6 where "out6 = detectOutInterfaceIPv6 (deRoute6 E)"
  let ?link = "configure_link E cfg iface tunAddr (if nz then normalizedTunMTU else mtu)"
  obtain ok where c: "\<And>h. fst (?link h) = ok" "\<And>h. shFw4 (snd (?link h)) = shFw4 h" "\<And>h. shFw6 (snd (?link h)) = shFw6 h"
    using configure_link_effect[of E cfg iface tunAddr "if nz then normalizedTunMTU else mtu"] by blast
  let ?f4 = "if ok \<and> deIptables E then rules4 iface tunAddr out e4 nz mtu else id"
  let ?f6 = "if ok \<and> dcEnableIPv6 cfg \<and> out6 \<noteq> [] \<and> deIp6tables E then rules6 iface out6 e6 nz mtu else id"
  show ?thesis
  proof (rule settlesI[of ?f4 ?f6])
    fix h :: server_host
    let ?h = "h\<lparr>shForward4 := True, shForward6 := dcEnableIPv6 cfg \<or> shForward6 h\<rparr>"
    obtain b h' where "?link ?h = (b, h')" by (rule prod.exhaust)
    then have l: "?link ?h = (ok, h')" using c(1)[of ?h] by simp
    have "open_device E cfg iface tunAddr e4 e6 h =
        (if \<not> ok then (NoDevice, h') else (Opened iface, h'\<lparr>shFw4 := ?f4 (shFw4 h'), shFw6 := ?f6 (shFw6 h')\<rparr>))"
      using True l unfolding open_device_def Let_def mtu_def[symmetric] nz_def[symmetric] out_def[symmetric] out6_def[symmetric]
      by (cases ok) simp_all
    then show "fst (open_device E cfg iface tunAddr e4 e6 h) = (if ok then Opened iface else NoDevice) \<and>
        shFw4 (snd (open_device E cfg iface tunAddr e4 e6 h)) = ?f4 (shFw4 h) \<and>
        shFw6 (snd (open_device E cfg iface tunAddr e4 e6 h)) = ?f6 (shFw6 h)"
      using c(2,3)[of ?h] l by simp
  qed (simp_all add: rules_settled)
next
  case False
  then have "open_device E cfg iface tunAddr e4 e6 = (\<lambda>h. (NoDevice, h))" by (auto simp: open_device_def)
  then show ?thesis using no_change_settles by simp
qed

lemma openTUN_settles: "settles (openTUN E cfg)"
proof (cases "dePrefixOk E (if dcAddress cfg = [] then lit ''10.8.0.1/24'' else dcAddress cfg)")
  case True
  show ?thesis
    by (cases "parseEgressIP (deParseIP E) (dcEgressIP cfg) False"; cases "parseEgressIP (deParseIP E) (dcEgressIP6 cfg) True")
      (use True in \<open>simp_all add: openTUN_def[abs_def] Let_def no_change_settles open_device_settles\<close>)
next
  case False
  then show ?thesis by (simp add: openTUN_def[abs_def] Let_def no_change_settles)
qed

text \<open>
  Property C38. Opening the device is idempotent on the firewall of the server: in a firewall whose chains have no rule twice, a
  restart with the same configuration has the same outcome and leaves every chain exactly as the first start left it,
  rule by rule and in order, no chain gets a rule twice, and the rules of others stay in their order.
\<close>

theorem firewall_setup_idempotent:
  assumes "openTUN E cfg h = (r, h1)" and "openTUN E cfg h1 = (r', h2)" and "fw_distinct (shFw4 h)" and "fw_distinct (shFw6 h)"
  shows "r' = r \<and> shFw4 h2 = shFw4 h1 \<and> shFw6 h2 = shFw6 h1 \<and> fw_distinct (shFw4 h1) \<and> fw_distinct (shFw6 h1) \<and>
    foreign (shFw4 h1) = foreign (shFw4 h) \<and> foreign (shFw6 h1) = foreign (shFw6 h)"
proof -
  obtain o4 f4 f6 where f: "settled f4" "settled f6" and o: "\<And>h. fst (openTUN E cfg h) = o4"
      "\<And>h. shFw4 (snd (openTUN E cfg h)) = f4 (shFw4 h)" "\<And>h. shFw6 (snd (openTUN E cfg h)) = f6 (shFw6 h)"
    using openTUN_settles[of E cfg] unfolding settles_def by blast
  have "r = o4" "r' = o4" "shFw4 h1 = f4 (shFw4 h)" "shFw6 h1 = f6 (shFw6 h)" "shFw4 h2 = f4 (shFw4 h1)" "shFw6 h2 = f6 (shFw6 h1)"
    using o[of h] o[of h1] assms(1,2) by simp_all
  then show ?thesis using f assms(3,4) by (simp add: settled_def)
qed

definition example_env :: device_env where
  "example_env = \<lparr>dePrefixOk = \<lambda>_. True, deParseIP = \<lambda>_. None, deItoa = \<lambda>_. [], deOpens = True, deAttaches = True,
     deRuns = \<lambda>_. True, deRoute4 = None, deRoute6 = None, deIptables = True, deIp6tables = True\<rparr>"

definition example_device :: device_config where
  "example_device = \<lparr>dcInterface = [], dcAddress = [], dcEgressIP = [], dcEgressIP6 = [], dcEnableIPv6 = False, dcMTU = 1280,
     dcDisableNormalize = True, dcOutInterface = lit ''eth1''\<rparr>"

definition example_server_host :: server_host where
  "example_server_host = (let fw = \<lparr>fwPostrouting = [OtherRule 1], fwForward = [], fwInput = [OtherRule 2], fwMangle = []\<rparr>
     in \<lparr>shFw4 = fw, shFw6 = fw, shForward4 = False, shForward6 = False, shRan = []\<rparr>)"

theorem firewall_setup_idempotent_witness:
  "case openTUN example_env example_device example_server_host of (r, h1) \<Rightarrow>
   case openTUN example_env example_device h1 of (r', h2) \<Rightarrow>
     r = Opened (lit ''tun0'') \<and> r' = r \<and> shFw4 h2 = shFw4 h1 \<and> Masquerade (lit ''10.8.0.1/24'') (lit ''eth1'') \<in> set (fwPostrouting (shFw4 h1))"
proof -
  obtain r h1 where o: "openTUN example_env example_device example_server_host = (r, h1)" by (rule prod.exhaust)
  obtain r' h2 where t: "openTUN example_env example_device h1 = (r', h2)" by (rule prod.exhaust)
  have "fw_distinct (shFw4 example_server_host)" "fw_distinct (shFw6 example_server_host)" by (simp_all add: example_server_host_def fw_distinct_def Let_def)
  note i = firewall_setup_idempotent[OF o t this]
  have "r = Opened (lit ''tun0'')" "Masquerade (lit ''10.8.0.1/24'') (lit ''eth1'') \<in> set (fwPostrouting (shFw4 h1))"
    using o by (auto simp: openTUN_def open_device_def configure_link_def example_env_def example_device_def parseEgressIP_def
        rules4_def nat_chain_def ran_def Let_def lit_def)
  then show ?thesis using o t i by simp
qed

text \<open>With an egress address, clients leave with it and not with the address of the interface.\<close>

lemma egress_replaces_masquerade:
  "distinct rs \<Longrightarrow> Snat sn out ip \<in> set (nat_chain sn out (Some ip) rs) \<and> Masquerade sn out \<notin> set (nat_chain sn out (Some ip) rs)"
  by (simp add: nat_chain_def)

text \<open>
  But only the rule for the configured address is looked at. After a change of \<^verbatim>\<open>egress_ip\<close> the rule for the old address is
  still the first that matches, and it is also after the option is removed.
\<close>

lemma stale_egress_rule_wins:
  "old \<noteq> new \<Longrightarrow> nat_chain sn out (Some new) (nat_chain sn out (Some old) []) = [Snat sn out old, Snat sn out new]"
  "nat_chain sn out None (nat_chain sn out (Some old) []) = [Snat sn out old, Masquerade sn out]"
  by (simp_all add: nat_chain_def ensure_def)

end
