(* ===== verification/Packet_Device.thy ===== *)
theory Packet_Device
  imports Go_Strings "HOL-Library.Multiset"
begin

text \<open>
  The in-memory TUN device for iOS, \<^verbatim>\<open>obsidian/tun/tun_packet.go\<close>, with the wrapper of a file descriptor, \<^verbatim>\<open>tun_fd.go\<close>, and the
  framing of macOS, \<^verbatim>\<open>tun_darwin.go\<close>. Packets of
  the host cross the device in buffers that are taken from a pool and put back after the copy, so the model has an
  explicit store: a queue holds the address of a buffer and the length of the packet in it. Where a \<^verbatim>\<open>select\<close> has several
  ready cases, each of them is a step; a step that would block is not there.
\<close>

section \<open>The device\<close>

definition DefaultMTU :: int where "DefaultMTU = 1420"

definition poolSize :: nat where "poolSize = 2048"

text \<open>
  \<open>pdHeld\<close> are the calls of \<^verbatim>\<open>InjectPacket\<close> between the copy and the second \<^verbatim>\<open>select\<close>, with the address of their buffer;
  \<open>pdWriting\<close> are the calls of \<^verbatim>\<open>Write\<close> there. \<open>pdCap\<close> is the capacity of each buffer, and addresses from \<open>pdNext\<close> on are not
  in use yet.
\<close>

record PacketDevice =
  pdName :: gostring
  pdMtu :: int
  pdQueue :: nat
  pdIn :: "(nat \<times> nat) list"
  pdOut :: "bytes list"
  pdClosed :: bool
  pdMem :: "nat \<Rightarrow> bytes"
  pdCap :: "nat \<Rightarrow> nat"
  pdPool :: "nat list"
  pdNext :: nat
  pdHeld :: "(nat \<times> bytes) list"
  pdWriting :: "bytes list"

definition NewPacketDevice :: "gostring \<Rightarrow> int \<Rightarrow> int \<Rightarrow> PacketDevice" where
  "NewPacketDevice name mtu queueSize =
     \<lparr>pdName = (if name = [] then lit ''packet-tun'' else name), pdMtu = (if mtu \<le> 0 then DefaultMTU else mtu),
      pdQueue = nat (if queueSize \<le> 0 then 2048 else queueSize), pdIn = [], pdOut = [], pdClosed = False,
      pdMem = \<lambda>_. [], pdCap = \<lambda>_. 0, pdPool = [], pdNext = 0, pdHeld = [], pdWriting = []\<rparr>"

text \<open>A new buffer, and a buffer from the pool: the pool may give any of its buffers, or a new one.\<close>

definition make_buffer :: "nat \<Rightarrow> PacketDevice \<Rightarrow> nat \<times> PacketDevice" where
  "make_buffer sz d =
     (pdNext d, d\<lparr>pdNext := pdNext d + 1, pdCap := (pdCap d)(pdNext d := sz), pdMem := (pdMem d)(pdNext d := replicate sz 0)\<rparr>)"

definition pool_Get :: "nat option \<Rightarrow> PacketDevice \<Rightarrow> nat \<times> PacketDevice" where
  "pool_Get choice d =
     (case choice of
        Some k \<Rightarrow> if k < length (pdPool d) then (pdPool d ! k, d\<lparr>pdPool := take k (pdPool d) @ drop (k + 1) (pdPool d)\<rparr>)
                  else make_buffer poolSize d
      | None \<Rightarrow> make_buffer poolSize d)"

definition pool_Put :: "nat \<Rightarrow> PacketDevice \<Rightarrow> PacketDevice" where
  "pool_Put a d = (if pdCap d a = poolSize then d\<lparr>pdPool := a # pdPool d\<rparr> else d)"

text \<open>\<^verbatim>\<open>InjectPacket\<close> up to the copy, and its second \<^verbatim>\<open>select\<close>.\<close>

definition inject_copy :: "nat option \<Rightarrow> bytes \<Rightarrow> PacketDevice \<Rightarrow> PacketDevice" where
  "inject_copy choice pkt d =
     (case pool_Get choice d of
        (a, d) \<Rightarrow>
          (case (if pdCap d a < length pkt then make_buffer (length pkt) d else (a, d)) of
             (a, d) \<Rightarrow> d\<lparr>pdMem := (pdMem d)(a := pkt @ drop (length pkt) (pdMem d a)), pdHeld := (a, pkt) # pdHeld d\<rparr>))"

definition inject_queue :: "nat \<times> bytes \<Rightarrow> PacketDevice \<Rightarrow> PacketDevice" where
  "inject_queue h d = d\<lparr>pdHeld := remove1 h (pdHeld d), pdIn := pdIn d @ [(fst h, length (snd h))]\<rparr>"

definition inject_drop :: "nat \<times> bytes \<Rightarrow> PacketDevice \<Rightarrow> PacketDevice" where
  "inject_drop h d = pool_Put (fst h) (d\<lparr>pdHeld := remove1 h (pdHeld d)\<rparr>)"

text \<open>\<^verbatim>\<open>Read\<close> of the oldest packet into a buffer of \<open>n\<close> bytes.\<close>

definition Read_packet :: "nat \<Rightarrow> PacketDevice \<Rightarrow> (bytes \<times> PacketDevice) option" where
  "Read_packet n d =
     (case pdIn d of
        [] \<Rightarrow> None
      | (a, l) # q \<Rightarrow> Some (take n (take l (pdMem d a)), pool_Put a (d\<lparr>pdIn := q\<rparr>)))"

definition Close_device :: "PacketDevice \<Rightarrow> PacketDevice" where
  "Close_device d = d\<lparr>pdClosed := True\<rparr>"

text \<open>\<^verbatim>\<open>TryReceivePacket\<close> and \<^verbatim>\<open>ReceivePacket\<close>, with the case that the \<^verbatim>\<open>select\<close> takes when it may choose; the latter blocks without a ready case.\<close>

definition TryReceivePacket :: "bool \<Rightarrow> PacketDevice \<Rightarrow> bytes option res \<times> PacketDevice" where
  "TryReceivePacket closed_first d =
     (if pdClosed d \<and> (closed_first \<or> pdOut d = []) then (Inl ErrEOF, d)
      else case pdOut d of [] \<Rightarrow> (Inr None, d) | p # ps \<Rightarrow> (Inr (Some p), d\<lparr>pdOut := ps\<rparr>))"

definition ReceivePacket :: "bool \<Rightarrow> bool \<Rightarrow> bool \<Rightarrow> PacketDevice \<Rightarrow> (bytes res \<times> PacketDevice) option" where
  "ReceivePacket expired closed_first expired_first d =
     (if pdClosed d \<and> (closed_first \<or> (pdOut d = [] \<and> \<not> (expired \<and> expired_first))) then Some (Inl ErrEOF, d)
      else if expired \<and> (expired_first \<or> pdOut d = []) then Some (Inl (Errorf ''context deadline exceeded''), d)
      else case pdOut d of [] \<Rightarrow> None | p # ps \<Rightarrow> Some (Inr p, d\<lparr>pdOut := ps\<rparr>))"

section \<open>File descriptors and utun\<close>

record fdDevice =
  fdNumber :: int
  fdName :: gostring
  fdMtu :: int

definition fd_MTU :: "fdDevice \<Rightarrow> int" where
  "fd_MTU d = (if fdMtu d \<le> 0 then DefaultMTU else fdMtu d)"

text \<open>\<open>itoa\<close> prints the number for a missing name.\<close>

definition OpenFD :: "(int \<Rightarrow> gostring) \<Rightarrow> int \<Rightarrow> gostring \<Rightarrow> int \<Rightarrow> fdDevice res" where
  "OpenFD itoa fd name mtu =
     (if fd < 0 then Inl (Errorf ''invalid file descriptor'')
      else Inr \<lparr>fdNumber = fd, fdName = (if name = [] then lit ''tun-fd-'' @ itoa fd else name), fdMtu = (if mtu \<le> 0 then DefaultMTU else mtu)\<rparr>)"

text \<open>On macOS each packet has the protocol family in four bytes in front. \<open>file\<close> is what the kernel answers to the write.\<close>

definition utun_frame :: "bytes \<Rightarrow> bytes res" where
  "utun_frame b =
     (let family = (if drop_bit 4 (b ! 0) = 6 then 30 else 2) :: u32
      in sl 0 (4 + length b) (overwrite 4 b (be32 family @ replicate 2048 0)))"

definition darwin_Write :: "(bytes \<Rightarrow> nat res) \<Rightarrow> bytes \<Rightarrow> nat res" where
  "darwin_Write file b =
     (if b = [] then Inr 0
      else rbind (utun_frame b) (\<lambda>f. rbind (file f) (\<lambda>n. if n \<le> 4 then Inl (Errorf ''short write'') else Inr (n - 4))))"

definition darwin_Read :: "bytes res \<Rightarrow> nat \<Rightarrow> bytes res" where
  "darwin_Read input n = rbind input (\<lambda>buf. if length buf \<le> 4 then Inr [] else Inr (take n (drop 4 buf)))"

text \<open>A packet of at most 2048 bytes arrives as it is; a longer one is a panic of the client.\<close>

lemma utun_round_trip:
  "b \<noteq> [] \<Longrightarrow> length b \<le> 2048 \<Longrightarrow> \<exists>f. utun_frame b = Inr f \<and> darwin_Read (Inr f) (length b) = Inr b"
  by (auto simp: utun_frame_def sl_Inr overwrite_def subslice_def darwin_Read_def rbind_def be32_def drop_take)

lemma utun_write_panics: "2048 < length b \<Longrightarrow> darwin_Write file b = Inl Panic"
  by (auto simp: darwin_Write_def utun_frame_def sl_def gslice_def overwrite_def rbind_def be32_def)

section \<open>Every interleaving\<close>

text \<open>The device with the packets that have crossed it: injected and read, with the size of the reader's buffer, written and received.\<close>

record traced =
  trDev :: PacketDevice
  trAccepted :: "bytes list"
  trRead :: "(nat \<times> bytes) list"
  trWritten :: "bytes list"
  trReceived :: "bytes list"

inductive device_step :: "traced \<Rightarrow> traced \<Rightarrow> bool" where
  inject_begins: "\<not> pdClosed (trDev s) \<Longrightarrow> device_step s (s\<lparr>trDev := inject_copy choice pkt (trDev s)\<rparr>)"
| inject_queued: "h \<in> set (pdHeld (trDev s)) \<Longrightarrow> length (pdIn (trDev s)) < pdQueue (trDev s) \<Longrightarrow>
    device_step s (s\<lparr>trDev := inject_queue h (trDev s), trAccepted := trAccepted s @ [snd h]\<rparr>)"
| inject_dropped: "h \<in> set (pdHeld (trDev s)) \<Longrightarrow> pdClosed (trDev s) \<or> length (pdIn (trDev s)) = pdQueue (trDev s) \<Longrightarrow>
    device_step s (s\<lparr>trDev := inject_drop h (trDev s)\<rparr>)"
| reads: "Read_packet n (trDev s) = Some (b, d) \<Longrightarrow> device_step s (s\<lparr>trDev := d, trRead := trRead s @ [(n, b)]\<rparr>)"
| write_begins: "\<not> pdClosed (trDev s) \<Longrightarrow> device_step s (s\<lparr>trDev := (trDev s)\<lparr>pdWriting := b # pdWriting (trDev s)\<rparr>\<rparr>)"
| write_queued: "b \<in> set (pdWriting (trDev s)) \<Longrightarrow> length (pdOut (trDev s)) < pdQueue (trDev s) \<Longrightarrow>
    device_step s (s\<lparr>trDev := (trDev s)\<lparr>pdWriting := remove1 b (pdWriting (trDev s)), pdOut := pdOut (trDev s) @ [b]\<rparr>,
                     trWritten := trWritten s @ [b]\<rparr>)"
| write_dropped: "b \<in> set (pdWriting (trDev s)) \<Longrightarrow> pdClosed (trDev s) \<or> length (pdOut (trDev s)) = pdQueue (trDev s) \<Longrightarrow>
    device_step s (s\<lparr>trDev := (trDev s)\<lparr>pdWriting := remove1 b (pdWriting (trDev s))\<rparr>\<rparr>)"
| receives: "TryReceivePacket False (trDev s) = (Inr (Some p), d) \<Longrightarrow> device_step s (s\<lparr>trDev := d, trReceived := trReceived s @ [p]\<rparr>)"
| closes: "device_step s (s\<lparr>trDev := Close_device (trDev s)\<rparr>)"

definition fresh_device :: "PacketDevice \<Rightarrow> traced" where
  "fresh_device d = \<lparr>trDev = d, trAccepted = [], trRead = [], trWritten = [], trReceived = []\<rparr>"

text \<open>
  No buffer is in two places: a buffer in the queue, in the pool and with an injecting call are three different ones, and the
  bytes of a queued or held packet are still those of the packet.
\<close>

definition buffers :: "PacketDevice \<Rightarrow> nat list" where
  "buffers d = map fst (pdIn d) @ pdPool d @ map fst (pdHeld d)"

definition queued :: "PacketDevice \<Rightarrow> bytes list" where
  "queued d = map (\<lambda>(a, l). take l (pdMem d a)) (pdIn d)"

definition store_ok :: "PacketDevice \<Rightarrow> bool" where
  "store_ok d \<longleftrightarrow> distinct (buffers d) \<and> (\<forall>a \<in> set (buffers d). a < pdNext d) \<and> (\<forall>(a, p) \<in> set (pdHeld d). take (length p) (pdMem d a) = p)"

definition device_inv :: "traced \<Rightarrow> bool" where
  "device_inv s \<longleftrightarrow>
     (let d = trDev s in
      store_ok d \<and> length (pdIn d) \<le> pdQueue d \<and> length (pdOut d) \<le> pdQueue d \<and>
      length (trRead s) \<le> length (trAccepted s) \<and> queued d = drop (length (trRead s)) (trAccepted s) \<and>
      map snd (trRead s) = map2 take (map fst (trRead s)) (trAccepted s) \<and> trWritten s = trReceived s @ pdOut d)"

lemma held_take: "(a, p) \<in> set (pdHeld d) \<Longrightarrow> a \<in> set (buffers d)"
  by (force simp: buffers_def)

text \<open>A buffer for an injecting call is one that nobody else has, and taking it changes no packet.\<close>

definition same_packets :: "PacketDevice \<Rightarrow> PacketDevice \<Rightarrow> bool" where
  "same_packets d e \<longleftrightarrow> pdIn e = pdIn d \<and> pdHeld e = pdHeld d \<and> pdOut e = pdOut d \<and> pdQueue e = pdQueue d \<and>
     pdNext d \<le> pdNext e \<and> (\<forall>a < pdNext d. pdMem e a = pdMem d a)"

lemma buffers_store [simp]:
  "buffers (d\<lparr>pdNext := n\<rparr>) = buffers d" "buffers (d\<lparr>pdCap := c\<rparr>) = buffers d" "buffers (d\<lparr>pdMem := m\<rparr>) = buffers d"
  by (simp_all add: buffers_def)

lemma make_buffer_fresh:
  assumes "make_buffer sz d = (a, e)" and "\<forall>a \<in> set (buffers d). a < pdNext d" and "distinct (buffers d)"
  shows "same_packets d e \<and> a \<notin> set (buffers e) \<and> a < pdNext e \<and> (\<forall>a \<in> set (buffers e). a < pdNext e) \<and> distinct (buffers e)"
  using assms by (auto simp: make_buffer_def same_packets_def less_Suc_eq)

lemma distinct_take_out:
  "distinct (xs @ (ys @ a # zs) @ ws) \<Longrightarrow> distinct (xs @ (ys @ zs) @ ws) \<and> a \<notin> set (xs @ (ys @ zs) @ ws)"
  by auto

lemma pool_Get_fresh:
  assumes "pool_Get choice d = (a, e)" and "\<forall>a \<in> set (buffers d). a < pdNext d" and "distinct (buffers d)"
  shows "same_packets d e \<and> a \<notin> set (buffers e) \<and> a < pdNext e \<and> (\<forall>a \<in> set (buffers e). a < pdNext e) \<and> distinct (buffers e)"
proof (cases "\<exists>k. choice = Some k \<and> k < length (pdPool d)")
  case True
  then obtain k where k: "choice = Some k" "k < length (pdPool d)" by blast
  then have p: "pdPool d = take k (pdPool d) @ pdPool d ! k # drop (k + 1) (pdPool d)" by (simp add: id_take_nth_drop)
  have e: "a = pdPool d ! k" "e = d\<lparr>pdPool := take k (pdPool d) @ drop (k + 1) (pdPool d)\<rparr>" using assms(1) k by (simp_all add: pool_Get_def)
  let ?b = "map fst (pdIn d) @ (take k (pdPool d) @ pdPool d ! k # drop (k + 1) (pdPool d)) @ map fst (pdHeld d)"
  have b: "buffers d = ?b" using p by (simp add: buffers_def)
  have "buffers e = map fst (pdIn d) @ (take k (pdPool d) @ drop (k + 1) (pdPool d)) @ map fst (pdHeld d)" by (simp add: e buffers_def)
  then have "distinct (buffers e)" "a \<notin> set (buffers e)" "set (buffers e) \<subseteq> set (buffers d)" "a \<in> set (buffers d)"
    using distinct_take_out[of "map fst (pdIn d)" "take k (pdPool d)" "pdPool d ! k" "drop (k + 1) (pdPool d)" "map fst (pdHeld d)"] assms(3)
    unfolding b e(1) by auto
  moreover have "same_packets d e" by (simp add: e same_packets_def)
  moreover have "pdNext e = pdNext d" by (simp add: e)
  ultimately show ?thesis using assms(2) by auto
next
  case False
  then have "make_buffer poolSize d = (a, e)" using assms(1) by (auto simp: pool_Get_def split: option.splits if_splits)
  then show ?thesis using make_buffer_fresh assms(2,3) by blast
qed

lemma inject_copy_form:
  assumes "\<forall>a \<in> set (buffers d). a < pdNext d" and "distinct (buffers d)"
  shows "\<exists>a e. inject_copy choice pkt d = e\<lparr>pdMem := (pdMem e)(a := pkt @ drop (length pkt) (pdMem e a)), pdHeld := (a, pkt) # pdHeld e\<rparr> \<and>
    same_packets d e \<and> a \<notin> set (buffers e) \<and> a < pdNext e \<and> (\<forall>a \<in> set (buffers e). a < pdNext e) \<and> distinct (buffers e)"
proof -
  obtain a e where g: "pool_Get choice d = (a, e)" by (rule prod.exhaust)
  note f = pool_Get_fresh[OF g assms]
  obtain a' e' where m: "make_buffer (length pkt) e = (a', e')" by (rule prod.exhaust)
  have f': "same_packets e e' \<and> a' \<notin> set (buffers e') \<and> a' < pdNext e' \<and> (\<forall>a \<in> set (buffers e'). a < pdNext e') \<and> distinct (buffers e')"
    by (rule make_buffer_fresh[OF m]) (use f in auto)
  then have "same_packets d e'" using f by (auto simp: same_packets_def)
  then show ?thesis using g m f f' by (cases "pdCap e a < length pkt") (auto simp: inject_copy_def)
qed

lemma queued_same:
  assumes "same_packets d e" and "\<forall>a \<in> set (buffers d). a < pdNext d" and "a \<notin> set (buffers e)"
  shows "queued (e\<lparr>pdMem := (pdMem e)(a := y), pdHeld := h\<rparr>) = queued d"
proof -
  have "x < pdNext d \<and> x \<noteq> a" if "(x, l) \<in> set (pdIn d)" for x l
  proof -
    have "x \<in> set (map fst (pdIn d))" using that by force
    then have "x \<in> set (buffers d)" "x \<in> set (buffers e)" using assms(1) by (simp_all add: same_packets_def buffers_def)
    then show ?thesis using assms(2,3) by metis
  qed
  then show ?thesis using assms(1) by (auto simp: queued_def same_packets_def)
qed

lemma inject_begins_keeps:
  assumes "device_inv s" shows "device_inv (s\<lparr>trDev := inject_copy choice pkt (trDev s)\<rparr>)"
proof -
  let ?d = "trDev s"
  have i: "\<forall>a \<in> set (buffers ?d). a < pdNext ?d" "distinct (buffers ?d)" using assms by (simp_all add: device_inv_def store_ok_def Let_def)
  obtain a e where c: "inject_copy choice pkt ?d = e\<lparr>pdMem := (pdMem e)(a := pkt @ drop (length pkt) (pdMem e a)), pdHeld := (a, pkt) # pdHeld e\<rparr>"
    and s: "same_packets ?d e" and n: "a \<notin> set (buffers e)" "a < pdNext e" and b: "\<forall>a \<in> set (buffers e). a < pdNext e" "distinct (buffers e)"
    using inject_copy_form[OF i] by blast
  have h: "\<forall>(a', p) \<in> set (pdHeld e). take (length p) (pdMem e a') = p"
  proof (clarify)
    fix a' p assume m: "(a', p) \<in> set (pdHeld e)"
    then have "(a', p) \<in> set (pdHeld ?d)" using s by (simp add: same_packets_def)
    moreover from this have "a' < pdNext ?d" using held_take i(1) by blast
    ultimately show "take (length p) (pdMem e a') = p" using assms s by (auto simp: device_inv_def store_ok_def Let_def same_packets_def)
  qed
  have "a' \<noteq> a" if "(a', p) \<in> set (pdHeld e)" for a' p using held_take[OF that] n(1) by auto
  then have h': "\<forall>(a', p) \<in> set ((a, pkt) # pdHeld e). take (length p) (((pdMem e)(a := pkt @ drop (length pkt) (pdMem e a))) a') = p"
    using h by auto
  show ?thesis
    using assms s n b h' queued_same[OF s i(1) n(1)] unfolding c
    by (simp add: device_inv_def store_ok_def Let_def same_packets_def) (simp add: buffers_def)
qed

text \<open>The other operations only move buffers from one place to another, or forget them.\<close>

lemma sub_distinct:
  assumes "mset xs \<subseteq># mset ys" and "distinct ys" shows "distinct xs" "set xs \<subseteq> set ys"
proof -
  obtain zs where "mset ys = mset (xs @ zs)" using assms(1) by (metis ex_mset mset_append mset_subset_eq_exists_conv)
  then have "distinct (xs @ zs)" "set ys = set (xs @ zs)" using assms(2) mset_eq_imp_distinct_iff mset_eq_setD by blast+
  then show "distinct xs" "set xs \<subseteq> set ys" by auto
qed

lemma store_moved:
  assumes "store_ok d" and "mset (buffers e) \<subseteq># mset (buffers d)" and "pdNext e = pdNext d" and "pdMem e = pdMem d"
    and "set (pdHeld e) \<subseteq> set (pdHeld d)"
  shows "store_ok e"
  using assms sub_distinct[OF assms(2)] by (auto simp: store_ok_def)

lemma mset_map_remove1: "x \<in> set xs \<Longrightarrow> mset (map f (remove1 x xs)) = mset (map f xs) - {#f x#}"
  by (simp add: image_mset_Diff)

lemma mset_held: "h \<in> set (pdHeld d) \<Longrightarrow> add_mset (fst h) (mset (map fst (remove1 h (pdHeld d)))) = mset (map fst (pdHeld d))"
  by (simp add: mset_map_remove1 del: mset_map)

lemma put_keeps [simp]:
  "pdNext (pool_Put a d) = pdNext d" "pdMem (pool_Put a d) = pdMem d" "pdHeld (pool_Put a d) = pdHeld d" "pdIn (pool_Put a d) = pdIn d"
  "pdOut (pool_Put a d) = pdOut d" "pdQueue (pool_Put a d) = pdQueue d" "queued (pool_Put a d) = queued d"
  by (simp_all add: pool_Put_def queued_def)

lemma put_buffers: "mset (buffers (pool_Put a d)) \<subseteq># add_mset a (mset (buffers d))"
  by (simp add: pool_Put_def buffers_def)

lemma queue_store:
  assumes "store_ok d" and "h \<in> set (pdHeld d)"
  shows "store_ok (inject_queue h d)" "queued (inject_queue h d) = queued d @ [snd h]"
proof -
  have "mset (buffers (inject_queue h d)) = mset (buffers d)" using mset_held[OF assms(2)] by (simp add: buffers_def inject_queue_def)
  then show "store_ok (inject_queue h d)"
    by (intro store_moved[OF assms(1)]) (simp_all add: inject_queue_def set_remove1_subset)
  show "queued (inject_queue h d) = queued d @ [snd h]" using assms by (auto simp: queued_def inject_queue_def store_ok_def)
qed

lemma drop_store:
  assumes "store_ok d" and "h \<in> set (pdHeld d)"
  shows "store_ok (inject_drop h d)" "queued (inject_drop h d) = queued d"
proof -
  have "mset (buffers (inject_drop h d)) \<subseteq># add_mset (fst h) (mset (buffers (d\<lparr>pdHeld := remove1 h (pdHeld d)\<rparr>)))"
    unfolding inject_drop_def by (rule put_buffers)
  also have "\<dots> = mset (buffers d)" using mset_held[OF assms(2)] by (simp add: buffers_def)
  finally show "store_ok (inject_drop h d)"
    by (intro store_moved[OF assms(1)]) (simp_all add: inject_drop_def set_remove1_subset)
  show "queued (inject_drop h d) = queued d" by (simp add: inject_drop_def) (simp add: queued_def)
qed

lemma read_store:
  assumes "store_ok d" and "Read_packet n d = Some (b, e)"
  shows "store_ok e" "\<exists>p. queued d = p # queued e \<and> b = take n p" "pdOut e = pdOut d" "pdQueue e = pdQueue d" "length (pdIn d) = Suc (length (pdIn e))"
proof -
  obtain a l q where q: "pdIn d = (a, l) # q" and e: "e = pool_Put a (d\<lparr>pdIn := q\<rparr>)" and b: "b = take n (take l (pdMem d a))"
    using assms(2) by (auto simp: Read_packet_def split: list.splits)
  have "mset (buffers e) \<subseteq># add_mset a (mset (buffers (d\<lparr>pdIn := q\<rparr>)))" unfolding e by (rule put_buffers)
  also have "\<dots> = mset (buffers d)" by (simp add: buffers_def q)
  finally show "store_ok e" by (intro store_moved[OF assms(1)]) (simp_all add: e)
  show "\<exists>p. queued d = p # queued e \<and> b = take n p" unfolding e b by simp (simp add: queued_def q)
  show "pdOut e = pdOut d" "pdQueue e = pdQueue d" "length (pdIn d) = Suc (length (pdIn e))" by (simp_all add: e q)
qed

lemma drop_Cons_parts: "drop n xs = p # q \<Longrightarrow> n < length xs \<and> xs ! n = p \<and> drop (Suc n) xs = q"
  by (metis Cons_nth_drop_Suc drop_all leI list.distinct(1) list.inject)

lemma map2_snoc: "length ns < length xs \<Longrightarrow> map2 f (ns @ [n]) xs = map2 f ns xs @ [f n (xs ! length ns)]"
proof (induction ns arbitrary: xs)
  case Nil
  then show ?case by (cases xs) simp_all
next
  case (Cons m ns)
  then show ?case by (cases xs) simp_all
qed

lemma device_inv_step:
  assumes "device_step s t" and "device_inv s"
  shows "device_inv t"
  using assms(1)
proof cases
  case (inject_begins choice pkt)
  then show ?thesis using inject_begins_keeps[OF assms(2)] by simp
next
  case (inject_queued h)
  then have "store_ok (trDev s)" using assms(2) by (simp add: device_inv_def Let_def)
  note q = queue_store[OF this inject_queued(2)]
  have "pdOut (inject_queue h (trDev s)) = pdOut (trDev s)" "pdQueue (inject_queue h (trDev s)) = pdQueue (trDev s)"
    "length (pdIn (inject_queue h (trDev s))) = Suc (length (pdIn (trDev s)))" by (simp_all add: inject_queue_def)
  moreover have "map2 take (map fst (trRead s)) (trAccepted s @ [snd h]) = map2 take (map fst (trRead s)) (trAccepted s)"
    using assms(2) by (simp add: device_inv_def Let_def zip_append2)
  ultimately show ?thesis using q assms(2) inject_queued by (simp add: device_inv_def Let_def)
next
  case (inject_dropped h)
  then have "store_ok (trDev s)" using assms(2) by (simp add: device_inv_def Let_def)
  note q = drop_store[OF this inject_dropped(2)]
  have "pdOut (inject_drop h (trDev s)) = pdOut (trDev s)" "pdQueue (inject_drop h (trDev s)) = pdQueue (trDev s)"
    "pdIn (inject_drop h (trDev s)) = pdIn (trDev s)" by (simp_all add: inject_drop_def)
  then show ?thesis using q assms(2) inject_dropped by (simp add: device_inv_def Let_def)
next
  case (reads n b d)
  have i: "store_ok (trDev s)" "length (trRead s) \<le> length (trAccepted s)" "queued (trDev s) = drop (length (trRead s)) (trAccepted s)"
    using assms(2) by (simp_all add: device_inv_def Let_def)
  note r = read_store[OF i(1) reads(2)]
  obtain p where p: "queued (trDev s) = p # queued d" "b = take n p" using r(2) by blast
  note l = drop_Cons_parts[OF i(3)[symmetric, unfolded p(1)]]
  have "map2 take (map fst (trRead s) @ [n]) (trAccepted s) = map2 take (map fst (trRead s)) (trAccepted s) @ [b]"
    using map2_snoc[of "map fst (trRead s)" "trAccepted s" take n] l p(2) by simp
  then show ?thesis using reads r(1,3-5) l assms(2) by (simp add: device_inv_def Let_def)
next
  case (receives p d)
  then obtain ps where o: "pdOut (trDev s) = p # ps" "d = (trDev s)\<lparr>pdOut := ps\<rparr>"
    by (auto simp: TryReceivePacket_def split: if_splits list.splits)
  then show ?thesis using receives(1) assms(2) by (simp add: device_inv_def Let_def) (simp add: store_ok_def buffers_def queued_def)
qed (use assms(2) in \<open>auto simp: device_inv_def store_ok_def buffers_def queued_def Close_device_def Let_def\<close>)

lemma device_inv_reached: "device_step\<^sup>*\<^sup>* s t \<Longrightarrow> device_inv s \<Longrightarrow> device_inv t"
  by (induction rule: rtranclp_induct) (auto intro: device_inv_step)

lemma new_device_inv: "device_inv (fresh_device (NewPacketDevice name mtu queueSize))"
  by (simp add: device_inv_def store_ok_def fresh_device_def NewPacketDevice_def buffers_def queued_def)

text \<open>
  Property C39. However host, tunnel and close interleave on the packet device, with the buffers of the pool reused at once: both
  queues keep to their bound, what the tunnel reads are exactly the accepted packets from the first on, each once, in
  order and cut only to the reader's buffer, the packets still in the queue are the rest of them byte for byte, and what
  the host receives are the written packets in order.
\<close>

theorem packet_device_keeps_packets:
  assumes "device_step\<^sup>*\<^sup>* (fresh_device (NewPacketDevice name mtu queueSize)) s"
  shows "length (pdIn (trDev s)) \<le> pdQueue (trDev s) \<and> length (pdOut (trDev s)) \<le> pdQueue (trDev s) \<and>
    map snd (trRead s) = map2 take (map fst (trRead s)) (trAccepted s) \<and>
    queued (trDev s) = drop (length (trRead s)) (trAccepted s) \<and> trWritten s = trReceived s @ pdOut (trDev s)"
  using device_inv_reached[OF assms new_device_inv] by (simp add: device_inv_def Let_def)

text \<open>A packet is injected and read into a smaller buffer; its own buffer is back in the pool.\<close>

theorem packet_device_keeps_packets_witness:
  "\<exists>s. device_step\<^sup>*\<^sup>* (fresh_device (NewPacketDevice [] 0 2)) s \<and> trAccepted s = [[1, 2]] \<and> map snd (trRead s) = [[1]] \<and> pdPool (trDev s) = [0]"
proof -
  let ?s0 = "fresh_device (NewPacketDevice [] 0 2)"
  let ?s1 = "?s0\<lparr>trDev := inject_copy None [1, 2] (trDev ?s0)\<rparr>"
  let ?s2 = "?s1\<lparr>trDev := inject_queue (0, [1, 2]) (trDev ?s1), trAccepted := trAccepted ?s1 @ [[1, 2]]\<rparr>"
  have h: "pdHeld (trDev ?s1) = [(0, [1, 2])]" "pdIn (trDev ?s1) = []" "pdQueue (trDev ?s1) = 2" "pdCap (trDev ?s1) 0 = poolSize" "pdPool (trDev ?s1) = []"
    by (simp_all add: fresh_device_def NewPacketDevice_def inject_copy_def pool_Get_def make_buffer_def poolSize_def)
  have 1: "device_step ?s0 ?s1" by (rule inject_begins) (simp add: fresh_device_def NewPacketDevice_def)
  have 2: "device_step ?s1 ?s2" using inject_queued[of "(0, [1, 2])" ?s1] h by simp
  obtain b d where r: "Read_packet 1 (trDev ?s2) = Some (b, d)" using h(2) by (auto simp: Read_packet_def inject_queue_def)
  have p: "pdPool d = [0]" using r h by (auto simp: Read_packet_def inject_queue_def pool_Put_def)
  let ?s3 = "?s2\<lparr>trDev := d, trRead := trRead ?s2 @ [(1, b)]\<rparr>"
  have 3: "device_step ?s2 ?s3" by (rule reads[OF r])
  have reach: "device_step\<^sup>*\<^sup>* ?s0 ?s3" using 1 2 3 by (meson rtranclp.rtrancl_into_rtrancl rtranclp.rtrancl_refl)
  have "map snd (trRead ?s3) = [[1]]" using packet_device_keeps_packets[OF reach] by (simp add: fresh_device_def)
  moreover have "trAccepted ?s3 = [[1, 2]]" by (simp add: fresh_device_def)
  ultimately show ?thesis using reach p by (intro exI[of _ ?s3]) simp
qed

end
