(* ===== verification/Mobile_Api.thy ===== *)
theory Mobile_Api
  imports Client_Session Packet_Device
begin

text \<open>
  The entry points of the mobile libraries, \<^verbatim>\<open>pkg/mobile/mobile.go\<close>: sessions are started over a file descriptor or over a packet
  device and are then known by an identifier. The model has the table of sessions and a log of the descriptors that
  were closed, because the package takes over the descriptor with the call. The engine of a session runs on its own.
\<close>

section \<open>State\<close>

datatype tun_device = FdTun fdDevice | PacketTun PacketDevice

record 'f activeSessionHolder =
  hoSession :: "'f Session"
  hoEngine :: engine
  hoDev :: tun_device

record 'f mobile =
  mbSessions :: "gostring \<rightharpoonup> 'f activeSessionHolder"
  mbNext :: nat
  mbClosed :: "int list"
  mbProxy :: "(gostring \<times> bool) option"

definition new_mobile :: "'f mobile" where
  "new_mobile = \<lparr>mbSessions = Map.empty, mbNext = 0, mbClosed = [], mbProxy = None\<rparr>"

text \<open>What a call gets from outside: the libraries, the random bytes of a new key, the clock in nanoseconds.\<close>

record 'f mobile_env =
  meLib :: "'f go_lib"
  meDur :: "'f \<Rightarrow> int"
  mePrims :: crypto_lib
  meRandom :: bytes
  meNow :: nat
  meJSON :: "gostring \<Rightarrow> 'f ClientConfig option"

section \<open>Operations\<close>

definition closeTunFd :: "int \<Rightarrow> 'f mobile \<Rightarrow> 'f mobile" where
  "closeTunFd fd m = (if fd < 0 then m else m\<lparr>mbClosed := fd # mbClosed m\<rparr>)"

definition dev_Close :: "tun_device \<Rightarrow> 'f mobile \<Rightarrow> 'f mobile" where
  "dev_Close dev m = (case dev of FdTun d \<Rightarrow> m\<lparr>mbClosed := fdNumber d # mbClosed m\<rparr> | PacketTun _ \<Rightarrow> m)"

definition session_id :: "nat \<Rightarrow> nat \<Rightarrow> gostring" where
  "session_id n now = lit ''sess-'' @ FormatUint n @ lit ''-'' @ FormatUint now"

definition parseJSONConfig :: "'f mobile_env \<Rightarrow> gostring \<Rightarrow> 'f ClientConfig res" where
  "parseJSONConfig E s = (case meJSON E s of None \<Rightarrow> Inl (Errorf ''parse json config'') | Some cfg \<Rightarrow> Inr cfg)"

definition applyMTU :: "int \<Rightarrow> 'f ClientConfig \<Rightarrow> 'f ClientConfig" where
  "applyMTU mtu cfg =
     (if mtu > 0 then cfg\<lparr>ccMTU := mtu, ccBucketMTU := (if ccBucketMTU cfg > mtu - 60 then mtu - 60 else ccBucketMTU cfg)\<rparr> else cfg)"

text \<open>The callbacks observe a session; none of the options of this package changes what it does.\<close>

definition startTunnelSession :: "'f mobile_env \<Rightarrow> 'f ClientConfig \<Rightarrow> tun_device \<Rightarrow> 'f mobile \<Rightarrow> gostring res \<times> 'f mobile" where
  "startTunnelSession E cfg dev m =
     (case NewSession (meLib E) (meDur E) (mePrims E) (meRandom E) (Some cfg) [] of
        Inl e \<Rightarrow> (Inl (Errorf ''init session''), dev_Close dev m)
      | Inr session \<Rightarrow>
          let n = mbNext m + 1; ident = session_id n (meNow E);
              holder = \<lparr>hoSession = session, hoEngine = fresh_engine (csAutoReconnect session), hoDev = dev\<rparr>
          in (Inr ident, m\<lparr>mbNext := n, mbSessions := (mbSessions m)(ident \<mapsto> holder)\<rparr>))"

definition start_fd :: "'f mobile_env \<Rightarrow> 'f ClientConfig \<Rightarrow> int \<Rightarrow> int \<Rightarrow> 'f mobile \<Rightarrow> gostring res \<times> 'f mobile" where
  "start_fd E cfg tunFd mtu m =
     (case OpenFD Itoa tunFd (lit ''mobile-tun'') mtu of
        Inl e \<Rightarrow> (Inl (Errorf ''open tun fd''), closeTunFd tunFd m)
      | Inr d \<Rightarrow> startTunnelSession E cfg (FdTun d) m)"

definition StartTunnelWithFd :: "'f mobile_env \<Rightarrow> gostring \<Rightarrow> int \<Rightarrow> int \<Rightarrow> 'f mobile \<Rightarrow> gostring res \<times> 'f mobile" where
  "StartTunnelWithFd E configURI tunFd mtu m =
     (case DecodeKey (meLib E) configURI of
        Inl e \<Rightarrow> (Inl (Errorf ''decode URI''), closeTunFd tunFd m)
      | Inr cfg \<Rightarrow> start_fd E cfg tunFd mtu m)"

definition StartTunnelWithConfig :: "'f mobile_env \<Rightarrow> gostring \<Rightarrow> int \<Rightarrow> int \<Rightarrow> 'f mobile \<Rightarrow> gostring res \<times> 'f mobile" where
  "StartTunnelWithConfig E configJSON tunFd mtu m =
     (case parseJSONConfig E configJSON of
        Inl e \<Rightarrow> (Inl e, closeTunFd tunFd m)
      | Inr cfg \<Rightarrow> start_fd E (applyMTU mtu cfg) tunFd mtu m)"

definition startPacketSession :: "'f mobile_env \<Rightarrow> 'f ClientConfig \<Rightarrow> int \<Rightarrow> 'f mobile \<Rightarrow> gostring res \<times> 'f mobile" where
  "startPacketSession E cfg mtu m =
     startTunnelSession E (applyMTU mtu cfg) (PacketTun (NewPacketDevice (lit ''ios-packet-tun'') mtu 512)) m"

definition StartPacketTunnel :: "'f mobile_env \<Rightarrow> gostring \<Rightarrow> int \<Rightarrow> 'f mobile \<Rightarrow> gostring res \<times> 'f mobile" where
  "StartPacketTunnel E configURI mtu m =
     (case DecodeKey (meLib E) configURI of
        Inl e \<Rightarrow> (Inl (Errorf ''decode URI''), m)
      | Inr cfg \<Rightarrow> startPacketSession E cfg mtu m)"

definition StartPacketTunnelWithConfig :: "'f mobile_env \<Rightarrow> gostring \<Rightarrow> int \<Rightarrow> 'f mobile \<Rightarrow> gostring res \<times> 'f mobile" where
  "StartPacketTunnelWithConfig E configJSON mtu m =
     (case parseJSONConfig E configJSON of
        Inl e \<Rightarrow> (Inl e, m)
      | Inr cfg \<Rightarrow> startPacketSession E cfg mtu m)"

text \<open>The holder that \<^verbatim>\<open>StopTunnel\<close> took from the table, with its engine stopped, is the result.\<close>

definition StopTunnel :: "gostring \<Rightarrow> 'f mobile \<Rightarrow> 'f activeSessionHolder res \<times> 'f mobile" where
  "StopTunnel ident m =
     (case mbSessions m ident of
        None \<Rightarrow> (Inl (Errorf ''session not found''), m)
      | Some h \<Rightarrow>
          (Inr (h\<lparr>hoEngine := Stop_session (hoEngine h)\<rparr>), dev_Close (hoDev h) (m\<lparr>mbSessions := (mbSessions m)(ident := None)\<rparr>)))"

definition mobile_NetworkChanged :: "gostring \<Rightarrow> 'f mobile \<Rightarrow> unit res \<times> 'f mobile" where
  "mobile_NetworkChanged ident m =
     (case mbSessions m ident of
        None \<Rightarrow> (Inl (Errorf ''session not found''), m)
      | Some h \<Rightarrow> (Inr (), m\<lparr>mbSessions := (mbSessions m)(ident \<mapsto> h\<lparr>hoEngine := NetworkChanged (hoEngine h)\<rparr>)\<rparr>))"

text \<open>The packet device of a session; other sessions have none. A receive polls once, then waits for the time that it was given.\<close>

definition packet_device :: "gostring \<Rightarrow> 'f mobile \<Rightarrow> PacketDevice res" where
  "packet_device ident m =
     (case mbSessions m ident of
        Some h \<Rightarrow> (case hoDev h of PacketTun d \<Rightarrow> Inr d | FdTun _ \<Rightarrow> Inl (Errorf ''packet tunnel session not found''))
      | None \<Rightarrow> Inl (Errorf ''packet tunnel session not found''))"

definition mobile_ReceivePacket :: "(PacketDevice \<Rightarrow> (bytes res \<times> PacketDevice) option) \<Rightarrow> bool \<Rightarrow> int \<Rightarrow> PacketDevice \<Rightarrow> (bytes option res \<times> PacketDevice) option" where
  "mobile_ReceivePacket wait closed_first timeoutMs d =
     (if timeoutMs \<le> 0 then Some (TryReceivePacket closed_first d)
      else case TryReceivePacket closed_first d of
             (Inr None, d) \<Rightarrow>
               map_option (\<lambda>(r, d). (case r of
                   Inl e \<Rightarrow> if e = Errorf ''context deadline exceeded'' then Inr None else Inl e
                 | Inr p \<Rightarrow> Inr (Some p), d)) (wait d)
           | r \<Rightarrow> Some r)"

text \<open>
  One local proxy, with whether it listens; \<open>listens\<close> is whether the address can be bound. After a failure the variable of the
  code still holds the old proxy, which is closed.
\<close>

definition StartLocalProxy :: "bool \<Rightarrow> gostring \<Rightarrow> 'f mobile \<Rightarrow> unit res \<times> 'f mobile" where
  "StartLocalProxy listens addr m =
     (let m = m\<lparr>mbProxy := map_option (\<lambda>(a, _). (a, False)) (mbProxy m)\<rparr>
      in if listens then (Inr (), m\<lparr>mbProxy := Some (addr, True)\<rparr>) else (Inl (Errorf ''listen socks5''), m))"

definition StopLocalProxy :: "'f mobile \<Rightarrow> 'f mobile" where
  "StopLocalProxy m = m\<lparr>mbProxy := None\<rparr>"

section \<open>Who closes a descriptor\<close>

datatype 'f call =
  CallFd "'f mobile_env" gostring int int
| CallConfig "'f mobile_env" gostring int int
| CallPacket "'f mobile_env" gostring int
| CallPacketConfig "'f mobile_env" gostring int
| CallStop gostring
| CallChanged gostring

fun run_call :: "'f call \<Rightarrow> 'f mobile \<Rightarrow> 'f mobile" where
  "run_call (CallFd E uri fd mtu) m = snd (StartTunnelWithFd E uri fd mtu m)"
| "run_call (CallConfig E s fd mtu) m = snd (StartTunnelWithConfig E s fd mtu m)"
| "run_call (CallPacket E uri mtu) m = snd (StartPacketTunnel E uri mtu m)"
| "run_call (CallPacketConfig E s mtu) m = snd (StartPacketTunnelWithConfig E s mtu m)"
| "run_call (CallStop ident) m = snd (StopTunnel ident m)"
| "run_call (CallChanged ident) m = snd (mobile_NetworkChanged ident m)"

text \<open>The descriptor that a call hands over, and the sessions that have a descriptor.\<close>

fun handed :: "'f call \<Rightarrow> int option" where
  "handed (CallFd E uri fd mtu) = Some fd"
| "handed (CallConfig E s fd mtu) = Some fd"
| "handed _ = None"

definition has_fd :: "int \<Rightarrow> 'f activeSessionHolder \<Rightarrow> bool" where
  "has_fd fd h \<longleftrightarrow> (case hoDev h of FdTun d \<Rightarrow> fdNumber d = fd | PacketTun _ \<Rightarrow> False)"

definition live :: "int \<Rightarrow> 'f mobile \<Rightarrow> gostring set" where
  "live fd m = {ident. \<exists>h. mbSessions m ident = Some h \<and> has_fd fd h}"

definition owned :: "int \<Rightarrow> 'f mobile \<Rightarrow> nat" where
  "owned fd m = count_list (mbClosed m) fd + card (live fd m)"

definition table_ok :: "'f mobile \<Rightarrow> bool" where
  "table_ok m \<longleftrightarrow> finite (dom (mbSessions m)) \<and> (\<forall>ident \<in> dom (mbSessions m). \<exists>n t. n \<le> mbNext m \<and> ident = session_id n t)"

lemma FormatUint_digits: "c \<in> set (FormatUint n) \<Longrightarrow> 48 \<le> c \<and> c < 58"
proof (induction n rule: FormatUint.induct)
  case (1 n)
  then show ?case by (subst (asm) (2) FormatUint.simps) (auto split: if_splits)
qed

lemma session_id_number:
  assumes "session_id n t = session_id n' t'" shows "n = n'"
proof -
  have w: "takeWhile (\<lambda>c. c \<noteq> 45) (FormatUint k @ 45 # r) = FormatUint k" for k r
    using FormatUint_digits[of 45 k] by (subst takeWhile_append2) auto
  have "FormatUint n @ 45 # FormatUint t = FormatUint n' @ 45 # FormatUint t'"
    using assms by (simp add: session_id_def lit_def)
  then have "FormatUint n = FormatUint n'" using w by metis
  then show ?thesis using FormatUint_value by (metis option.inject)
qed

lemma live_finite: "table_ok m \<Longrightarrow> finite (live fd m)"
  by (rule finite_subset[of _ "dom (mbSessions m)"]) (auto simp: live_def table_ok_def)

text \<open>A session that is added has a new identifier, so it replaces none; one that is removed gives its device back.\<close>

lemma added_session:
  assumes "table_ok m"
  shows "table_ok (m\<lparr>mbNext := mbNext m + 1, mbSessions := (mbSessions m)(session_id (mbNext m + 1) t \<mapsto> h)\<rparr>)" (is "table_ok ?m")
    and "owned fd (m\<lparr>mbNext := mbNext m + 1, mbSessions := (mbSessions m)(session_id (mbNext m + 1) t \<mapsto> h)\<rparr>) = owned fd m + (if has_fd fd h then 1 else 0)"
proof -
  let ?i = "session_id (mbNext m + 1) t"
  have n: "?i \<notin> dom (mbSessions m)"
  proof
    assume "?i \<in> dom (mbSessions m)"
    then obtain n u where "n \<le> mbNext m" "?i = session_id n u" using assms unfolding table_ok_def by blast
    then show False using session_id_number by fastforce
  qed
  have "\<exists>n u. n \<le> mbNext m + 1 \<and> ident = session_id n u" if "ident \<in> dom (mbSessions m)" for ident
    using that assms unfolding table_ok_def by (meson le_SucI Suc_eq_plus1 le_trans le_add1)
  then show "table_ok ?m" using assms by (auto simp: table_ok_def)
  have "live fd ?m = (if has_fd fd h then insert ?i (live fd m) else live fd m)" "?i \<notin> live fd m" using n by (auto simp: live_def)
  then show "owned fd ?m = owned fd m + (if has_fd fd h then 1 else 0)" using live_finite[OF assms] by (simp add: owned_def)
qed

lemma removed_session:
  assumes "table_ok m" and "mbSessions m ident = Some h"
  shows "table_ok (dev_Close (hoDev h) (m\<lparr>mbSessions := (mbSessions m)(ident := None)\<rparr>))"
    and "owned fd (dev_Close (hoDev h) (m\<lparr>mbSessions := (mbSessions m)(ident := None)\<rparr>)) = owned fd m"
proof -
  let ?m = "m\<lparr>mbSessions := (mbSessions m)(ident := None)\<rparr>"
  show "table_ok (dev_Close (hoDev h) ?m)" using assms by (auto simp: table_ok_def dev_Close_def split: tun_device.splits)
  have l: "live fd (dev_Close (hoDev h) ?m) = live fd m - {ident}" by (auto simp: live_def dev_Close_def split: tun_device.splits)
  have i: "ident \<in> live fd m \<longleftrightarrow> has_fd fd h" using assms(2) by (simp add: live_def)
  have c: "count_list (mbClosed (dev_Close (hoDev h) ?m)) fd = count_list (mbClosed m) fd + (if has_fd fd h then 1 else 0)"
    by (simp add: dev_Close_def has_fd_def split: tun_device.splits)
  have "has_fd fd h \<Longrightarrow> 0 < card (live fd m)" using i live_finite[OF assms(1), of fd] by (auto simp: card_gt_0_iff)
  then show "owned fd (dev_Close (hoDev h) ?m) = owned fd m" using i live_finite[OF assms(1), of fd] by (simp add: owned_def l c card_Diff_singleton_if)
qed

lemma dev_Close_counts:
  "table_ok m \<Longrightarrow> table_ok (dev_Close (FdTun d) m)" "owned fd (dev_Close (FdTun d) m) = owned fd m + (if fdNumber d = fd then 1 else 0)"
  by (simp_all add: dev_Close_def table_ok_def owned_def live_def)

lemma startTunnelSession_counts:
  assumes "table_ok m"
  shows "table_ok (snd (startTunnelSession E cfg dev m))"
    and "owned fd (snd (startTunnelSession E cfg dev m)) = owned fd m + (case dev of FdTun d \<Rightarrow> if fdNumber d = fd then 1 else 0 | PacketTun _ \<Rightarrow> 0)"
proof -
  let ?r = "snd (startTunnelSession E cfg dev m)" and ?k = "case dev of FdTun d \<Rightarrow> if fdNumber d = fd then 1 else 0 | PacketTun _ \<Rightarrow> 0"
  have "table_ok ?r \<and> owned fd ?r = owned fd m + ?k"
  proof (cases "NewSession (meLib E) (meDur E) (mePrims E) (meRandom E) (Some cfg) []")
    case (Inl e)
    then have "?r = dev_Close dev m" by (simp add: startTunnelSession_def)
    then show ?thesis using assms dev_Close_counts(1)[OF assms] dev_Close_counts(2)[of fd _ m]
      by (cases dev) (simp_all add: dev_Close_def[of "PacketTun _"])
  next
    case (Inr session)
    then obtain h where "?r = m\<lparr>mbNext := mbNext m + 1, mbSessions := (mbSessions m)(session_id (mbNext m + 1) (meNow E) \<mapsto> h)\<rparr>" "hoDev h = dev"
      by (simp add: startTunnelSession_def Let_def)
    then show ?thesis using added_session[OF assms] by (cases dev) (simp_all add: has_fd_def)
  qed
  then show "table_ok ?r" "owned fd ?r = owned fd m + ?k" by blast+
qed

lemma closeTunFd_counts:
  "table_ok m \<Longrightarrow> table_ok (closeTunFd fd' m)" "owned fd (closeTunFd fd' m) = owned fd m + (if fd' = fd \<and> 0 \<le> fd then 1 else 0)"
  by (auto simp: closeTunFd_def table_ok_def owned_def live_def)

lemma start_fd_counts:
  assumes "table_ok m"
  shows "table_ok (snd (start_fd E cfg fd' mtu m))"
    and "owned fd (snd (start_fd E cfg fd' mtu m)) = owned fd m + (if fd' = fd \<and> 0 \<le> fd then 1 else 0)"
proof -
  show "table_ok (snd (start_fd E cfg fd' mtu m))"
    using startTunnelSession_counts(1)[OF assms] closeTunFd_counts(1)[OF assms] by (simp add: start_fd_def OpenFD_def)
  show "owned fd (snd (start_fd E cfg fd' mtu m)) = owned fd m + (if fd' = fd \<and> 0 \<le> fd then 1 else 0)"
    by (simp add: start_fd_def OpenFD_def startTunnelSession_counts(2)[OF assms] closeTunFd_counts(2))
qed

lemma run_call_counts:
  assumes "table_ok m"
  shows "table_ok (run_call c m)" and "owned fd (run_call c m) = owned fd m + (if handed c = Some fd \<and> 0 \<le> fd then 1 else 0)"
proof -
  have ch: "table_ok (snd (mobile_NetworkChanged ident m))" "owned fd (snd (mobile_NetworkChanged ident m)) = owned fd m" for ident
  proof -
    have "mbSessions m ident = Some h \<Longrightarrow> live fd (m\<lparr>mbSessions := (mbSessions m)(ident \<mapsto> h\<lparr>hoEngine := x\<rparr>)\<rparr>) = live fd m" for h x
      by (auto simp: live_def has_fd_def)
    moreover have "mbSessions m ident = Some h \<Longrightarrow> insert ident (dom (mbSessions m)) = dom (mbSessions m)" for h by auto
    ultimately show "table_ok (snd (mobile_NetworkChanged ident m))" "owned fd (snd (mobile_NetworkChanged ident m)) = owned fd m"
      using assms by (simp_all add: mobile_NetworkChanged_def table_ok_def owned_def del: insert_dom split: option.split)
  qed
  have f: "table_ok (snd (StartTunnelWithFd E u fd' mtu m))" "owned fd (snd (StartTunnelWithFd E u fd' mtu m)) = owned fd m + (if fd' = fd \<and> 0 \<le> fd then 1 else 0)"
      "table_ok (snd (StartTunnelWithConfig E u fd' mtu m))" "owned fd (snd (StartTunnelWithConfig E u fd' mtu m)) = owned fd m + (if fd' = fd \<and> 0 \<le> fd then 1 else 0)" for E u fd' mtu
    unfolding StartTunnelWithFd_def StartTunnelWithConfig_def
    by (simp_all add: start_fd_counts[OF assms] closeTunFd_counts assms split: sum.split)
  have p: "table_ok (snd (StartPacketTunnel E u mtu m))" "owned fd (snd (StartPacketTunnel E u mtu m)) = owned fd m"
      "table_ok (snd (StartPacketTunnelWithConfig E u mtu m))" "owned fd (snd (StartPacketTunnelWithConfig E u mtu m)) = owned fd m" for E u mtu
    unfolding StartPacketTunnel_def StartPacketTunnelWithConfig_def startPacketSession_def
    by (simp_all add: startTunnelSession_counts[OF assms] assms split: sum.split)
  have t: "table_ok (snd (StopTunnel ident m))" "owned fd (snd (StopTunnel ident m)) = owned fd m" for ident
    unfolding StopTunnel_def by (simp_all add: removed_session[OF assms] assms split: option.split)
  show "table_ok (run_call c m)" "owned fd (run_call c m) = owned fd m + (if handed c = Some fd \<and> 0 \<le> fd then 1 else 0)"
    by (cases c; simp add: f p t ch)+
qed

lemma run_calls_counts:
  "table_ok m \<Longrightarrow> owned fd (fold run_call cs m) = owned fd m + (if 0 \<le> fd then count_list (map handed cs) (Some fd) else 0)"
  by (induction cs arbitrary: m) (auto simp: run_call_counts)

text \<open>
  Property C40. Over any sequence of calls to the library each descriptor that was handed over has one owner: as often as a valid
  descriptor was handed over, it has been closed or is with a session that runs, so it is closed exactly once on every
  error, not while its session is there, and once when that is stopped; a negative one is never closed.
\<close>

theorem descriptor_closed_exactly_once:
  fixes cs :: "'f call list"
  shows "count_list (mbClosed (fold run_call cs new_mobile)) fd + card (live fd (fold run_call cs new_mobile)) =
     (if 0 \<le> fd then count_list (map handed cs) (Some fd) else 0)"
proof -
  have "table_ok (new_mobile :: 'f mobile)" "owned fd (new_mobile :: 'f mobile) = 0"
    by (simp_all add: table_ok_def owned_def live_def new_mobile_def)
  then show ?thesis using run_calls_counts[of new_mobile fd cs] by (simp add: owned_def)
qed

end
