(* ===== verification/Socks_Proxy.thy ===== *)
theory Socks_Proxy
  imports Go_Strings
begin

text \<open>
  The local SOCKS5 proxy, \<^verbatim>\<open>obsidian/client/proxy.go\<close>: one connection of a program on the device, from the greeting to the
  point where the two streams are copied. The bytes of the program are the input; a connection that ends early is
  a short input. Whether the target answers is an argument.
\<close>

datatype socks_host = HostIP bytes | HostName bytes

text \<open>What a connection did: the bytes sent back, the target dialled with its port, and the bytes left for the target.\<close>

record served =
  svReplies :: "bytes list"
  svTarget :: "(socks_host \<times> u16) option"
  svForward :: "bytes option"

definition ended :: "bytes list \<Rightarrow> served" where
  "ended rs = \<lparr>svReplies = rs, svTarget = None, svForward = None\<rparr>"

text \<open>\<^verbatim>\<open>io.ReadFull\<close> of \<open>n\<close> bytes.\<close>

definition read_full :: "nat \<Rightarrow> bytes \<Rightarrow> (bytes \<times> bytes) option" where
  "read_full n inp = (if length inp < n then None else Some (take n inp, drop n inp))"

definition no_auth :: bytes where "no_auth = [5, 0]"

definition socks_reply :: "byte \<Rightarrow> bytes" where
  "socks_reply code = [5, code, 0, 1, 0, 0, 0, 0, 0, 0]"

definition read_host :: "byte \<Rightarrow> bytes \<Rightarrow> (socks_host \<times> bytes) option" where
  "read_host atyp inp =
     (if atyp = 1 then map_option (\<lambda>(ip, r). (HostIP ip, r)) (read_full 4 inp)
      else if atyp = 3 then
        (case read_full 1 inp of
           None \<Rightarrow> None
         | Some (l, r) \<Rightarrow> map_option (\<lambda>(d, r). (HostName d, r)) (read_full (unat (l ! 0)) r))
      else map_option (\<lambda>(ip, r). (HostIP ip, r)) (read_full 16 inp))"

definition dial_target :: "(socks_host \<Rightarrow> u16 \<Rightarrow> bool) \<Rightarrow> socks_host \<Rightarrow> bytes \<Rightarrow> served" where
  "dial_target reachable host inp =
     (case read_full 2 inp of
        None \<Rightarrow> ended [no_auth]
      | Some (p, rest) \<Rightarrow>
          if reachable host (rd16 p) then \<lparr>svReplies = [no_auth, socks_reply 0], svTarget = Some (host, rd16 p), svForward = Some rest\<rparr>
          else \<lparr>svReplies = [no_auth, socks_reply 4], svTarget = Some (host, rd16 p), svForward = None\<rparr>)"

definition socks_request :: "(socks_host \<Rightarrow> u16 \<Rightarrow> bool) \<Rightarrow> bytes \<Rightarrow> served" where
  "socks_request reachable inp =
     (case read_full 4 inp of
        None \<Rightarrow> ended [no_auth]
      | Some (req, r) \<Rightarrow>
          if req ! 0 \<noteq> 5 \<or> req ! 1 \<noteq> 1 then ended [no_auth, socks_reply 7]
          else if req ! 3 \<notin> {1, 3, 4} then ended [no_auth, socks_reply 8]
          else case read_host (req ! 3) r of
                 None \<Rightarrow> ended [no_auth]
               | Some (host, r) \<Rightarrow> dial_target reachable host r)"

definition handleConn :: "(socks_host \<Rightarrow> u16 \<Rightarrow> bool) \<Rightarrow> bytes \<Rightarrow> served" where
  "handleConn reachable inp =
     (case read_full 2 inp of
        None \<Rightarrow> ended []
      | Some (hdr, r) \<Rightarrow>
          if hdr ! 0 \<noteq> 5 then ended []
          else case read_full (unat (hdr ! 1)) r of
                 None \<Rightarrow> ended []
               | Some (_, r) \<Rightarrow> socks_request reachable r)"

section \<open>A request is served\<close>

fun host_ok :: "socks_host \<Rightarrow> bool" where
  "host_ok (HostIP ip) \<longleftrightarrow> length ip = 4 \<or> length ip = 16"
| "host_ok (HostName d) \<longleftrightarrow> length d < 256"

fun host_bytes :: "socks_host \<Rightarrow> bytes" where
  "host_bytes (HostIP ip) = (if length ip = 4 then 1 else 4) # ip"
| "host_bytes (HostName d) = 3 # of_nat (length d) # d"

definition connect_request :: "bytes \<Rightarrow> byte \<Rightarrow> socks_host \<Rightarrow> u16 \<Rightarrow> bytes" where
  "connect_request methods rsv host port =
     5 # of_nat (length methods) # methods @ [5, 1, rsv] @ host_bytes host @ be16 port"

lemma read_full_append: "length xs = n \<Longrightarrow> read_full n (xs @ ys) = Some (xs, ys)"
  by (simp add: read_full_def)

lemma read_host_bytes:
  "host_ok h \<Longrightarrow> host_bytes h = a # b \<Longrightarrow> a \<in> {1, 3, 4} \<and> read_host a (b @ r) = Some (h, r)"
  using read_full_append[of "[of_nat (length (case h of HostName d \<Rightarrow> d | _ \<Rightarrow> []))]" 1]
  by (cases h) (auto simp: read_host_def read_full_append read_full_def unat_of_nat split: if_splits)

text \<open>
  A program that asks for a connection gets exactly that: the target of its request is dialled, and every byte after the
  request goes to it, unchanged, whatever methods it offered.
\<close>

lemma socks_request_served:
  assumes "length methods < 256" and "host_ok host"
  shows "handleConn reachable (connect_request methods rsv host port @ payload) =
    (if reachable host port then \<lparr>svReplies = [no_auth, socks_reply 0], svTarget = Some (host, port), svForward = Some payload\<rparr>
     else \<lparr>svReplies = [no_auth, socks_reply 4], svTarget = Some (host, port), svForward = None\<rparr>)"
proof -
  obtain a b where h: "host_bytes host = a # b" by (cases host) auto
  note r = read_host_bytes[OF assms(2) h]
  have g: "read_full 2 (5 # of_nat (length methods) # x) = Some ([5, of_nat (length methods)], x)" for x by (simp add: read_full_def)
  have q: "read_full 4 (5 # 1 # rsv # a # x) = Some ([5, 1, rsv, a], x)" for x by (simp add: read_full_def)
  have u: "unat (of_nat (length methods) :: byte) = length methods" using assms(1) by (simp add: unat_of_nat)
  have p: "read_full 2 (be16 port @ payload) = Some (be16 port, payload)" by (simp add: read_full_append be16.width_enc)
  show ?thesis
    using r by (simp add: handleConn_def connect_request_def h g u read_full_append socks_request_def q dial_target_def p be16.dec_enc del: insert_iff)
qed

text \<open>Nothing is dialled for an input that is no request to connect.\<close>

lemma dialled_only_on_request:
  assumes "svTarget (handleConn reachable inp) = Some t"
  shows "\<exists>hdr ms req r. length hdr = 2 \<and> hdr ! 0 = 5 \<and> length ms = unat (hdr ! 1) \<and> length req = 4 \<and> req ! 0 = 5 \<and> req ! 1 = 1 \<and>
    inp = hdr @ ms @ req @ r"
proof -
  have f: "read_full n x = Some (y, z) \<Longrightarrow> x = y @ z \<and> length y = n" for n x y z by (auto simp: read_full_def split: if_splits)
  obtain hdr r where 1: "read_full 2 inp = Some (hdr, r)" "hdr ! 0 = 5" using assms
    by (auto simp: handleConn_def ended_def split: option.splits if_splits)
  then obtain ms r' where 2: "read_full (unat (hdr ! 1)) r = Some (ms, r')" "svTarget (socks_request reachable r') = Some t" using assms
    by (auto simp: handleConn_def ended_def split: option.splits)
  then obtain req r'' where 3: "read_full 4 r' = Some (req, r'')" "req ! 0 = 5" "req ! 1 = 1"
    by (auto simp: socks_request_def ended_def split: option.splits if_splits)
  show ?thesis using f[OF 1(1)] f[OF 2(1)] f[OF 3(1)] 1(2) 3(2,3) by blast
qed

end
