(* ===== verification/Spec2Isabelle.thy ===== *)
theory Spec2Isabelle
  imports Vpn_Session Server_Device Mobile_Api Socks_Proxy
begin

text \<open>
  \<^bold>\<open>ObsidianVPN.\<close> A virtual private network that hides in ordinary TLS traffic. A client opens a stream to the
  server, either as plain frames behind decoy traffic or as a TLS connection that a demultiplexer tells from
  those of real visitors (REALITY). Over the stream both run a handshake with X25519 and ML-KEM, and then carry
  IP packets as encrypted frames; a channel of UDP datagrams may take over the data. The server puts the packets on one
  TUN device shared by all clients, the client routes chosen traffic into its own. This development models these
  parts from the Go code under \<^verbatim>\<open>src/\<close>, one theory for each, and proves what they promise to each other.

  \<^bold>\<open>Conventions.\<close> Bytes are \<^typ>\<open>8 word\<close> and machine integers keep their width; the unbounded \<^typ>\<open>int\<close> stands for Go's
  \<^verbatim>\<open>int\<close> where no value comes near its limits. Structs are records, methods are functions from the old to the new state,
  errors are values of \<open>go_error\<close> on the left of a sum, and a run-time panic is the error \<open>Panic\<close> or \<^const>\<open>None\<close>.
  Clocks, random draws, answers of the operating system and the cryptographic primitives are arguments. What the code
  relies on from the primitives are the predicates \<open>aead_ok\<close>, \<open>sha_ok\<close>, \<open>dh_ok\<close>, \<open>kem_ok\<close> and \<open>aes_ok\<close> of \<open>Crypto_Core\<close> and
  \<open>Udp_Datagram\<close>; each is met by a concrete library that the witnesses use. Goroutines that share state are step relations
  whose interleavings are all considered.

  \<^bold>\<open>Foundations.\<close>
  \<^item> \<open>Obsidian_Prelude\<close>: Go slices with their bounds, results, the codecs of \<^verbatim>\<open>encoding/binary\<close> as interpretations of one locale. The
    other interfaces are locales where they are provided: the expiring cache (\<open>Replay_Cache\<close>), the token bucket (\<open>Rate_Limits\<close>), the
    table of routes (\<open>Udp_Mux\<close>).
  \<^item> \<open>Go_Strings\<close>: strings as lists of code points, and what the program uses of \<^verbatim>\<open>strings\<close> and \<^verbatim>\<open>hex\<close>.

  \<^bold>\<open>Protocol\<close> (\<^verbatim>\<open>obsidian/\<close>).
  \<^item> \<open>Crypto_Core\<close> (\<^verbatim>\<open>crypto.go\<close>): key schedule, ciphers with counters, cookies. Nonces never repeat; a cookie is valid exactly if issued.
  \<^item> \<open>Header_Ranges\<close>, \<open>Packet_Codec\<close>, \<open>Stream_Framer\<close> (\<^verbatim>\<open>protocol.go\<close>): packet types as number ranges, encoding with padding and header
    protection, frames on a stream. Round trips, rejection of anything else, and the equivalence of the buffered routines.
  \<^item> \<open>Cps_Signature\<close> (\<^verbatim>\<open>cps.go\<close>), \<open>Handshake_Frames\<close> (\<^verbatim>\<open>profiles.go\<close> and the decoys of \<^verbatim>\<open>handshake.go\<close>): signature strings, and that a hello
    is found behind the decoys within the scanned window.
  \<^item> \<open>Hybrid_Handshake\<close> (\<^verbatim>\<open>handshake.go\<close>): both ends derive the same keys, and accept only peers that proved their static keys.
  \<^item> \<open>Bucket_Padding\<close>, \<open>Stream_Tunnel\<close>, \<open>Tunnel_Delivery\<close> (\<^verbatim>\<open>obfuscation.go\<close>): the tunnel object, and that data arrives in order, whole and once. Under
    every interleaving of receive loop, senders, consumers and \<^verbatim>\<open>Close\<close> packets leave the channel in order; only \<^verbatim>\<open>Close\<close> throws packets away.
  \<^item> \<open>Udp_Datagram\<close>, \<open>Replay_Window\<close>, \<open>Udp_Mux\<close> (\<^verbatim>\<open>udp.go\<close>): datagrams disguised as STUN and RTP, the window of 4096 numbers as a refinement
    of a set, the multiplexer of sessions and the change of epochs. A datagram is delivered at most once
    if the scratch buffer of the sender takes its padded plaintext, and a closed session has no route.
  \<^item> \<open>Reality_Hello\<close>, \<open>Reality_Demux\<close> (\<^verbatim>\<open>reality.go\<close>): the TLS hello parser and the demultiplexer, with the answer it
    fetches from the real web server. Exactly authenticated, fresh hellos pass.
  \<^item> \<open>Rate_Limits\<close> (\<^verbatim>\<open>ip_rate_limiter.go\<close>, limiters of \<^verbatim>\<open>main.go\<close>), \<open>Ipv6_Reject\<close> with \<open>Ip_Checksum\<close> (\<^verbatim>\<open>ipv6_reject.go\<close>): bounds for every address;
    rejects with valid checksums.
  \<^item> \<open>Client_Uri\<close> (\<^verbatim>\<open>uri.go\<close>), \<open>Client_Transport\<close> (\<^verbatim>\<open>transport.go\<close>): links that carry a configuration and give it back, apart from
    labels with plus and percent signs, and the ways to reach the server.

  \<^bold>\<open>Server\<close> (\<^verbatim>\<open>cmd/server/\<close>).
  \<^item> \<open>Replay_Cache\<close>, \<open>Revocation_Store\<close>, \<open>Session_Config\<close>, \<open>Server_Session\<close>, \<open>Server_Relay\<close> (\<^verbatim>\<open>main.go\<close>, \<^verbatim>\<open>revocation.go\<close>): from the configuration file to a running
    server, a connection from its first byte to the relay. No hello is admitted twice, a revoked client is turned away.
  \<^item> \<open>Tun_Router\<close>, \<open>Tcp_Mss\<close>, \<open>Packet_Split\<close> (\<^verbatim>\<open>tun_router.go\<close>, \<^verbatim>\<open>mss.go\<close>): packets go to their owner, bulk traffic is not starved, large packets
    are cut so that they reassemble.
  \<^item> \<open>Server_Device\<close> (\<^verbatim>\<open>tun_linux.go\<close>, \<^verbatim>\<open>egress.go\<close>): the interface and the firewall. A restart leaves the rules as they are.

  \<^bold>\<open>Client\<close> (\<^verbatim>\<open>obsidian/client/\<close>, \<^verbatim>\<open>obsidian/tun/\<close>, \<^verbatim>\<open>cmd/client/\<close>, \<^verbatim>\<open>pkg/mobile/\<close>).
  \<^item> \<open>Client_Relay\<close>, \<open>Client_Session\<close> (\<^verbatim>\<open>engine.go\<close>): the loops of the data path, the health of UDP, reconnection, and how a session
    ends after \<^verbatim>\<open>Stop\<close>, in steps of its own or of the network.
  \<^item> \<open>Route_Plan\<close>, \<open>Route_Manager\<close>, \<open>Net_Setup\<close> (\<^verbatim>\<open>plan.go\<close>, \<^verbatim>\<open>routemgr.go\<close>, \<^verbatim>\<open>netparse.go\<close>, \<^verbatim>\<open>netsetup_unix.go\<close>, \<^verbatim>\<open>dns_linux.go\<close>, \<^verbatim>\<open>dns_darwin.go\<close>): which traffic
    takes the tunnel, who owns a route, and that closing restores routes and DNS, with what earlier runs that died leave behind.
  \<^item> \<open>Split_Tunnel\<close> (\<^verbatim>\<open>split_tunnel.go\<close>): rules for names, and a DNS reader that returns on every input.
  \<^item> \<open>Packet_Device\<close> (\<^verbatim>\<open>tun_packet.go\<close>, \<^verbatim>\<open>tun_fd.go\<close>, framing of \<^verbatim>\<open>tun_darwin.go\<close>), \<open>Mobile_Api\<close> (\<^verbatim>\<open>mobile.go\<close>), \<open>Socks_Proxy\<close> (\<^verbatim>\<open>proxy.go\<close>): a device with
    pooled buffers in an explicit store, the ownership of descriptors, the local proxy.

  \<^bold>\<open>Both ends.\<close> \<open>Vpn_Session\<close> composes the parts: from two configuration files, through dialling, demultiplexer and handshake, to
  equal keys, whichever answer to the TLS hello the client was sent. \<open>packets_cross_vpn\<close> of \<open>Client_Relay\<close> continues it: what the client reads from its TUN device is offered to that of the server.

  \<^bold>\<open>Bounds and fuel.\<close> No definition has fuel. Loops over input are structural or have a measure: the DNS reader the lexicographic order of
  the pointers left, ten as in the code, and the bytes left; parsers the bytes left. The clearing loop of the replay window, whose machine
  counter can wrap, is a partial function; \<open>replay_check_hangs_at_max\<close> shows the one number for which it does not return. Streams are
  finite lists of what has arrived, and lists of outcomes stand for the answers a loop gets in one run.

  \<^bold>\<open>Not modelled.\<close>
  \<^item> \<^verbatim>\<open>cmd/client/tun_windows.go\<close>, \<^verbatim>\<open>route_windows.go\<close>, \<^verbatim>\<open>obsidian/tun/tun_windows.go\<close> and the system calls in \<^verbatim>\<open>tun_linux.go\<close> and \<^verbatim>\<open>tun_darwin.go\<close> that
    create a device: they consist of calls to Windows and kernel interfaces, whose effect is not in the sources.
  \<^item> \<^verbatim>\<open>cmd/client/main.go\<close>, \<^verbatim>\<open>cmd/probe\<close>, \<^verbatim>\<open>bindings/c\<close>: flags, output and conversions of C values around the engine above.
  \<^item> The DNS proxy of the server, \<^verbatim>\<open>dns_proxy.go\<close>: it copies queries and answers between sockets. TLS inside \<^verbatim>\<open>transport.go\<close> is the library's.
  \<^item> The token bucket of \<^verbatim>\<open>RejectLimiter\<close>, over floating-point numbers: its answer is an argument. Log lines, statistics and
    callbacks, which no result depends on, and the reuse of buffers outside \<open>Packet_Device\<close>
    and the scratch buffers of \<open>Udp_Datagram\<close>, whose sizes decide whether a send panics.
\<close>

end
